(* ===== verification/Prelude.thy ===== *)
theory Prelude
  imports Main "HOL-Library.Word" "HOL-Library.Sublist"
begin

text \<open>
  Shared vocabulary of the development: the machine integers of Go as words, the results
  of fallible Go code (a value, an error value or a run-time panic), sequencing of fallible
  and of stateful code, slices, and byte-order encodings of words with their round trips.
\<close>

unbundle bit_operations_syntax

section \<open>Types\<close>

type_synonym u8 = "8 word"
type_synonym u16 = "16 word"
type_synonym u32 = "32 word"
type_synonym u64 = "64 word"
type_synonym bytes = "u8 list"

text \<open>
  Go error values. The sentinels the code compares against keep their identity; an error
  made by \<open>fmt.Errorf\<close> or \<open>errors.New\<close> is named by its literal text, without arguments.
\<close>

datatype err = EOF | UnexpectedEOF | ShortWrite | NoProgress | ConnErr nat | Errorf string

text \<open>What a Go call does: return a value, return an error, or panic.\<close>

datatype 'a res = Ok 'a | Err err | Panic

named_theorems go_simps \<open>unfolding rules for sequencing of Go code\<close>
named_theorems byte_simps \<open>rules on byte strings and byte-order encodings\<close>

section \<open>Sequencing\<close>

definition res_bind :: "'a res \<Rightarrow> ('a \<Rightarrow> 'b res) \<Rightarrow> 'b res" where
  "res_bind m f = (case m of Ok a \<Rightarrow> f a | Err e \<Rightarrow> Err e | Panic \<Rightarrow> Panic)"

lemma res_bind_simps [simp, go_simps]:
  "res_bind (Ok a) f = f a"
  "res_bind (Err e) f = Err e"
  "res_bind Panic f = Panic"
  by (simp_all add: res_bind_def)

lemma res_bind_eq_Ok:
  "res_bind m f = Ok b \<longleftrightarrow> (\<exists>a. m = Ok a \<and> f a = Ok b)"
  by (cases m) simp_all

lemma res_bind_eq_Panic:
  "res_bind m f = Panic \<longleftrightarrow> m = Panic \<or> (\<exists>a. m = Ok a \<and> f a = Panic)"
  by (cases m) simp_all

lemma res_bind_assoc: "res_bind (res_bind m f) g = res_bind m (\<lambda>a. res_bind (f a) g)"
  by (cases m) simp_all

lemma res_bind_cong [fundef_cong]:
  "m = m' \<Longrightarrow> (\<And>a. m' = Ok a \<Longrightarrow> f a = f' a) \<Longrightarrow> res_bind m f = res_bind m' f'"
  by (cases m') simp_all

text \<open>
  Stateful code returns its result beside the state it leaves, also when it fails: the state
  changes made before an early return stay.
\<close>

type_synonym ('s, 'a) prog = "'s \<Rightarrow> 'a res \<times> 's"

definition pbind :: "('s, 'a) prog \<Rightarrow> ('a \<Rightarrow> ('s, 'b) prog) \<Rightarrow> ('s, 'b) prog" where
  "pbind m f = (\<lambda>s. case m s of
      (Ok a, s') \<Rightarrow> f a s'
    | (Err e, s') \<Rightarrow> (Err e, s')
    | (Panic, s') \<Rightarrow> (Panic, s'))"

definition pseq :: "('s, 'a) prog \<Rightarrow> ('s, 'b) prog \<Rightarrow> ('s, 'b) prog" where
  "pseq m k = pbind m (\<lambda>_. k)"

definition preturn :: "'a \<Rightarrow> ('s, 'a) prog" where
  "preturn a = (\<lambda>s. (Ok a, s))"

lemma pbind_apply [go_simps]:
  "m s = (Ok a, s') \<Longrightarrow> pbind m f s = f a s'"
  "m s = (Err e, s') \<Longrightarrow> pbind m f s = (Err e, s')"
  "m s = (Panic, s') \<Longrightarrow> pbind m f s = (Panic, s')"
  by (simp_all add: pbind_def)

lemma pseq_apply [go_simps]:
  "m s = (Ok a, s') \<Longrightarrow> pseq m k s = k s'"
  "m s = (Err e, s') \<Longrightarrow> pseq m k s = (Err e, s')"
  "m s = (Panic, s') \<Longrightarrow> pseq m k s = (Panic, s')"
  by (simp_all add: pseq_def pbind_def)

lemma pbind_OkE:
  assumes "pbind m f s = (Ok b, t)"
  obtains a s' where "m s = (Ok a, s')" and "f a s' = (Ok b, t)"
  using assms by (auto simp: pbind_def split: prod.splits res.splits)

lemma pseq_OkE:
  assumes "pseq m k s = (Ok b, t)"
  obtains a s' where "m s = (Ok a, s')" and "k s' = (Ok b, t)"
  using assms by (auto simp: pseq_def elim: pbind_OkE)

lemma preturn_apply [simp, go_simps]: "preturn a s = (Ok a, s)"
  by (simp add: preturn_def)

lemma pbind_no_panic:
  assumes "fst (m s) \<noteq> Panic" and "\<And>a s'. m s = (Ok a, s') \<Longrightarrow> fst (f a s') \<noteq> Panic"
  shows "fst (pbind m f s) \<noteq> Panic"
  using assms by (auto simp: pbind_def split: prod.splits res.splits)

section \<open>Writers\<close>

text \<open>
  The \<open>io.Writer\<close> argument is a function that takes the bytes and returns its error, if any, and
  its next state. \<open>buf_write\<close> is the \<open>Write\<close> of a \<open>bytes.Buffer\<close>.
\<close>

type_synonym 'w writer = "bytes \<Rightarrow> 'w \<Rightarrow> unit res \<times> 'w"

definition buf_write :: "bytes writer" where
  "buf_write p w = (Ok (), w @ p)"

section \<open>Slices\<close>

text \<open>
  \<open>slice lo hi b\<close> is Go's \<open>b[lo:hi]\<close> on a slice whose capacity is its length (what
  \<open>make([]byte, n)\<close> gives); out of range it panics. \<open>put_at off src dst\<close> is
  \<open>copy(dst[off:], src)\<close>. \<open>index\<close> and \<open>set_index\<close> are the indexed read and assignment.
\<close>

definition slice :: "nat \<Rightarrow> nat \<Rightarrow> 'a list \<Rightarrow> 'a list res" where
  "slice lo hi b = (if lo \<le> hi \<and> hi \<le> length b then Ok (take (hi - lo) (drop lo b)) else Panic)"

definition put_at :: "nat \<Rightarrow> 'a list \<Rightarrow> 'a list \<Rightarrow> 'a list" where
  "put_at off src dst =
     take off dst @ take (length dst - off) src @ drop (off + length src) dst"

definition index :: "'a list \<Rightarrow> nat \<Rightarrow> 'a res" where
  "index b i = (if i < length b then Ok (b ! i) else Panic)"

lemma index_simps [simp, go_simps]:
  "i < length b \<Longrightarrow> index b i = Ok (b ! i)"
  "length b \<le> i \<Longrightarrow> index b i = Panic"
  by (simp_all add: index_def)

definition set_index :: "'a list \<Rightarrow> nat \<Rightarrow> 'a \<Rightarrow> 'a list res" where
  "set_index b i v = (if i < length b then Ok (b[i := v]) else Panic)"

lemma set_index_simps [simp, go_simps]:
  "i < length b \<Longrightarrow> set_index b i v = Ok (b[i := v])"
  "length b \<le> i \<Longrightarrow> set_index b i v = Panic"
  by (simp_all add: set_index_def)

lemma length_put_at [simp]: "off \<le> length dst \<Longrightarrow> length (put_at off src dst) = length dst"
  by (simp add: put_at_def)

lemma put_at_fit:
  "off + length src \<le> length dst \<Longrightarrow>
   put_at off src dst = take off dst @ src @ drop (off + length src) dst"
  by (simp add: put_at_def)

lemma put_at_zero_exact [simp]: "length src = length dst \<Longrightarrow> put_at 0 src dst = src"
  by (simp add: put_at_def)

lemma take_put_at_fit:
  "off + length src \<le> length dst \<Longrightarrow> n = off + length src \<Longrightarrow>
   take n (put_at off src dst) = take off dst @ src"
  by (simp add: put_at_fit)

lemma slice_ok [go_simps]:
  "lo \<le> hi \<Longrightarrow> hi \<le> length b \<Longrightarrow> slice lo hi b = Ok (take (hi - lo) (drop lo b))"
  by (simp add: slice_def)

section \<open>Byte-order encodings\<close>

text \<open>The \<open>n\<close> low bytes of a word, most significant first; and the word a byte string spells.\<close>

primrec be_bytes :: "nat \<Rightarrow> 'a::len word \<Rightarrow> bytes" where
  "be_bytes 0 v = []"
| "be_bytes (Suc n) v = be_bytes n (drop_bit 8 v) @ [ucast v]"

definition be_word :: "bytes \<Rightarrow> 'a::len word" where
  "be_word bs = foldl (\<lambda>acc b. push_bit 8 acc OR ucast b) 0 bs"

primrec le_bytes :: "nat \<Rightarrow> 'a::len word \<Rightarrow> bytes" where
  "le_bytes 0 v = []"
| "le_bytes (Suc n) v = ucast v # le_bytes n (drop_bit 8 v)"

primrec le_word :: "bytes \<Rightarrow> 'a::len word" where
  "le_word [] = 0"
| "le_word (b # bs) = ucast b OR push_bit 8 (le_word bs)"

lemma bit_u8_high: "8 \<le> n \<Longrightarrow> \<not> bit (x :: u8) n"
  by (auto dest: bit_imp_le_length)

lemma length_be_bytes [simp]: "length (be_bytes n v) = n"
  by (induction n arbitrary: v) simp_all

lemma length_le_bytes [simp]: "length (le_bytes n v) = n"
  by (induction n arbitrary: v) simp_all

lemma be_word_Nil [simp]: "be_word [] = 0"
  by (simp add: be_word_def)

lemma be_word_snoc: "be_word (bs @ [b]) = push_bit 8 (be_word bs) OR ucast b"
  by (simp add: be_word_def)

lemma take_bit_split_byte:
  "take_bit (8 + n) v = push_bit 8 (take_bit n (drop_bit 8 v)) OR ucast (ucast v :: u8)"
  for v :: "'a::len word"
  by (rule bit_word_eqI) (auto simp: bit_simps dest: bit_imp_le_length)

lemma be_word_be_bytes: "be_word (be_bytes n v) = take_bit (8 * n) v"
  by (induction n arbitrary: v)
    (simp_all add: be_word_snoc take_bit_split_byte [symmetric])

lemma be_bytes_Cons: "be_bytes (Suc n) v = ucast (drop_bit (8 * n) v) # be_bytes n v"
proof (induction n arbitrary: v)
  case (Suc n)
  have "be_bytes (Suc (Suc n)) v = be_bytes (Suc n) (drop_bit 8 v) @ [ucast v]"
    by simp
  also have "\<dots> = ucast (drop_bit (8 * Suc n) v) # be_bytes n (drop_bit 8 v) @ [ucast v]"
    unfolding Suc.IH by (simp add: add.commute)
  finally show ?case by simp
qed simp

lemma and_0xff [simp]: "x AND 255 = (x :: u8)"
proof -
  have "(255 :: u8) = - 1" by simp
  then show ?thesis by (simp only: and.right_neutral)
qed

lemma push_bit_add_ucast: "push_bit 8 x + ucast (b :: u8) = push_bit 8 x OR ucast b"
  for x :: "'a::len word"
  by (rule disjunctive_add_eq_or, rule bit_word_eqI)
    (auto simp: bit_simps dest: bit_imp_le_length)

lemma be_bytes_take_bit: "be_bytes n (take_bit (8 * n) v) = be_bytes n v"
proof (induction n arbitrary: v)
  case (Suc n)
  have "(ucast (take_bit (8 + 8 * n) v) :: u8) = ucast v"
    by (rule bit_word_eqI) (auto simp: bit_simps)
  then show ?case using Suc.IH [of "drop_bit 8 v"] by (simp add: drop_bit_take_bit)
qed simp

lemma le_word_le_bytes: "le_word (le_bytes n v) = take_bit (8 * n) v"
  by (induction n arbitrary: v)
    (simp_all add: take_bit_split_byte or.commute)

lemma le_bytes_rev: "le_bytes n v = rev (be_bytes n v)"
  by (induction n arbitrary: v) simp_all

lemma le_word_rev: "le_word bs = be_word (rev bs)"
  by (induction bs) (simp_all add: be_word_snoc or.commute)

lemma bit_be_word_bound: "bit (be_word bs :: 'a::len word) k \<Longrightarrow> k < 8 * length bs"
proof (induction bs arbitrary: k rule: rev_induct)
  case Nil
  then show ?case by simp
next
  case (snoc b bs)
  then show ?case
    by (auto simp: be_word_snoc bit_simps dest: bit_imp_le_length dest!: snoc.IH)
qed

lemma be_bytes_be_word:
  "8 * length bs \<le> LENGTH('a) \<Longrightarrow> be_bytes (length bs) (be_word bs :: 'a::len word) = bs"
proof (induction bs rule: rev_induct)
  case Nil
  then show ?case by simp
next
  case (snoc b bs)
  have low: "ucast (push_bit 8 (be_word bs :: 'a word) OR ucast b) = b"
    using snoc.prems by (intro bit_word_eqI) (auto simp: bit_simps)
  have high: "drop_bit 8 (push_bit 8 (be_word bs :: 'a word) OR ucast b) = be_word bs"
    using snoc.prems
    by (intro bit_word_eqI)
      (auto simp: bit_simps dest: bit_imp_le_length bit_be_word_bound)
  from snoc show ?case by (simp add: be_word_snoc low high del: drop_bit_or)
qed

text \<open>The round trips in the form the components use: a word that fits comes back.\<close>

lemma be_roundtrip: "take_bit (8 * n) v = v \<Longrightarrow> be_word (be_bytes n v) = v"
  by (simp add: be_word_be_bytes)

lemma le_roundtrip: "take_bit (8 * n) v = v \<Longrightarrow> le_word (le_bytes n v) = v"
  by (simp add: le_word_le_bytes)

lemma take_bit_full [simp]: "LENGTH('a) \<le> n \<Longrightarrow> take_bit n (v :: 'a::len word) = v"
  by (simp add: take_bit_word_eq_self)

lemma take_bit_fits: "unat v < 2 ^ n \<Longrightarrow> take_bit n v = v" for v :: "'a::len word"
  by (simp add: word_unat_eq_iff unsigned_take_bit_eq take_bit_nat_eq_self)

lemma unat_lt_u8: "unat (b :: u8) < 256"
  using unsigned_less [of b] by simp

lemma unat_lt_u16: "unat (b :: u16) < 65536"
  using unsigned_less [of b] by simp

lemma unat_ucast_u8: "unat (ucast (b :: u8) :: u32) = unat b"
  using unat_lt_u8 [of b] by (simp add: unsigned_ucast_eq take_bit_nat_eq_self)

lemma unat_ucast_u16: "unat (ucast (b :: u16) :: u32) = unat b"
  using unat_lt_u16 [of b] by (simp add: unsigned_ucast_eq take_bit_nat_eq_self)

end
