(* ===== verification/Utils.thy ===== *)
theory Utils
  imports Prelude
begin

text \<open>
  The package \<open>utils\<close>: the byte-order readers of \<open>utils/reader.go\<close> and writers of
  \<open>utils/writer.go\<close>, the allocation pool of \<open>utils/pool.go\<close> and the packet queue of
  \<open>utils/queue.go\<close>. A reader and its writer are tied together by the interface
  \<open>byte_codec\<close>, interpreted for every pair the package has.
\<close>

section \<open>Readers (utils/reader.go)\<close>

text \<open>
  \<open>shift_in i b\<close> is the pair of statements \<open>i <<= 8; i |= uintN(b)\<close>. A signed integer is the
  word of its two's complement; \<open>intN(int8(b[0]))\<close> sign-extends (\<open>scast\<close>). Reading
  past the end of the slice panics.
\<close>

definition shift_in :: "'a::len word \<Rightarrow> u8 \<Rightarrow> 'a word" where
  "shift_in i b = push_bit 8 i OR ucast b"

definition U8 :: "bytes \<Rightarrow> u8 res" where
  "U8 b = index b 0"

definition U16BE :: "bytes \<Rightarrow> u16 res" where
  "U16BE b = (if length b < 2 then Panic else Ok (shift_in (ucast (b!0)) (b!1)))"

definition I16BE :: "bytes \<Rightarrow> u16 res" where
  "I16BE b = (if length b < 2 then Panic else Ok (shift_in (ucast (b!0)) (b!1)))"

definition I24BE :: "bytes \<Rightarrow> u32 res" where
  "I24BE b = (if length b < 3 then Panic
     else Ok (shift_in (shift_in (scast (b!0)) (b!1)) (b!2)))"

definition U24BE :: "bytes \<Rightarrow> u32 res" where
  "U24BE b = (if length b < 3 then Panic
     else Ok (shift_in (shift_in (ucast (b!0)) (b!1)) (b!2)))"

definition I32BE :: "bytes \<Rightarrow> u32 res" where
  "I32BE b = (if length b < 4 then Panic
     else Ok (shift_in (shift_in (shift_in (scast (b!0)) (b!1)) (b!2)) (b!3)))"

definition U32LE :: "bytes \<Rightarrow> u32 res" where
  "U32LE b = (if length b < 4 then Panic
     else Ok (shift_in (shift_in (shift_in (ucast (b!3)) (b!2)) (b!1)) (b!0)))"

definition U32BE :: "bytes \<Rightarrow> u32 res" where
  "U32BE b = (if length b < 4 then Panic
     else Ok (shift_in (shift_in (shift_in (ucast (b!0)) (b!1)) (b!2)) (b!3)))"

definition U40BE :: "bytes \<Rightarrow> u64 res" where
  "U40BE b = (if length b < 5 then Panic
     else Ok (shift_in (shift_in (shift_in (shift_in (ucast (b!0)) (b!1)) (b!2)) (b!3)) (b!4)))"

definition U64BE :: "bytes \<Rightarrow> u64 res" where
  "U64BE b = (if length b < 8 then Panic
     else Ok (shift_in (shift_in (shift_in (shift_in (shift_in (shift_in (shift_in
       (ucast (b!0)) (b!1)) (b!2)) (b!3)) (b!4)) (b!5)) (b!6)) (b!7)))"

definition I64BE :: "bytes \<Rightarrow> u64 res" where
  "I64BE b = (if length b < 8 then Panic
     else Ok (shift_in (shift_in (shift_in (shift_in (shift_in (shift_in (shift_in
       (scast (b!0)) (b!1)) (b!2)) (b!3)) (b!4)) (b!5)) (b!6)) (b!7)))"

section \<open>Writers (utils/writer.go)\<close>

text \<open>
  \<open>byte(v >> k)\<close> keeps the low eight bits of the shifted value; on signed integers \<open>>>\<close>
  is the arithmetic shift \<open>signed_drop_bit\<close>. The result is the slice after the writes.
\<close>

definition PutU8 :: "bytes \<Rightarrow> u8 \<Rightarrow> bytes res" where
  "PutU8 b v = (if length b < 1 then Panic else Ok (b[0 := v]))"

definition PutI16BE :: "bytes \<Rightarrow> u16 \<Rightarrow> bytes res" where
  "PutI16BE b v = (if length b < 2 then Panic
     else Ok (b[0 := ucast (signed_drop_bit 8 v), 1 := ucast v]))"

definition PutU16BE :: "bytes \<Rightarrow> u16 \<Rightarrow> bytes res" where
  "PutU16BE b v = (if length b < 2 then Panic
     else Ok (b[0 := ucast (drop_bit 8 v), 1 := ucast v]))"

definition PutI24BE :: "bytes \<Rightarrow> u32 \<Rightarrow> bytes res" where
  "PutI24BE b v = (if length b < 3 then Panic
     else Ok (b[0 := ucast (signed_drop_bit 16 v), 1 := ucast (signed_drop_bit 8 v), 2 := ucast v]))"

definition PutU24BE :: "bytes \<Rightarrow> u32 \<Rightarrow> bytes res" where
  "PutU24BE b v = (if length b < 3 then Panic
     else Ok (b[0 := ucast (drop_bit 16 v), 1 := ucast (drop_bit 8 v), 2 := ucast v]))"

definition PutI32BE :: "bytes \<Rightarrow> u32 \<Rightarrow> bytes res" where
  "PutI32BE b v = (if length b < 4 then Panic
     else Ok (b[0 := ucast (signed_drop_bit 24 v), 1 := ucast (signed_drop_bit 16 v),
                2 := ucast (signed_drop_bit 8 v), 3 := ucast v]))"

definition PutU32BE :: "bytes \<Rightarrow> u32 \<Rightarrow> bytes res" where
  "PutU32BE b v = (if length b < 4 then Panic
     else Ok (b[0 := ucast (drop_bit 24 v), 1 := ucast (drop_bit 16 v),
                2 := ucast (drop_bit 8 v), 3 := ucast v]))"

definition PutU32LE :: "bytes \<Rightarrow> u32 \<Rightarrow> bytes res" where
  "PutU32LE b v = (if length b < 4 then Panic
     else Ok (b[3 := ucast (drop_bit 24 v), 2 := ucast (drop_bit 16 v),
                1 := ucast (drop_bit 8 v), 0 := ucast v]))"

definition PutU40BE :: "bytes \<Rightarrow> u64 \<Rightarrow> bytes res" where
  "PutU40BE b v = (if length b < 5 then Panic
     else Ok (b[0 := ucast (drop_bit 32 v), 1 := ucast (drop_bit 24 v),
                2 := ucast (drop_bit 16 v), 3 := ucast (drop_bit 8 v), 4 := ucast v]))"

definition PutU48BE :: "bytes \<Rightarrow> u64 \<Rightarrow> bytes res" where
  "PutU48BE b v = (if length b < 6 then Panic
     else Ok (b[0 := ucast (drop_bit 40 v), 1 := ucast (drop_bit 32 v),
                2 := ucast (drop_bit 24 v), 3 := ucast (drop_bit 16 v),
                4 := ucast (drop_bit 8 v), 5 := ucast v]))"

definition PutU64BE :: "bytes \<Rightarrow> u64 \<Rightarrow> bytes res" where
  "PutU64BE b v = (if length b < 8 then Panic
     else Ok (b[0 := ucast (drop_bit 56 v), 1 := ucast (drop_bit 48 v),
                2 := ucast (drop_bit 40 v), 3 := ucast (drop_bit 32 v),
                4 := ucast (drop_bit 24 v), 5 := ucast (drop_bit 16 v),
                6 := ucast (drop_bit 8 v), 7 := ucast v]))"

definition PutI64BE :: "bytes \<Rightarrow> u64 \<Rightarrow> bytes res" where
  "PutI64BE b v = (if length b < 8 then Panic
     else Ok (b[0 := ucast (signed_drop_bit 56 v), 1 := ucast (signed_drop_bit 48 v),
                2 := ucast (signed_drop_bit 40 v), 3 := ucast (signed_drop_bit 32 v),
                4 := ucast (signed_drop_bit 24 v), 5 := ucast (signed_drop_bit 16 v),
                6 := ucast (signed_drop_bit 8 v), 7 := ucast v]))"

section \<open>What the readers and writers compute\<close>

lemma list_prefixE:
  assumes "\<not> length b < Suc n"
  obtains x c where "b = x # c" and "\<not> length c < n"
  using assms by (cases b) auto

lemma shift_in_be_word: "shift_in (be_word bs) b = be_word (bs @ [b])"
  by (simp add: shift_in_def be_word_snoc)

lemma ucast_be_word: "ucast (b :: u8) = be_word [b]"
  by (simp add: be_word_def)


lemma reader_specs [byte_simps]:
  "U16BE b = (if length b < 2 then Panic else Ok (be_word (take 2 b)))"
  "U24BE b = (if length b < 3 then Panic else Ok (be_word (take 3 b)))"
  "U32BE b = (if length b < 4 then Panic else Ok (be_word (take 4 b)))"
  "U32LE b = (if length b < 4 then Panic else Ok (le_word (take 4 b)))"
  "U40BE b = (if length b < 5 then Panic else Ok (be_word (take 5 b)))"
  "U64BE b = (if length b < 8 then Panic else Ok (be_word (take 8 b)))"
  by (auto simp: U16BE_def U24BE_def U32BE_def U32LE_def U40BE_def U64BE_def
      ucast_be_word shift_in_be_word le_word_rev eval_nat_numeral elim!: list_prefixE)

lemma signed_reader_specs [byte_simps]:
  "I16BE b = U16BE b"
  "I32BE b = U32BE b"
  "I64BE b = U64BE b"
  by (auto simp: I16BE_def U16BE_def I32BE_def U32BE_def I64BE_def U64BE_def shift_in_def
      bit_simps intro!: bit_word_eqI)

lemma I24BE_spec [byte_simps]:
  "I24BE b = (if length b < 3 then Panic else Ok (signed_take_bit 23 (be_word (take 3 b))))"
proof -
  have "shift_in (shift_in (scast x) y) z =
      signed_take_bit 23 (shift_in (shift_in (ucast x) y) z :: u32)" for x y z :: u8
    by (rule bit_word_eqI) (auto simp: shift_in_def bit_simps min_def bit_u8_high)
  then show ?thesis
    by (auto simp: I24BE_def ucast_be_word shift_in_be_word eval_nat_numeral
        elim!: list_prefixE)
qed

lemma writer_specs [byte_simps]:
  "PutU16BE b u = (if length b < 2 then Panic else Ok (be_bytes 2 u @ drop 2 b))"
  "PutU24BE b v = (if length b < 3 then Panic else Ok (be_bytes 3 v @ drop 3 b))"
  "PutU32BE b v = (if length b < 4 then Panic else Ok (be_bytes 4 v @ drop 4 b))"
  "PutU32LE b v = (if length b < 4 then Panic else Ok (le_bytes 4 v @ drop 4 b))"
  "PutU40BE b w = (if length b < 5 then Panic else Ok (be_bytes 5 w @ drop 5 b))"
  "PutU48BE b w = (if length b < 6 then Panic else Ok (be_bytes 6 w @ drop 6 b))"
  "PutU64BE b w = (if length b < 8 then Panic else Ok (be_bytes 8 w @ drop 8 b))"
  by (auto simp: PutU16BE_def PutU24BE_def PutU32BE_def PutU32LE_def PutU40BE_def PutU48BE_def
      PutU64BE_def eval_nat_numeral elim!: list_prefixE)

lemma ucast_signed_drop_bit:
  "n + 8 \<le> LENGTH('a) \<Longrightarrow> (ucast (signed_drop_bit n (v :: 'a::len word)) :: u8) = ucast (drop_bit n v)"
  by (rule bit_word_eqI) (auto simp: bit_simps)

lemma signed_writer_specs [byte_simps]:
  "PutI16BE b u = PutU16BE b u"
  "PutI24BE b v = PutU24BE b v"
  "PutI32BE b v = PutU32BE b v"
  "PutI64BE b w = PutU64BE b w"
  by (simp_all add: PutI16BE_def PutU16BE_def PutI24BE_def PutU24BE_def PutI32BE_def PutU32BE_def
      PutI64BE_def PutU64BE_def ucast_signed_drop_bit)

section \<open>The contract of a reader and its writer\<close>

text \<open>
  A codec of \<open>width\<close> bytes: both halves panic on a slice that is too short, the writer changes
  the first \<open>width\<close> bytes only, the reader looks at them only, and each undoes the other on
  the values that fit.
\<close>

locale byte_codec =
  fixes width :: nat
    and get :: "bytes \<Rightarrow> 'v res"
    and put :: "bytes \<Rightarrow> 'v \<Rightarrow> bytes res"
    and fits :: "'v \<Rightarrow> bool"
  assumes get_short: "length b < width \<Longrightarrow> get b = Panic"
    and put_short: "length b < width \<Longrightarrow> put b v = Panic"
    and put_frame: "width \<le> length b \<Longrightarrow> \<exists>e. length e = width \<and> put b v = Ok (e @ drop width b)"
    and get_prefix: "width \<le> length b \<Longrightarrow> get b = get (take width b)"
    and get_put: "length b = width \<Longrightarrow> fits v \<Longrightarrow> put b v = Ok e \<Longrightarrow> get e = Ok v"
    and put_get: "length e = width \<Longrightarrow> \<exists>v. get e = Ok v \<and> fits v \<and> put e v = Ok e"
    and put_content: "length b = width \<Longrightarrow> length c = width \<Longrightarrow> put b v = put c v"
begin

lemma put_ok:
  assumes "width \<le> length b"
  obtains e where "length e = width" and "put b v = Ok (e @ drop width b)"
  using put_frame [OF assms] by blast

lemma put_ok_prefix:
  assumes "width \<le> length b" and "put b v = Ok b'"
  shows "length b' = length b" and "drop width b' = drop width b"
  using assms put_frame [OF assms(1), of v] by auto

lemma read_back:
  assumes "length b = width" and "fits v" and "put b v = Ok e"
  shows "get (e @ rest) = Ok v"
proof -
  obtain d where d: "length d = width" "put b v = Ok (d @ drop width b)"
    using put_ok [of b v] assms(1) by auto
  then have "length e = width" using assms by simp
  then have "get (e @ rest) = get e" using get_prefix [of "e @ rest"] by simp
  with assms show ?thesis by (simp add: get_put)
qed

lemma put_inject:
  assumes "length b = width" and "fits v" and "fits w" and "put b v = put b w"
  shows "v = w"
proof -
  obtain e where "put b v = Ok e" using put_ok [of b v] assms(1) by auto
  with assms have "get e = Ok v" and "get e = Ok w" by (auto intro: get_put)
  then show ?thesis by simp
qed

end

lemma be_codecI:
  fixes get :: "bytes \<Rightarrow> 'a::len word res"
  assumes "8 * n \<le> LENGTH('a)"
    and "\<And>b. get b = (if length b < n then Panic else Ok (be_word (take n b)))"
    and "\<And>b v. put b v = (if length b < n then Panic else Ok (be_bytes n v @ drop n b))"
    and "\<And>v. fits v = (take_bit (8 * n) v = v)"
  shows "byte_codec n get put fits"
proof (unfold_locales, goal_cases)
  case (3 b v)
  then show ?case by (auto simp: assms(2-4) intro: exI [of _ "be_bytes n v"])
next
  case (6 e)
  then show ?case
    using assms(1) be_bytes_be_word [of e, where 'a = 'a]
      be_word_be_bytes [of n "be_word e :: 'a word"]
    by (auto simp: assms(2-4))
qed (auto simp: assms(2-4) be_word_be_bytes min_def)

interpretation u16be: byte_codec 2 U16BE PutU16BE "\<lambda>v. True"
  by (rule be_codecI) (simp_all add: byte_simps)

interpretation i16be: byte_codec 2 I16BE PutI16BE "\<lambda>v. True"
  by (rule be_codecI) (simp_all add: byte_simps)

interpretation u24be: byte_codec 3 U24BE PutU24BE "\<lambda>v. take_bit 24 v = v"
  by (rule be_codecI) (simp_all add: byte_simps)

interpretation u32be: byte_codec 4 U32BE PutU32BE "\<lambda>v. True"
  by (rule be_codecI) (simp_all add: byte_simps)

interpretation i32be: byte_codec 4 I32BE PutI32BE "\<lambda>v. True"
  by (rule be_codecI) (simp_all add: byte_simps)

interpretation u40be: byte_codec 5 U40BE PutU40BE "\<lambda>v. take_bit 40 v = v"
  by (rule be_codecI) (simp_all add: byte_simps)

interpretation u64be: byte_codec 8 U64BE PutU64BE "\<lambda>v. True"
  by (rule be_codecI) (simp_all add: byte_simps)

interpretation i64be: byte_codec 8 I64BE PutI64BE "\<lambda>v. True"
  by (rule be_codecI) (simp_all add: byte_simps)

interpretation u8: byte_codec 1 U8 PutU8 "\<lambda>v. True"
proof (rule be_codecI)
  show "U8 b = (if length b < 1 then Panic else Ok (be_word (take 1 b)))" for b
    by (cases b) (simp_all add: U8_def flip: ucast_be_word)
  show "PutU8 b v = (if length b < 1 then Panic else Ok (be_bytes 1 v @ drop 1 b))" for b v
    by (cases b) (simp_all add: PutU8_def)
qed simp_all

interpretation u32le: byte_codec 4 U32LE PutU32LE "\<lambda>v. True"
proof (unfold_locales, goal_cases)
  case (3 b v)
  then show ?case by (auto simp: byte_simps intro: exI [of _ "le_bytes 4 v"])
next
  case (6 e)
  then show ?case
    using be_bytes_be_word [of "rev e", where 'a = 32]
    by (auto simp: byte_simps le_word_rev le_bytes_rev rev_swap)
qed (auto simp: byte_simps le_word_le_bytes min_def)

text \<open>The 24-bit signed codec: the values that fit are the sign-extended ones.\<close>

interpretation i24be: byte_codec 3 I24BE PutI24BE "\<lambda>v. signed_take_bit 23 v = v"
proof (unfold_locales, goal_cases)
  case (3 b v)
  then show ?case by (auto simp: byte_simps intro: exI [of _ "be_bytes 3 v"])
next
  case (5 b v e)
  then show ?case by (auto simp: byte_simps be_word_be_bytes signed_take_bit_take_bit)
next
  case (6 e)
  have "be_bytes 3 (signed_take_bit 23 v) = be_bytes 3 v" for v :: u32
    using be_bytes_take_bit [of 3 v] be_bytes_take_bit [of 3 "signed_take_bit 23 v"]
    by (simp add: take_bit_signed_take_bit)
  with 6 show ?case
    using be_bytes_be_word [of e, where 'a = 32] by (auto simp: byte_simps)
qed (auto simp: byte_simps min_def)

section \<open>The allocation pool (utils/pool.go)\<close>

text \<open>
  A pool hands out sub-slices of one backing array and makes a new array when the rest is too
  short. The identity of the backing array is what separates the slices, so the model names
  arrays by the number of \<open>make\<close> calls so far, and \<open>Get\<close> returns the region
  \<open>(array, first, last + 1)\<close> of the slice.
\<close>

record Pool =
  pool_pos :: int
  pool_buf :: nat

definition maxpoolsize :: int where
  "maxpoolsize = 50 * 1024"

definition NewPool :: Pool where
  "NewPool = \<lparr>pool_pos = 0, pool_buf = 0\<rparr>"

definition pool_Get :: "int \<Rightarrow> Pool \<Rightarrow> (nat \<times> int \<times> int) res \<times> Pool" where
  "pool_Get sz p =
     (let p1 = (if maxpoolsize - pool_pos p < sz
                then p\<lparr>pool_pos := 0, pool_buf := Suc (pool_buf p)\<rparr> else p);
          lo = pool_pos p1; hi = pool_pos p1 + sz
      in if 0 \<le> lo \<and> lo \<le> hi \<and> hi \<le> maxpoolsize
         then (Ok (pool_buf p1, lo, hi), p1\<lparr>pool_pos := hi\<rparr>)
         else (Panic, p1))"

fun pool_run :: "int list \<Rightarrow> Pool \<Rightarrow> (nat \<times> int \<times> int) list" where
  "pool_run [] p = []"
| "pool_run (n # ns) p = (case pool_Get n p of
      (Ok r, p') \<Rightarrow> r # pool_run ns p'
    | (_, p') \<Rightarrow> [])"

definition pool_inv :: "Pool \<Rightarrow> bool" where
  "pool_inv p \<longleftrightarrow> 0 \<le> pool_pos p \<and> pool_pos p \<le> maxpoolsize"

definition regions_disjoint :: "nat \<times> int \<times> int \<Rightarrow> nat \<times> int \<times> int \<Rightarrow> bool" where
  "regions_disjoint r s \<longleftrightarrow>
     (case r of (a, lo, hi) \<Rightarrow> case s of (b, lo', hi') \<Rightarrow> a \<noteq> b \<or> hi \<le> lo' \<or> hi' \<le> lo)"

definition after_pool :: "Pool \<Rightarrow> nat \<times> int \<times> int \<Rightarrow> bool" where
  "after_pool p r \<longleftrightarrow> (case r of (b, lo, hi) \<Rightarrow>
     pool_buf p < b \<or> pool_buf p = b \<and> pool_pos p \<le> lo)"

lemma pool_inv_NewPool [simp]: "pool_inv NewPool"
  by (simp add: pool_inv_def NewPool_def maxpoolsize_def)

lemma pool_Get_ok:
  assumes "pool_Get n p = (Ok (b, lo, hi), p')" and "pool_inv p"
  shows "pool_inv p'" and "hi = lo + n" and "0 \<le> lo" and "lo \<le> hi" and "hi \<le> maxpoolsize"
    and "pool_buf p' = b" and "pool_pos p' = hi" and "after_pool p (b, lo, hi)"
  using assms
  by (auto simp: pool_Get_def pool_inv_def after_pool_def Let_def maxpoolsize_def split: if_splits)

lemma after_pool_mono:
  assumes "pool_Get n p = (Ok (b, lo, hi), p')" and "pool_inv p" and "after_pool p' r"
  shows "after_pool p r"
  using assms pool_Get_ok [OF assms(1,2)] by (auto simp: after_pool_def split: prod.splits)

lemma pool_run_after:
  "pool_inv p \<Longrightarrow> r \<in> set (pool_run ns p) \<Longrightarrow> after_pool p r"
proof (induction ns p rule: pool_run.induct)
  case (2 n ns p)
  from "2.prems"(2) obtain b lo hi p' where get: "pool_Get n p = (Ok (b, lo, hi), p')"
    and r: "r = (b, lo, hi) \<or> r \<in> set (pool_run ns p')"
    by (cases "pool_Get n p") (auto split: res.splits)
  note ok = pool_Get_ok [OF get "2.prems"(1)]
  from r show ?case
  proof
    assume "r \<in> set (pool_run ns p')"
    with "2.IH" get ok(1) have "after_pool p' r" by simp
    with get "2.prems"(1) show ?thesis by (rule after_pool_mono)
  qed (simp add: ok(8))
qed simp

lemma pool_regions_apart:
  assumes "pool_Get n p = (Ok (b, lo, hi), p')" and "pool_inv p" and "after_pool p' r"
  shows "regions_disjoint (b, lo, hi) r"
  using assms(3) pool_Get_ok [OF assms(1,2)]
  by (auto simp: after_pool_def regions_disjoint_def split: prod.splits)

section \<open>The packet queue (utils/queue.go)\<close>

text \<open>
  Every operation runs under the mutex, so it is one atomic step on the list. \<open>pop\<close> removes
  the last element and panics on an empty list (the slice index is -1).
\<close>

record 'p Queue =
  q_maxSize :: int
  q_list :: "'p list"

definition NewQueue :: "int \<Rightarrow> 'p Queue" where
  "NewQueue n = \<lparr>q_maxSize = n, q_list = []\<rparr>"

definition queue_pop :: "'p Queue \<Rightarrow> 'p res \<times> 'p Queue" where
  "queue_pop q = (if q_list q = [] then (Panic, q)
     else (Ok (last (q_list q)), q\<lparr>q_list := butlast (q_list q)\<rparr>))"

definition queue_Push :: "'p \<Rightarrow> 'p Queue \<Rightarrow> unit res \<times> 'p Queue" where
  "queue_Push msg q =
     pseq (\<lambda>q. if int (length (q_list q)) = q_maxSize q
               then (case queue_pop q of (Ok _, q') \<Rightarrow> (Ok (), q') | (Err e, q') \<Rightarrow> (Err e, q')
                     | (Panic, q') \<Rightarrow> (Panic, q'))
               else (Ok (), q))
          (\<lambda>q. (Ok (), q\<lparr>q_list := q_list q @ [msg]\<rparr>)) q"

definition queue_Pop :: "'p Queue \<Rightarrow> 'p option res \<times> 'p Queue" where
  "queue_Pop q = (if length (q_list q) = 0 then (Ok None, q)
     else case queue_pop q of (Ok x, q') \<Rightarrow> (Ok (Some x), q') | (Err e, q') \<Rightarrow> (Err e, q')
       | (Panic, q') \<Rightarrow> (Panic, q'))"

definition queue_Len :: "'p Queue \<Rightarrow> nat" where
  "queue_Len q = length (q_list q)"

definition queue_All :: "'p Queue \<Rightarrow> 'p list \<times> 'p Queue" where
  "queue_All q = (q_list q, q\<lparr>q_list := []\<rparr>)"

lemmas queue_defs = queue_pop_def queue_Push_def queue_Pop_def queue_Len_def queue_All_def
  NewQueue_def pseq_def pbind_def

text \<open>
  What the queue promises, on the list of its packets, oldest first: a bounded buffer whose
  newest element leaves first, and that drops its newest element to make room.
\<close>

locale bounded_stack =
  fixes content :: "'q \<Rightarrow> 'p list"
    and bound :: "'q \<Rightarrow> int"
    and push :: "'p \<Rightarrow> 'q \<Rightarrow> unit res \<times> 'q"
    and pop :: "'q \<Rightarrow> 'p option res \<times> 'q"
  assumes push_room: "int (length (content q)) \<noteq> bound q \<Longrightarrow>
      fst (push x q) = Ok () \<and> content (snd (push x q)) = content q @ [x]"
    and push_full: "int (length (content q)) = bound q \<Longrightarrow> content q \<noteq> [] \<Longrightarrow>
      fst (push x q) = Ok () \<and> content (snd (push x q)) = butlast (content q) @ [x]"
    and push_bound: "bound (snd (push x q)) = bound q"
    and pop_empty: "content q = [] \<Longrightarrow> pop q = (Ok None, q)"
    and pop_last: "content q \<noteq> [] \<Longrightarrow>
      fst (pop q) = Ok (Some (last (content q))) \<and> content (snd (pop q)) = butlast (content q)"
begin

fun push_all :: "'p list \<Rightarrow> 'q \<Rightarrow> 'q" where
  "push_all [] q = q"
| "push_all (x # xs) q = push_all xs (snd (push x q))"

lemma push_then_pop:
  assumes "0 < bound q"
  shows "fst (pop (snd (push x q))) = Ok (Some x)"
proof (cases "int (length (content q)) = bound q")
  case True
  with assms have "content q \<noteq> []" by auto
  with True push_full [of q x] pop_last [of "snd (push x q)"] show ?thesis by simp
next
  case False
  with push_room [of q x] pop_last [of "snd (push x q)"] show ?thesis by simp
qed

lemma push_all_bounded:
  assumes "0 < bound q" and "int (length (content q)) \<le> bound q"
  shows "int (length (content (push_all xs q))) \<le> bound q"
  using assms
proof (induction xs arbitrary: q)
  case (Cons x xs)
  have "int (length (content (snd (push x q)))) \<le> bound q"
  proof (cases "int (length (content q)) = bound q")
    case True
    with Cons.prems have "content q \<noteq> []" by auto
    with True push_full [of q x] show ?thesis by (simp add: Suc_le_eq of_nat_diff)
  next
    case False
    with Cons.prems push_room [of q x] show ?thesis by simp
  qed
  with Cons.prems Cons.IH [of "snd (push x q)"] show ?case by (simp add: push_bound)
qed simp

end

interpretation packet_queue: bounded_stack q_list q_maxSize queue_Push queue_Pop
  by unfold_locales (auto simp: queue_defs)

section \<open>Properties\<close>

text \<open>
  What a big-endian or little-endian writer of \<open>utils/writer.go\<close> puts into a slice, the
  matching reader of \<open>utils/reader.go\<close> gives back, whatever follows in the slice.
\<close>

theorem codec_roundtrips:
  assumes "length b3 = 3" and "take_bit 24 v = v" and "PutU24BE b3 v = Ok e3"
    and "length b4 = 4" and "PutU32BE b4 w = Ok e4" and "PutU32LE b4 w = Ok l4"
    and "length b8 = 8" and "PutU64BE b8 x = Ok e8"
  shows "U24BE (e3 @ rest) = Ok v \<and> U32BE (e4 @ rest) = Ok w \<and> U32LE (l4 @ rest) = Ok w \<and>
    U64BE (e8 @ rest) = Ok x"
  using u24be.read_back [OF assms(1) _ assms(3)] u32be.read_back [OF assms(4) _ assms(5)]
    u32le.read_back [OF assms(4) _ assms(6)] u64be.read_back [OF assms(7) _ assms(8)] assms(2)
  by simp

theorem codec_roundtrips_witness:
  "U24BE ([1, 2, 3] @ [9]) = Ok 0x010203 \<and> U32BE ([1, 2, 3, 4] @ [9]) = Ok 0x01020304 \<and>
   U32LE ([4, 3, 2, 1] @ [9]) = Ok 0x01020304 \<and> U64BE ([0, 0, 0, 0, 1, 2, 3, 4] @ [9]) = Ok 0x01020304"
proof (rule codec_roundtrips)
  show "length [0, 0, 0 :: u8] = 3" "length [0, 0, 0, 0 :: u8] = 4"
    "length [0, 0, 0, 0, 0, 0, 0, 0 :: u8] = 8" by simp_all
qed code_simp+

text \<open>
  The slices one pool hands out never overlap: two different calls of \<open>Get\<close> return regions of
  different backing arrays or disjoint regions of the same one.
\<close>

theorem pool_slices_disjoint:
  assumes "pool_inv p" and "i < j" and "j < length (pool_run ns p)"
  shows "regions_disjoint (pool_run ns p ! i) (pool_run ns p ! j)"
  using assms
proof (induction ns p arbitrary: i j rule: pool_run.induct)
  case (2 n ns p)
  from "2.prems"(3) obtain b lo hi p' where get: "pool_Get n p = (Ok (b, lo, hi), p')"
    by (cases "pool_Get n p") (auto split: res.splits)
  then have run: "pool_run (n # ns) p = (b, lo, hi) # pool_run ns p'" by simp
  have inv: "pool_inv p'" using get "2.prems"(1) by (rule pool_Get_ok)
  obtain j' where j: "j = Suc j'" "j' < length (pool_run ns p')"
    using "2.prems"(2,3) run by (cases j) auto
  then have "after_pool p' (pool_run ns p' ! j')" using inv by (intro pool_run_after [of p' _ ns]) simp_all
  from pool_regions_apart [OF get "2.prems"(1) this]
  show ?case using "2.IH" [OF get [symmetric] refl inv] "2.prems"(2) j run by (cases i) auto
qed simp

theorem pool_slices_disjoint_witness:
  "regions_disjoint (pool_run [100, 200] NewPool ! 0) (pool_run [100, 200] NewPool ! 1)"
proof (rule pool_slices_disjoint [OF pool_inv_NewPool])
  show "(1 :: nat) < length (pool_run [100, 200] NewPool)" by code_simp
qed simp

text \<open>
  The packet queue returns the packet pushed last, although its comments promise the order of
  arrival (\<open>utils/queue.go\<close>).
\<close>

theorem queue_is_lifo:
  assumes "0 < q_maxSize q"
  shows "fst (queue_Pop (snd (queue_Push x q))) = Ok (Some x)"
  using assms by (rule packet_queue.push_then_pop)

theorem queue_is_lifo_witness:
  "fst (queue_Pop (snd (queue_Push (2 :: nat) (snd (queue_Push 1 (NewQueue 5)))))) = Ok (Some 2)"
  by (rule queue_is_lifo) (simp add: queue_defs)

end
