(* ===== verification/ReadWriter.thy ===== *)
theory ReadWriter
  imports Utils
begin

text \<open>
  The buffered connection of \<open>protocol/core/read_writer.go\<close>: a \<open>bufio.Reader\<close> and a
  \<open>bufio.Writer\<close> of the standard library over one network connection, with the sticky
  \<open>readError\<close> and \<open>writeError\<close> of the wrapper. The interface \<open>byte_sink\<close> says what a
  sequence of writes leaves on the connection.
\<close>

section \<open>State\<close>

text \<open>
  \<open>rin\<close> are the bytes the peer still sends and \<open>rend\<close> the error the connection reports
  after them. \<open>wbuf\<close> is the writer's buffer of capacity \<open>wsize\<close>, \<open>wire\<close> what the
  connection has taken, \<open>wlimit\<close> how many bytes it takes in all before it fails with
  \<open>wfail\<close>, and \<open>wrerr\<close> the sticky error of \<open>bufio.Writer\<close>.
\<close>

record ReadWriter =
  rin :: bytes
  rend :: err
  readError :: "err option"
  wbuf :: bytes
  wsize :: nat
  wire :: bytes
  wlimit :: nat
  wfail :: err
  wrerr :: "err option"
  writeError :: "err option"

text \<open>\<open>bufio.NewWriterSize\<close> replaces a size that is not positive by the default of 4096.\<close>

definition NewReadWriter :: "bytes \<Rightarrow> err \<Rightarrow> nat \<Rightarrow> err \<Rightarrow> nat \<Rightarrow> ReadWriter" where
  "NewReadWriter inp ie limit oe bufSize =
     \<lparr>rin = inp, rend = ie, readError = None, wbuf = [],
      wsize = (if bufSize = 0 then 4096 else bufSize), wire = [], wlimit = limit, wfail = oe,
      wrerr = None, writeError = None\<rparr>"

section \<open>The standard library below it\<close>

definition conn_Write :: "bytes \<Rightarrow> ReadWriter \<Rightarrow> (nat \<times> err option) \<times> ReadWriter" where
  "conn_Write p w =
     (let n = min (length p) (wlimit w - length (wire w))
      in ((n, if n < length p then Some (wfail w) else None), w\<lparr>wire := wire w @ take n p\<rparr>))"

definition bufio_Flush :: "ReadWriter \<Rightarrow> unit res \<times> ReadWriter" where
  "bufio_Flush w = (case wrerr w of
      Some e \<Rightarrow> (Err e, w)
    | None \<Rightarrow> if wbuf w = [] then (Ok (), w)
        else (case conn_Write (wbuf w) w of
            ((n, None), w') \<Rightarrow> (Ok (), w'\<lparr>wbuf := []\<rparr>)
          | ((n, Some e), w') \<Rightarrow> (Err e, w'\<lparr>wbuf := drop n (wbuf w'), wrerr := Some e\<rparr>)))"

definition wavailable :: "ReadWriter \<Rightarrow> nat" where
  "wavailable w = wsize w - length (wbuf w)"

definition bufio_WriteByte :: "u8 \<Rightarrow> ReadWriter \<Rightarrow> unit res \<times> ReadWriter" where
  "bufio_WriteByte c w = (case wrerr w of
      Some e \<Rightarrow> (Err e, w)
    | None \<Rightarrow> (case (if wavailable w = 0 then bufio_Flush w else (Ok (), w)) of
          (Ok _, w') \<Rightarrow> (Ok (), w'\<lparr>wbuf := wbuf w' @ [c]\<rparr>)
        | (Err e, w') \<Rightarrow> (Err e, w')
        | (Panic, w') \<Rightarrow> (Panic, w')))"

text \<open>One turn of the loop of \<open>bufio.Writer.Write\<close>, for data that does not fit.\<close>

definition bufio_Write_step :: "bytes \<Rightarrow> ReadWriter \<Rightarrow> bytes \<times> ReadWriter" where
  "bufio_Write_step p w =
     (if wbuf w = []
      then (case conn_Write p w of ((n, e), w') \<Rightarrow> (drop n p, w'\<lparr>wrerr := e\<rparr>))
      else (let n = wavailable w
            in (drop n p, snd (bufio_Flush (w\<lparr>wbuf := wbuf w @ take n p\<rparr>)))))"

lemma bufio_Write_step_measure:
  assumes "wavailable w < length p" and "wrerr w = None" and "bufio_Write_step p w = (p', w')"
  shows "wrerr w' \<noteq> None \<or> length p' < length p \<or> length p' \<le> length p \<and> length (wbuf w') < length (wbuf w)"
  using assms
  by (auto simp: bufio_Write_step_def bufio_Flush_def conn_Write_def wavailable_def Let_def
      split: if_splits)

function bufio_Write :: "bytes \<Rightarrow> ReadWriter \<Rightarrow> unit res \<times> ReadWriter" where
  "bufio_Write p w = (case wrerr w of
      Some e \<Rightarrow> (Err e, w)
    | None \<Rightarrow> if wavailable w < length p
        then bufio_Write (fst (bufio_Write_step p w)) (snd (bufio_Write_step p w))
        else (Ok (), w\<lparr>wbuf := wbuf w @ p\<rparr>))"
  by pat_completeness auto
termination
proof (relation "measures [\<lambda>(p, w). if wrerr w = None then 1 else 0,
    \<lambda>(p, w). length p, \<lambda>(p, w). length (wbuf w)]", goal_cases)
  case (2 p w)
  then show ?case
    using bufio_Write_step_measure [of w p] by (cases "bufio_Write_step p w") auto
qed simp

declare bufio_Write.simps [simp del]

definition bufio_ReadByte :: "ReadWriter \<Rightarrow> u8 res \<times> ReadWriter" where
  "bufio_ReadByte w = (case rin w of
      [] \<Rightarrow> (Err (rend w), w)
    | b # bs \<Rightarrow> (Ok b, w\<lparr>rin := bs\<rparr>))"

text \<open>
  \<open>io.ReadAtLeast(r, p, len(p))\<close> with \<open>len(p) = n\<close>: the bytes read, and the error when there
  were fewer than \<open>n\<close>; an end of file inside the data becomes \<open>UnexpectedEOF\<close>.
\<close>

definition io_ReadAtLeast :: "nat \<Rightarrow> ReadWriter \<Rightarrow> (bytes \<times> err option) \<times> ReadWriter" where
  "io_ReadAtLeast n w =
     (let got = take n (rin w)
      in ((got, if length got = n then None
                else if rend w = EOF \<and> got \<noteq> [] then Some UnexpectedEOF else Some (rend w)),
          w\<lparr>rin := drop n (rin w)\<rparr>))"

section \<open>The operations of read_writer.go\<close>

definition rw_Read :: "nat \<Rightarrow> ReadWriter \<Rightarrow> (bytes \<times> err option) \<times> ReadWriter" where
  "rw_Read n w = (case readError w of
      Some e \<Rightarrow> (([], Some e), w)
    | None \<Rightarrow> (case io_ReadAtLeast n w of
        ((got, e), w') \<Rightarrow> ((got, e), w'\<lparr>readError := e\<rparr>)))"

definition ReadError :: "ReadWriter \<Rightarrow> err option" where
  "ReadError w = readError w"

primrec ReadUintBE_loop :: "nat \<Rightarrow> u32 \<Rightarrow> ReadWriter \<Rightarrow> u32 res \<times> ReadWriter" where
  "ReadUintBE_loop 0 ret w = (Ok ret, w)"
| "ReadUintBE_loop (Suc k) ret w = (case bufio_ReadByte w of
      (Ok b, w') \<Rightarrow> ReadUintBE_loop k (push_bit 8 ret + ucast b) w'
    | (Err e, w') \<Rightarrow> (Err e, w'\<lparr>readError := Some e\<rparr>)
    | (Panic, w') \<Rightarrow> (Panic, w'))"

definition ReadUintBE :: "nat \<Rightarrow> ReadWriter \<Rightarrow> u32 res \<times> ReadWriter" where
  "ReadUintBE n w = (case readError w of
      Some e \<Rightarrow> (Err e, w)
    | None \<Rightarrow> ReadUintBE_loop n 0 w)"

primrec ReadUintLE_loop :: "nat \<Rightarrow> nat \<Rightarrow> u32 \<Rightarrow> ReadWriter \<Rightarrow> u32 res \<times> ReadWriter" where
  "ReadUintLE_loop 0 i ret w = (Ok ret, w)"
| "ReadUintLE_loop (Suc k) i ret w = (case bufio_ReadByte w of
      (Ok b, w') \<Rightarrow> ReadUintLE_loop k (Suc i) (ret + push_bit (i * 8) (ucast b)) w'
    | (Err e, w') \<Rightarrow> (Err e, w'\<lparr>readError := Some e\<rparr>)
    | (Panic, w') \<Rightarrow> (Panic, w'))"

definition ReadUintLE :: "nat \<Rightarrow> ReadWriter \<Rightarrow> u32 res \<times> ReadWriter" where
  "ReadUintLE n w = (case readError w of
      Some e \<Rightarrow> (Err e, w)
    | None \<Rightarrow> ReadUintLE_loop n 0 0 w)"

definition rw_Flush :: "ReadWriter \<Rightarrow> unit res \<times> ReadWriter" where
  "rw_Flush w = (case writeError w of
      Some e \<Rightarrow> (Err e, w)
    | None \<Rightarrow> if length (wbuf w) = 0 then (Ok (), w) else bufio_Flush w)"

definition rw_Write :: "bytes \<Rightarrow> ReadWriter \<Rightarrow> unit res \<times> ReadWriter" where
  "rw_Write p w = (case writeError w of
      Some e \<Rightarrow> (Err e, w)
    | None \<Rightarrow> bufio_Write p w)"

definition WriteError :: "ReadWriter \<Rightarrow> unit res" where
  "WriteError w = (case writeError w of None \<Rightarrow> Ok () | Some e \<Rightarrow> Err e)"

text \<open>The loop writes the byte \<open>v >> ((n-i-1) << 3)\<close> for \<open>i = 0, \<dots>, n-1\<close>; \<open>k = n - i\<close> bytes are left.\<close>

primrec WriteUintBE_loop :: "nat \<Rightarrow> u32 \<Rightarrow> ReadWriter \<Rightarrow> unit res \<times> ReadWriter" where
  "WriteUintBE_loop 0 v w = (Ok (), w)"
| "WriteUintBE_loop (Suc k) v w = (case bufio_WriteByte (ucast (drop_bit (8 * k) v) AND 0xff) w of
      (Ok _, w') \<Rightarrow> WriteUintBE_loop k v w'
    | (Err e, w') \<Rightarrow> (Err e, w'\<lparr>writeError := Some e\<rparr>)
    | (Panic, w') \<Rightarrow> (Panic, w'))"

definition WriteUintBE :: "u32 \<Rightarrow> nat \<Rightarrow> ReadWriter \<Rightarrow> unit res \<times> ReadWriter" where
  "WriteUintBE v n w = (case writeError w of
      Some e \<Rightarrow> (Err e, w)
    | None \<Rightarrow> WriteUintBE_loop n v w)"

primrec WriteUintLE_loop :: "nat \<Rightarrow> u32 \<Rightarrow> ReadWriter \<Rightarrow> unit res \<times> ReadWriter" where
  "WriteUintLE_loop 0 v w = (Ok (), w)"
| "WriteUintLE_loop (Suc k) v w = (case bufio_WriteByte (ucast v AND 0xff) w of
      (Ok _, w') \<Rightarrow> WriteUintLE_loop k (drop_bit 8 v) w'
    | (Err e, w') \<Rightarrow> (Err e, w'\<lparr>writeError := Some e\<rparr>)
    | (Panic, w') \<Rightarrow> (Panic, w'))"

definition WriteUintLE :: "u32 \<Rightarrow> nat \<Rightarrow> ReadWriter \<Rightarrow> unit res \<times> ReadWriter" where
  "WriteUintLE v n w = (case writeError w of
      Some e \<Rightarrow> (Err e, w)
    | None \<Rightarrow> WriteUintLE_loop n v w)"

section \<open>What has been written\<close>

text \<open>
  \<open>sent w\<close> is everything written so far, on the connection or still in the buffer: flushing does
  not change it. \<open>wok w\<close> says the writer works, \<open>room w\<close> how many more bytes the connection
  takes. \<open>rd_same\<close> is the frame of a write: the reading half is untouched.
\<close>

definition sent :: "ReadWriter \<Rightarrow> bytes" where
  "sent w = wire w @ wbuf w"

definition wok :: "ReadWriter \<Rightarrow> bool" where
  "wok w \<longleftrightarrow> wrerr w = None \<and> writeError w = None \<and> 0 < wsize w \<and> length (wbuf w) \<le> wsize w \<and>
     length (sent w) \<le> wlimit w"

definition room :: "ReadWriter \<Rightarrow> nat" where
  "room w = wlimit w - length (sent w)"

definition rd_same :: "ReadWriter \<Rightarrow> ReadWriter \<Rightarrow> bool" where
  "rd_same w w' \<longleftrightarrow> rin w' = rin w \<and> rend w' = rend w \<and> readError w' = readError w"

lemma rd_same_refl [simp]: "rd_same w w"
  by (simp add: rd_same_def)

lemma rd_same_trans: "rd_same u v \<Longrightarrow> rd_same v w \<Longrightarrow> rd_same u w"
  by (simp add: rd_same_def)

lemmas bufio_defs = bufio_Flush_def bufio_WriteByte_def conn_Write_def wavailable_def Let_def

lemma bufio_Flush_spec:
  assumes "bufio_Flush w = (r, w')"
  shows "sent w' = sent w" and "rd_same w w'" and "writeError w' = writeError w" and "r \<noteq> Panic"
    and "r = Ok () \<Longrightarrow> wbuf w' = [] \<and> wrerr w' = wrerr w" and "wok w \<Longrightarrow> r = Ok () \<and> wok w'"
    and "room w' = room w"
  using assms
  by (auto simp: bufio_defs sent_def rd_same_def wok_def room_def split: option.splits if_splits)

lemma bufio_WriteByte_spec:
  assumes "bufio_WriteByte c w = (r, w')"
  shows "r = Ok () \<Longrightarrow> sent w' = sent w @ [c]" and "r \<noteq> Ok () \<Longrightarrow> sent w' = sent w"
    and "rd_same w w'" and "writeError w' = writeError w" and "r \<noteq> Panic"
    and "wok w \<Longrightarrow> 0 < room w \<Longrightarrow> r = Ok () \<and> wok w' \<and> room w' = room w - 1"
proof -
  obtain f w1 where f: "(if wavailable w = 0 then bufio_Flush w else (Ok (), w)) = (f, w1)"
    by (metis surj_pair)
  have w1: "sent w1 = sent w \<and> rd_same w w1 \<and> writeError w1 = writeError w \<and> f \<noteq> Panic \<and>
    (wok w \<longrightarrow> f = Ok () \<and> wok w1) \<and> room w1 = room w \<and>
    (f = Ok () \<longrightarrow> wok w1 \<longrightarrow> length (wbuf w1) < wsize w1)"
  proof (cases "wavailable w = 0")
    case True
    with f have "bufio_Flush w = (f, w1)" by simp
    note flush = bufio_Flush_spec [OF this]
    from flush show ?thesis by (auto simp: wok_def)
  next
    case False
    with f show ?thesis by (auto simp: wavailable_def)
  qed
  have eq: "wrerr w = None \<Longrightarrow> (r, w') = (case f of Ok _ \<Rightarrow> (Ok (), w1\<lparr>wbuf := wbuf w1 @ [c]\<rparr>)
      | Err e \<Rightarrow> (Err e, w1) | Panic \<Rightarrow> (Panic, w1))"
    using assms f by (simp add: bufio_WriteByte_def)
  have wr: "wrerr w = Some e \<Longrightarrow> r = Err e \<and> w' = w" for e
    using assms by (simp add: bufio_WriteByte_def)
  show "r = Ok () \<Longrightarrow> sent w' = sent w @ [c]" and "r \<noteq> Ok () \<Longrightarrow> sent w' = sent w"
    and "rd_same w w'" and "writeError w' = writeError w" and "r \<noteq> Panic"
    using w1 eq wr by (cases "wrerr w"; cases f; auto simp: sent_def rd_same_def)+
  assume "wok w" and "0 < room w"
  then show "r = Ok () \<and> wok w' \<and> room w' = room w - 1"
    using w1 eq by (cases f) (auto simp: wok_def room_def sent_def)
qed

lemma bufio_Write_step_spec:
  assumes "bufio_Write_step p w = (p', w')"
  shows "sent w' @ p' = sent w @ p" and "suffix p' p" and "rd_same w w'"
    and "writeError w' = writeError w"
    and "wok w \<Longrightarrow> length p \<le> room w \<Longrightarrow>
      wok w' \<and> length p' \<le> room w' \<and> room w' + length p = room w + length p'"
proof -
  have all: "sent w' @ p' = sent w @ p \<and> suffix p' p \<and> rd_same w w' \<and> writeError w' = writeError w"
  proof (cases "wbuf w = []")
    case True
    with assms show ?thesis
      by (auto simp: bufio_Write_step_def conn_Write_def Let_def suffix_drop sent_def rd_same_def)
  next
    case False
    let ?w = "w\<lparr>wbuf := wbuf w @ take (wavailable w) p\<rparr>"
    obtain r where fl: "bufio_Flush ?w = (r, w')" and p': "p' = drop (wavailable w) p"
      using assms False by (cases "bufio_Flush ?w") (simp add: bufio_Write_step_def Let_def)
    note flush = bufio_Flush_spec [OF fl]
    from flush(1) have "sent w' = sent w @ take (wavailable w) p" by (simp add: sent_def)
    moreover from flush(2) have "rd_same w w'" by (simp add: rd_same_def)
    ultimately show ?thesis
      using flush(3) p' by (simp add: suffix_drop)
  qed
  then show "sent w' @ p' = sent w @ p" and "suffix p' p" and "rd_same w w'"
    and "writeError w' = writeError w" by simp_all
  assume w: "wok w" "length p \<le> room w"
  show "wok w' \<and> length p' \<le> room w' \<and> room w' + length p = room w + length p'"
  proof (cases "wbuf w = []")
    case True
    with assms w show ?thesis
      by (auto simp: bufio_Write_step_def conn_Write_def Let_def wok_def room_def sent_def)
  next
    case False
    let ?w = "w\<lparr>wbuf := wbuf w @ take (wavailable w) p\<rparr>"
    obtain r where fl: "bufio_Flush ?w = (r, w')" and p': "p' = drop (wavailable w) p"
      using assms False by (cases "bufio_Flush ?w") (simp add: bufio_Write_step_def Let_def)
    note flush = bufio_Flush_spec [OF fl]
    have "wok ?w" and "room ?w = room w - length (take (wavailable w) p)"
      using w by (auto simp: wok_def room_def sent_def wavailable_def)
    with flush(6,7) w p' show ?thesis by auto
  qed
qed

lemma bufio_Write_spec:
  assumes "bufio_Write p w = (r, w')"
  shows "(r = Ok () \<longrightarrow> sent w' = sent w @ p) \<and> (\<exists>q. prefix q p \<and> sent w' = sent w @ q) \<and>
    rd_same w w' \<and> writeError w' = writeError w \<and> r \<noteq> Panic \<and>
    (wok w \<longrightarrow> length p \<le> room w \<longrightarrow> r = Ok () \<and> wok w' \<and> room w' = room w - length p)"
  using assms
proof (induction p w rule: bufio_Write.induct)
  case (1 p w)
  obtain p1 w1 where st: "bufio_Write_step p w = (p1, w1)" by fastforce
  note step = bufio_Write_step_spec [OF st]
  show ?case
  proof (cases "wrerr w = None \<and> wavailable w < length p")
    case True
    with "1.prems" st have "bufio_Write p1 w1 = (r, w')" by (simp add: bufio_Write.simps [of p w])
    with "1.IH" True st have IH: "(r = Ok () \<longrightarrow> sent w' = sent w1 @ p1) \<and>
        (\<exists>q. prefix q p1 \<and> sent w' = sent w1 @ q) \<and> rd_same w1 w' \<and> writeError w' = writeError w1 \<and>
        r \<noteq> Panic \<and> (wok w1 \<longrightarrow> length p1 \<le> room w1 \<longrightarrow>
          r = Ok () \<and> wok w' \<and> room w' = room w1 - length p1)"
      by simp
    from step(2) obtain d where d: "p = d @ p1" by (auto simp: suffix_def)
    with step(1) have s1: "sent w1 = sent w @ d" by simp
    from IH step d s1 show ?thesis
      by (auto intro: rd_same_trans)
  next
    case False
    with "1.prems" show ?thesis
      by (auto simp: bufio_Write.simps [of p w] sent_def rd_same_def wok_def room_def wavailable_def
          split: option.splits)
  qed
qed

section \<open>The contract of the writing operations\<close>

text \<open>
  An operation that emits an encoding: when it reports success the whole encoding has been
  written, in any case a prefix of it; it succeeds where the connection has room; it never
  panics and never touches the reading half. A sequence of such operations stops at the first
  failure, and again has the contract, for the concatenated encodings.
\<close>

locale byte_sink =
  fixes emit :: "'c \<Rightarrow> ReadWriter \<Rightarrow> unit res \<times> ReadWriter"
    and enc :: "'c \<Rightarrow> bytes"
  assumes emit_complete: "emit c w = (Ok u, w') \<Longrightarrow> sent w' = sent w @ enc c"
    and emit_partial: "\<exists>q. prefix q (enc c) \<and> sent (snd (emit c w)) = sent w @ q"
    and emit_room: "wok w \<Longrightarrow> length (enc c) \<le> room w \<Longrightarrow> fst (emit c w) = Ok () \<and>
      wok (snd (emit c w)) \<and> room (snd (emit c w)) = room w - length (enc c)"
    and emit_frame: "rd_same w (snd (emit c w))"
    and emit_no_panic: "fst (emit c w) \<noteq> Panic"
begin

primrec emit_all :: "'c list \<Rightarrow> ReadWriter \<Rightarrow> unit res \<times> ReadWriter" where
  "emit_all [] = preturn ()"
| "emit_all (c # cs) = pseq (emit c) (emit_all cs)"

lemma emit_ok:
  assumes "wok w" and "length (enc c) \<le> room w"
  obtains w' where "emit c w = (Ok (), w')" and "wok w'" and "room w' = room w - length (enc c)"
    and "sent w' = sent w @ enc c" and "rd_same w w'"
  using assms emit_room [OF assms] emit_complete emit_frame [of w c]
  by (metis prod.collapse)

lemma emit_all_sink: "byte_sink emit_all (\<lambda>cs. concat (map enc cs))"
proof (unfold_locales, goal_cases)
  case (1 cs w u w')
  then show ?case
    by (induction cs arbitrary: w) (auto elim!: pseq_OkE dest: emit_complete)
next
  case (2 cs w)
  show ?case
  proof (induction cs arbitrary: w)
    case (Cons c cs)
    obtain r w1 where e: "emit c w = (r, w1)" by fastforce
    show ?case
    proof (cases r)
      case (Ok u)
      with e have "sent w1 = sent w @ enc c" by (simp add: emit_complete)
      with Cons.IH [of w1] e Ok show ?thesis by (auto simp: pseq_apply)
    next
      case Err
      with e emit_partial [of c w] show ?thesis by (auto simp: pseq_apply)
    next
      case Panic
      with e emit_no_panic [of c w] show ?thesis by simp
    qed
  qed auto
next
  case (3 w cs)
  then show ?case
  proof (induction cs arbitrary: w)
    case (Cons c cs)
    obtain w1 where "emit c w = (Ok (), w1)" "wok w1" "room w1 = room w - length (enc c)"
      using Cons.prems by (auto elim: emit_ok [of w c])
    with Cons show ?case by (simp add: pseq_apply)
  qed simp
next
  case (4 w cs)
  show ?case
  proof (induction cs arbitrary: w)
    case (Cons c cs)
    show ?case
      using Cons.IH [of "snd (emit c w)"] emit_frame [of w c]
      by (cases "emit c w"; cases "fst (emit c w)")
        (auto simp: pseq_def pbind_def intro: rd_same_trans)
  qed simp
next
  case (5 cs w)
  show ?case
  proof (induction cs arbitrary: w)
    case (Cons c cs)
    show ?case
      using Cons.IH [of "snd (emit c w)"] emit_no_panic [of c w]
      by (cases "emit c w"; cases "fst (emit c w)") (auto simp: pseq_def pbind_def)
  qed simp
qed

end

interpretation raw_write: byte_sink bufio_Write "\<lambda>p. p"
proof (unfold_locales, goal_cases)
  case (1 c w u w')
  then show ?case using bufio_Write_spec by simp
qed (use bufio_Write_spec [OF surjective_pairing] in blast)+

interpretation rw_write: byte_sink rw_Write "\<lambda>p. p"
proof (unfold_locales, goal_cases)
  case (1 c w u w')
  then show ?case by (auto simp: rw_Write_def raw_write.emit_complete split: option.splits)
next
  case (2 c w)
  then show ?case by (simp add: rw_Write_def raw_write.emit_partial split: option.splits)
next
  case (3 w c)
  then have "writeError w = None" by (simp add: wok_def)
  with 3 show ?case by (simp add: rw_Write_def raw_write.emit_room)
qed (simp_all add: rw_Write_def raw_write.emit_frame raw_write.emit_no_panic split: option.splits)

text \<open>
  The integer writers. They are the only operations that set the sticky \<open>writeError\<close>, which
  is how a caller that ignores their results still sees a failure.
\<close>

lemma WriteUintBE_loop_spec:
  assumes "WriteUintBE_loop k v w = (r, w')" and "writeError w = None"
  shows "(r = Ok () \<longrightarrow> sent w' = sent w @ be_bytes k v \<and> writeError w' = None) \<and>
    (\<exists>q. prefix q (be_bytes k v) \<and> sent w' = sent w @ q) \<and> rd_same w w' \<and> r \<noteq> Panic \<and>
    (r \<noteq> Ok () \<longrightarrow> writeError w' \<noteq> None) \<and>
    (wok w \<longrightarrow> k \<le> room w \<longrightarrow> r = Ok () \<and> wok w' \<and> room w' = room w - k)"
  using assms
proof (induction k arbitrary: w)
  case (Suc k)
  obtain rb w1 where wb: "bufio_WriteByte (ucast (drop_bit (8 * k) v)) w = (rb, w1)" by fastforce
  note b = bufio_WriteByte_spec [OF wb]
  show ?case
  proof (cases rb)
    case (Ok u)
    with Suc.prems wb have "WriteUintBE_loop k v w1 = (r, w')" by simp
    from Suc.IH [OF this] b Ok Suc.prems(2) show ?thesis
      by (auto simp: be_bytes_Cons simp del: be_bytes.simps intro: rd_same_trans)
  next
    case (Err e)
    with Suc.prems wb b show ?thesis by (auto simp: rd_same_def sent_def)
  next
    case Panic
    with b show ?thesis by simp
  qed
qed (auto simp: rd_same_def)

lemma WriteUintLE_loop_spec:
  assumes "WriteUintLE_loop k v w = (r, w')" and "writeError w = None"
  shows "(r = Ok () \<longrightarrow> sent w' = sent w @ le_bytes k v \<and> writeError w' = None) \<and>
    (\<exists>q. prefix q (le_bytes k v) \<and> sent w' = sent w @ q) \<and> rd_same w w' \<and> r \<noteq> Panic \<and>
    (r \<noteq> Ok () \<longrightarrow> writeError w' \<noteq> None) \<and>
    (wok w \<longrightarrow> k \<le> room w \<longrightarrow> r = Ok () \<and> wok w' \<and> room w' = room w - k)"
  using assms
proof (induction k arbitrary: v w)
  case (Suc k)
  obtain rb w1 where wb: "bufio_WriteByte (ucast v) w = (rb, w1)" by fastforce
  note b = bufio_WriteByte_spec [OF wb]
  show ?case
  proof (cases rb)
    case (Ok u)
    with Suc.prems wb have "WriteUintLE_loop k (drop_bit 8 v) w1 = (r, w')" by simp
    from Suc.IH [OF this] b Ok Suc.prems(2) show ?thesis
      by (auto intro: rd_same_trans)
  next
    case (Err e)
    with Suc.prems wb b show ?thesis by (auto simp: rd_same_def sent_def)
  next
    case Panic
    with b show ?thesis by simp
  qed
qed (auto simp: rd_same_def)

lemma WriteUintBE_spec:
  assumes "WriteUintBE v n w = (r, w')"
  shows "r = Ok () \<Longrightarrow> sent w' = sent w @ be_bytes n v"
    and "\<exists>q. prefix q (be_bytes n v) \<and> sent w' = sent w @ q" and "rd_same w w'" and "r \<noteq> Panic"
    and "writeError w' = None \<longleftrightarrow> r = Ok () \<and> writeError w = None"
    and "wok w \<Longrightarrow> n \<le> room w \<Longrightarrow> r = Ok () \<and> wok w' \<and> room w' = room w - n"
  using assms WriteUintBE_loop_spec [of n v w r w']
  by (auto simp: WriteUintBE_def wok_def split: option.splits)

lemma WriteUintLE_spec:
  assumes "WriteUintLE v n w = (r, w')"
  shows "r = Ok () \<Longrightarrow> sent w' = sent w @ le_bytes n v"
    and "\<exists>q. prefix q (le_bytes n v) \<and> sent w' = sent w @ q" and "rd_same w w'" and "r \<noteq> Panic"
    and "writeError w' = None \<longleftrightarrow> r = Ok () \<and> writeError w = None"
    and "wok w \<Longrightarrow> n \<le> room w \<Longrightarrow> r = Ok () \<and> wok w' \<and> room w' = room w - n"
  using assms WriteUintLE_loop_spec [of n v w r w']
  by (auto simp: WriteUintLE_def wok_def split: option.splits)

interpretation be_write: byte_sink "\<lambda>(v, n). WriteUintBE v n" "\<lambda>(v, n). be_bytes n v"
  by unfold_locales
    (use WriteUintBE_spec [OF surjective_pairing] in
      \<open>fastforce simp: split_beta WriteUintBE_spec(1,4)\<close>)+

interpretation le_write: byte_sink "\<lambda>(v, n). WriteUintLE v n" "\<lambda>(v, n). le_bytes n v"
  by unfold_locales
    (use WriteUintLE_spec [OF surjective_pairing] in
      \<open>fastforce simp: split_beta WriteUintLE_spec(1,4)\<close>)+

section \<open>Reading\<close>

text \<open>A reading operation never touches the writing half.\<close>

definition wr_same :: "ReadWriter \<Rightarrow> ReadWriter \<Rightarrow> bool" where
  "wr_same w w' \<longleftrightarrow> wbuf w' = wbuf w \<and> wsize w' = wsize w \<and> wire w' = wire w \<and> wlimit w' = wlimit w \<and>
     wfail w' = wfail w \<and> wrerr w' = wrerr w \<and> writeError w' = writeError w \<and> rend w' = rend w"

lemma rw_Read_append [simp]:
  assumes "rin w = p @ rest" and "length p = n" and "readError w = None"
  shows "rw_Read n w = ((p, None), w\<lparr>rin := rest\<rparr>)"
  using assms by (simp add: rw_Read_def io_ReadAtLeast_def Let_def)

lemma rw_Read_frame: "wr_same w (snd (rw_Read n w))"
  by (auto simp: wr_same_def rw_Read_def io_ReadAtLeast_def Let_def split: option.splits)

lemma rw_Read_length:
  assumes "rw_Read n w = ((p, None), w')"
  shows "length p = n" and "rin w = p @ rin w'" and "readError w = None" and "readError w' = None"
  using assms by (auto simp: rw_Read_def io_ReadAtLeast_def Let_def split: option.splits if_splits)

lemma rw_Read_le: "length (fst (fst (rw_Read n w))) \<le> n" "length (rin (snd (rw_Read n w))) \<le> length (rin w)"
  by (auto simp: rw_Read_def io_ReadAtLeast_def Let_def split: option.splits)

lemma bufio_ReadByte_Cons [simp]:
  "rin w = b # bs \<Longrightarrow> bufio_ReadByte w = (Ok b, w\<lparr>rin := bs\<rparr>)"
  "rin w = [] \<Longrightarrow> bufio_ReadByte w = (Err (rend w), w)"
  by (simp_all add: bufio_ReadByte_def)

lemma ReadUintBE_loop_append:
  "rin w = bs @ rest \<Longrightarrow>
   ReadUintBE_loop (length bs) ret w =
     (Ok (foldl (\<lambda>acc b. push_bit 8 acc OR ucast b) ret bs), w\<lparr>rin := rest\<rparr>)"
  by (induction bs arbitrary: ret w) (simp_all add: push_bit_add_ucast)

lemma ReadUintBE_append:
  assumes "rin w = bs @ rest" and "length bs = n" and "readError w = None"
  shows "ReadUintBE n w = (Ok (be_word bs), w\<lparr>rin := rest\<rparr>)"
  using ReadUintBE_loop_append [OF assms(1), of 0] assms(2,3)
  by (simp add: ReadUintBE_def be_word_def)

lemma push_bit_le_word_disjoint:
  "ret + push_bit (i * 8) (ucast (b :: u8)) = ret OR push_bit (i * 8) (ucast b)"
  if "take_bit (i * 8) ret = ret" for ret :: u32
proof (rule disjunctive_add_eq_or, rule bit_word_eqI)
  fix n
  from that have "bit ret n \<Longrightarrow> n < i * 8" by (metis bit_take_bit_iff)
  then show "bit (ret AND push_bit (i * 8) (ucast b)) n = bit 0 n"
    by (auto simp: bit_simps)
qed

lemma ReadUintLE_loop_append:
  assumes "rin w = bs @ rest" and "take_bit (i * 8) ret = ret"
  shows "ReadUintLE_loop (length bs) i ret w =
     (Ok (ret OR push_bit (i * 8) (le_word bs)), w\<lparr>rin := rest\<rparr>)"
  using assms
proof (induction bs arbitrary: i ret w)
  case (Cons b bs)
  have "take_bit (Suc i * 8) (ret OR push_bit (i * 8) (ucast b)) = ret OR push_bit (i * 8) (ucast b)"
  proof (rule bit_word_eqI)
    fix n
    from Cons.prems(2) have "bit ret n \<Longrightarrow> n < i * 8" by (metis bit_take_bit_iff)
    then show "bit (take_bit (Suc i * 8) (ret OR push_bit (i * 8) (ucast b))) n =
        bit (ret OR push_bit (i * 8) (ucast b)) n"
      by (auto simp: bit_simps dest: bit_imp_le_length)
  qed
  with Cons show ?case
    by (simp add: push_bit_le_word_disjoint push_bit_or push_bit_push_bit or.assoc ac_simps)
qed simp

lemma ReadUintLE_append:
  assumes "rin w = bs @ rest" and "length bs = n" and "readError w = None"
  shows "ReadUintLE n w = (Ok (le_word bs), w\<lparr>rin := rest\<rparr>)"
  using ReadUintLE_loop_append [OF assms(1), of 0 0] assms(2,3)
  by (simp add: ReadUintLE_def)

lemma ReadUintLE_frame:
  "wr_same w (snd (ReadUintLE n w)) \<and> length (rin (snd (ReadUintLE n w))) \<le> length (rin w) \<and>
   fst (ReadUintLE n w) \<noteq> Panic"
proof -
  have "wr_same w (snd (ReadUintLE_loop k i ret w)) \<and>
      length (rin (snd (ReadUintLE_loop k i ret w))) \<le> length (rin w) \<and>
      fst (ReadUintLE_loop k i ret w) \<noteq> Panic" for k i ret
  proof (induction k arbitrary: i ret w)
    case (Suc k)
    show ?case
    proof (cases "rin w")
      case (Cons b bs)
      with Suc.IH [of "w\<lparr>rin := bs\<rparr>" "Suc i" "ret + push_bit (i * 8) (ucast b)"] show ?thesis
        by (simp add: wr_same_def)
    qed (simp add: wr_same_def)
  qed (simp add: wr_same_def)
  then show ?thesis by (simp add: ReadUintLE_def wr_same_def split: option.splits)
qed

end
