(* ===== verification/AvTypes.thy ===== *)
theory AvTypes
  imports Prelude
begin

text \<open>
  The package \<open>av\<close>: the constants and packet structures of \<open>av/av.go\<close>, and the time-stamp
  bookkeeping \<open>RWBaser\<close> of \<open>av/rwbase.go\<close>. Go's untyped constants are used at several
  widths, so they are words of any length here.
\<close>

section \<open>Constants (av/av.go)\<close>

abbreviation (input) TAG_AUDIO :: "'a::len word" where "TAG_AUDIO \<equiv> 8"
abbreviation (input) TAG_VIDEO :: "'a::len word" where "TAG_VIDEO \<equiv> 9"
abbreviation (input) TAG_SCRIPTDATAAMF0 :: "'a::len word" where "TAG_SCRIPTDATAAMF0 \<equiv> 18"
abbreviation (input) TAG_SCRIPTDATAAMF3 :: "'a::len word" where "TAG_SCRIPTDATAAMF3 \<equiv> 15"

abbreviation (input) SOUND_MP3 :: u8 where "SOUND_MP3 \<equiv> 2"
abbreviation (input) SOUND_AAC :: u8 where "SOUND_AAC \<equiv> 10"
abbreviation (input) SOUND_MONO :: u8 where "SOUND_MONO \<equiv> 0"
abbreviation (input) SOUND_STEREO :: u8 where "SOUND_STEREO \<equiv> 1"

abbreviation (input) SOUND_RATE_5_5Khz :: u8 where "SOUND_RATE_5_5Khz \<equiv> 0"
abbreviation (input) SOUND_RATE_11Khz :: u8 where "SOUND_RATE_11Khz \<equiv> 1"
abbreviation (input) SOUND_RATE_22Khz :: u8 where "SOUND_RATE_22Khz \<equiv> 2"
abbreviation (input) SOUND_RATE_44Khz :: u8 where "SOUND_RATE_44Khz \<equiv> 3"
abbreviation (input) SOUND_RATE_7Khz :: u8 where "SOUND_RATE_7Khz \<equiv> 4"
abbreviation (input) SOUND_RATE_8Khz :: u8 where "SOUND_RATE_8Khz \<equiv> 5"
abbreviation (input) SOUND_RATE_12Khz :: u8 where "SOUND_RATE_12Khz \<equiv> 6"
abbreviation (input) SOUND_RATE_16Khz :: u8 where "SOUND_RATE_16Khz \<equiv> 7"
abbreviation (input) SOUND_RATE_24Khz :: u8 where "SOUND_RATE_24Khz \<equiv> 8"
abbreviation (input) SOUND_RATE_32Khz :: u8 where "SOUND_RATE_32Khz \<equiv> 9"
abbreviation (input) SOUND_RATE_48Khz :: u8 where "SOUND_RATE_48Khz \<equiv> 10"
abbreviation (input) SOUND_RATE_64Khz :: u8 where "SOUND_RATE_64Khz \<equiv> 11"
abbreviation (input) SOUND_RATE_88Khz :: u8 where "SOUND_RATE_88Khz \<equiv> 12"
abbreviation (input) SOUND_RATE_96Khz :: u8 where "SOUND_RATE_96Khz \<equiv> 13"

abbreviation (input) AAC_SEQHDR :: u8 where "AAC_SEQHDR \<equiv> 0"
abbreviation (input) AAC_RAW :: u8 where "AAC_RAW \<equiv> 1"

abbreviation (input) FRAME_KEY :: u8 where "FRAME_KEY \<equiv> 1"
abbreviation (input) FRAME_INTER :: u8 where "FRAME_INTER \<equiv> 2"
abbreviation (input) AVC_SEQHDR :: u8 where "AVC_SEQHDR \<equiv> 0"
abbreviation (input) AVC_NALU :: u8 where "AVC_NALU \<equiv> 1"
abbreviation (input) AVC_EOS :: u8 where "AVC_EOS \<equiv> 2"

abbreviation (input) VIDEO_JPEG :: u8 where "VIDEO_JPEG \<equiv> 1"
abbreviation (input) VideoH263 :: u8 where "VideoH263 \<equiv> 2"
abbreviation (input) VIDEO_H264 :: u8 where "VIDEO_H264 \<equiv> 7"

abbreviation (input) PacketTypeVideo :: u32 where "PacketTypeVideo \<equiv> 1"
abbreviation (input) PacketTypeAudio :: u32 where "PacketTypeAudio \<equiv> 2"
abbreviation (input) PacketTypeMetadata :: u32 where "PacketTypeMetadata \<equiv> 3"

section \<open>Packets (av/av.go)\<close>

text \<open>
  \<open>PData\<close> is the content of the slice \<open>Data\<close> at the time it is assigned. \<open>PArr\<close> names its backing array when this is
  the assembly buffer of a chunk stream (the id of the chunk stream and the number of its buffer), which a later message may
  overwrite; it is \<open>None\<close> for every other slice.
\<close>

record AudioPacketHeader =
  SoundFormat :: u8
  SoundRate :: u8
  SoundSize :: u8
  SoundType :: u8
  AACPacketType :: u8

record VideoPacketHeader =
  FrameType :: u8
  AVCPacketType :: u8
  CodecID :: u8
  CompositionTime :: u32 \<comment> \<open>int32, two's complement\<close>

record Packet =
  PacketType :: u32
  TimeStamp :: u32
  PStreamID :: u32
  VHeader :: VideoPacketHeader
  AHeader :: AudioPacketHeader
  PData :: bytes
  PArr :: "(u32 \<times> nat) option"

definition zeroAudioHeader :: AudioPacketHeader where
  "zeroAudioHeader = \<lparr>SoundFormat = 0, SoundRate = 0, SoundSize = 0, SoundType = 0, AACPacketType = 0\<rparr>"

definition zeroVideoHeader :: VideoPacketHeader where
  "zeroVideoHeader = \<lparr>FrameType = 0, AVCPacketType = 0, CodecID = 0, CompositionTime = 0\<rparr>"

definition zeroPacket :: Packet where
  "zeroPacket = \<lparr>PacketType = 0, TimeStamp = 0, PStreamID = 0, VHeader = zeroVideoHeader,
     AHeader = zeroAudioHeader, PData = [], PArr = None\<rparr>"

section \<open>Time-stamp bookkeeping (av/rwbase.go)\<close>

text \<open>Instants and durations are integers (nanoseconds); the clock reading is an argument.\<close>

record RWBaser =
  rwb_timeout :: int
  PreTime :: int
  BaseTimestamp :: u32
  LastVideoTimestamp :: u32
  LastAudioTimestamp :: u32

definition NewRWBaser :: "int \<Rightarrow> int \<Rightarrow> RWBaser" where
  "NewRWBaser now duration = \<lparr>rwb_timeout = duration, PreTime = now, BaseTimestamp = 0,
     LastVideoTimestamp = 0, LastAudioTimestamp = 0\<rparr>"

definition BaseTimeStamp :: "RWBaser \<Rightarrow> u32" where
  "BaseTimeStamp rw = BaseTimestamp rw"

definition CalcBaseTimestamp :: "RWBaser \<Rightarrow> RWBaser" where
  "CalcBaseTimestamp rw =
     (if LastAudioTimestamp rw > LastVideoTimestamp rw
      then rw\<lparr>BaseTimestamp := LastAudioTimestamp rw\<rparr>
      else rw\<lparr>BaseTimestamp := LastVideoTimestamp rw\<rparr>)"

definition RecTimeStamp :: "u32 \<Rightarrow> u32 \<Rightarrow> RWBaser \<Rightarrow> RWBaser" where
  "RecTimeStamp timestamp typeID rw =
     (if typeID = TAG_VIDEO then rw\<lparr>LastVideoTimestamp := timestamp\<rparr>
      else if typeID = TAG_AUDIO then rw\<lparr>LastAudioTimestamp := timestamp\<rparr>
      else rw)"

definition SetPreTime :: "int \<Rightarrow> RWBaser \<Rightarrow> RWBaser" where
  "SetPreTime now rw = rw\<lparr>PreTime := now\<rparr>"

definition Alive :: "int \<Rightarrow> RWBaser \<Rightarrow> bool" where
  "Alive now rw \<longleftrightarrow> \<not> (now - PreTime rw \<ge> rwb_timeout rw)"

lemma CalcBaseTimestamp_max:
  "BaseTimestamp (CalcBaseTimestamp rw) = max (LastAudioTimestamp rw) (LastVideoTimestamp rw)"
  by (auto simp: CalcBaseTimestamp_def max_def)

lemma CalcBaseTimestamp_frame [simp]:
  "LastAudioTimestamp (CalcBaseTimestamp rw) = LastAudioTimestamp rw"
  "LastVideoTimestamp (CalcBaseTimestamp rw) = LastVideoTimestamp rw"
  "PreTime (CalcBaseTimestamp rw) = PreTime rw"
  "rwb_timeout (CalcBaseTimestamp rw) = rwb_timeout rw"
  by (simp_all add: CalcBaseTimestamp_def)

end
