(* ===== verification/ChunkStream.thy ===== *)
theory ChunkStream
  imports ReadWriter AvTypes
begin

text \<open>
  The chunk stream of \<open>protocol/core/chunk_stream.go\<close>: one RTMP message being split into
  chunks (\<open>writeHeader\<close>, \<open>writeChunk\<close>) or assembled from them (\<open>alloc\<close>, \<open>readChunk\<close>).
  The second half gives the wire format as a function of the message and shows that
  \<open>writeChunk\<close> produces exactly it, and that \<open>readChunk\<close> keeps the invariant of the
  assembly buffer.
\<close>

section \<open>State (chunk_stream.go, type ChunkStream)\<close>

text \<open>
  The fields are those of the source. \<open>Data\<close> is the content of the slice; \<open>DataRef\<close> names
  its backing array, which \<open>alloc\<close> replaces by a fresh one or keeps. Two slices with the same
  backing array see each other's writes.
\<close>

record ChunkStream =
  Format :: u32
  CSID :: u32
  Timestamp :: u32
  Length :: u32
  TypeID :: u32
  StreamID :: u32
  Data :: bytes
  DataRef :: nat
  Pts :: u32
  Dts :: u32
  timeDelta :: u32
  exted :: bool
  cindex :: u32
  remain :: u32
  complete :: bool
  tmpFromat :: u32

definition zeroChunkStream :: ChunkStream where
  "zeroChunkStream = \<lparr>Format = 0, CSID = 0, Timestamp = 0, Length = 0, TypeID = 0, StreamID = 0,
     Data = [], DataRef = 0, Pts = 0, Dts = 0, timeDelta = 0, exted = False, cindex = 0, remain = 0,
     complete = False, tmpFromat = 0\<rparr>"

definition isComplete :: "ChunkStream \<Rightarrow> bool" where
  "isComplete cs = complete cs"

definition alloc :: "ChunkStream \<Rightarrow> ChunkStream" where
  "alloc cs =
     (let cs1 = cs\<lparr>complete := False, cindex := 0, remain := Length cs\<rparr>
      in if length (Data cs1) < unat (Length cs1)
         then cs1\<lparr>Data := replicate (unat (Length cs1)) 0, DataRef := Suc (DataRef cs1)\<rparr>
         else cs1)"

section \<open>Writing (writeHeader, writeChunk)\<close>

text \<open>
  \<open>writeHeader\<close> ignores the results of the single writes and reports the sticky write error at
  the end. \<open>skip_err m\<close> is such an ignored call.
\<close>

abbreviation skip_err :: "(ReadWriter \<Rightarrow> unit res \<times> ReadWriter) \<Rightarrow> ReadWriter \<Rightarrow> ReadWriter" where
  "skip_err m w \<equiv> snd (m w)"

definition writeBasicHeader :: "ChunkStream \<Rightarrow> ReadWriter \<Rightarrow> ReadWriter" where
  "writeBasicHeader cs w =
     (let h = push_bit 6 (Format cs) in
      if CSID cs < 64 then skip_err (WriteUintBE (h OR CSID cs) 1) w
      else if CSID cs - 64 < 256
      then skip_err (WriteUintLE (CSID cs - 64) 1) (skip_err (WriteUintBE (h OR 0) 1) w)
      else if CSID cs - 64 < 65536
      then skip_err (WriteUintLE (CSID cs - 64) 2) (skip_err (WriteUintBE (h OR 1) 1) w)
      else w)"

definition writeExtended :: "u32 \<Rightarrow> ChunkStream \<Rightarrow> ReadWriter \<Rightarrow> unit res \<times> ReadWriter" where
  "writeExtended ts cs w =
     (let w' = (if ts \<ge> 0xffffff then skip_err (WriteUintBE (Timestamp cs) 4) w else w)
      in (WriteError w', w'))"

definition writeHeader :: "ChunkStream \<Rightarrow> ReadWriter \<Rightarrow> unit res \<times> ReadWriter" where
  "writeHeader cs w =
     (let w1 = writeBasicHeader cs w in
      if Format cs = 3 then writeExtended (Timestamp cs) cs w1
      else
        let ts = (if Timestamp cs > 0xffffff then 0xffffff else Timestamp cs);
            w2 = skip_err (WriteUintBE ts 3) w1 in
        if Format cs = 2 then writeExtended ts cs w2
        else if Length cs > 0xffffff then (Err (Errorf ''length''), w2)
        else
          let w3 = skip_err (WriteUintBE (Length cs) 3) w2;
              w4 = skip_err (WriteUintBE (TypeID cs) 1) w3 in
          if Format cs = 1 then writeExtended ts cs w4
          else writeExtended ts cs (skip_err (WriteUintLE (StreamID cs) 4) w4))"

text \<open>
  The loop \<open>for i := 0; i <= numChunks; i++\<close> of \<open>writeChunk\<close>. The counter is a natural number:
  it could only wrap with \<open>numChunks = 2^32 - 1\<close>, where the length check of the first header
  has already returned an error. \<open>Data[start:end]\<close> panics out of range.
\<close>

function writeChunk_loop ::
  "nat \<Rightarrow> u32 \<Rightarrow> nat \<Rightarrow> u32 \<Rightarrow> ChunkStream \<Rightarrow> ReadWriter \<Rightarrow> unit res \<times> ChunkStream \<times> ReadWriter" where
  "writeChunk_loop numChunks chunkSize i totalLen cs w =
     (if numChunks < i then (Ok (), cs, w)
      else if totalLen = Length cs then (Ok (), cs, w)
      else
        let cs1 = cs\<lparr>Format := (if i = 0 then 0 else 3)\<rparr> in
        (case writeHeader cs1 w of
          (Ok _, w1) \<Rightarrow>
            (let start = of_nat i * chunkSize;
                 dlen = of_nat (length (Data cs1));
                 inc = (if dlen - start \<le> chunkSize then dlen - start else chunkSize)
             in case slice (unat start) (unat (start + inc)) (Data cs1) of
                  Ok buf \<Rightarrow>
                    (case rw_Write buf w1 of
                      (Ok _, w2) \<Rightarrow>
                        writeChunk_loop numChunks chunkSize (Suc i) (totalLen + inc) cs1 w2
                    | (Err e, w2) \<Rightarrow> (Err e, cs1, w2)
                    | (Panic, w2) \<Rightarrow> (Panic, cs1, w2))
                | Err e \<Rightarrow> (Err e, cs1, w1)
                | Panic \<Rightarrow> (Panic, cs1, w1))
        | (Err e, w1) \<Rightarrow> (Err e, cs1, w1)
        | (Panic, w1) \<Rightarrow> (Panic, cs1, w1)))"
  by pat_completeness auto
termination
  by (relation "measure (\<lambda>(n, c, i, t, cs, w). Suc n - i)") auto

declare writeChunk_loop.simps [simp del]

definition chunkCSID :: "u32 \<Rightarrow> u32 \<Rightarrow> u32" where
  "chunkCSID typeID csid =
     (if typeID = TAG_AUDIO then 4
      else if typeID = TAG_VIDEO \<or> typeID = TAG_SCRIPTDATAAMF0 \<or> typeID = TAG_SCRIPTDATAAMF3 then 6
      else csid)"

text \<open>
  The caller passes \<open>int(chunkSize)\<close>, which the code converts back to \<open>uint32\<close>. Dividing by a
  chunk size of zero panics.
\<close>

definition writeChunk ::
  "ChunkStream \<Rightarrow> u32 \<Rightarrow> ReadWriter \<Rightarrow> unit res \<times> ChunkStream \<times> ReadWriter" where
  "writeChunk cs chunkSize w =
     (let cs0 = cs\<lparr>CSID := chunkCSID (TypeID cs) (CSID cs)\<rparr> in
      if chunkSize = 0 then (Panic, cs0, w)
      else writeChunk_loop (unat (Length cs0 div chunkSize)) chunkSize 0 0 cs0 w)"

section \<open>Reading (readChunk)\<close>

text \<open>\<open>ok_val\<close> is the value of a call on the 11-byte header array, which is long enough.\<close>

definition ok_val :: "'a::zero res \<Rightarrow> 'a" where
  "ok_val r = (case r of Ok v \<Rightarrow> v | _ \<Rightarrow> 0)"

lemma ok_val_Ok [simp]: "ok_val (Ok v) = v"
  by (simp add: ok_val_def)

definition messageHeader :: "bytes \<Rightarrow> bytes" where
  "messageHeader got = put_at 0 got (replicate 11 0)"

text \<open>
  The \<open>switch cs.tmpFromat\<close> of \<open>readChunk\<close>: read the message header of the chunk's format and
  say whether an extended time stamp follows.
\<close>

definition readMessageHeader ::
  "ChunkStream \<Rightarrow> ReadWriter \<Rightarrow> bool res \<times> ChunkStream \<times> ReadWriter" where
  "readMessageHeader cs r =
     (if tmpFromat cs = 0 then
        (case rw_Read 11 r of
          ((got, Some e), r') \<Rightarrow> (Err (Errorf ''read message header failed''), cs, r')
        | ((got, None), r') \<Rightarrow>
            (let mh = messageHeader got;
                 cs' = cs\<lparr>Format := tmpFromat cs, Timestamp := ok_val (U24BE mh),
                          Length := ok_val (U24BE (drop 3 mh)), TypeID := ucast (mh ! 6),
                          StreamID := ok_val (U32LE (drop 7 mh))\<rparr>
             in (Ok (Timestamp cs' = 0xFFFFFF), cs', r')))
      else if tmpFromat cs = 1 then
        (case rw_Read 7 r of
          ((got, Some e), r') \<Rightarrow> (Err (Errorf ''read message header failed''), cs, r')
        | ((got, None), r') \<Rightarrow>
            (let mh = messageHeader got;
                 cs' = cs\<lparr>Format := tmpFromat cs, timeDelta := ok_val (U24BE mh),
                          Length := ok_val (U24BE (drop 3 mh)), TypeID := ucast (mh ! 6)\<rparr>
             in (Ok (timeDelta cs' = 0xFFFFFF), cs', r')))
      else if tmpFromat cs = 2 then
        (case rw_Read 3 r of
          ((got, Some e), r') \<Rightarrow> (Err (Errorf ''read message header failed''), cs, r')
        | ((got, None), r') \<Rightarrow>
            (let mh = messageHeader got;
                 cs' = cs\<lparr>Format := tmpFromat cs, timeDelta := ok_val (U24BE mh)\<rparr>
             in (Ok (timeDelta cs' = 0xFFFFFF), cs', r')))
      else if tmpFromat cs = 3 then (Ok (timeDelta cs = 0xFFFFFF), cs, r)
      else (Err (Errorf ''invalid fmt type''), cs, r))"

text \<open>The optional extended time stamp: the four bytes, or none when the field is absent.\<close>

definition readExtended :: "bool \<Rightarrow> ReadWriter \<Rightarrow> bytes res \<times> ReadWriter" where
  "readExtended timeExtend r =
     (if timeExtend then
        (case rw_Read 4 r of
          ((got, Some e), r') \<Rightarrow> (Err (Errorf ''read time extend failed''), r')
        | ((got, None), r') \<Rightarrow> (Ok got, r'))
      else (Ok [], r))"

text \<open>The first chunk of a message allocates the buffer and sets \<open>Pts\<close>.\<close>

definition startMessage :: "bool \<Rightarrow> bytes \<Rightarrow> ChunkStream \<Rightarrow> ChunkStream" where
  "startMessage timeExtend ext cs =
     (let cs1 = alloc cs in
      if tmpFromat cs1 = 0
      then cs1\<lparr>Pts := (if timeExtend then ok_val (U32BE ext) else Timestamp cs1)\<rparr>
      else cs1\<lparr>Pts := Pts cs1 + (if timeExtend then ok_val (U32BE ext) else timeDelta cs1)\<rparr>)"

text \<open>The payload: as much of the message as the chunk size allows, into the buffer.\<close>

definition readPayload ::
  "u32 \<Rightarrow> ChunkStream \<Rightarrow> ReadWriter \<Rightarrow> unit res \<times> ChunkStream \<times> ReadWriter" where
  "readPayload chunkSize cs r =
     (let size = (if remain cs > chunkSize then chunkSize else remain cs);
          lo = unat (cindex cs); hi = unat (cindex cs + size) in
      if lo \<le> hi \<and> hi \<le> length (Data cs) then
        (case rw_Read (hi - lo) r of
          ((got, e), r') \<Rightarrow>
            (let cs1 = cs\<lparr>Data := put_at lo got (Data cs)\<rparr> in
             case e of
               Some _ \<Rightarrow> (Err (Errorf ''read chunk data failed''), cs1, r')
             | None \<Rightarrow>
                 (let cs2 = cs1\<lparr>cindex := cindex cs1 + size, remain := remain cs1 - size\<rparr>
                  in (Ok (), if remain cs2 = 0 then cs2\<lparr>complete := True\<rparr> else cs2, r'))))
      else (Panic, cs, r))"

definition readChunk ::
  "ChunkStream \<Rightarrow> u32 \<Rightarrow> ReadWriter \<Rightarrow> unit res \<times> ChunkStream \<times> ReadWriter" where
  "readChunk cs chunkSize r =
     (let rmark = (remain cs = 0) in
      case readMessageHeader cs r of
        (Err e, cs1, r1) \<Rightarrow> (Err e, cs1, r1)
      | (Panic, cs1, r1) \<Rightarrow> (Panic, cs1, r1)
      | (Ok timeExtend, cs1, r1) \<Rightarrow>
          (case readExtended timeExtend r1 of
            (Err e, r2) \<Rightarrow> (Err e, cs1, r2)
          | (Panic, r2) \<Rightarrow> (Panic, cs1, r2)
          | (Ok ext, r2) \<Rightarrow>
              readPayload chunkSize (if rmark then startMessage timeExtend ext cs1 else cs1) r2))"

section \<open>The wire format\<close>

text \<open>
  The bytes of a chunk header as a function of the header's fields: the basic header in its one,
  two or three byte form, the message header of the chunk's format, the extended time stamp.
\<close>

definition basic_header :: "u32 \<Rightarrow> u32 \<Rightarrow> bytes" where
  "basic_header fmt csid =
     (if csid < 64 then [ucast (push_bit 6 fmt OR csid)]
      else if csid - 64 < 256 then [ucast (push_bit 6 fmt), ucast (csid - 64)]
      else if csid - 64 < 65536 then ucast (push_bit 6 fmt OR 1) # le_bytes 2 (csid - 64)
      else [])"

definition ext_bytes :: "u32 \<Rightarrow> bytes" where
  "ext_bytes ts = (if ts \<ge> 0xffffff then be_bytes 4 ts else [])"

definition header_bytes :: "ChunkStream \<Rightarrow> bytes" where
  "header_bytes cs =
     basic_header (Format cs) (CSID cs) @
     (if Format cs = 3 then [] else be_bytes 3 (min (Timestamp cs) 0xffffff)) @
     (if Format cs = 3 \<or> Format cs = 2 then [] else be_bytes 3 (Length cs) @ [ucast (TypeID cs)]) @
     (if Format cs = 3 \<or> Format cs = 2 \<or> Format cs = 1 then [] else le_bytes 4 (StreamID cs)) @
     ext_bytes (Timestamp cs)"

text \<open>
  \<open>emitted w bs w'\<close>: a run of writes whose results were ignored took \<open>w\<close> to \<open>w'\<close> and was to
  write \<open>bs\<close>. No write error afterwards means all of \<open>bs\<close> is out; a write error stops the run.
\<close>

definition emitted :: "ReadWriter \<Rightarrow> bytes \<Rightarrow> ReadWriter \<Rightarrow> bool" where
  "emitted w bs w' \<longleftrightarrow>
     (writeError w' = None \<longrightarrow> writeError w = None \<and> sent w' = sent w @ bs) \<and>
     (writeError w \<noteq> None \<longrightarrow> w' = w) \<and>
     (\<exists>q. prefix q bs \<and> sent w' = sent w @ q) \<and> rd_same w w' \<and>
     (wok w \<longrightarrow> length bs \<le> room w \<longrightarrow> wok w' \<and> room w' = room w - length bs)"

lemma emitted_refl: "emitted w [] w"
  by (simp add: emitted_def)

lemma emitted_trans:
  assumes "emitted u a v" and "emitted v b w"
  shows "emitted u (a @ b) w"
proof (cases "writeError v")
  case None
  with assms show ?thesis by (auto simp: emitted_def intro: rd_same_trans)
next
  case (Some e)
  with assms have "w = v" by (simp add: emitted_def)
  moreover from assms(1) Some have "\<not> (wok u \<and> length a \<le> room u)" by (auto simp: emitted_def wok_def)
  ultimately show ?thesis using assms(1) Some by (auto simp: emitted_def)
qed

lemma emitted_BE: "emitted w (be_bytes n v) (skip_err (WriteUintBE v n) w)"
  using WriteUintBE_spec [of v n w, OF surjective_pairing]
  by (auto simp: emitted_def) (auto simp: WriteUintBE_def)

lemma emitted_LE: "emitted w (le_bytes n v) (skip_err (WriteUintLE v n) w)"
  using WriteUintLE_spec [of v n w, OF surjective_pairing]
  by (auto simp: emitted_def) (auto simp: WriteUintLE_def)

lemma emitted_byte: "emitted w [ucast v] (skip_err (WriteUintBE v 1) w)"
  using emitted_BE [of w 1 v] by simp

lemma emitted_byte_LE: "emitted w [ucast v] (skip_err (WriteUintLE v 1) w)"
  using emitted_LE [of w 1 v] by simp

lemma emitted_Cons: "emitted u [x] v \<Longrightarrow> emitted v bs w \<Longrightarrow> emitted u (x # bs) w"
  using emitted_trans [of u "[x]" v bs w] by simp

lemma emitted_basic: "emitted w (basic_header (Format cs) (CSID cs)) (writeBasicHeader cs w)"
  unfolding writeBasicHeader_def basic_header_def Let_def
  using emitted_byte emitted_byte_LE emitted_Cons [OF emitted_byte emitted_byte_LE]
    emitted_Cons [OF emitted_byte emitted_LE]
  by (auto intro: emitted_refl simp del: le_bytes.simps)

lemma writeExtended_spec:
  assumes "writeExtended ts cs w = (r, w')" and "ts \<ge> 0xffffff \<longleftrightarrow> Timestamp cs \<ge> 0xffffff"
  shows "emitted w (ext_bytes (Timestamp cs)) w'" and "r = WriteError w'"
  using assms emitted_BE [of w 4 "Timestamp cs"] emitted_refl [of w]
  by (auto simp: writeExtended_def ext_bytes_def Let_def)

lemma writeHeader_spec:
  assumes "writeHeader cs w = (r, w')" and "Format cs = 2 \<or> Format cs = 3 \<or> Length cs \<le> 0xffffff"
  shows "emitted w (header_bytes cs) w'" and "r = WriteError w'"
proof -
  define ts where "ts = (if Timestamp cs > 0xffffff then 0xffffff else Timestamp cs)"
  define w1 where "w1 = writeBasicHeader cs w"
  define w2 where "w2 = skip_err (WriteUintBE ts 3) w1"
  define w3 where "w3 = skip_err (WriteUintBE (Length cs) 3) w2"
  define w4 where "w4 = skip_err (WriteUintBE (TypeID cs) 1) w3"
  define w5 where "w5 = skip_err (WriteUintLE (StreamID cs) 4) w4"
  have ts: "min (Timestamp cs) 0xffffff = ts" by (auto simp: min_def ts_def)
  have ge: "ts \<ge> 0xffffff \<longleftrightarrow> Timestamp cs \<ge> 0xffffff" by (auto simp: ts_def)
  have e1: "emitted w (basic_header (Format cs) (CSID cs)) w1"
    unfolding w1_def by (rule emitted_basic)
  note e2 = emitted_trans [OF e1 emitted_BE [of w1 3 ts, folded w2_def]]
  note e3 = emitted_trans [OF e2 emitted_BE [of w2 3 "Length cs", folded w3_def]]
  note e4 = emitted_trans [OF e3 emitted_byte [of w3 "TypeID cs", folded w4_def]]
  note e5 = emitted_trans [OF e4 emitted_LE [of w4 4 "StreamID cs", folded w5_def]]
  have eq: "writeHeader cs w =
      (if Format cs = 3 then writeExtended (Timestamp cs) cs w1
       else if Format cs = 2 then writeExtended ts cs w2
       else if Format cs = 1 then writeExtended ts cs w4
       else writeExtended ts cs w5)"
    using assms(2) by (auto simp: writeHeader_def Let_def ts_def w1_def w2_def w3_def w4_def w5_def)
  have "emitted w (header_bytes cs) w' \<and> r = WriteError w'"
    using assms(1) writeExtended_spec [of _ cs] ge
      emitted_trans [OF e1] emitted_trans [OF e2] emitted_trans [OF e4] emitted_trans [OF e5]
    unfolding eq header_bytes_def ts by (simp del: be_bytes.simps le_bytes.simps split: if_splits)
  then show "emitted w (header_bytes cs) w'" and "r = WriteError w'" by simp_all
qed

text \<open>The bytes of a whole message split into chunks of \<open>c\<close> bytes of payload.\<close>

function chunk_body :: "nat \<Rightarrow> bytes \<Rightarrow> bytes \<Rightarrow> bytes" where
  "chunk_body c h d = (if c = 0 \<or> d = [] then [] else h @ take c d @ chunk_body c h (drop c d))"
  by pat_completeness auto
termination
  by (relation "measure (\<lambda>(c, h, d). length d)") auto

declare chunk_body.simps [simp del]

definition message_bytes :: "nat \<Rightarrow> ChunkStream \<Rightarrow> bytes" where
  "message_bytes c cs =
     (if Data cs = [] then []
      else header_bytes (cs\<lparr>Format := 0\<rparr>) @ take c (Data cs) @
        chunk_body c (header_bytes (cs\<lparr>Format := 3\<rparr>)) (drop c (Data cs)))"

text \<open>One turn of the loop, with the word arithmetic carried out.\<close>

lemma unat_of_nat_u32: "n < 2 ^ 32 \<Longrightarrow> unat (of_nat n :: u32) = n"
  by (simp add: unsigned_of_nat take_bit_nat_eq_self)

lemma writeChunk_loop_step:
  fixes chunkSize :: u32
  assumes c: "unat chunkSize = c" and n: "length (Data cs) = n" "n \<le> 0xffffff"
    and i: "i \<le> numChunks" "i * c < n" and len: "Length cs = of_nat n"
    and cs1: "cs1 = cs\<lparr>Format := (if i = 0 then 0 else 3)\<rparr>"
  shows "writeChunk_loop numChunks chunkSize i (of_nat (i * c)) cs w =
    (case writeHeader cs1 w of
      (Ok _, w1) \<Rightarrow>
        (case rw_Write (take c (drop (i * c) (Data cs))) w1 of
          (Ok _, w2) \<Rightarrow>
            writeChunk_loop numChunks chunkSize (Suc i) (of_nat (min (Suc i * c) n)) cs1 w2
        | (Err e, w2) \<Rightarrow> (Err e, cs1, w2)
        | (Panic, w2) \<Rightarrow> (Panic, cs1, w2))
    | (Err e, w1) \<Rightarrow> (Err e, cs1, w1)
    | (Panic, w1) \<Rightarrow> (Panic, cs1, w1))"
proof -
  have cz: "chunkSize = of_nat c" using c by auto
  have start: "of_nat i * chunkSize = of_nat (i * c)" by (simp add: cz)
  have diff: "of_nat n - of_nat (i * c) = (of_nat (n - i * c) :: u32)"
    using i by (simp add: of_nat_diff)
  have cmp: "(of_nat (n - i * c) :: u32) \<le> chunkSize \<longleftrightarrow> n - i * c \<le> c"
    using n by (simp add: word_le_nat_alt c unat_of_nat_u32)
  have "unat (of_nat (i * c) :: u32) = i * c" and un: "unat (of_nat n :: u32) = n"
    using n i by (simp_all add: unat_of_nat_u32 del: of_nat_mult)
  then have us: "unat (of_nat (i * c) :: u32) = i * c" and neq: "of_nat (i * c) \<noteq> (of_nat n :: u32)"
    using i by auto
  have inc: "(if n - i * c \<le> c then of_nat (n - i * c) else chunkSize) = of_nat (min c (n - i * c))"
    by (simp add: min_def cz)
  have sum: "i * c + min c (n - i * c) = min (Suc i * c) n"
    using i by (auto simp: min_def)
  have uend: "unat (of_nat (min (Suc i * c) n) :: u32) = min (Suc i * c) n"
    using n(2) by (intro unat_of_nat_u32) (simp add: min_less_iff_disj)
  have sl: "slice (i * c) (min (Suc i * c) n) (Data cs) = Ok (take c (drop (i * c) (Data cs)))"
    using n i by (auto simp: slice_def min_def)
  have tot: "of_nat (i * c) + of_nat (min c (n - i * c)) = (of_nat (min (Suc i * c) n) :: u32)"
    unfolding of_nat_add [symmetric] sum ..
  have data: "Data cs1 = Data cs" using cs1 by simp
  obtain rh w1 where wh: "writeHeader cs1 w = (rh, w1)" by fastforce
  show ?thesis
  proof (cases rh)
    case (Ok u)
    from i have "\<not> numChunks < i" by simp
    with neq Ok show ?thesis
      by (subst writeChunk_loop.simps)
        (simp only: len data n(1) diff cmp inc us uend sl tot start Let_def cs1 [symmetric] wh
          if_False prod.case res.case)
  qed (use i neq in \<open>subst writeChunk_loop.simps, simp add: len wh cs1 [symmetric] Let_def del: of_nat_mult\<close>)+
qed

text \<open>
  What a writer of chunks does to the connection: \<open>writes bs\<close> says the call emitted \<open>bs\<close> if it
  succeeded, a prefix of \<open>bs\<close> otherwise, and succeeds where there is room.
\<close>

definition writes :: "bytes \<Rightarrow> ReadWriter \<Rightarrow> unit res \<times> ReadWriter \<Rightarrow> bool" where
  "writes bs w rw' \<longleftrightarrow> (case rw' of (r, w') \<Rightarrow>
     r \<noteq> Panic \<and> (r = Ok () \<longrightarrow> sent w' = sent w @ bs) \<and>
     (\<exists>q. prefix q bs \<and> sent w' = sent w @ q) \<and> rd_same w w' \<and>
     (wok w \<longrightarrow> length bs \<le> room w \<longrightarrow> r = Ok () \<and> wok w' \<and> room w' = room w - length bs))"

lemma writes_then:
  assumes "writes a w (Ok u, w1)" and "writes b w1 (r, w2)"
  shows "writes (a @ b) w (r, w2)"
  using assms by (auto simp: writes_def intro: rd_same_trans)

lemma writes_fail:
  assumes "writes a w (Err e, w1)"
  shows "writes (a @ b) w (Err e, w1)"
  using assms by (auto simp: writes_def)

lemma writes_done: "writes [] w (Ok (), w)"
  by (simp add: writes_def)

lemma writes_header:
  assumes "Format cs = 2 \<or> Format cs = 3 \<or> Length cs \<le> 0xffffff"
  shows "writes (header_bytes cs) w (writeHeader cs w)"
proof -
  obtain r w' where wh: "writeHeader cs w = (r, w')" by fastforce
  from writeHeader_spec [OF wh assms] show ?thesis
    by (cases "writeError w'") (auto simp: wh writes_def emitted_def WriteError_def wok_def)
qed

lemma writes_raw: "writes p w (rw_Write p w)"
  using rw_write.emit_complete [of p w "()"] rw_write.emit_partial [of p w]
    rw_write.emit_room [of w p] rw_write.emit_frame [of w p] rw_write.emit_no_panic [of p w]
  by (auto simp: writes_def split_beta prod_eq_iff)

lemma writeChunk_loop_turn:
  fixes chunkSize :: u32
  assumes c: "unat chunkSize = c" and n: "length (Data cs) = n" "n \<le> 0xffffff"
    and i: "i \<le> numChunks" "i * c < n" and len: "Length cs = of_nat n"
    and cs1: "cs1 = cs\<lparr>Format := (if i = 0 then 0 else 3)\<rparr>"
    and run: "writeChunk_loop numChunks chunkSize i (of_nat (i * c)) cs w = (r, cs', w')"
    and cont: "\<And>w2. writeChunk_loop numChunks chunkSize (Suc i) (of_nat (min (Suc i * c) n)) cs1 w2
        = (r, cs', w') \<Longrightarrow> writes rest w2 (r, w') \<and> cs'\<lparr>Format := f\<rparr> = cs\<lparr>Format := f\<rparr>"
  shows "writes (header_bytes cs1 @ take c (drop (i * c) (Data cs)) @ rest) w (r, w') \<and>
    cs'\<lparr>Format := f\<rparr> = cs\<lparr>Format := f\<rparr>"
proof -
  note step = run [unfolded writeChunk_loop_step [OF c n i len cs1]]
  have "Length cs1 \<le> 0xffffff"
    using n by (simp add: cs1 len word_le_nat_alt unat_of_nat_u32)
  then have h: "writes (header_bytes cs1) w (writeHeader cs1 w)" by (simp add: writes_header)
  obtain rh w1 where wh: "writeHeader cs1 w = (rh, w1)" by fastforce
  show ?thesis
  proof (cases rh)
    case (Ok u)
    obtain rp w2 where wp: "rw_Write (take c (drop (i * c) (Data cs))) w1 = (rp, w2)" by fastforce
    note p = writes_raw [of "take c (drop (i * c) (Data cs))" w1, unfolded wp]
    note hp = writes_then [OF h [unfolded wh Ok] p]
    show ?thesis
    proof (cases rp)
      case (Ok v)
      with step wh wp \<open>rh = Ok u\<close> cont [of w2] writes_then [OF hp [unfolded Ok], of rest r w']
      show ?thesis by simp
    next
      case (Err e)
      with step wh wp \<open>rh = Ok u\<close> writes_fail [OF hp [unfolded Err], of rest]
      show ?thesis by (auto simp: cs1)
    next
      case Panic
      with p show ?thesis by (simp add: writes_def)
    qed
  next
    case (Err e)
    with step wh writes_fail [OF h [unfolded wh Err]] show ?thesis by (auto simp: cs1)
  next
    case Panic
    with h wh show ?thesis by (simp add: writes_def)
  qed
qed

lemma writeChunk_loop_rest:
  fixes chunkSize :: u32
  assumes c: "unat chunkSize = c" "0 < c" and n: "length (Data cs) = n" "n \<le> 0xffffff"
    and i: "0 < i" and len: "Length cs = of_nat n"
    and run: "writeChunk_loop (n div c) chunkSize i (of_nat (min (i * c) n)) cs w = (r, cs', w')"
  shows "writes (chunk_body c (header_bytes (cs\<lparr>Format := 3\<rparr>)) (drop (i * c) (Data cs))) w (r, w') \<and>
    cs'\<lparr>Format := f\<rparr> = cs\<lparr>Format := f\<rparr>"
  using n i len run
proof (induction "n - i * c" arbitrary: i cs w rule: less_induct)
  case less
  show ?case
  proof (cases "i * c < n")
    case True
    let ?cs1 = "cs\<lparr>Format := 3\<rparr>"
    have le: "i \<le> n div c" using True c by (simp add: less_eq_div_iff_mult_less_eq)
    have "min (i * c) n = i * c" using True by simp
    note run = less.prems(5) [unfolded this]
    have "writes (header_bytes ?cs1 @ take c (drop (i * c) (Data cs)) @
          chunk_body c (header_bytes ?cs1) (drop (Suc i * c) (Data cs))) w (r, w') \<and>
        cs'\<lparr>Format := f\<rparr> = cs\<lparr>Format := f\<rparr>"
    proof (rule writeChunk_loop_turn [OF c(1) less.prems(1,2) le True less.prems(4) _ run])
      show "?cs1 = cs\<lparr>Format := if i = 0 then 0 else 3\<rparr>" using less.prems(3) by simp
      fix w2
      assume run2: "writeChunk_loop (n div c) chunkSize (Suc i) (of_nat (min (Suc i * c) n)) ?cs1 w2
          = (r, cs', w')"
      have "n - Suc i * c < n - i * c" using True c by simp
      from less.hyps [OF this _ less.prems(2) _ _ run2] less.prems
      show "writes (chunk_body c (header_bytes ?cs1) (drop (Suc i * c) (Data cs))) w2 (r, w') \<and>
          cs'\<lparr>Format := f\<rparr> = cs\<lparr>Format := f\<rparr>"
        by simp
    qed
    moreover have "drop (i * c) (Data cs) \<noteq> []" using True less.prems(1) by simp
    ultimately show ?thesis
      using c by (subst chunk_body.simps) (simp add: add.commute)
  next
    case False
    with less.prems show ?thesis
      by (subst (asm) writeChunk_loop.simps) (auto simp: chunk_body.simps writes_done split: if_splits)
  qed
qed

lemma writeChunk_writes:
  assumes "chunkSize \<noteq> 0" and "Length cs = of_nat (length (Data cs))" and "length (Data cs) \<le> 0xffffff"
    and "writeChunk cs chunkSize w = (r, cs', w')"
  shows "writes (message_bytes (unat chunkSize) (cs\<lparr>CSID := chunkCSID (TypeID cs) (CSID cs)\<rparr>)) w (r, w')"
proof -
  let ?cs = "cs\<lparr>CSID := chunkCSID (TypeID cs) (CSID cs)\<rparr>"
  let ?n = "length (Data ?cs)" and ?c = "unat chunkSize"
  have c: "0 < ?c" using assms(1) by (simp add: unat_gt_0)
  have "unat (Length ?cs) = ?n" using assms(2,3) by (simp add: unat_of_nat_u32)
  then have "unat (Length ?cs div chunkSize) = ?n div ?c" by (simp add: unat_div)
  with assms(1,4) have run: "writeChunk_loop (?n div ?c) chunkSize 0 0 ?cs w = (r, cs', w')"
    by (simp add: writeChunk_def Let_def)
  show ?thesis
  proof (cases "Data cs = []")
    case True
    with run assms(2) show ?thesis
      by (subst (asm) writeChunk_loop.simps) (auto simp: message_bytes_def writes_done)
  next
    case False
    let ?rest = "chunk_body ?c (header_bytes (?cs\<lparr>Format := 3\<rparr>)) (drop ?c (Data cs))"
    have "writes (header_bytes (?cs\<lparr>Format := 0\<rparr>) @ take ?c (drop (0 * ?c) (Data ?cs)) @ ?rest) w (r, w') \<and>
        cs'\<lparr>Format := 0\<rparr> = ?cs\<lparr>Format := 0\<rparr>"
    proof (rule writeChunk_loop_turn [where i = 0 and n = ?n])
      show "writeChunk_loop (?n div ?c) chunkSize 0 (of_nat (0 * ?c)) ?cs w = (r, cs', w')"
        using run by simp
      fix w2
      assume "writeChunk_loop (?n div ?c) chunkSize (Suc 0) (of_nat (min (Suc 0 * ?c) ?n))
          (?cs\<lparr>Format := 0\<rparr>) w2 = (r, cs', w')"
      from writeChunk_loop_rest [OF refl c _ _ _ _ this, of 0] assms(2,3)
      show "writes ?rest w2 (r, w') \<and> cs'\<lparr>Format := 0\<rparr> = ?cs\<lparr>Format := 0\<rparr>" by simp
    qed (use assms(2,3) False in simp_all)
    with False show ?thesis by (simp add: message_bytes_def)
  qed
qed

section \<open>Assembling a message\<close>

text \<open>
  The invariant of the assembly buffer: what is still to be read fits behind what has been read.
  Lengths come from 24-bit fields.
\<close>

definition cs_inv :: "ChunkStream \<Rightarrow> bool" where
  "cs_inv cs \<longleftrightarrow> unat (cindex cs) + unat (remain cs) \<le> length (Data cs) \<and>
     length (Data cs) < 2 ^ 24 \<and> unat (Length cs) < 2 ^ 24"

lemma cs_inv_zero: "cs_inv (zeroChunkStream\<lparr>CSID := csid\<rparr>)"
  by (simp add: cs_inv_def zeroChunkStream_def)

lemma cs_inv_tmpFromat [simp]: "cs_inv (cs\<lparr>tmpFromat := f\<rparr>) = cs_inv cs"
  by (simp add: cs_inv_def)

lemma unat_be_word3:
  assumes "length b = 3"
  shows "unat (be_word b :: u32) < 2 ^ 24"
proof -
  have "take_bit 24 (be_word b :: u32) = be_word b"
    by (rule bit_word_eqI) (use assms in \<open>auto simp: bit_simps dest: bit_be_word_bound\<close>)
  then have "unat (be_word b :: u32) = unat (take_bit 24 (be_word b :: u32))" by simp
  also have "\<dots> < 2 ^ 24" by (simp only: unsigned_take_bit_eq take_bit_nat_less_exp)
  finally show ?thesis .
qed

lemma unat_U24BE: "unat (ok_val (U24BE b)) < 2 ^ 24"
  using unat_be_word3 [of "take 3 b"] by (simp add: byte_simps ok_val_def)

lemma readMessageHeader_inv:
  assumes "readMessageHeader cs r = (x, cs', r')" and "cs_inv cs"
  shows "cs_inv cs'" and "x \<noteq> Panic" and "remain cs' = remain cs" and "CSID cs' = CSID cs"
    and "wr_same r r'" and "length (rin r') \<le> length (rin r)" and "tmpFromat cs' = tmpFromat cs"
    and "Data cs' = Data cs" and "DataRef cs' = DataRef cs"
proof -
  have "cs_inv cs' \<and> x \<noteq> Panic \<and> remain cs' = remain cs \<and> CSID cs' = CSID cs \<and> wr_same r r' \<and>
      length (rin r') \<le> length (rin r) \<and> tmpFromat cs' = tmpFromat cs \<and> Data cs' = Data cs \<and>
      DataRef cs' = DataRef cs"
    using assms rw_Read_frame [of r 11] rw_Read_frame [of r 7] rw_Read_frame [of r 3]
      rw_Read_le [of 11 r] rw_Read_le [of 7 r] rw_Read_le [of 3 r]
    by (auto simp: readMessageHeader_def cs_inv_def Let_def wr_same_def split: if_splits prod.splits
        option.splits intro!: unat_U24BE [simplified])
  then show "cs_inv cs'" "x \<noteq> Panic" "remain cs' = remain cs" "CSID cs' = CSID cs"
    "wr_same r r'" "length (rin r') \<le> length (rin r)" "tmpFromat cs' = tmpFromat cs"
    "Data cs' = Data cs" "DataRef cs' = DataRef cs" by simp_all
qed

lemma alloc_inv: "cs_inv cs \<Longrightarrow> cs_inv (alloc cs)"
  by (auto simp: alloc_def cs_inv_def Let_def)

lemma startMessage_inv: "cs_inv cs \<Longrightarrow> cs_inv (startMessage te ext cs)"
  using alloc_inv [of cs] by (auto simp: startMessage_def Let_def cs_inv_def)

lemma startMessage_frame [simp]:
  "CSID (startMessage te ext cs) = CSID cs"
  by (simp add: startMessage_def alloc_def Let_def)

lemma readPayload_inv:
  assumes "readPayload chunkSize cs r = (x, cs', r')" and "cs_inv cs"
  shows "cs_inv cs'" and "x \<noteq> Panic" and "CSID cs' = CSID cs" and "wr_same r r'"
    and "length (rin r') \<le> length (rin r)"
proof -
  define size where "size = (if remain cs > chunkSize then chunkSize else remain cs)"
  have size: "unat size \<le> unat (remain cs)"
    by (auto simp: size_def word_less_nat_alt)
  have "unat (cindex cs) + unat size < 2 ^ 32"
    using assms(2) size by (simp add: cs_inv_def)
  then have hi: "unat (cindex cs + size) = unat (cindex cs) + unat size"
    by (simp add: unat_word_ariths)
  then have hi': "size = remain cs \<Longrightarrow> unat (cindex cs + remain cs) = unat (cindex cs) + unat (remain cs)"
    by simp
  have sub: "unat (remain cs - size) = unat (remain cs) - unat size"
    using size by (simp add: unat_sub word_le_nat_alt)
  obtain got e r1 where rd: "rw_Read (unat size) r = ((got, e), r1)"
    by (metis surj_pair)
  have fits: "unat (cindex cs) + unat size \<le> length (Data cs)" "unat (cindex cs) \<le> length (Data cs)"
    using assms(2) size by (auto simp: cs_inv_def)
  have "cs_inv cs' \<and> x \<noteq> Panic \<and> CSID cs' = CSID cs \<and> r' = r1"
    using assms rd fits
    by (auto simp: readPayload_def size_def [symmetric] Let_def hi hi' sub cs_inv_def size
        split: option.splits if_splits)
  then show "cs_inv cs'" "x \<noteq> Panic" "CSID cs' = CSID cs" "wr_same r r'"
    "length (rin r') \<le> length (rin r)"
    using rd rw_Read_frame [of r "unat size"] rw_Read_le [of "unat size" r] by simp_all
qed

lemma readChunk_inv:
  assumes "readChunk cs chunkSize r = (x, cs', r')" and "cs_inv cs"
  shows "cs_inv cs'" and "x \<noteq> Panic" and "CSID cs' = CSID cs" and "wr_same r r'"
    and "length (rin r') \<le> length (rin r)"
proof -
  obtain h cs1 r1 where h: "readMessageHeader cs r = (h, cs1, r1)" by (metis surj_pair)
  note hi = readMessageHeader_inv [OF h assms(2)]
  have "cs_inv cs' \<and> x \<noteq> Panic \<and> CSID cs' = CSID cs \<and> wr_same r r' \<and> length (rin r') \<le> length (rin r)"
  proof (cases h)
    case (Ok te)
    obtain er r2 where ext: "readExtended te r1 = (er, r2)" by fastforce
    have r2: "wr_same r1 r2" "length (rin r2) \<le> length (rin r1)" "er \<noteq> Panic"
      using ext rw_Read_frame [of r1 4] rw_Read_le [of 4 r1]
      by (auto simp: readExtended_def wr_same_def split: if_splits prod.splits option.splits)
    show ?thesis
    proof (cases er)
      case (Ok e)
      let ?cs = "if remain cs = 0 then startMessage te e cs1 else cs1"
      have "readPayload chunkSize ?cs r2 = (x, cs', r')"
        using assms(1) h ext Ok \<open>h = Ok te\<close> by (simp add: readChunk_def)
      moreover have "cs_inv ?cs" using hi startMessage_inv by simp
      ultimately show ?thesis
        using readPayload_inv [of chunkSize ?cs r2 x cs' r'] hi r2
        by (auto simp: wr_same_def)
    qed (use assms(1) h ext \<open>h = Ok te\<close> hi r2 in \<open>auto simp: readChunk_def wr_same_def\<close>)
  qed (use assms(1) h hi in \<open>auto simp: readChunk_def\<close>)
  then show "cs_inv cs'" "x \<noteq> Panic" "CSID cs' = CSID cs" "wr_same r r'"
    "length (rin r') \<le> length (rin r)" by simp_all
qed

text \<open>
  \<open>assembled d k cs\<close>: the first \<open>k\<close> bytes of the message \<open>d\<close> are in the buffer of \<open>cs\<close> and the
  rest is still to come.
\<close>

definition assembled :: "bytes \<Rightarrow> nat \<Rightarrow> ChunkStream \<Rightarrow> bool" where
  "assembled d k cs \<longleftrightarrow> k \<le> length d \<and> length d \<le> 0xffffff \<and> Length cs = of_nat (length d) \<and>
     length d \<le> length (Data cs) \<and> length (Data cs) < 2 ^ 24 \<and> take k (Data cs) = take k d \<and>
     cindex cs = of_nat k \<and> remain cs = of_nat (length d - k) \<and> (complete cs \<longleftrightarrow> k = length d)"

definition same_message :: "ChunkStream \<Rightarrow> ChunkStream \<Rightarrow> bool" where
  "same_message cs cs' \<longleftrightarrow> Format cs' = Format cs \<and> CSID cs' = CSID cs \<and> Timestamp cs' = Timestamp cs \<and>
     Length cs' = Length cs \<and> TypeID cs' = TypeID cs \<and> StreamID cs' = StreamID cs \<and>
     DataRef cs' = DataRef cs \<and> timeDelta cs' = timeDelta cs \<and> Pts cs' = Pts cs"

lemma assembled_unat:
  assumes "assembled d k cs"
  shows "unat (remain cs) = length d - k" and "unat (cindex cs) = k"
    and "unat (Length cs) = length d"
  using assms unat_of_nat_u32 [of "length d - k"] unat_of_nat_u32 [of k] unat_of_nat_u32 [of "length d"]
  by (auto simp: assembled_def simp del: of_nat_diff)

lemma assembled_inv: "assembled d k cs \<Longrightarrow> cs_inv cs"
  using assembled_unat [of d k cs] by (simp add: cs_inv_def) (simp add: assembled_def)

lemma take_put_at_extend:
  assumes "take k b = take k d" and "k + length p \<le> length b" and "k \<le> length d"
    and "p = take m (drop k d)" and "k + m \<le> length d"
  shows "take (k + m) (put_at k p b) = take (k + m) d"
proof -
  have "length p = m" using assms by simp
  with assms have "take (k + m) (put_at k p b) = take k d @ p"
    by (simp add: put_at_fit)
  with assms(4) show ?thesis by (simp add: take_add)
qed

lemma readPayload_assembled:
  assumes asm: "assembled d k cs" and cz: "unat chunkSize = c" and m: "m = min c (length d - k)"
    and rin: "rin r = take c (drop k d) @ rest" and ok: "readError r = None"
    and unfinished: "k < length d"
  shows "\<exists>cs'. readPayload chunkSize cs r = (Ok (), cs', r\<lparr>rin := rest\<rparr>) \<and>
    assembled d (k + m) cs' \<and> same_message cs cs'"
proof -
  note a = asm [unfolded assembled_def]
  define size where "size = (if remain cs > chunkSize then chunkSize else remain cs)"
  have "unat (remain cs) = length d - k" using asm by (rule assembled_unat)
  then have us: "unat size = m"
    by (auto simp: size_def word_less_nat_alt cz m)
  then have sz: "size = of_nat m" by auto
  have km: "k + m \<le> length d" using m a by auto
  have lo: "unat (cindex cs) = k" using asm by (rule assembled_unat)
  have "cindex cs + size = of_nat (k + m)" using a sz by simp
  then have hi: "unat (cindex cs + size) = k + m"
    using km a by (simp add: unat_of_nat_u32 del: of_nat_add)
  have pl: "take c (drop k d) = take m (drop k d)" by (simp add: m min_def)
  have lp: "length (take m (drop k d)) = m" using km by simp
  have rem: "remain cs - size = of_nat (length d - (k + m))"
    using a sz km by (simp add: of_nat_diff)
  let ?cs1 = "cs\<lparr>Data := put_at k (take m (drop k d)) (Data cs), cindex := cindex cs + size,
    remain := remain cs - size\<rparr>"
  let ?cs2 = "if remain ?cs1 = 0 then ?cs1\<lparr>complete := True\<rparr> else ?cs1"
  have run: "readPayload chunkSize cs r = (Ok (), ?cs2, r\<lparr>rin := rest\<rparr>)"
  proof -
    have "k \<le> k + m \<and> k + m \<le> length (Data cs)" using km a by auto
    moreover have "rw_Read m r = ((take m (drop k d), None), r\<lparr>rin := rest\<rparr>)"
      using rin pl lp ok by simp
    ultimately show ?thesis
      by (simp add: readPayload_def size_def [symmetric] lo hi Let_def)
  qed
  have z: "remain ?cs1 = 0 \<longleftrightarrow> k + m = length d"
  proof -
    have "length d < 2 ^ 32" using a by simp
    then have "length d - (k + m) < 2 ^ 32" by (rule less_imp_diff_less)
    then have "unat (remain cs - size) = length d - (k + m)"
      unfolding rem by (rule unat_of_nat_u32)
    then have "remain cs - size = 0 \<longleftrightarrow> length d - (k + m) = 0"
      by (metis unat_eq_zero)
    then show ?thesis using km by auto
  qed
  have "take (k + m) (put_at k (take m (drop k d)) (Data cs)) = take (k + m) d"
    using a km lp by (intro take_put_at_extend) auto
  then have "assembled d (k + m) ?cs2"
    using a km rem z lp unfinished sz unfolding assembled_def by (auto simp del: of_nat_diff)
  moreover have "same_message cs ?cs2" by (simp add: same_message_def)
  ultimately show ?thesis using run by blast
qed

lemma readChunk_continue:
  assumes asm: "assembled d k cs" and k: "k < length d" and fmt: "tmpFromat cs = 3"
    and td: "timeDelta cs \<noteq> 0xFFFFFF" and cz: "unat chunkSize = c"
    and rin: "rin r = take c (drop k d) @ rest" and ok: "readError r = None"
  shows "\<exists>cs'. readChunk cs chunkSize r = (Ok (), cs', r\<lparr>rin := rest\<rparr>) \<and>
    assembled d (k + min c (length d - k)) cs' \<and> same_message cs cs'"
proof -
  have "remain cs \<noteq> 0"
    using assembled_unat(1) [OF asm] k by auto
  then have "readChunk cs chunkSize r = readPayload chunkSize cs r"
    using fmt td by (simp add: readChunk_def readMessageHeader_def readExtended_def)
  with readPayload_assembled [OF asm cz refl rin ok k] show ?thesis by simp
qed

text \<open>The first chunk of a message, of format 0 and without extended time stamp.\<close>

lemma messageHeader_full: "length got = 11 \<Longrightarrow> messageHeader got = got"
  by (simp add: messageHeader_def)

lemma readMessageHeader_format0:
  assumes "tmpFromat cs = 0" and "readError r = None"
    and "rin r = be_bytes 3 ts @ be_bytes 3 len @ [ty] @ le_bytes 4 sid @ rest"
    and "unat ts < 2 ^ 24" and "unat len < 2 ^ 24"
  shows "readMessageHeader cs r =
    (Ok (ts = 0xFFFFFF), cs\<lparr>Format := 0, Timestamp := ts, Length := len, TypeID := ucast ty,
       StreamID := sid\<rparr>, r\<lparr>rin := rest\<rparr>)"
proof -
  define got where "got = be_bytes 3 ts @ be_bytes 3 len @ [ty] @ le_bytes 4 sid"
  have len: "length got = 11" by (simp add: got_def)
  have "take 3 got = be_bytes 3 ts" "take 3 (drop 3 got) = be_bytes 3 len" "got ! 6 = ty"
    "take 4 (drop 7 got) = le_bytes 4 sid"
    by (simp_all add: got_def nth_append del: be_bytes.simps le_bytes.simps)
  then have "ok_val (U24BE got) = ts" "ok_val (U24BE (drop 3 got)) = len" "got ! 6 = ty"
    "ok_val (U32LE (drop 7 got)) = sid"
    using assms(4,5) len
    by (simp_all add: byte_simps be_word_be_bytes le_word_le_bytes take_bit_fits)
  moreover have "rw_Read 11 r = ((got, None), r\<lparr>rin := rest\<rparr>)"
    using assms(2,3) len by (simp add: got_def)
  ultimately show ?thesis
    using assms(1) by (simp add: readMessageHeader_def messageHeader_full len Let_def)
qed

lemma startMessage_assembled:
  assumes "Length cs = of_nat (length d)" and "length d \<le> 0xffffff" and "length (Data cs) < 2 ^ 24"
    and "d \<noteq> []"
  shows "assembled d 0 (startMessage te ext cs)"
proof -
  have "unat (of_nat (length d) :: u32) = length d" using assms(2) by (simp add: unat_of_nat_u32)
  with assms show ?thesis
    by (auto simp: startMessage_def alloc_def assembled_def Let_def)
qed

lemma readChunk_first:
  assumes idle: "remain cs = 0" and inv: "cs_inv cs" and fmt: "tmpFromat cs = 0"
    and ok: "readError r = None" and cz: "unat chunkSize = c" and d: "d \<noteq> []" "length d \<le> 0xffffff"
    and ts: "ts < 0xffffff" and td: "timeDelta cs \<noteq> 0xFFFFFF"
    and rin: "rin r = be_bytes 3 ts @ be_bytes 3 (of_nat (length d) :: u32) @ [ty] @ le_bytes 4 sid @
        take c d @ rest"
  shows "\<exists>cs'. readChunk cs chunkSize r = (Ok (), cs', r\<lparr>rin := rest\<rparr>) \<and>
    assembled d (min c (length d)) cs' \<and> CSID cs' = CSID cs \<and> Timestamp cs' = ts \<and> TypeID cs' = ucast ty \<and>
    StreamID cs' = sid \<and> timeDelta cs' = timeDelta cs \<and> Format cs' = 0 \<and> Pts cs' = ts"
proof -
  let ?len = "of_nat (length d) :: u32"
  let ?cs1 = "cs\<lparr>Format := 0, Timestamp := ts, Length := ?len, TypeID := ucast ty, StreamID := sid\<rparr>"
  let ?cs2 = "startMessage False [] ?cs1"
  let ?r1 = "r\<lparr>rin := take c d @ rest\<rparr>"
  have u: "unat ts < 2 ^ 24" "unat ?len < 2 ^ 24" "ts \<noteq> 0xFFFFFF"
    using ts d by (auto simp: word_less_nat_alt unat_of_nat_u32)
  have "readMessageHeader cs r = (Ok False, ?cs1, ?r1)"
    using readMessageHeader_format0 [OF fmt ok _ u(1,2), of ty sid "take c d @ rest"] rin u(3) by simp
  then have run: "readChunk cs chunkSize r = readPayload chunkSize ?cs2 ?r1"
    using idle by (simp add: readChunk_def readExtended_def)
  have asm: "assembled d 0 ?cs2"
    using d inv by (intro startMessage_assembled) (auto simp: cs_inv_def)
  obtain cs' where "readPayload chunkSize ?cs2 ?r1 = (Ok (), cs', ?r1\<lparr>rin := rest\<rparr>)"
    "assembled d (min c (length d)) cs'" "same_message ?cs2 cs'"
    using readPayload_assembled [OF asm cz refl, of ?r1 rest] d ok by auto
  moreover have "Timestamp ?cs2 = ts" "TypeID ?cs2 = ucast ty" "StreamID ?cs2 = sid"
    "timeDelta ?cs2 = timeDelta cs" "Format ?cs2 = 0" "Pts ?cs2 = ts"
    using fmt by (simp_all add: startMessage_def alloc_def Let_def)
  ultimately show ?thesis using run by (auto simp: same_message_def)
qed

section \<open>Properties\<close>

text \<open>
  C8: \<open>writeChunk\<close> of a message whose \<open>Length\<close> is the length of its data never panics, sends
  exactly the chunk format of the message when it succeeds and a prefix of it otherwise, leaves
  the reading half alone, and succeeds whenever the connection works and has room.
\<close>

theorem writeChunk_wire_format:
  assumes "n \<noteq> 0" and "Length cs = of_nat (length (Data cs))" and "length (Data cs) \<le> 0xffffff"
    and "writeChunk cs n w = (r, cs', w')"
    and "bs = message_bytes (unat n) (cs\<lparr>CSID := chunkCSID (TypeID cs) (CSID cs)\<rparr>)"
  shows "r \<noteq> Panic \<and> (r = Ok () \<longrightarrow> sent w' = sent w @ bs) \<and> (\<exists>q. prefix q bs \<and> sent w' = sent w @ q) \<and>
    rd_same w w' \<and> (wok w \<longrightarrow> length bs \<le> room w \<longrightarrow> r = Ok ())"
  using writeChunk_writes [OF assms(1-4)] assms(5) by (auto simp: writes_def)

theorem writeChunk_wire_format_witness:
  "let w = NewReadWriter [] EOF 60 EOF 16;
       cs = zeroChunkStream\<lparr>CSID := 3, TypeID := 20, Length := 5, Data := [1, 2, 3, 4, 5]\<rparr>
   in sent (snd (snd (writeChunk cs 2 w))) =
        [3, 0, 0, 0, 0, 0, 5, 20, 0, 0, 0, 0, 1, 2, 0xc3, 3, 4, 0xc3, 5]"
proof -
  let ?w = "NewReadWriter [] EOF 60 EOF 16"
  let ?cs = "zeroChunkStream\<lparr>CSID := 3, TypeID := 20, Length := 5, Data := [1, 2, 3, 4, 5]\<rparr>"
  let ?bs = "message_bytes (unat (2 :: u32)) (?cs\<lparr>CSID := chunkCSID (TypeID ?cs) (CSID ?cs)\<rparr>)"
  obtain r cs' w' where run: "writeChunk ?cs 2 ?w = (r, cs', w')" by (metis surj_pair)
  have bs: "?bs = [3, 0, 0, 0, 0, 0, 5, 20, 0, 0, 0, 0, 1, 2, 0xc3, 3, 4, 0xc3, 5]" by code_simp
  have "wok ?w" "room ?w = 60" "sent ?w = []"
    by (simp_all add: wok_def room_def sent_def NewReadWriter_def)
  moreover have "r = Ok () \<longrightarrow> sent w' = sent ?w @ ?bs" "wok ?w \<longrightarrow> length ?bs \<le> room ?w \<longrightarrow> r = Ok ()"
    using writeChunk_wire_format [OF _ _ _ run refl] by simp_all
  ultimately show ?thesis using run bs by (simp add: Let_def)
qed

text \<open>
  C14: Reading a chunk, whatever bytes arrive, keeps the invariant of the assembly buffer (the bytes
  still expected fit behind those already read), never panics, keeps the chunk stream id and
  leaves the writing half of the connection alone.
\<close>

theorem readChunk_safe:
  assumes "cs_inv cs" and "readChunk cs n r = (x, cs', r')"
  shows "cs_inv cs' \<and> x \<noteq> Panic \<and> CSID cs' = CSID cs \<and> wr_same r r'"
  using readChunk_inv [OF assms(2,1)] by simp

theorem readChunk_safe_witness:
  "case readChunk (zeroChunkStream\<lparr>CSID := 5\<rparr>) 128 (NewReadWriter [0, 0, 1, 0, 0, 9] EOF 60 EOF 16) of
     (x, cs', r') \<Rightarrow> cs_inv cs' \<and> x \<noteq> Panic \<and> CSID cs' = 5"
proof -
  let ?cs = "zeroChunkStream\<lparr>CSID := 5\<rparr>" and ?r = "NewReadWriter [0, 0, 1, 0, 0, 9] EOF 60 EOF 16"
  obtain x cs' r' where run: "readChunk ?cs 128 ?r = (x, cs', r')" by (metis surj_pair)
  from readChunk_safe [OF cs_inv_zero run] run show ?thesis by simp
qed

text \<open>
  A chunk of format 1, 2 or 3 never changes the time stamp that is later handed to the caller:
  the delta it carries only goes into \<open>Pts\<close>, so relative time stamps are lost.
\<close>

theorem delta_chunks_keep_timestamp:
  assumes "tmpFromat cs \<noteq> 0" and "readChunk cs n r = (x, cs', r')"
  shows "Timestamp cs' = Timestamp cs"
proof -
  obtain h cs1 r1 where h: "readMessageHeader cs r = (h, cs1, r1)" by (metis surj_pair)
  have 1: "Timestamp cs1 = Timestamp cs"
    using h assms(1) by (auto simp: readMessageHeader_def Let_def split: if_splits prod.splits option.splits)
  have 2: "Timestamp (fst (snd (readPayload n c r2))) = Timestamp c" for c r2
    by (auto simp: readPayload_def Let_def split: prod.splits option.splits)
  have 3: "Timestamp (startMessage te e cs1) = Timestamp cs1" for te e
    by (simp add: startMessage_def alloc_def Let_def)
  show ?thesis
  proof (cases h)
    case (Ok te)
    obtain er r2 where ext: "readExtended te r1 = (er, r2)" by fastforce
    show ?thesis
    proof (cases er)
      case (Ok e)
      with assms(2) h ext \<open>h = Ok te\<close> 1 2 [of "if remain cs = 0 then startMessage te e cs1 else cs1" r2] 3
      show ?thesis by (simp add: readChunk_def split: if_splits)
    qed (use assms(2) h ext \<open>h = Ok te\<close> 1 in \<open>auto simp: readChunk_def\<close>)
  qed (use assms(2) h 1 in \<open>auto simp: readChunk_def\<close>)
qed

theorem delta_chunks_keep_timestamp_witness:
  "case readChunk (zeroChunkStream\<lparr>tmpFromat := 2, Timestamp := 1000, Length := 1\<rparr>) 128
      (NewReadWriter [0, 0, 40, 7] EOF 60 EOF 16) of
     (x, cs', r') \<Rightarrow> Timestamp cs' = 1000"
proof -
  let ?cs = "zeroChunkStream\<lparr>tmpFromat := 2, Timestamp := 1000, Length := 1\<rparr>"
  obtain x cs' r' where run: "readChunk ?cs 128 (NewReadWriter [0, 0, 40, 7] EOF 60 EOF 16) = (x, cs', r')"
    by (metis surj_pair)
  from delta_chunks_keep_timestamp [OF _ run] run show ?thesis by simp
qed

end
