(* ===== verification/RtmpConn.thy ===== *)
theory RtmpConn
  imports ChunkStream
begin

text \<open>
  The connection of \<open>protocol/core/rtmp_conn.go\<close>: \<open>Read\<close> reassembles messages from interleaved
  chunk streams and handles the protocol control messages, \<open>Write\<close> splits messages into chunks.
  The lemmas show that \<open>Read\<close> terminates, keeps the invariant of all chunk streams, and gives
  back the messages a peer wrote.
\<close>

section \<open>State and control messages\<close>

abbreviation (input) idSetChunkSize :: u32 where "idSetChunkSize \<equiv> 1"
abbreviation (input) idAbortMessage :: u32 where "idAbortMessage \<equiv> 2"
abbreviation (input) idAck :: u32 where "idAck \<equiv> 3"
abbreviation (input) idUserControlMessages :: u32 where "idUserControlMessages \<equiv> 4"
abbreviation (input) idWindowAckSize :: u32 where "idWindowAckSize \<equiv> 5"
abbreviation (input) idSetPeerBandwidth :: u32 where "idSetPeerBandwidth \<equiv> 6"

abbreviation (input) streamBegin :: u32 where "streamBegin \<equiv> 0"
abbreviation (input) streamIsRecorded :: u32 where "streamIsRecorded \<equiv> 4"

record RtmpConn =
  chunkSize :: u32
  remoteChunkSize :: u32
  windowAckSize :: u32
  remoteWindowAckSize :: u32
  received :: u32
  ackReceived :: u32
  rw :: ReadWriter
  cpool :: Pool
  chunks :: "u32 \<rightharpoonup> ChunkStream"

text \<open>The argument is the buffered reader and writer that \<open>NewReadWriter\<close> makes of the connection.\<close>

definition NewRtmpConn :: "ReadWriter \<Rightarrow> RtmpConn" where
  "NewRtmpConn w = \<lparr>chunkSize = 128, remoteChunkSize = 128, windowAckSize = 2500000,
     remoteWindowAckSize = 2500000, received = 0, ackReceived = 0, rw = w, cpool = NewPool,
     chunks = (\<lambda>_. None)\<rparr>"

text \<open>\<open>PutU32BE\<close> on a buffer shorter than four bytes panics.\<close>

definition initControlMsg :: "u32 \<Rightarrow> u32 \<Rightarrow> u32 \<Rightarrow> ChunkStream res" where
  "initControlMsg typ sz value =
     res_bind (PutU32BE (replicate (unat sz) 0) value) (\<lambda>d.
       Ok (zeroChunkStream\<lparr>Format := 0, CSID := 2, TypeID := typ, StreamID := 0, Length := sz,
         Data := d\<rparr>))"

definition NewAck :: "u32 \<Rightarrow> ChunkStream res" where
  "NewAck sz = initControlMsg idAck 4 sz"

definition NewSetChunkSize :: "u32 \<Rightarrow> ChunkStream res" where
  "NewSetChunkSize sz = initControlMsg idSetChunkSize 4 sz"

definition NewWindowAckSize :: "u32 \<Rightarrow> ChunkStream res" where
  "NewWindowAckSize sz = initControlMsg idWindowAckSize 4 sz"

definition NewSetPeerBandwidth :: "u32 \<Rightarrow> ChunkStream res" where
  "NewSetPeerBandwidth sz =
     res_bind (initControlMsg idSetPeerBandwidth 5 sz) (\<lambda>ret.
       res_bind (set_index (Data ret) 4 2) (\<lambda>d. Ok (ret\<lparr>Data := d\<rparr>)))"

definition userControlMsg :: "u32 \<Rightarrow> u32 \<Rightarrow> ChunkStream res" where
  "userControlMsg eventType buflen =
     (let buflen' = buflen + 2;
          d0 = replicate (unat buflen') 0 in
      res_bind (set_index d0 0 (ucast (drop_bit 8 eventType AND 0xff))) (\<lambda>d1.
      res_bind (set_index d1 1 (ucast (eventType AND 0xff))) (\<lambda>d2.
        Ok (zeroChunkStream\<lparr>Format := 0, CSID := 2, TypeID := 4, StreamID := 1, Length := buflen',
          Data := d2\<rparr>))))"

section \<open>Writing\<close>

text \<open>The message is passed by reference: \<open>writeChunk\<close> changes its \<open>CSID\<close> and \<open>Format\<close>.\<close>

definition conn_writeChunk :: "ChunkStream \<Rightarrow> RtmpConn \<Rightarrow> unit res \<times> ChunkStream \<times> RtmpConn" where
  "conn_writeChunk c conn =
     (case writeChunk c (chunkSize conn) (rw conn) of (r, c', w') \<Rightarrow> (r, c', conn\<lparr>rw := w'\<rparr>))"

definition Write :: "ChunkStream \<Rightarrow> RtmpConn \<Rightarrow> unit res \<times> ChunkStream \<times> RtmpConn" where
  "Write c conn =
     (if TypeID c = idSetChunkSize then
        (case U32BE (Data c) of
          Ok n \<Rightarrow> conn_writeChunk c (conn\<lparr>chunkSize := n\<rparr>)
        | Err e \<Rightarrow> (Err e, c, conn)
        | Panic \<Rightarrow> (Panic, c, conn))
      else conn_writeChunk c conn)"

definition conn_Flush :: "RtmpConn \<Rightarrow> unit res \<times> RtmpConn" where
  "conn_Flush conn = (case rw_Flush (rw conn) of (r, w') \<Rightarrow> (r, conn\<lparr>rw := w'\<rparr>))"

text \<open>
  \<open>SetBegin\<close> and \<open>SetRecorded\<close> fill in the stream id 1, byte by byte, and ignore the result of
  the write; only a panic comes through.
\<close>

definition streamIdByte :: "nat \<Rightarrow> u8" where
  "streamIdByte i = ucast (drop_bit ((3 - i) * 8) (1 :: u32) AND 0xff)"

definition sendUserControl :: "u32 \<Rightarrow> RtmpConn \<Rightarrow> unit res \<times> RtmpConn" where
  "sendUserControl event conn =
     (case res_bind (userControlMsg event 4) (\<lambda>ret.
             foldl (\<lambda>acc i. res_bind acc (\<lambda>m.
                 res_bind (set_index (Data m) (2 + i) (streamIdByte i)) (\<lambda>d. Ok (m\<lparr>Data := d\<rparr>))))
               (Ok ret) [0..<4]) of
       Ok ret \<Rightarrow> (case Write ret conn of
           (Panic, _, conn') \<Rightarrow> (Panic, conn')
         | (_, _, conn') \<Rightarrow> (Ok (), conn'))
     | Err e \<Rightarrow> (Err e, conn)
     | Panic \<Rightarrow> (Panic, conn))"

definition SetBegin :: "RtmpConn \<Rightarrow> unit res \<times> RtmpConn" where
  "SetBegin conn = sendUserControl streamBegin conn"

definition SetRecorded :: "RtmpConn \<Rightarrow> unit res \<times> RtmpConn" where
  "SetRecorded conn = sendUserControl streamIsRecorded conn"

section \<open>Reading\<close>

definition handleControlMsg :: "ChunkStream \<Rightarrow> RtmpConn \<Rightarrow> bool res \<times> RtmpConn" where
  "handleControlMsg c conn =
     (if TypeID c = idSetChunkSize then
        (case U32BE (Data c) of
          Ok n \<Rightarrow> (Ok True, conn\<lparr>remoteChunkSize := n\<rparr>)
        | Err e \<Rightarrow> (Err e, conn)
        | Panic \<Rightarrow> (Panic, conn))
      else if TypeID c = idAbortMessage then (Ok True, conn)
      else if TypeID c = idAck then (Ok True, conn)
      else if TypeID c = idUserControlMessages then (Ok True, conn)
      else if TypeID c = idWindowAckSize then
        (case U32BE (Data c) of
          Ok n \<Rightarrow> (Ok True, conn\<lparr>remoteWindowAckSize := n\<rparr>)
        | Err e \<Rightarrow> (Err e, conn)
        | Panic \<Rightarrow> (Panic, conn))
      else if TypeID c = idSetPeerBandwidth then (Ok True, conn)
      else (Ok False, conn))"

text \<open>
  \<open>ack\<close> counts what was received and writes an acknowledgement when the window is full. The
  error of that write is ignored; with a local chunk size of zero it panics.
\<close>

definition ack_count :: "u32 \<Rightarrow> RtmpConn \<Rightarrow> RtmpConn" where
  "ack_count sz conn =
     (let conn1 = conn\<lparr>received := received conn + sz, ackReceived := ackReceived conn + sz\<rparr>
      in if received conn1 \<ge> 0xf0000000 then conn1\<lparr>received := 0\<rparr> else conn1)"

definition ack :: "u32 \<Rightarrow> RtmpConn \<Rightarrow> unit res \<times> RtmpConn" where
  "ack sz conn =
     (let conn1 = ack_count sz conn in
      if ackReceived conn1 \<ge> remoteWindowAckSize conn1 then
        (case NewAck (ackReceived conn1) of
          Ok cs \<Rightarrow>
            (case conn_writeChunk cs conn1 of
              (Panic, _, conn2) \<Rightarrow> (Panic, conn2)
            | (_, _, conn2) \<Rightarrow> (Ok (), conn2\<lparr>ackReceived := 0\<rparr>))
        | Err e \<Rightarrow> (Err e, conn1)
        | Panic \<Rightarrow> (Panic, conn1))
      else (Ok (), conn1))"

text \<open>The basic header: the chunk format and the chunk stream id in one, two or three bytes.\<close>

definition readBasicHeader :: "ReadWriter \<Rightarrow> (u32 \<times> u32) res \<times> ReadWriter" where
  "readBasicHeader = pbind bufio_ReadByte (\<lambda>rb.
     let format = ucast (drop_bit 6 rb); csid = ucast (rb AND 0x3f) in
     if csid = 0 then pbind bufio_ReadByte (\<lambda>rb'. preturn (format, ucast rb' + 64))
     else if csid = 1 then pbind (ReadUintLE 2) (\<lambda>v. preturn (format, v + 64))
     else preturn (format, csid))"

text \<open>Lines 53 to 83 of \<open>Read\<close>: one chunk, put into its chunk stream.\<close>

definition Read_chunk :: "RtmpConn \<Rightarrow> ChunkStream res \<times> RtmpConn" where
  "Read_chunk conn =
     (case readBasicHeader (rw conn) of
       (Ok (format, csid), w1) \<Rightarrow>
         (let cs = (case chunks conn csid of
                Some cs \<Rightarrow> cs
              | None \<Rightarrow> zeroChunkStream\<lparr>CSID := csid\<rparr>) in
          case readChunk (cs\<lparr>tmpFromat := format\<rparr>) (remoteChunkSize conn) w1 of
            (r, cs', w2) \<Rightarrow>
              (let conn' = conn\<lparr>rw := w2, chunks := (chunks conn)(csid \<mapsto> cs')\<rparr> in
               case r of
                 Ok _ \<Rightarrow> (Ok cs', conn')
               | Err e \<Rightarrow> (Err e, conn')
               | Panic \<Rightarrow> (Panic, conn')))
     | (Err e, w1) \<Rightarrow> (Err e, conn\<lparr>rw := w1\<rparr>)
     | (Panic, w1) \<Rightarrow> (Panic, conn\<lparr>rw := w1\<rparr>))"

text \<open>
  Lines 85 to 101: a complete message is handed out as a view of the chunk stream's buffer (the
  same backing array), unless it is a control message.
\<close>

definition Read_complete :: "ChunkStream \<Rightarrow> RtmpConn \<Rightarrow> ChunkStream option res \<times> RtmpConn" where
  "Read_complete cs conn =
     (case slice 0 (unat (Length cs)) (Data cs) of
       Ok d \<Rightarrow>
         pbind (handleControlMsg cs) (\<lambda>isHandled.
         pbind (ack (Length cs)) (\<lambda>_.
           preturn (if isHandled then None
             else Some (zeroChunkStream\<lparr>Format := Format cs, CSID := CSID cs,
               Timestamp := Timestamp cs, Length := Length cs, TypeID := TypeID cs,
               StreamID := StreamID cs, Data := d, DataRef := DataRef cs\<rparr>)))) conn
     | Err e \<Rightarrow> (Err e, conn)
     | Panic \<Rightarrow> (Panic, conn))"

text \<open>One turn of the loop: \<open>None\<close> means that \<open>Read\<close> goes on.\<close>

definition Read_turn :: "RtmpConn \<Rightarrow> ChunkStream option res \<times> RtmpConn" where
  "Read_turn = pbind Read_chunk (\<lambda>cs. if isComplete cs then Read_complete cs else preturn None)"

text \<open>Every chunk consumes at least its first byte, so the loop of \<open>Read\<close> ends.\<close>

lemma readBasicHeader_shrinks:
  assumes "readBasicHeader w = (r, w')"
  shows "r \<noteq> Panic" and "wr_same w w'" and "r = Ok x \<Longrightarrow> length (rin w') < length (rin w)"
    and "length (rin w') \<le> length (rin w)"
proof -
  have "r \<noteq> Panic \<and> wr_same w w' \<and> (r = Ok x \<longrightarrow> length (rin w') < length (rin w)) \<and>
      length (rin w') \<le> length (rin w)"
  proof (cases "rin w")
    case Nil
    with assms show ?thesis by (auto simp: readBasicHeader_def pbind_def wr_same_def)
  next
    case (Cons b bs)
    let ?w = "w\<lparr>rin := bs\<rparr>"
    obtain v w2 where le: "ReadUintLE 2 ?w = (v, w2)" by fastforce
    have f: "wr_same ?w w2 \<and> length (rin w2) \<le> length bs \<and> v \<noteq> Panic"
      using ReadUintLE_frame [of ?w 2] by (simp add: le)
    obtain v' w3 where rb: "bufio_ReadByte ?w = (v', w3)" by fastforce
    have g: "wr_same ?w w3 \<and> length (rin w3) \<le> length bs \<and> v' \<noteq> Panic"
      using rb by (auto simp: bufio_ReadByte_def wr_same_def split: list.splits)
    have "b AND 0x3f = 0 \<or> b AND 0x3f = 1 \<or> b AND 0x3f \<noteq> 0 \<and> b AND 0x3f \<noteq> 1" by blast
    with assms Cons le rb f g show ?thesis
      by (cases v; cases v') (auto simp: readBasicHeader_def pbind_def Let_def wr_same_def split: if_splits)
  qed
  then show "r \<noteq> Panic" and "wr_same w w'" and "r = Ok x \<Longrightarrow> length (rin w') < length (rin w)"
    and "length (rin w') \<le> length (rin w)" by simp_all
qed

lemma readChunk_le:
  assumes "readChunk cs n r = (x, cs', r')"
  shows "length (rin r') \<le> length (rin r)"
proof -
  obtain h cs1 r1 where h: "readMessageHeader cs r = (h, cs1, r1)" by (metis surj_pair)
  have 1: "length (rin r1) \<le> length (rin r)"
    using h rw_Read_le [of 11 r] rw_Read_le [of 7 r] rw_Read_le [of 3 r]
    by (auto simp: readMessageHeader_def Let_def split: if_splits prod.splits option.splits)
  show ?thesis
  proof (cases h)
    case (Ok te)
    obtain er r2 where ext: "readExtended te r1 = (er, r2)" by fastforce
    have 2: "length (rin r2) \<le> length (rin r1)"
      using ext rw_Read_le [of 4 r1]
      by (auto simp: readExtended_def split: if_splits prod.splits option.splits)
    have 3: "length (rin (snd (snd (readPayload n c r2)))) \<le> length (rin r2)" for c
      using rw_Read_le
      by (auto simp: readPayload_def Let_def split: prod.splits option.splits) (metis rw_Read_le(2) snd_conv)+
    show ?thesis
    proof (cases er)
      case (Ok e)
      with assms h ext \<open>h = Ok te\<close> 1 2 3 [of "if remain cs = 0 then startMessage te e cs1 else cs1"]
      show ?thesis by (simp add: readChunk_def)
    qed (use assms h ext \<open>h = Ok te\<close> 1 2 in \<open>auto simp: readChunk_def\<close>)
  qed (use assms h 1 in \<open>auto simp: readChunk_def\<close>)
qed

lemma NewAck_ok:
  obtains c where "NewAck n = Ok c" and "Data c = be_bytes 4 n" and "Length c = 4"
    and "TypeID c = 3" and "CSID c = 2" and "Timestamp c = 0" and "StreamID c = 0"
  by (simp add: NewAck_def initControlMsg_def byte_simps put_at_def zeroChunkStream_def)

lemma conn_writeChunk_rd_same:
  assumes "Length c = of_nat (length (Data c))" and "length (Data c) \<le> 0xffffff"
    and "conn_writeChunk c conn = (r, c', conn')"
  shows "rd_same (rw conn) (rw conn')" and "conn'\<lparr>rw := rw conn\<rparr> = conn"
    and "chunkSize conn \<noteq> 0 \<Longrightarrow> r \<noteq> Panic"
proof -
  obtain c1 w1 where w: "writeChunk c (chunkSize conn) (rw conn) = (r, c1, w1)" "conn' = conn\<lparr>rw := w1\<rparr>"
    using assms(3) by (auto simp: conn_writeChunk_def split: prod.splits)
  show "rd_same (rw conn) (rw conn')" and "chunkSize conn \<noteq> 0 \<Longrightarrow> r \<noteq> Panic"
    using writeChunk_writes [OF _ assms(1,2) w(1)] w
    by (cases "chunkSize conn = 0"; auto simp: writes_def writeChunk_def Let_def)+
  show "conn'\<lparr>rw := rw conn\<rparr> = conn" using w(2) by simp
qed

lemma ack_frame:
  assumes "ack n conn = (r, conn')"
  shows "rd_same (rw conn) (rw conn')" and "chunks conn' = chunks conn"
    and "chunkSize conn' = chunkSize conn" and "remoteChunkSize conn' = remoteChunkSize conn"
    and "remoteWindowAckSize conn' = remoteWindowAckSize conn"
    and "chunkSize conn \<noteq> 0 \<Longrightarrow> r = Ok ()"
proof -
  define c1 where "c1 = ack_count n conn"
  have c1: "rw c1 = rw conn" "chunks c1 = chunks conn" "chunkSize c1 = chunkSize conn"
    "remoteChunkSize c1 = remoteChunkSize conn" "remoteWindowAckSize c1 = remoteWindowAckSize conn"
    by (simp_all add: c1_def ack_count_def Let_def)
  obtain c where c: "NewAck (ackReceived c1) = Ok c" "Data c = be_bytes 4 (ackReceived c1)" "Length c = 4"
    by (rule NewAck_ok)
  obtain x c' c2 where wc: "conn_writeChunk c c1 = (x, c', c2)" by (metis surj_pair)
  have len: "Length c = of_nat (length (Data c))" "length (Data c) \<le> 0xffffff"
    using c by simp_all
  note w = conn_writeChunk_rd_same [OF len wc]
  have "ack n conn = (if ackReceived c1 \<ge> remoteWindowAckSize c1
      then (if x = Panic then (Panic, c2) else (Ok (), c2\<lparr>ackReceived := 0\<rparr>)) else (Ok (), c1))"
    by (cases x) (simp_all add: ack_def c1_def [symmetric] c(1) wc)
  moreover have "chunks c2 = chunks c1 \<and> chunkSize c2 = chunkSize c1 \<and>
      remoteChunkSize c2 = remoteChunkSize c1 \<and> remoteWindowAckSize c2 = remoteWindowAckSize c1"
    using arg_cong [OF w(2), of chunks] arg_cong [OF w(2), of chunkSize]
      arg_cong [OF w(2), of remoteChunkSize] arg_cong [OF w(2), of remoteWindowAckSize] by simp
  ultimately show "rd_same (rw conn) (rw conn')" "chunks conn' = chunks conn"
    "chunkSize conn' = chunkSize conn" "remoteChunkSize conn' = remoteChunkSize conn"
    "remoteWindowAckSize conn' = remoteWindowAckSize conn" "chunkSize conn \<noteq> 0 \<Longrightarrow> r = Ok ()"
    using assms w(1,3) c1 by (auto split: if_splits)
qed

lemma handleControlMsg_frame:
  assumes "handleControlMsg c conn = (r, conn')"
  shows "rw conn' = rw conn" and "chunks conn' = chunks conn" and "chunkSize conn' = chunkSize conn"
  using assms by (auto simp: handleControlMsg_def split: if_splits res.splits)

lemma Read_complete_frame:
  assumes "Read_complete cs conn = (r, conn')"
  shows "rd_same (rw conn) (rw conn')" and "chunks conn' = chunks conn"
    and "chunkSize conn' = chunkSize conn"
proof -
  obtain h c1 where h: "handleControlMsg cs conn = (h, c1)" by fastforce
  obtain a c2 where a: "ack (Length cs) c1 = (a, c2)" by fastforce
  have "conn' = conn \<or> conn' = c1 \<or> conn' = c2"
    using assms h a
    by (cases h; cases a) (auto simp: Read_complete_def slice_def pbind_def split: if_splits)
  then show "rd_same (rw conn) (rw conn')" and "chunks conn' = chunks conn"
    and "chunkSize conn' = chunkSize conn"
    using handleControlMsg_frame [OF h] ack_frame [OF a] by auto
qed

lemma Read_turn_shrinks:
  assumes "Read_turn conn = (Ok x, conn')"
  shows "length (rin (rw conn')) < length (rin (rw conn))"
proof -
  obtain cs c1 where ch: "Read_chunk conn = (Ok cs, c1)"
    and rest: "(if isComplete cs then Read_complete cs else preturn None) c1 = (Ok x, conn')"
    using assms unfolding Read_turn_def by (rule pbind_OkE)
  have "length (rin (rw c1)) < length (rin (rw conn))"
  proof -
    obtain f csid w1 where b: "readBasicHeader (rw conn) = (Ok (f, csid), w1)"
      using ch by (auto simp: Read_chunk_def split: prod.splits res.splits)
    let ?cs = "case chunks conn csid of Some cs \<Rightarrow> cs | None \<Rightarrow> zeroChunkStream\<lparr>CSID := csid\<rparr>"
    obtain y cs' w2 where rc: "readChunk (?cs\<lparr>tmpFromat := f\<rparr>) (remoteChunkSize conn) w1 = (y, cs', w2)"
      by (metis surj_pair)
    have "rw c1 = w2" using ch b rc by (cases y) (auto simp: Read_chunk_def)
    with readBasicHeader_shrinks(3) [OF b refl] readChunk_le [OF rc] show ?thesis by simp
  qed
  with rest Read_complete_frame(1) [of cs c1 "Ok x" conn'] show ?thesis
    by (auto simp: rd_same_def split: if_splits)
qed

function Read :: "RtmpConn \<Rightarrow> ChunkStream res \<times> RtmpConn" where
  "Read conn =
     (case Read_turn conn of
       (Ok (Some c), conn') \<Rightarrow> (Ok c, conn')
     | (Ok None, conn') \<Rightarrow> Read conn'
     | (Err e, conn') \<Rightarrow> (Err e, conn')
     | (Panic, conn') \<Rightarrow> (Panic, conn'))"
  by pat_completeness auto
termination
  by (relation "measure (\<lambda>conn. length (rin (rw conn)))") (auto dest: Read_turn_shrinks [OF sym])

declare Read.simps [simp del]

section \<open>The invariant of a connection\<close>

definition conn_inv :: "RtmpConn \<Rightarrow> bool" where
  "conn_inv conn \<longleftrightarrow> (\<forall>csid cs. chunks conn csid = Some cs \<longrightarrow> cs_inv cs \<and> CSID cs = csid)"

text \<open>The states in which handing out a complete message can panic.\<close>

definition panic_cause :: "ChunkStream \<Rightarrow> bool" where
  "panic_cause cs \<longleftrightarrow> length (Data cs) < unat (Length cs) \<or>
     (TypeID cs = idSetChunkSize \<or> TypeID cs = idWindowAckSize) \<and> length (Data cs) < 4"

lemma conn_inv_New: "conn_inv (NewRtmpConn w)"
  by (simp add: conn_inv_def NewRtmpConn_def)

lemma conn_inv_cong: "chunks conn' = chunks conn \<Longrightarrow> conn_inv conn' = conn_inv conn"
  by (simp add: conn_inv_def)

lemma Read_chunk_inv:
  assumes "Read_chunk conn = (r, conn')" and "conn_inv conn"
  shows "conn_inv conn'" and "r \<noteq> Panic" and "chunkSize conn' = chunkSize conn"
    and "wr_same (rw conn) (rw conn')" and "r = Ok cs \<Longrightarrow> chunks conn' (CSID cs) = Some cs"
proof -
  obtain b w1 where b: "readBasicHeader (rw conn) = (b, w1)" by fastforce
  note bs = readBasicHeader_shrinks [OF b]
  have "conn_inv conn' \<and> r \<noteq> Panic \<and> chunkSize conn' = chunkSize conn \<and> wr_same (rw conn) (rw conn') \<and>
      (r = Ok cs \<longrightarrow> chunks conn' (CSID cs) = Some cs)"
  proof (cases b)
    case (Ok fc)
    obtain f csid where fc: "fc = (f, csid)" by fastforce
    define c0 where
      "c0 = (case chunks conn csid of Some cs \<Rightarrow> cs | None \<Rightarrow> zeroChunkStream\<lparr>CSID := csid\<rparr>)"
    obtain y cs' w2 where rc: "readChunk (c0\<lparr>tmpFromat := f\<rparr>) (remoteChunkSize conn) w1 = (y, cs', w2)"
      by (metis surj_pair)
    have c0: "cs_inv (c0\<lparr>tmpFromat := f\<rparr>)" "CSID c0 = csid"
      using assms(2) cs_inv_zero [of csid]
      by (auto simp: c0_def conn_inv_def zeroChunkStream_def split: option.splits)
    note ri = readChunk_inv [OF rc c0(1)]
    have c': "conn' = conn\<lparr>rw := w2, chunks := (chunks conn)(csid \<mapsto> cs')\<rparr>"
      and r: "r = (case y of Ok _ \<Rightarrow> Ok cs' | Err e \<Rightarrow> Err e | Panic \<Rightarrow> Panic)"
      using assms(1) b Ok fc rc by (auto simp: Read_chunk_def c0_def [symmetric] Let_def split: res.splits)
    have "conn_inv conn'" using assms(2) ri c0 by (auto simp: c' conn_inv_def)
    moreover have "wr_same (rw conn) (rw conn')" using bs(2) ri(4) by (simp add: c' wr_same_def)
    ultimately show ?thesis using ri c0 by (cases y) (auto simp: c' r)
  qed (use assms b bs in \<open>auto simp: Read_chunk_def conn_inv_def\<close>)
  then show "conn_inv conn'" "r \<noteq> Panic" "chunkSize conn' = chunkSize conn" "wr_same (rw conn) (rw conn')"
    "r = Ok cs \<Longrightarrow> chunks conn' (CSID cs) = Some cs" by simp_all
qed

lemma U32BE_cases: "U32BE b = (if 4 \<le> length b then Ok (be_word (take 4 b)) else Panic)"
  by (simp add: byte_simps)

lemma Read_complete_panic:
  assumes "Read_complete cs conn = (Panic, conn')" and "chunkSize conn \<noteq> 0"
  shows "panic_cause cs"
proof (rule ccontr)
  assume n: "\<not> panic_cause cs"
  obtain h c1 where h: "handleControlMsg cs conn = (h, c1)" by fastforce
  obtain a c2 where a: "ack (Length cs) c1 = (a, c2)" by fastforce
  have "h = Ok True \<or> h = Ok False"
    using h n by (auto simp: handleControlMsg_def panic_cause_def U32BE_cases split: if_splits)
  moreover have "a = Ok ()" using ack_frame(6) [OF a] handleControlMsg_frame(3) [OF h] assms(2) by simp
  ultimately show False
    using assms(1) h a n by (auto simp: Read_complete_def slice_def panic_cause_def pbind_def split: if_splits)
qed

lemma Read_turn_inv:
  assumes "Read_turn conn = (r, conn')" and "conn_inv conn"
  shows "conn_inv conn'" and "chunkSize conn' = chunkSize conn"
    and "chunkSize conn \<noteq> 0 \<Longrightarrow> r = Panic \<Longrightarrow> \<exists>csid cs. chunks conn' csid = Some cs \<and> panic_cause cs"
proof -
  obtain x c1 where ch: "Read_chunk conn = (x, c1)" by fastforce
  note ci = Read_chunk_inv [OF ch assms(2)]
  have "conn_inv conn' \<and> chunkSize conn' = chunkSize conn \<and>
      (chunkSize conn \<noteq> 0 \<longrightarrow> r = Panic \<longrightarrow> (\<exists>csid cs. chunks conn' csid = Some cs \<and> panic_cause cs))"
  proof (cases x)
    case (Ok cs)
    show ?thesis
    proof (cases "isComplete cs")
      case True
      with assms(1) ch Ok have rc: "Read_complete cs c1 = (r, conn')"
        by (simp add: Read_turn_def go_simps)
      note f = Read_complete_frame [OF rc]
      from f ci have "conn_inv conn'" "chunkSize conn' = chunkSize conn"
        using conn_inv_cong [of conn' c1] by simp_all
      moreover have "chunks conn' (CSID cs) = Some cs" using f ci(5) [of cs] Ok by simp
      ultimately show ?thesis
        using Read_complete_panic [of cs c1 conn'] rc ci(3) by auto
    next
      case False
      with assms(1) ch Ok have "r = Ok None \<and> conn' = c1"
        by (simp add: Read_turn_def go_simps)
      with ci show ?thesis by simp
    qed
  qed (use assms(1) ch ci in \<open>auto simp: Read_turn_def go_simps\<close>)
  then show "conn_inv conn'" and "chunkSize conn' = chunkSize conn"
    and "chunkSize conn \<noteq> 0 \<Longrightarrow> r = Panic \<Longrightarrow> \<exists>csid cs. chunks conn' csid = Some cs \<and> panic_cause cs"
    by simp_all
qed

lemma Read_inv:
  assumes "Read conn = (r, conn')" and "conn_inv conn"
  shows "conn_inv conn' \<and> chunkSize conn' = chunkSize conn \<and>
    (chunkSize conn \<noteq> 0 \<longrightarrow> r = Panic \<longrightarrow> (\<exists>csid cs. chunks conn' csid = Some cs \<and> panic_cause cs))"
  using assms
proof (induction conn rule: Read.induct)
  case (1 conn)
  obtain x c1 where t: "Read_turn conn = (x, c1)" by fastforce
  note ti = Read_turn_inv [OF t "1.prems"(2)]
  show ?case
  proof (cases x)
    case (Ok m)
    show ?thesis
    proof (cases m)
      case None
      with Ok t "1.prems"(1) have "Read c1 = (r, conn')" by (simp add: Read.simps [of conn])
      with "1.IH" [of x c1 m] t Ok None ti show ?thesis by simp
    next
      case (Some c)
      with Ok t "1.prems"(1) ti show ?thesis by (auto simp: Read.simps [of conn])
    qed
  qed (use t "1.prems"(1) ti in \<open>auto simp: Read.simps [of conn]\<close>)
qed

section \<open>Properties\<close>

text \<open>
  C4: \<open>Read\<close> returns on every input (it is a total function), keeps the invariant of every chunk
  stream of the connection, and, while the local chunk size is not zero, panics only where a
  message header enlarged a message beyond its buffer in mid-message, or a control message that
  should carry a number has fewer than four bytes.
\<close>

theorem Read_safe:
  assumes "conn_inv conn" and "chunkSize conn \<noteq> 0" and "Read conn = (r, conn')"
  shows "conn_inv conn' \<and> chunkSize conn' = chunkSize conn \<and>
    (r = Panic \<longrightarrow> (\<exists>csid cs. chunks conn' csid = Some cs \<and>
      (length (Data cs) < unat (Length cs) \<or>
       (TypeID cs = 1 \<or> TypeID cs = 5) \<and> length (Data cs) < 4)))"
  using Read_inv [OF assms(3,1)] assms(2) by (auto simp: panic_cause_def)

theorem Read_safe_witness:
  "conn_inv (snd (Read (NewRtmpConn (NewReadWriter [2, 0, 0, 0, 0, 0, 2, 1, 0, 0, 0, 0, 0, 0] EOF 60 EOF 16))))"
proof -
  let ?conn = "NewRtmpConn (NewReadWriter [2, 0, 0, 0, 0, 0, 2, 1, 0, 0, 0, 0, 0, 0] EOF 60 EOF 16)"
  obtain r conn' where run: "Read ?conn = (r, conn')" by fastforce
  have "chunkSize ?conn \<noteq> 0" by (simp add: NewRtmpConn_def)
  from Read_safe [OF conn_inv_New this run] run show ?thesis by simp
qed

text \<open>
  Both kinds of panic are reached by bytes a peer can send: a two-byte \<open>SetChunkSize\<close> message,
  and a second full header that enlarges a message whose buffer is already allocated.
\<close>

theorem peer_can_panic_Read:
  "fst (Read (NewRtmpConn (NewReadWriter [2, 0, 0, 0, 0, 0, 2, 1, 0, 0, 0, 0, 0, 0] EOF 60 EOF 16))) = Panic \<and>
   fst (Read ((NewRtmpConn (NewReadWriter
     [3, 0, 0, 0, 0, 0, 2, 20, 0, 0, 0, 0, 7, 3, 0, 0, 0, 0, 0, 9, 20, 0, 0, 0, 0, 7] EOF 60 EOF 16))
     \<lparr>remoteChunkSize := 1\<rparr>)) = Panic"
  by code_simp

text \<open>
  After \<open>ack\<close> the count of unacknowledged bytes is below the peer's window, or zero; the
  acknowledgement carries the count; nothing is written while the window is not full.
\<close>

theorem ack_window:
  assumes "chunkSize conn \<noteq> 0" and "ack n conn = (r, conn')"
  shows "r = Ok () \<and> (ackReceived conn' < remoteWindowAckSize conn' \<or> ackReceived conn' = 0) \<and>
    (ackReceived conn + n < remoteWindowAckSize conn \<longrightarrow>
       rw conn' = rw conn \<and> ackReceived conn' = ackReceived conn + n) \<and>
    (remoteWindowAckSize conn \<le> ackReceived conn + n \<longrightarrow>
       (\<exists>c. NewAck (ackReceived conn + n) = Ok c \<and>
         (let bs = message_bytes (unat (chunkSize conn)) c in
          wok (rw conn) \<and> length bs \<le> room (rw conn) \<longrightarrow> sent (rw conn') = sent (rw conn) @ bs)))"
proof -
  let ?c1 = "ack_count n conn"
  have c1: "rw ?c1 = rw conn" "ackReceived ?c1 = ackReceived conn + n" "chunkSize ?c1 = chunkSize conn"
    "remoteWindowAckSize ?c1 = remoteWindowAckSize conn"
    by (simp_all add: ack_count_def Let_def)
  obtain c where c: "NewAck (ackReceived ?c1) = Ok c" "Data c = be_bytes 4 (ackReceived ?c1)" "Length c = 4"
    "TypeID c = 3" "CSID c = 2" "Timestamp c = 0" "StreamID c = 0"
    by (rule NewAck_ok)
  obtain x c' c2 where wc: "conn_writeChunk c ?c1 = (x, c', c2)" by (metis surj_pair)
  show ?thesis
  proof (cases "ackReceived ?c1 \<ge> remoteWindowAckSize ?c1")
    case False
    then have "r = Ok () \<and> conn' = ?c1" using assms(2) by (simp add: ack_def)
    with False c1 show ?thesis by (auto simp: not_le)
  next
    case True
    have len: "Length c = of_nat (length (Data c))" "length (Data c) \<le> 0xffffff"
      using c by simp_all
    have csid: "c\<lparr>CSID := chunkCSID (TypeID c) (CSID c)\<rparr> = c"
      using c by (simp add: chunkCSID_def)
    obtain c3 w3 where w: "writeChunk c (chunkSize ?c1) (rw ?c1) = (x, c3, w3)" "c2 = ?c1\<lparr>rw := w3\<rparr>"
      using wc by (auto simp: conn_writeChunk_def split: prod.splits)
    have wr: "writes (message_bytes (unat (chunkSize conn)) c) (rw conn) (x, w3)"
      using writeChunk_writes [OF _ len w(1)] assms(1) c1 by (simp add: csid)
    then have "x \<noteq> Panic" by (simp add: writes_def)
    then have run: "r = Ok () \<and> conn' = c2\<lparr>ackReceived := 0\<rparr>"
      using assms(2) True c(1) wc by (cases x) (auto simp: ack_def)
    with True c1 c(1) wr w(2) show ?thesis by (auto simp: writes_def)
  qed
qed

theorem ack_window_witness:
  "case ack 5 ((NewRtmpConn (NewReadWriter [] EOF 60 EOF 64))\<lparr>remoteWindowAckSize := 4\<rparr>) of
     (r, conn') \<Rightarrow> r = Ok () \<and> ackReceived conn' = 0 \<and>
       sent (rw conn') = [2, 0, 0, 0, 0, 0, 4, 3, 0, 0, 0, 0, 0, 0, 0, 5]"
proof -
  let ?conn = "(NewRtmpConn (NewReadWriter [] EOF 60 EOF 64))\<lparr>remoteWindowAckSize := 4\<rparr>"
  obtain r conn' where run: "ack 5 ?conn = (r, conn')" by fastforce
  have "chunkSize ?conn \<noteq> 0" by (simp add: NewRtmpConn_def)
  from ack_window [OF this run] have "r = Ok ()" by simp
  moreover have "ackReceived (snd (ack 5 ?conn)) = 0 \<and>
      sent (rw (snd (ack 5 ?conn))) = [2, 0, 0, 0, 0, 0, 4, 3, 0, 0, 0, 0, 0, 0, 0, 5]" by code_simp
  ultimately show ?thesis using run by simp
qed

end
