(* ===== verification/Conversation.thy ===== *)
theory Conversation
  imports RtmpConn
begin

text \<open>
  Two ends of a connection: what one end's \<open>Write\<close> puts on the wire, the other end's \<open>Read\<close>
  gives back, message by message, also across changes of the chunk size. The last section
  shows on concrete messages where the round trip stops.
\<close>

section \<open>Reading what a peer wrote\<close>

lemma basic_header_byte:
  fixes fmt csid :: u32
  assumes "take_bit 2 fmt = fmt" and "take_bit 6 csid = csid"
  shows "ucast (drop_bit 6 (ucast (push_bit 6 fmt OR csid) :: u8)) = fmt"
    and "ucast ((ucast (push_bit 6 fmt OR csid) :: u8) AND 0x3f) = csid"
proof -
  have f: "bit fmt n \<Longrightarrow> n < 2" and c: "bit csid n \<Longrightarrow> n < 6" for n
    using assms by (metis bit_take_bit_iff)+
  show "ucast (drop_bit 6 (ucast (push_bit 6 fmt OR csid) :: u8)) = fmt"
    by (rule bit_word_eqI) (auto simp: bit_simps dest: f c)
  have m: "(0x3f :: u8) = mask 6" by (simp add: mask_eq_exp_minus_1)
  show "ucast ((ucast (push_bit 6 fmt OR csid) :: u8) AND 0x3f) = csid"
    unfolding m by (rule bit_word_eqI) (auto simp: bit_simps dest: f c)
qed

lemma readBasicHeader_append:
  assumes fmt: "fmt < 4" and csid: "2 \<le> csid" "csid \<le> 65599"
    and rin: "rin w = basic_header fmt csid @ rest" and ok: "readError w = None"
  shows "readBasicHeader w = (Ok (fmt, csid), w\<lparr>rin := rest\<rparr>)"
proof -
  have f: "take_bit 2 fmt = fmt" using fmt by (intro take_bit_fits) (simp add: word_less_nat_alt)
  have sub: "unat (csid - 64) = unat csid - 64" if "\<not> csid < 64"
    using that by (intro unat_sub [THEN trans]) (auto simp: word_less_nat_alt word_le_nat_alt)
  consider (one) "csid < 64" | (two) "\<not> csid < 64" "csid - 64 < 256"
    | (three) "\<not> csid < 64" "\<not> csid - 64 < 256" by blast
  then show ?thesis
  proof cases
    case one
    then have "take_bit 6 csid = csid" by (intro take_bit_fits) (simp add: word_less_nat_alt)
    note b = basic_header_byte [OF f this]
    have "csid \<noteq> 0 \<and> csid \<noteq> 1" using csid by (auto simp: word_le_nat_alt)
    with one rin b show ?thesis
      by (simp add: basic_header_def readBasicHeader_def go_simps Let_def)
  next
    case two
    note b = basic_header_byte [OF f, of 0]
    have t8: "take_bit 8 (csid - 64) = csid - 64"
      using two by (intro take_bit_fits) (simp add: word_less_nat_alt)
    have "ucast (ucast (csid - 64) :: u8) = take_bit 8 (csid - 64)"
      by (rule bit_word_eqI) (auto simp: bit_simps)
    then have "ucast (ucast (csid - 64) :: u8) = csid - 64" using t8 by simp
    with two rin b show ?thesis
      by (simp add: basic_header_def readBasicHeader_def go_simps Let_def)
  next
    case three
    have lt: "unat (csid - 64) < 2 ^ 16"
      using sub [OF three(1)] csid by (simp add: word_le_nat_alt)
    then have "csid - 64 < 65536" by (simp add: word_less_nat_alt)
    note b = basic_header_byte [OF f, of 1]
    let ?w = "w\<lparr>rin := le_bytes 2 (csid - 64) @ rest\<rparr>"
    have "le_word (le_bytes 2 (csid - 64)) = csid - 64"
      using take_bit_fits [OF lt] by (simp add: le_word_le_bytes del: le_bytes.simps)
    with ReadUintLE_append [of ?w "le_bytes 2 (csid - 64)" rest 2] ok
    have "ReadUintLE 2 ?w = (Ok (csid - 64), w\<lparr>rin := rest\<rparr>)" by simp
    with three \<open>csid - 64 < 65536\<close> rin b show ?thesis
      by (simp add: basic_header_def readBasicHeader_def go_simps Let_def del: le_bytes.simps)
  qed
qed

text \<open>What \<open>Read\<close> does once a message is complete.\<close>

definition Read_after :: "ChunkStream \<Rightarrow> RtmpConn \<Rightarrow> ChunkStream res \<times> RtmpConn" where
  "Read_after cs conn =
     (case Read_complete cs conn of
       (Ok (Some c), conn') \<Rightarrow> (Ok c, conn')
     | (Ok None, conn') \<Rightarrow> Read conn'
     | (Err e, conn') \<Rightarrow> (Err e, conn')
     | (Panic, conn') \<Rightarrow> (Panic, conn'))"

lemma Read_chunk_then:
  assumes "Read_chunk conn = (Ok cs, conn')"
  shows "Read conn = (if complete cs then Read_after cs conn' else Read conn')"
  using assms
  by (subst Read.simps) (simp add: Read_turn_def go_simps Read_after_def isComplete_def)

definition place :: "u32 \<Rightarrow> ChunkStream \<Rightarrow> bytes \<Rightarrow> RtmpConn \<Rightarrow> RtmpConn" where
  "place csid cs rest conn =
     conn\<lparr>rw := (rw conn)\<lparr>rin := rest\<rparr>, chunks := (chunks conn)(csid \<mapsto> cs)\<rparr>"

lemma place_simps [simp]:
  "chunks (place csid cs rest conn) = (chunks conn)(csid \<mapsto> cs)"
  "rin (rw (place csid cs rest conn)) = rest"
  "readError (rw (place csid cs rest conn)) = readError (rw conn)"
  "remoteChunkSize (place csid cs rest conn) = remoteChunkSize conn"
  "chunkSize (place csid cs rest conn) = chunkSize conn"
  "place csid cs' rest' (place csid cs rest conn) = place csid cs' rest' conn"
  by (simp_all add: place_def)

lemma Read_chunk_place:
  assumes "readBasicHeader (rw conn) = (Ok (f, csid), (rw conn)\<lparr>rin := r1\<rparr>)"
    and "cs = (case chunks conn csid of Some cs \<Rightarrow> cs | None \<Rightarrow> zeroChunkStream\<lparr>CSID := csid\<rparr>)"
    and "readChunk (cs\<lparr>tmpFromat := f\<rparr>) (remoteChunkSize conn) ((rw conn)\<lparr>rin := r1\<rparr>) =
      (Ok (), cs', (rw conn)\<lparr>rin := r1, rin := rest\<rparr>)"
  shows "Read_chunk conn = (Ok cs', place csid cs' rest conn)"
  using assms by (simp add: Read_chunk_def place_def)

lemma assembled_tmpFromat [simp]: "assembled d k (cs\<lparr>tmpFromat := f\<rparr>) = assembled d k cs"
  by (simp add: assembled_def)

lemma same_message_tmpFromat [simp]: "same_message (cs\<lparr>tmpFromat := f\<rparr>) cs' = same_message cs cs'"
  by (simp add: same_message_def)

lemma same_message_trans: "same_message a b \<Longrightarrow> same_message b c \<Longrightarrow> same_message a c"
  by (simp add: same_message_def)

lemma Read_chunk_continue:
  assumes "chunks conn csid = Some cs" and asm: "assembled d k cs" "k < length d" and td: "timeDelta cs = 0"
    and csid: "2 \<le> csid" "csid \<le> 65599" and c: "unat (remoteChunkSize conn) = c"
    and rin: "rin (rw conn) = basic_header 3 csid @ take c (drop k d) @ rest"
    and ok: "readError (rw conn) = None"
  obtains cs' where "Read_chunk conn = (Ok cs', place csid cs' rest conn)"
    and "assembled d (k + min c (length d - k)) cs'" and "same_message cs cs'"
proof -
  have bh: "readBasicHeader (rw conn) =
      (Ok (3, csid), (rw conn)\<lparr>rin := take c (drop k d) @ rest\<rparr>)"
    using csid rin ok by (intro readBasicHeader_append) simp_all
  obtain cs' where rc: "readChunk (cs\<lparr>tmpFromat := 3\<rparr>) (remoteChunkSize conn)
      ((rw conn)\<lparr>rin := take c (drop k d) @ rest\<rparr>) =
      (Ok (), cs', (rw conn)\<lparr>rin := take c (drop k d) @ rest, rin := rest\<rparr>)"
    and cs': "assembled d (k + min c (length d - k)) cs'" "same_message cs cs'"
    using readChunk_continue [of d k "cs\<lparr>tmpFromat := 3\<rparr>" "remoteChunkSize conn" c
        "(rw conn)\<lparr>rin := take c (drop k d) @ rest\<rparr>" rest] asm td c ok by auto
  have "Read_chunk conn = (Ok cs', place csid cs' rest conn)"
    by (rule Read_chunk_place [OF bh _ rc]) (simp add: assms(1))
  then show thesis using cs' that by blast
qed

lemma Read_rest:
  assumes "chunks conn csid = Some cs" and "assembled d k cs" "k < length d" and "timeDelta cs = 0"
    and csid: "2 \<le> csid" "csid \<le> 65599" and c: "unat (remoteChunkSize conn) = c" "0 < c"
    and "rin (rw conn) = chunk_body c (basic_header 3 csid) (drop k d) @ rest"
    and ok: "readError (rw conn) = None"
  shows "\<exists>cs'. Read conn = Read_after cs' (place csid cs' rest conn) \<and> assembled d (length d) cs' \<and>
    same_message cs cs'"
  using assms
proof (induction "length d - k" arbitrary: k cs conn rule: less_induct)
  case less
  let ?k = "k + min c (length d - k)"
  let ?rest = "chunk_body c (basic_header 3 csid) (drop ?k d) @ rest"
  have "drop c (drop k d) = drop ?k d" using less.prems(3) by (auto simp: min_def add.commute)
  then have "rin (rw conn) = basic_header 3 csid @ take c (drop k d) @ ?rest"
    using less.prems(3,8,9) by (subst (asm) chunk_body.simps) simp
  then obtain cs1 where ch: "Read_chunk conn = (Ok cs1, place csid cs1 ?rest conn)"
    and a1: "assembled d ?k cs1" "same_message cs cs1"
    using Read_chunk_continue [OF less.prems(1-7) _ less.prems(10)] by blast
  show ?case
  proof (cases "?k = length d")
    case True
    with a1 have "complete cs1" by (simp add: assembled_def)
    moreover have "?rest = rest" using True by (simp add: chunk_body.simps)
    ultimately have "Read conn = Read_after cs1 (place csid cs1 rest conn)"
      using Read_chunk_then [OF ch] by simp
    then show ?thesis using a1 True by auto
  next
    case False
    then have lt: "?k < length d" using less.prems(3) by simp
    have "\<not> complete cs1" using False a1 by (simp add: assembled_def)
    then have "Read conn = Read (place csid cs1 ?rest conn)" using Read_chunk_then [OF ch] by simp
    moreover have "\<exists>cs'. Read (place csid cs1 ?rest conn) =
        Read_after cs' (place csid cs' rest (place csid cs1 ?rest conn)) \<and>
        assembled d (length d) cs' \<and> same_message cs1 cs'"
    proof (rule less.hyps)
      show "length d - ?k < length d - k" using less.prems(3,8) by simp
      show "timeDelta cs1 = 0" using a1(2) less.prems(4) by (simp add: same_message_def)
    qed (use a1 lt less.prems in simp_all)
    ultimately show ?thesis using same_message_trans [OF a1(2)] by auto
  qed
qed

text \<open>
  \<open>sendable m\<close>: what \<open>Write\<close> can put on the wire so that the peer can read it back. Control
  messages that carry a number hold at least its four bytes.
\<close>

definition sendable :: "ChunkStream \<Rightarrow> bool" where
  "sendable m \<longleftrightarrow> Data m \<noteq> [] \<and> length (Data m) \<le> 0xffffff \<and> Length m = of_nat (length (Data m)) \<and>
     Timestamp m < 0xffffff \<and> 2 \<le> CSID m \<and> CSID m \<le> 65599 \<and> TypeID m < 256 \<and>
     (TypeID m = idWindowAckSize \<longrightarrow> 4 \<le> length (Data m)) \<and>
     (TypeID m = idSetChunkSize \<longrightarrow> length (Data m) = 4 \<and> 4 \<le> unat (be_word (Data m) :: u32))"

text \<open>\<open>ready n conn\<close>: the connection waits for the next message of a peer whose chunk size is \<open>n\<close>.\<close>

definition ready :: "u32 \<Rightarrow> RtmpConn \<Rightarrow> bool" where
  "ready n conn \<longleftrightarrow> conn_inv conn \<and> readError (rw conn) = None \<and> chunkSize conn \<noteq> 0 \<and>
     remoteChunkSize conn = n \<and> 4 \<le> unat n \<and>
     (\<forall>csid cs. chunks conn csid = Some cs \<longrightarrow> remain cs = 0 \<and> timeDelta cs = 0)"

text \<open>The message a reader hands out for \<open>m\<close>, up to the identity of its buffer.\<close>

definition as_read :: "ChunkStream \<Rightarrow> ChunkStream" where
  "as_read m = zeroChunkStream\<lparr>Format := 0, CSID := CSID m, Timestamp := Timestamp m,
     Length := Length m, TypeID := TypeID m, StreamID := StreamID m, Data := Data m\<rparr>"

definition erase_ref :: "ChunkStream \<Rightarrow> ChunkStream" where
  "erase_ref m = m\<lparr>DataRef := 0\<rparr>"

definition is_control :: "ChunkStream \<Rightarrow> bool" where
  "is_control m \<longleftrightarrow> TypeID m \<in> {1, 2, 3, 4, 5, 6}"

text \<open>The chunk stream holds the complete message \<open>m\<close>.\<close>

definition holds :: "ChunkStream \<Rightarrow> ChunkStream \<Rightarrow> bool" where
  "holds m cs \<longleftrightarrow> assembled (Data m) (length (Data m)) cs \<and> Format cs = 0 \<and> CSID cs = CSID m \<and>
     Timestamp cs = Timestamp m \<and> TypeID cs = TypeID m \<and> StreamID cs = StreamID m \<and> timeDelta cs = 0"

lemma header_bytes_short:
  assumes "Timestamp m < 0xffffff"
  shows "header_bytes (m\<lparr>Format := 0\<rparr>) = basic_header 0 (CSID m) @ be_bytes 3 (Timestamp m) @
      be_bytes 3 (Length m) @ [ucast (TypeID m)] @ le_bytes 4 (StreamID m)"
    and "header_bytes (m\<lparr>Format := 3\<rparr>) = basic_header 3 (CSID m)"
  using assms less_imp_le [OF assms]
  by (simp_all add: header_bytes_def ext_bytes_def min_def not_le del: be_bytes.simps le_bytes.simps)

lemma Read_message:
  assumes m: "sendable m" and b: "ready n conn"
    and rin: "rin (rw conn) = message_bytes (unat n) m @ rest"
  obtains cs where "Read conn = Read_after cs (place (CSID m) cs rest conn)" and "holds m cs"
proof -
  let ?d = "Data m" and ?c = "unat n" and ?csid = "CSID m"
  let ?tail = "chunk_body ?c (basic_header 3 ?csid) (drop ?c ?d) @ rest"
  let ?r1 = "be_bytes 3 (Timestamp m) @ be_bytes 3 (of_nat (length ?d) :: u32) @ [ucast (TypeID m)] @
    le_bytes 4 (StreamID m) @ take ?c ?d @ ?tail"
  define c0 where "c0 = (case chunks conn ?csid of Some cs \<Rightarrow> cs | None \<Rightarrow> zeroChunkStream\<lparr>CSID := ?csid\<rparr>)"
  note s = m [unfolded sendable_def] and r = b [unfolded ready_def conn_inv_def]
  have c0: "remain c0 = 0" "cs_inv c0" "timeDelta c0 = 0" "CSID c0 = ?csid"
    using r cs_inv_zero [of ?csid] by (auto simp: c0_def zeroChunkStream_def split: option.splits)
  have in0: "rin (rw conn) = basic_header 0 ?csid @ ?r1"
    using rin s header_bytes_short [of m]
    by (simp add: message_bytes_def del: be_bytes.simps le_bytes.simps)
  have bh: "readBasicHeader (rw conn) = (Ok (0, ?csid), (rw conn)\<lparr>rin := ?r1\<rparr>)"
    using s r in0 by (intro readBasicHeader_append) simp_all
  obtain cs1 where rc: "readChunk (c0\<lparr>tmpFromat := 0\<rparr>) (remoteChunkSize conn) ((rw conn)\<lparr>rin := ?r1\<rparr>) =
      (Ok (), cs1, (rw conn)\<lparr>rin := ?r1, rin := ?tail\<rparr>)"
    and a1: "assembled ?d (min ?c (length ?d)) cs1" and f1: "CSID cs1 = ?csid" "Timestamp cs1 = Timestamp m"
      "TypeID cs1 = ucast (ucast (TypeID m) :: u8)" "StreamID cs1 = StreamID m" "timeDelta cs1 = 0"
      "Format cs1 = 0"
    using readChunk_first [of "c0\<lparr>tmpFromat := 0\<rparr>" "(rw conn)\<lparr>rin := ?r1\<rparr>" "remoteChunkSize conn" ?c ?d
        "Timestamp m" "ucast (TypeID m)" "StreamID m" ?tail] c0 s r by auto
  have ch: "Read_chunk conn = (Ok cs1, place ?csid cs1 ?tail conn)"
    by (rule Read_chunk_place [OF bh c0_def rc])
  have "take_bit 8 (TypeID m) = TypeID m"
    using s by (intro take_bit_fits) (simp add: word_less_nat_alt)
  moreover have "ucast (ucast (TypeID m) :: u8) = take_bit 8 (TypeID m)"
    by (rule bit_word_eqI) (auto simp: bit_simps)
  ultimately have ty: "TypeID cs1 = TypeID m" using f1 by simp
  show thesis
  proof (cases "length ?d \<le> ?c")
    case True
    with a1 have "complete cs1" by (simp add: assembled_def)
    moreover have "?tail = rest" using True by (simp add: chunk_body.simps)
    ultimately have "Read conn = Read_after cs1 (place ?csid cs1 rest conn)"
      using Read_chunk_then [OF ch] by simp
    moreover have "holds m cs1" using a1 f1 ty True by (simp add: holds_def)
    ultimately show thesis using that by blast
  next
    case False
    with a1 have "\<not> complete cs1" by (simp add: assembled_def)
    then have "Read conn = Read (place ?csid cs1 ?tail conn)" using Read_chunk_then [OF ch] by simp
    moreover obtain cs' where "Read (place ?csid cs1 ?tail conn) =
        Read_after cs' (place ?csid cs' rest (place ?csid cs1 ?tail conn))"
      "assembled ?d (length ?d) cs'" "same_message cs1 cs'"
      using Read_rest [of "place ?csid cs1 ?tail conn" ?csid cs1 ?d ?c ?c rest] a1 f1 s r False by auto
    moreover from this have "holds m cs'" using f1 ty by (simp add: holds_def same_message_def)
    ultimately show thesis using that by simp
  qed
qed

text \<open>Handing out the message, or consuming it as a control message.\<close>

definition window_after :: "ChunkStream \<Rightarrow> u32 \<Rightarrow> u32" where
  "window_after m n = (if TypeID m = idSetChunkSize then be_word (Data m) else n)"

lemma ready_chunkSize: "ready n conn \<Longrightarrow> 4 \<le> unat n' \<Longrightarrow> ready n' (conn\<lparr>remoteChunkSize := n'\<rparr>)"
  unfolding ready_def conn_inv_def by simp

lemma ready_window: "ready n conn \<Longrightarrow> ready n (conn\<lparr>remoteWindowAckSize := v\<rparr>)"
  unfolding ready_def conn_inv_def by simp

lemma Read_complete_message:
  assumes m: "sendable m" and h: "holds m cs" and b: "ready n conn"
  obtains r conn' where "Read_complete cs (place (CSID m) cs rest conn) = (Ok r, conn')"
    and "ready (window_after m n) conn'" and "rin (rw conn') = rest"
    and "if is_control m then r = None else \<exists>c. r = Some c \<and> erase_ref c = as_read m"
proof -
  let ?p = "place (CSID m) cs rest conn"
  note s = m [unfolded sendable_def] and hd = h [unfolded holds_def] and r = b [unfolded ready_def]
  have asm: "assembled (Data m) (length (Data m)) cs" using hd by simp
  note a = asm [unfolded assembled_def]
  have sl: "slice 0 (unat (Length cs)) (Data cs) = Ok (Data m)"
    using assembled_unat(3) [OF asm] a by (simp add: slice_def)
  have inv: "cs_inv cs" using asm by (rule assembled_inv)
  have pre: "ready n ?p"
    using r inv hd a by (auto simp: ready_def conn_inv_def assembled_def)
  have u32: "U32BE (Data cs) = Ok (be_word (take 4 (Data m)))" if "4 \<le> length (Data m)"
  proof -
    have "take 4 (Data cs) = take 4 (take (length (Data m)) (Data cs))" using that by (simp add: min_def)
    then show ?thesis using a that by (simp add: U32BE_cases)
  qed
  obtain hr c1 where hc: "handleControlMsg cs ?p = (hr, c1)" by fastforce
  have "hr = Ok (is_control m) \<and> ready (window_after m n) c1 \<and> rin (rw c1) = rest"
  proof -
    consider (chunk) "TypeID m = 1" | (window) "TypeID m = 5" | (other) "TypeID m \<noteq> 1" "TypeID m \<noteq> 5"
      by blast
    then show ?thesis
    proof cases
      case chunk
      with hd have "TypeID cs = 1" by simp
      moreover have len: "length (Data m) = 4" and new: "4 \<le> unat (be_word (Data m) :: u32)"
        using s chunk by blast+
      ultimately have "hr = Ok True" and c1: "c1 = ?p\<lparr>remoteChunkSize := be_word (Data m)\<rparr>"
        using u32 hc by (simp_all add: handleControlMsg_def)
      moreover have "ready (be_word (Data m)) c1"
        unfolding c1 using pre new by (rule ready_chunkSize)
      ultimately show ?thesis using chunk
        by (simp add: window_after_def is_control_def)
    next
      case window
      with hd have "TypeID cs = 5" by simp
      moreover have "4 \<le> length (Data m)" using s window by blast
      ultimately have "hr = Ok True" and c1: "c1 = ?p\<lparr>remoteWindowAckSize := be_word (take 4 (Data m))\<rparr>"
        using u32 hc by (simp_all add: handleControlMsg_def)
      moreover have "ready n c1" unfolding c1 using pre by (rule ready_window)
      ultimately show ?thesis using window
        by (simp add: window_after_def is_control_def)
    next
      case other
      with hd hc have "hr = Ok (is_control m) \<and> c1 = ?p"
        by (simp add: handleControlMsg_def is_control_def split: if_splits)
      with pre other show ?thesis by (simp add: window_after_def)
    qed
  qed
  then have hok: "hr = Ok (is_control m)" and r1: "ready (window_after m n) c1" and rin1: "rin (rw c1) = rest"
    by simp_all
  obtain ar c2 where ak: "ack (Length cs) c1 = (ar, c2)" by fastforce
  note af = ack_frame [OF ak]
  have "ar = Ok ()" and r2: "ready (window_after m n) c2" and "rin (rw c2) = rest"
    using af r1 rin1 by (auto simp: ready_def conn_inv_def rd_same_def)
  moreover have "Length cs = Length m" using a s by simp
  moreover have "Read_complete cs ?p = (Ok (if is_control m then None else
      Some (zeroChunkStream\<lparr>Format := Format cs, CSID := CSID cs,
               Timestamp := Timestamp cs, Length := Length cs, TypeID := TypeID cs,
               StreamID := StreamID cs, Data := Data m, DataRef := DataRef cs\<rparr>)), c2)"
    using sl hc hok ak \<open>ar = Ok ()\<close> by (simp add: Read_complete_def pbind_def)
  ultimately show thesis
    using hd by (intro that) (auto simp: erase_ref_def as_read_def zeroChunkStream_def)
qed

section \<open>A conversation: many messages written and read back\<close>

fun Writes :: "ChunkStream list \<Rightarrow> RtmpConn \<Rightarrow> unit res \<times> RtmpConn" where
  "Writes [] conn = (Ok (), conn)"
| "Writes (m # ms) conn =
     (case Write m conn of
       (Ok _, _, conn') \<Rightarrow> Writes ms conn'
     | (Err e, _, conn') \<Rightarrow> (Err e, conn')
     | (Panic, _, conn') \<Rightarrow> (Panic, conn'))"

fun Reads :: "nat \<Rightarrow> RtmpConn \<Rightarrow> ChunkStream list res \<times> RtmpConn" where
  "Reads 0 conn = (Ok [], conn)"
| "Reads (Suc k) conn = pbind Read (\<lambda>m. pbind (Reads k) (\<lambda>ms. preturn (m # ms))) conn"

definition on_wire :: "ChunkStream \<Rightarrow> ChunkStream" where
  "on_wire m = m\<lparr>CSID := chunkCSID (TypeID m) (CSID m)\<rparr>"

fun stream_bytes :: "u32 \<Rightarrow> ChunkStream list \<Rightarrow> bytes" where
  "stream_bytes n [] = []"
| "stream_bytes n (m # ms) =
     message_bytes (unat n) (on_wire m) @ stream_bytes (window_after m n) ms"

lemma on_wire_simps [simp]:
  "Data (on_wire m) = Data m" "TypeID (on_wire m) = TypeID m" "Length (on_wire m) = Length m"
  "is_control (on_wire m) = is_control m" "window_after (on_wire m) n = window_after m n"
  by (simp_all add: on_wire_def is_control_def window_after_def)

lemma message_bytes_fits:
  assumes "length (Data m) \<le> c" and "length (Data m) \<le> c'"
  shows "message_bytes c m = message_bytes c' m"
  using assms by (simp add: message_bytes_def chunk_body.simps)

lemma conn_writeChunk_writes:
  assumes "chunkSize conn \<noteq> 0" and "Length m = of_nat (length (Data m))" "length (Data m) \<le> 0xffffff"
    and "conn_writeChunk m conn = (r, m', conn')"
  shows "writes (message_bytes (unat (chunkSize conn)) (on_wire m)) (rw conn) (r, rw conn')"
    and "chunkSize conn' = chunkSize conn"
  using assms writeChunk_writes [OF assms(1-3), of "rw conn"]
  by (auto simp: conn_writeChunk_def on_wire_def split: prod.splits)

lemma Write_writes:
  assumes m: "sendable (on_wire m)" and n: "4 \<le> unat (chunkSize conn)"
    and run: "Write m conn = (r, m', conn')"
  shows "writes (message_bytes (unat (chunkSize conn)) (on_wire m)) (rw conn) (r, rw conn')"
    and "chunkSize conn' = window_after m (chunkSize conn)"
proof -
  note s = m [unfolded sendable_def on_wire_simps]
  have z: "chunkSize conn \<noteq> 0" using n by auto
  have "writes (message_bytes (unat (chunkSize conn)) (on_wire m)) (rw conn) (r, rw conn') \<and>
      chunkSize conn' = window_after m (chunkSize conn)"
  proof (cases "TypeID m = 1")
    case True
    let ?n = "be_word (Data m) :: u32"
    have len: "length (Data m) = 4" "4 \<le> unat ?n" using s True by blast+
    then have "conn_writeChunk m (conn\<lparr>chunkSize := ?n\<rparr>) = (r, m', conn')"
      using run True by (simp add: Write_def U32BE_cases)
    moreover have "?n \<noteq> 0" using len(2) by auto
    ultimately have "writes (message_bytes (unat ?n) (on_wire m)) (rw conn) (r, rw conn')"
      and "chunkSize conn' = ?n"
      using conn_writeChunk_writes [of "conn\<lparr>chunkSize := ?n\<rparr>" m r m' conn'] s by simp_all
    moreover have "message_bytes (unat ?n) (on_wire m) = message_bytes (unat (chunkSize conn)) (on_wire m)"
      using len n by (intro message_bytes_fits) simp_all
    ultimately show ?thesis using True by (simp add: window_after_def)
  next
    case False
    then have "conn_writeChunk m conn = (r, m', conn')" using run by (simp add: Write_def)
    from conn_writeChunk_writes [OF z _ _ this] s False show ?thesis by (simp add: window_after_def)
  qed
  then show "writes (message_bytes (unat (chunkSize conn)) (on_wire m)) (rw conn) (r, rw conn')"
    and "chunkSize conn' = window_after m (chunkSize conn)" by simp_all
qed

lemma window_after_ge4: "sendable (on_wire m) \<Longrightarrow> 4 \<le> unat n \<Longrightarrow> 4 \<le> unat (window_after m n)"
  by (auto simp: sendable_def window_after_def)

lemma Writes_writes:
  assumes "\<forall>m\<in>set ms. sendable (on_wire m)" and "4 \<le> unat (chunkSize conn)"
    and "Writes ms conn = (r, conn')"
  shows "writes (stream_bytes (chunkSize conn) ms) (rw conn) (r, rw conn')"
  using assms
proof (induction ms arbitrary: conn)
  case (Cons m ms)
  obtain x m' c1 where w: "Write m conn = (x, m', c1)" by (metis surj_pair)
  note ww = Write_writes [OF _ Cons.prems(2) w]
  show ?case
  proof (cases x)
    case (Ok u)
    with Cons.prems w have "Writes ms c1 = (r, conn')" by simp
    moreover have "4 \<le> unat (chunkSize c1)"
      using ww(2) window_after_ge4 [of m "chunkSize conn"] Cons.prems(1,2) by simp
    ultimately have "writes (stream_bytes (chunkSize c1) ms) (rw c1) (r, rw conn')"
      using Cons.IH Cons.prems(1) by simp
    with ww Ok Cons.prems(1) show ?thesis by (auto intro: writes_then)
  next
    case (Err e)
    with Cons.prems w ww show ?thesis by (auto intro: writes_fail)
  next
    case Panic
    with ww Cons.prems(1) show ?thesis by (simp add: writes_def)
  qed
qed (auto simp: writes_done)

lemma Reads_stream:
  assumes "\<forall>m\<in>set ms. sendable (on_wire m)" and "ready n conn"
    and "rin (rw conn) = stream_bytes n ms @ rest"
  shows "\<exists>got conn'. Reads (length (filter (\<lambda>m. \<not> is_control m) ms)) conn = (Ok got, conn') \<and>
    map erase_ref got = map (as_read \<circ> on_wire) (filter (\<lambda>m. \<not> is_control m) ms)"
  using assms
proof (induction ms arbitrary: n conn)
  case (Cons m ms)
  let ?ms = "filter (\<lambda>m. \<not> is_control m) ms" and ?n = "window_after m n"
  have s: "sendable (on_wire m)" using Cons.prems(1) by simp
  obtain cs where rd: "Read conn = Read_after cs (place (CSID (on_wire m)) cs (stream_bytes ?n ms @ rest) conn)"
    and h: "holds (on_wire m) cs"
    using Read_message [OF s Cons.prems(2)] Cons.prems(3) by auto
  obtain r c1 where rc: "Read_complete cs (place (CSID (on_wire m)) cs (stream_bytes ?n ms @ rest) conn) = (Ok r, c1)"
    and c1: "ready ?n c1" "rin (rw c1) = stream_bytes ?n ms @ rest"
    and r: "if is_control m then r = None else \<exists>c. r = Some c \<and> erase_ref c = as_read (on_wire m)"
    using Read_complete_message [OF s h Cons.prems(2)] by (metis on_wire_simps(4,5))
  obtain got conn' where IH: "Reads (length ?ms) c1 = (Ok got, conn')"
    "map erase_ref got = map (as_read \<circ> on_wire) ?ms"
    using Cons.IH [OF _ c1] Cons.prems(1) by auto
  show ?case
  proof (cases "is_control m")
    case True
    with r rd rc have "Read conn = Read c1" by (simp add: Read_after_def)
    then have "Reads (length ?ms) conn = Reads (length ?ms) c1 \<or> ?ms = []"
      by (cases ?ms) (simp_all add: pbind_def)
    with IH True show ?thesis by auto
  next
    case False
    with r obtain c where c: "r = Some c" "erase_ref c = as_read (on_wire m)" by auto
    with rd rc have "Read conn = (Ok c, c1)" by (simp add: Read_after_def)
    with IH c False show ?thesis by (simp add: pbind_def)
  qed
qed simp

section \<open>The conversation theorem and its limits\<close>

text \<open>Two concrete ends of a connection and concrete messages for the witnesses.\<close>

definition fresh_conn :: "bytes \<Rightarrow> RtmpConn" where
  "fresh_conn inp = NewRtmpConn (NewReadWriter inp EOF 60 EOF 16)"

definition sample_msg :: "u32 \<Rightarrow> u32 \<Rightarrow> u32 \<Rightarrow> bytes \<Rightarrow> ChunkStream" where
  "sample_msg ty csid ts d = zeroChunkStream\<lparr>CSID := csid, TypeID := ty, StreamID := 1,
     Timestamp := ts, Length := of_nat (length d), Data := d\<rparr>"

lemmas sample_defs = fresh_conn_def sample_msg_def zeroChunkStream_def NewRtmpConn_def NewReadWriter_def

lemma ready_fresh: "ready 128 (fresh_conn inp)"
  by (simp add: ready_def sample_defs conn_inv_def)

lemma wok_fresh: "wok (rw (fresh_conn inp))" "room (rw (fresh_conn inp)) = 60"
  by (simp_all add: wok_def room_def sent_def sample_defs)

lemma sendable_samples:
  "sendable (on_wire (sample_msg 1 2 0 [0, 0, 0, 4]))"
  "sendable (on_wire (sample_msg 9 6 40 [1, 2, 3, 4, 5, 6]))"
  by (simp_all add: sendable_def on_wire_def chunkCSID_def sample_defs be_word_def)

text \<open>
  C3: A connection that works and has room writes any sequence of well-formed messages without
  error, and its idle peer with the same chunk size, given exactly the bytes written (and any
  bytes after them), reads back the same messages in the same order, without the protocol control
  messages; the chunk size may change on the way.
\<close>

theorem conversation_roundtrip:
  assumes "\<forall>m\<in>set ms. sendable (on_wire m)" and "ready (chunkSize a) b"
    and "wok (rw a)" and "length (stream_bytes (chunkSize a) ms) \<le> room (rw a)"
    and "Writes ms a = (r, a')"
    and "rin (rw b) = drop (length (sent (rw a))) (sent (rw a')) @ rest"
  shows "r = Ok () \<and>
    (\<exists>got b'. Reads (length (filter (\<lambda>m. \<not> is_control m) ms)) b = (Ok got, b') \<and>
      map erase_ref got = map (as_read \<circ> on_wire) (filter (\<lambda>m. \<not> is_control m) ms))"
proof -
  have "4 \<le> unat (chunkSize a)" using assms(2) by (simp add: ready_def)
  from Writes_writes [OF assms(1) this assms(5)] assms(3,4)
  have w: "r = Ok ()" "sent (rw a') = sent (rw a) @ stream_bytes (chunkSize a) ms"
    by (auto simp: writes_def)
  with assms(6) have "rin (rw b) = stream_bytes (chunkSize a) ms @ rest" by simp
  from Reads_stream [OF assms(1,2) this] w(1) show ?thesis by simp
qed

theorem conversation_roundtrip_witness:
  "let ms = [sample_msg 1 2 0 [0, 0, 0, 4], sample_msg 9 6 40 [1, 2, 3, 4, 5, 6]];
       a' = snd (Writes ms (fresh_conn [])) in
   fst (Writes ms (fresh_conn [])) = Ok () \<and>
   (\<exists>got b'. Reads 1 (fresh_conn (sent (rw a'))) = (Ok got, b') \<and>
      map erase_ref got = [as_read (sample_msg 9 6 40 [1, 2, 3, 4, 5, 6])])"
proof -
  let ?m1 = "sample_msg 1 2 0 [0, 0, 0, 4]" and ?m2 = "sample_msg 9 6 40 [1, 2, 3, 4, 5, 6]"
  let ?a = "fresh_conn []"
  obtain r a' where run: "Writes [?m1, ?m2] ?a = (r, a')" by fastforce
  have sz: "chunkSize ?a = 128" by (simp add: sample_defs)
  have "length (stream_bytes 128 [?m1, ?m2]) \<le> 60" by code_simp
  then have fits: "length (stream_bytes (chunkSize ?a) [?m1, ?m2]) \<le> room (rw ?a)"
    by (simp only: sz wok_fresh(2))
  have rin: "rin (rw (fresh_conn (sent (rw a')))) =
      drop (length (sent (rw ?a))) (sent (rw a')) @ []"
    by (simp add: sample_defs sent_def)
  have good: "\<forall>m\<in>set [?m1, ?m2]. sendable (on_wire m)" using sendable_samples by simp
  have rd: "ready (chunkSize ?a) (fresh_conn (sent (rw a')))"
    unfolding sz by (rule ready_fresh)
  have ctl: "filter (\<lambda>m. \<not> is_control m) [?m1, ?m2] = [?m2]" "on_wire ?m2 = ?m2"
    by (simp_all add: is_control_def on_wire_def chunkCSID_def sample_defs)
  show ?thesis
    using conversation_roundtrip [OF good rd wok_fresh(1) fits run rin] run ctl by (simp add: Let_def)
qed

text \<open>
  With an extended time stamp the round trip fails: every chunk the writer sends repeats the
  four bytes, but the reader takes those of a continuation chunk for payload. The message read
  back has another time stamp and other data.
\<close>

theorem extended_timestamp_misread:
  "case Read ((fresh_conn (stream_bytes 4 [sample_msg 9 6 0x1000000 [1, 2, 3, 4, 5, 6]]))
      \<lparr>remoteChunkSize := 4\<rparr>) of
     (Ok c, _) \<Rightarrow> Timestamp c = 0xffffff \<and> Data c = [1, 2, 3, 4, 1, 0]
   | _ \<Rightarrow> False"
  by code_simp

text \<open>
  \<open>Write\<close> switches to a new chunk size before it sends the message that announces it. A size
  below four splits the announcement, which the peer still reads with the old size: it ends up
  with another chunk size than the writer.
\<close>

theorem small_chunk_size_desync:
  "let a' = snd (Writes [sample_msg 1 2 0 [0, 0, 0, 2]] (fresh_conn []));
       b' = snd (Read (fresh_conn (sent (rw a')))) in
   chunkSize a' = 2 \<and> remoteChunkSize b' = 0xc200"
  by code_simp

text \<open>
  Two messages of one chunk stream share the buffer: after the second \<open>Read\<close> the slice that
  the first one returned shows the data of the second.
\<close>

theorem read_reuses_buffer:
  "case Reads 2 (fresh_conn (stream_bytes 128
      [sample_msg 9 6 0 [1, 2, 3], sample_msg 9 6 40 [7, 7]])) of
     (Ok [m1, m2], conn') \<Rightarrow> Data m1 = [1, 2, 3] \<and> DataRef m1 = DataRef m2 \<and>
       map_option (\<lambda>cs. (DataRef cs, Data cs)) (chunks conn' 6) = Some (DataRef m1, [7, 7, 3])
   | _ \<Rightarrow> False"
  by code_simp

end
