(* ===== verification/ChunkReader.thy ===== *)
theory ChunkReader
  imports Conversation
begin

text \<open>
  The second reader of chunks in \<open>protocol/core/chunk_stream.go\<close>, \<open>readChunk1\<close>. The connection calls
  \<open>readChunk\<close>; this one is not called. Unlike the other it refuses a new message header inside a
  message, adds the deltas of formats 1 and 2 to the time stamp, and knows the extended time stamp that a
  writer repeats in every chunk. The lemmas show that it reads back what \<open>writeChunk\<close> writes for
  every time stamp.
\<close>

section \<open>The operation\<close>

text \<open>\<open>v, _ = r.ReadUintBE(n)\<close>: after an error the value is 0.\<close>

definition readBE :: "nat \<Rightarrow> ReadWriter \<Rightarrow> u32 \<times> ReadWriter" where
  "readBE n r = (case ReadUintBE n r of (x, r') \<Rightarrow> (ok_val x, r'))"

definition readLE :: "nat \<Rightarrow> ReadWriter \<Rightarrow> u32 \<times> ReadWriter" where
  "readLE n r = (case ReadUintLE n r of (x, r') \<Rightarrow> (ok_val x, r'))"

text \<open>\<open>Peek\<close> and \<open>Discard\<close> of the embedded \<open>bufio.Reader\<close>, which do not look at \<open>readError\<close>.\<close>

definition bufio_Peek :: "nat \<Rightarrow> ReadWriter \<Rightarrow> bytes res" where
  "bufio_Peek n r = (if length (rin r) < n then Err (rend r) else Ok (take n (rin r)))"

definition bufio_Discard :: "nat \<Rightarrow> ReadWriter \<Rightarrow> ReadWriter" where
  "bufio_Discard n r = r\<lparr>rin := drop n (rin r)\<rparr>"

text \<open>The time stamp (or delta) of a header, whether it is extended, and its value.\<close>

definition readExt :: "u32 \<Rightarrow> ReadWriter \<Rightarrow> u32 \<times> bool \<times> ReadWriter" where
  "readExt ts r = (if ts = 0xffffff then (case readBE 4 r of (ts', r') \<Rightarrow> (ts', True, r')) else (ts, False, r))"

definition readFormat0 :: "ChunkStream \<Rightarrow> ReadWriter \<Rightarrow> ChunkStream \<times> ReadWriter" where
  "readFormat0 cs r =
     (case readBE 3 r of (ts, r1) \<Rightarrow>
      case readBE 3 r1 of (len, r2) \<Rightarrow>
      case readBE 1 r2 of (ty, r3) \<Rightarrow>
      case readLE 4 r3 of (sid, r4) \<Rightarrow>
      case readExt ts r4 of (ts', ex, r5) \<Rightarrow>
        (alloc (cs\<lparr>Format := tmpFromat cs, Timestamp := ts', Length := len, TypeID := ty, StreamID := sid, exted := ex\<rparr>), r5))"

definition readFormat1 :: "ChunkStream \<Rightarrow> ReadWriter \<Rightarrow> ChunkStream \<times> ReadWriter" where
  "readFormat1 cs r =
     (case readBE 3 r of (ts, r1) \<Rightarrow>
      case readBE 3 r1 of (len, r2) \<Rightarrow>
      case readBE 1 r2 of (ty, r3) \<Rightarrow>
      case readExt ts r3 of (ts', ex, r4) \<Rightarrow>
        (alloc (cs\<lparr>Format := tmpFromat cs, Length := len, TypeID := ty, exted := ex, timeDelta := ts',
           Timestamp := Timestamp cs + ts'\<rparr>), r4))"

definition readFormat2 :: "ChunkStream \<Rightarrow> ReadWriter \<Rightarrow> ChunkStream \<times> ReadWriter" where
  "readFormat2 cs r =
     (case readBE 3 r of (ts, r1) \<Rightarrow>
      case readExt ts r1 of (ts', ex, r2) \<Rightarrow>
        (alloc (cs\<lparr>Format := tmpFromat cs, exted := ex, timeDelta := ts', Timestamp := Timestamp cs + ts'\<rparr>), r2))"

text \<open>A chunk of format 3 starts a message with the header of the one before, or goes on with one.\<close>

definition readFormat3 :: "ChunkStream \<Rightarrow> ReadWriter \<Rightarrow> unit res \<times> ChunkStream \<times> ReadWriter" where
  "readFormat3 cs r =
     (if remain cs = 0 then
        (if Format cs = 0 then
           (if exted cs then (case readBE 4 r of (ts, r1) \<Rightarrow> (Ok (), alloc (cs\<lparr>Timestamp := ts\<rparr>), r1))
            else (Ok (), alloc cs, r))
         else if Format cs = 1 \<or> Format cs = 2 then
           (case (if exted cs then readBE 4 r else (timeDelta cs, r)) of (timedet, r1) \<Rightarrow>
              (Ok (), alloc (cs\<lparr>Timestamp := Timestamp cs + timedet\<rparr>), r1))
         else (Ok (), alloc cs, r))
      else if exted cs then
        (case bufio_Peek 4 r of
           Ok b \<Rightarrow> (Ok (), cs, if ok_val (U32BE b) = Timestamp cs then bufio_Discard 4 r else r)
         | Err e \<Rightarrow> (Err e, cs, r)
         | Panic \<Rightarrow> (Panic, cs, r))
      else (Ok (), cs, r))"

definition readPayload1 :: "u32 \<Rightarrow> ChunkStream \<Rightarrow> ReadWriter \<Rightarrow> unit res \<times> ChunkStream \<times> ReadWriter" where
  "readPayload1 csize cs r =
     (let size = (if remain cs > csize then csize else remain cs);
          lo = unat (cindex cs); hi = unat (cindex cs + size) in
      if lo \<le> hi \<and> hi \<le> length (Data cs) then
        (case rw_Read (hi - lo) r of
          ((got, e), r') \<Rightarrow>
            (let cs1 = cs\<lparr>Data := put_at lo got (Data cs)\<rparr> in
             case e of
               Some e \<Rightarrow> (Err e, cs1, r')
             | None \<Rightarrow>
                 (let cs2 = cs1\<lparr>cindex := cindex cs1 + size, remain := remain cs1 - size\<rparr>
                  in (case readError r' of None \<Rightarrow> Ok () | Some e \<Rightarrow> Err e,
                      if remain cs2 = 0 then cs2\<lparr>complete := True\<rparr> else cs2, r'))))
      else (Panic, cs, r))"

definition readHeader1 :: "ChunkStream \<Rightarrow> ReadWriter \<Rightarrow> unit res \<times> ChunkStream \<times> ReadWriter" where
  "readHeader1 cs r =
     (if tmpFromat cs = 0 then (Ok (), readFormat0 cs r)
      else if tmpFromat cs = 1 then (Ok (), readFormat1 cs r)
      else if tmpFromat cs = 2 then (Ok (), readFormat2 cs r)
      else if tmpFromat cs = 3 then readFormat3 cs r
      else (Err (Errorf ''invalid format''), cs, r))"

definition readChunk1 :: "ChunkStream \<Rightarrow> u32 \<Rightarrow> ReadWriter \<Rightarrow> unit res \<times> ChunkStream \<times> ReadWriter" where
  "readChunk1 cs csize r =
     (if remain cs \<noteq> 0 \<and> tmpFromat cs \<noteq> 3 then (Err (Errorf ''inlaid remin''), cs, r)
      else
        (case readHeader1 cs r of
           (Ok _, cs1, r1) \<Rightarrow> readPayload1 csize cs1 r1
         | (Err e, cs1, r1) \<Rightarrow> (Err e, cs1, r1)
         | (Panic, cs1, r1) \<Rightarrow> (Panic, cs1, r1)))"

section \<open>Safety\<close>

lemma ReadUintBE_loop_short:
  "length (rin w) < n \<Longrightarrow> ReadUintBE_loop n ret w = (Err (rend w), w\<lparr>rin := [], readError := Some (rend w)\<rparr>)"
proof (induction n arbitrary: ret w)
  case (Suc n)
  then show ?case by (cases "rin w") (simp_all add: bufio_ReadByte_def)
qed simp

lemma readBE_cases:
  obtains (ok) bs where "readError w = None" "rin w = bs @ drop n (rin w)" "length bs = n" "readBE n w = (be_word bs, w\<lparr>rin := drop n (rin w)\<rparr>)"
    | (short) w' where "readBE n w = (0, w')" "wr_same w w'" "readError w' \<noteq> None"
proof (cases "readError w")
  case None
  show thesis
  proof (cases "length (rin w) < n")
    case True
    then show thesis using None short by (simp add: readBE_def ReadUintBE_def ReadUintBE_loop_short ok_val_def wr_same_def)
  next
    case False
    have "ReadUintBE n w = (Ok (be_word (take n (rin w))), w\<lparr>rin := drop n (rin w)\<rparr>)"
      by (rule ReadUintBE_append) (use None False in simp_all)
    then show thesis using None False by (intro ok [of "take n (rin w)"]) (simp_all add: readBE_def)
  qed
next
  case (Some e)
  then show thesis by (intro short [of w]) (simp_all add: readBE_def ReadUintBE_def ok_val_def wr_same_def)
qed

lemma readBE_frame: "wr_same w (snd (readBE n w))"
  by (rule readBE_cases [of w n]) (auto simp: wr_same_def)

lemma readBE_bound: "unat (fst (readBE 3 w)) < 2 ^ 24"
  by (rule readBE_cases [of w 3]) (use unat_be_word3 in \<open>simp_all add: wr_same_def\<close>)

lemma readLE_frame: "wr_same w (snd (readLE n w))"
  using ReadUintLE_frame [of w n] by (auto simp: readLE_def split: prod.splits)

lemma readExt_frame: "wr_same w (snd (snd (readExt ts w)))"
  using readBE_frame [of w 4] by (auto simp: readExt_def wr_same_def split: prod.splits)

lemma wr_same_trans: "wr_same a b \<Longrightarrow> wr_same b c \<Longrightarrow> wr_same a c"
  by (simp add: wr_same_def)

lemma alloc_from:
  assumes "length (Data cs) < 2 ^ 24" and "unat (Length cs) < 2 ^ 24"
  shows "cs_inv (alloc cs)" and "CSID (alloc cs) = CSID cs"
  using assms by (auto simp: alloc_def cs_inv_def Let_def)

lemma alloc_keeps [simp]: "Timestamp (alloc cs) = Timestamp cs" "TypeID (alloc cs) = TypeID cs" "StreamID (alloc cs) = StreamID cs"
  "exted (alloc cs) = exted cs" "CSID (alloc cs) = CSID cs" "Length (alloc cs) = Length cs" "timeDelta (alloc cs) = timeDelta cs"
  "Format (alloc cs) = Format cs"
  by (simp_all add: alloc_def Let_def)

lemma readFormat_inv:
  assumes "cs_inv cs"
  shows "cs_inv (fst (readFormat0 cs r)) \<and> CSID (fst (readFormat0 cs r)) = CSID cs \<and> wr_same r (snd (readFormat0 cs r))"
    and "cs_inv (fst (readFormat1 cs r)) \<and> CSID (fst (readFormat1 cs r)) = CSID cs \<and> wr_same r (snd (readFormat1 cs r))"
    and "cs_inv (fst (readFormat2 cs r)) \<and> CSID (fst (readFormat2 cs r)) = CSID cs \<and> wr_same r (snd (readFormat2 cs r))"
proof -
  have d: "length (Data cs) < 2 ^ 24" "unat (Length cs) < 2 ^ 24" using assms by (simp_all add: cs_inv_def)
  obtain ts r1 where 1: "readBE 3 r = (ts, r1)" by fastforce
  obtain len r2 where 2: "readBE 3 r1 = (len, r2)" by fastforce
  obtain ty r3 where 3: "readBE 1 r2 = (ty, r3)" by fastforce
  obtain sid r4 where 4: "readLE 4 r3 = (sid, r4)" by fastforce
  have len: "unat len < 2 ^ 24" using readBE_bound [of r1] 2 by simp
  have w: "wr_same r r1" "wr_same r r2" "wr_same r r3" "wr_same r r4"
    using readBE_frame [of r 3] readBE_frame [of r1 3] readBE_frame [of r2 1] readLE_frame [of r3 4] 1 2 3 4
    by (auto intro: wr_same_trans)
  obtain t5 e5 r5 where 5: "readExt ts r4 = (t5, e5, r5)" by (metis surj_pair)
  obtain t6 e6 r6 where 6: "readExt ts r3 = (t6, e6, r6)" by (metis surj_pair)
  obtain t7 e7 r7 where 7: "readExt ts r1 = (t7, e7, r7)" by (metis surj_pair)
  have w': "wr_same r r5" "wr_same r r6" "wr_same r r7"
    using readExt_frame [of r4 ts] readExt_frame [of r3 ts] readExt_frame [of r1 ts] 5 6 7 w by (auto intro: wr_same_trans)
  show "cs_inv (fst (readFormat0 cs r)) \<and> CSID (fst (readFormat0 cs r)) = CSID cs \<and> wr_same r (snd (readFormat0 cs r))"
    using 1 2 3 4 5 d(1) len w' by (simp add: readFormat0_def alloc_from)
  show "cs_inv (fst (readFormat1 cs r)) \<and> CSID (fst (readFormat1 cs r)) = CSID cs \<and> wr_same r (snd (readFormat1 cs r))"
    using 1 2 3 6 d(1) len w' by (simp add: readFormat1_def alloc_from)
  show "cs_inv (fst (readFormat2 cs r)) \<and> CSID (fst (readFormat2 cs r)) = CSID cs \<and> wr_same r (snd (readFormat2 cs r))"
    using 1 7 d w' by (simp add: readFormat2_def alloc_from)
qed

lemma readFormat3_inv:
  assumes "cs_inv cs" and "readFormat3 cs r = (x, cs', r')"
  shows "cs_inv cs' \<and> CSID cs' = CSID cs \<and> wr_same r r' \<and> x \<noteq> Panic"
proof -
  have d: "length (Data cs) < 2 ^ 24" "unat (Length cs) < 2 ^ 24" using assms(1) by (simp_all add: cs_inv_def)
  obtain t r1 where 1: "readBE 4 r = (t, r1)" by fastforce
  have "wr_same r r1" "wr_same r r" "wr_same r (bufio_Discard 4 r)"
    using readBE_frame [of r 4] 1 by (simp_all add: wr_same_def bufio_Discard_def)
  then show ?thesis using assms d 1
    by (auto simp: readFormat3_def bufio_Peek_def alloc_from split: if_splits)
qed

text \<open>The payload is read as by \<open>readChunk\<close>; only the error values differ.\<close>

lemma readPayload1_readPayload:
  assumes "readPayload n cs r = (y, cs', r')"
  shows "\<exists>x. readPayload1 n cs r = (x, cs', r') \<and> (x = Panic \<longleftrightarrow> y = Panic) \<and> (x = Ok () \<longleftrightarrow> y = Ok ())"
proof -
  let ?lo = "unat (cindex cs)" and ?hi = "unat (cindex cs + (if remain cs > n then n else remain cs))"
  obtain got e r1 where rd: "rw_Read (?hi - ?lo) r = ((got, e), r1)" by (metis surj_pair)
  have "e = None \<Longrightarrow> readError r1 = None" using rw_Read_length(4) rd by blast
  then show ?thesis using assms rd
    by (cases e) (auto simp: readPayload_def readPayload1_def Let_def split: if_splits)
qed

lemma readChunk1_inv:
  assumes "cs_inv cs" and "readChunk1 cs n r = (x, cs', r')"
  shows "cs_inv cs' \<and> x \<noteq> Panic \<and> CSID cs' = CSID cs \<and> wr_same r r'"
proof -
  obtain h cs1 r1 where h: "readHeader1 cs r = (h, cs1, r1)" by (metis surj_pair)
  have hi: "cs_inv cs1 \<and> CSID cs1 = CSID cs \<and> wr_same r r1 \<and> h \<noteq> Panic"
    using h readFormat_inv [OF assms(1), of r] readFormat3_inv [OF assms(1), of r h cs1 r1] assms(1)
    by (auto simp: readHeader1_def wr_same_def split: if_splits)
  obtain y cs2 r2 where p: "readPayload n cs1 r1 = (y, cs2, r2)" by (metis surj_pair)
  note pi = readPayload_inv [OF p, rule_format]
  obtain x2 where x2: "readPayload1 n cs1 r1 = (x2, cs2, r2)" "x2 = Panic \<longleftrightarrow> y = Panic" using readPayload1_readPayload [OF p] by blast
  show ?thesis
  proof (cases "remain cs \<noteq> 0 \<and> tmpFromat cs \<noteq> 3")
    case True
    then show ?thesis using assms by (auto simp: readChunk1_def wr_same_def)
  next
    case False
    then have run: "readChunk1 cs n r = (case h of Ok _ \<Rightarrow> (x2, cs2, r2) | Err e \<Rightarrow> (Err e, cs1, r1) | Panic \<Rightarrow> (Panic, cs1, r1))"
      using h x2(1) by (auto simp: readChunk1_def split: res.split)
    show ?thesis using run assms(2) hi pi x2(2) by (cases h) (auto intro: wr_same_trans)
  qed
qed

section \<open>Reading back a message\<close>

lemma readBE_append:
  assumes "rin w = bs @ rest" and "length bs = n" and "readError w = None"
  shows "readBE n w = (be_word bs, w\<lparr>rin := rest\<rparr>)"
  using ReadUintBE_append [OF assms] by (simp add: readBE_def)

lemma readLE_append:
  assumes "rin w = bs @ rest" and "length bs = n" and "readError w = None"
  shows "readLE n w = (le_word bs, w\<lparr>rin := rest\<rparr>)"
  using ReadUintLE_append [OF assms] by (simp add: readLE_def)

text \<open>The time stamp field and the extended time stamp of a header give the time stamp back.\<close>

lemma min_ts: "min ts 0xffffff = (if ts < 0xffffff then ts else (0xffffff :: u32))"
  by (auto simp: min_def)

lemma be_word_be_bytes3: "be_word (be_bytes 3 (min ts 0xffffff :: u32)) = min ts 0xffffff"
proof -
  have "unat (min ts 0xffffff) \<le> unat (0xffffff :: u32)" by (intro word_le_nat_alt [THEN iffD1]) simp
  then have "take_bit 24 (min ts 0xffffff) = min ts 0xffffff" by (intro take_bit_fits) simp
  then show ?thesis by (simp add: be_word_be_bytes del: be_bytes.simps)
qed

lemma be_word_be_bytes4: "be_word (be_bytes 4 (ts :: u32)) = ts"
  by (simp add: be_word_be_bytes del: be_bytes.simps)

lemma readExt_append:
  assumes "rin w = ext_bytes ts @ rest" and "readError w = None"
  shows "readExt (min ts 0xffffff) w = (ts, 0xffffff \<le> ts, w\<lparr>rin := rest\<rparr>)"
proof (cases "0xffffff \<le> ts")
  case True
  then have "rin w = be_bytes 4 ts @ rest" using assms(1) by (simp add: ext_bytes_def del: be_bytes.simps)
  from readBE_append [OF this _ assms(2), of 4] True show ?thesis
    by (auto simp: readExt_def min_ts be_word_be_bytes4 simp del: be_bytes.simps)
next
  case False
  then show ?thesis using assms by (auto simp: readExt_def min_ts ext_bytes_def not_le)
qed

lemma assembled_alloc:
  assumes "Length cs = of_nat (length d)" and "length d \<le> 0xffffff" and "length (Data cs) < 2 ^ 24" and "d \<noteq> []"
  shows "assembled d 0 (alloc cs)"
proof -
  have "unat (of_nat (length d) :: u32) = length d" using assms(2) by (simp add: unat_of_nat_u32)
  with assms show ?thesis by (auto simp: alloc_def assembled_def Let_def)
qed

text \<open>The first chunk of a message.\<close>

lemma readChunk1_first:
  assumes idle: "remain cs = 0" and inv: "cs_inv cs" and fmt: "tmpFromat cs = 0"
    and ok: "readError r = None" and cz: "unat n = c" and d: "d \<noteq> []" "length d \<le> 0xffffff"
    and rin: "rin r = be_bytes 3 (min ts 0xffffff) @ be_bytes 3 (of_nat (length d) :: u32) @ [ty] @ le_bytes 4 sid @
        ext_bytes ts @ take c d @ rest"
  shows "\<exists>cs'. readChunk1 cs n r = (Ok (), cs', r\<lparr>rin := rest\<rparr>) \<and> assembled d (min c (length d)) cs' \<and>
    CSID cs' = CSID cs \<and> Timestamp cs' = ts \<and> TypeID cs' = ucast ty \<and> StreamID cs' = sid \<and> exted cs' = (0xffffff \<le> ts)"
proof -
  let ?len = "of_nat (length d) :: u32"
  define cs1 where "cs1 = alloc (cs\<lparr>Format := tmpFromat cs, Timestamp := ts, Length := ?len, TypeID := ucast ty, StreamID := sid, exted := 0xffffff \<le> ts\<rparr>)"
  define r1 where "r1 = r\<lparr>rin := take c d @ rest\<rparr>"
  have len: "be_word (be_bytes 3 ?len) = ?len"
    using d by (simp add: be_word_be_bytes take_bit_fits unat_of_nat_u32 del: be_bytes.simps)
  have ty: "be_word [ty] = (ucast ty :: u32)" by (simp add: be_word_def)
  have sid: "le_word (le_bytes 4 sid) = sid"
    by (simp add: le_word_le_bytes del: le_bytes.simps)
  have "readFormat0 cs r = (cs1, r1)"
    unfolding readFormat0_def
    by (simp add: readBE_append [OF rin _ ok] readBE_append [where bs = "be_bytes 3 ?len"] readBE_append [where bs = "[ty]"]
        readLE_append [where bs = "le_bytes 4 sid"] ok len ty sid be_word_be_bytes3 readExt_append [where rest = "take c d @ rest"] cs1_def r1_def
        del: be_bytes.simps le_bytes.simps)
  then have run: "readChunk1 cs n r = readPayload1 n cs1 r1"
    using idle fmt by (simp add: readChunk1_def readHeader1_def)
  have asm: "assembled d 0 cs1" unfolding cs1_def using inv d by (intro assembled_alloc) (auto simp: cs_inv_def)
  obtain cs' where cs': "readPayload n cs1 r1 = (Ok (), cs', r1\<lparr>rin := rest\<rparr>)" "assembled d (min c (length d)) cs'" "same_message cs1 cs'"
    using readPayload_assembled [OF asm cz refl, of r1 rest] d ok by (auto simp: r1_def)
  have ex: "exted cs' = exted cs1"
    using cs'(1) by (auto simp: readPayload_def Let_def split: if_splits prod.splits option.splits)
  have "readPayload1 n cs1 r1 = (Ok (), cs', r1\<lparr>rin := rest\<rparr>)" using readPayload1_readPayload [OF cs'(1)] by auto
  then show ?thesis using run cs'(2,3) ex by (auto simp: same_message_def cs1_def r1_def)
qed

text \<open>The following chunks, with the extended time stamp again in front of the payload.\<close>

lemma readChunk1_continue:
  assumes asm: "assembled d k cs" and k: "k < length d" and fmt: "tmpFromat cs = 3" and ex: "exted cs = (0xffffff \<le> ts)" "Timestamp cs = ts"
    and cz: "unat n = c" and rin: "rin r = ext_bytes ts @ take c (drop k d) @ rest" and ok: "readError r = None"
  shows "\<exists>cs'. readChunk1 cs n r = (Ok (), cs', r\<lparr>rin := rest\<rparr>) \<and> assembled d (k + min c (length d - k)) cs' \<and>
    same_message cs cs' \<and> exted cs' = exted cs"
proof -
  define r1 where "r1 = r\<lparr>rin := take c (drop k d) @ rest\<rparr>"
  have rem: "remain cs \<noteq> 0" using assembled_unat(1) [OF asm] k by auto
  have "readFormat3 cs r = (Ok (), cs, r1)"
  proof (cases "0xffffff \<le> ts")
    case True
    then have e: "rin r = be_bytes 4 ts @ take c (drop k d) @ rest" using rin by (simp add: ext_bytes_def del: be_bytes.simps)
    then have "take 4 (rin r) = be_bytes 4 ts" "drop 4 (rin r) = take c (drop k d) @ rest" "\<not> length (rin r) < 4"
      by (simp_all del: be_bytes.simps)
    moreover have "ok_val (U32BE (be_bytes 4 ts)) = ts" using be_word_be_bytes4 [of ts] by (simp add: byte_simps del: be_bytes.simps)
    ultimately show ?thesis using rem ex True by (simp add: readFormat3_def bufio_Peek_def bufio_Discard_def r1_def del: be_bytes.simps)
  next
    case False
    then show ?thesis using rem ex rin by (simp add: readFormat3_def ext_bytes_def r1_def)
  qed
  then have run: "readChunk1 cs n r = readPayload1 n cs r1" using fmt by (simp add: readChunk1_def readHeader1_def)
  obtain cs' where cs': "readPayload n cs r1 = (Ok (), cs', r1\<lparr>rin := rest\<rparr>)" "assembled d (k + min c (length d - k)) cs'" "same_message cs cs'"
    using readPayload_assembled [OF asm cz refl, of r1 rest] k ok by (auto simp: r1_def)
  have "exted cs' = exted cs"
    using cs'(1) by (auto simp: readPayload_def Let_def split: if_splits prod.splits option.splits)
  moreover have "readPayload1 n cs r1 = (Ok (), cs', r1\<lparr>rin := rest\<rparr>)" using readPayload1_readPayload [OF cs'(1)] by auto
  ultimately show ?thesis using run cs'(2,3) by (auto simp: r1_def)
qed

text \<open>A reader of one message: basic headers and chunks until the message is complete, at most \<open>k\<close> of them.\<close>

primrec readMessage1 :: "nat \<Rightarrow> u32 \<Rightarrow> ChunkStream \<Rightarrow> ReadWriter \<Rightarrow> unit res \<times> ChunkStream \<times> ReadWriter" where
  "readMessage1 0 n cs r = (Err (Errorf ''too many chunks''), cs, r)"
| "readMessage1 (Suc k) n cs r =
     (case readBasicHeader r of
        (Ok (f, csid), r1) \<Rightarrow>
          (case readChunk1 (cs\<lparr>tmpFromat := f\<rparr>) n r1 of
             (Ok _, cs', r2) \<Rightarrow> (if complete cs' then (Ok (), cs', r2) else readMessage1 k n cs' r2)
           | x \<Rightarrow> x)
      | (Err e, r1) \<Rightarrow> (Err e, cs, r1)
      | (Panic, r1) \<Rightarrow> (Panic, cs, r1))"

lemma header_bytes_0: "header_bytes (m\<lparr>Format := 0\<rparr>) = basic_header 0 (CSID m) @ be_bytes 3 (min (Timestamp m) 0xffffff) @
      be_bytes 3 (Length m) @ [ucast (TypeID m)] @ le_bytes 4 (StreamID m) @ ext_bytes (Timestamp m)"
  by (simp add: header_bytes_def del: be_bytes.simps le_bytes.simps)

lemma header_bytes_3: "header_bytes (m\<lparr>Format := 3\<rparr>) = basic_header 3 (CSID m) @ ext_bytes (Timestamp m)"
  by (simp add: header_bytes_def del: be_bytes.simps le_bytes.simps)

lemma readMessage1_rest:
  assumes "assembled d k cs" and "k < length d" and "exted cs = (0xffffff \<le> ts)" "Timestamp cs = ts" and "unat n = c" "0 < c"
    and csid: "2 \<le> csid" "csid \<le> 65599" and "readError r = None" and "length d \<le> k + f"
    and "rin r = chunk_body c (basic_header 3 csid @ ext_bytes ts) (drop k d) @ rest"
  shows "\<exists>cs'. readMessage1 f n cs r = (Ok (), cs', r\<lparr>rin := rest\<rparr>) \<and> assembled d (length d) cs' \<and> same_message cs cs'"
  using assms
proof (induction f arbitrary: k cs r)
  case (Suc f)
  let ?k = "k + min c (length d - k)"
  let ?r1 = "ext_bytes ts @ take c (drop k d) @ chunk_body c (basic_header 3 csid @ ext_bytes ts) (drop ?k d) @ rest"
  let ?r2 = "chunk_body c (basic_header 3 csid @ ext_bytes ts) (drop ?k d) @ rest"
  have "drop c (drop k d) = drop ?k d" using Suc.prems(2) by (auto simp: min_def add.commute)
  then have in0: "rin r = basic_header 3 csid @ ?r1"
    using Suc.prems(2,6,11) by (subst (asm) chunk_body.simps) simp
  have bh: "readBasicHeader r = (Ok (3, csid), r\<lparr>rin := ?r1\<rparr>)"
    using csid in0 Suc.prems(9) by (intro readBasicHeader_append) simp_all
  obtain cs1 where rc: "readChunk1 (cs\<lparr>tmpFromat := 3\<rparr>) n (r\<lparr>rin := ?r1\<rparr>) = (Ok (), cs1, r\<lparr>rin := ?r2\<rparr>)"
    and a1: "assembled d ?k cs1" "same_message cs cs1" "exted cs1 = exted cs"
    using readChunk1_continue [of d k "cs\<lparr>tmpFromat := 3\<rparr>" ts n c "r\<lparr>rin := ?r1\<rparr>" ?r2] Suc.prems by auto
  show ?case
  proof (cases "?k = length d")
    case True
    with a1 have "complete cs1" by (simp add: assembled_def)
    moreover have "?r2 = rest" using True by (simp add: chunk_body.simps)
    ultimately show ?thesis using bh rc a1 True by simp
  next
    case False
    then have lt: "?k < length d" using Suc.prems(2) by simp
    have "\<not> complete cs1" using False a1 by (simp add: assembled_def)
    then have "readMessage1 (Suc f) n cs r = readMessage1 f n cs1 (r\<lparr>rin := ?r2\<rparr>)" using bh rc by simp
    moreover have "\<exists>cs'. readMessage1 f n cs1 (r\<lparr>rin := ?r2\<rparr>) = (Ok (), cs', r\<lparr>rin := ?r2, rin := rest\<rparr>) \<and>
        assembled d (length d) cs' \<and> same_message cs1 cs'"
      by (rule Suc.IH [OF a1(1) lt]) (use a1 Suc.prems in \<open>simp_all add: same_message_def\<close>)
    ultimately show ?thesis using same_message_trans [OF a1(2)] by auto
  qed
qed simp

section \<open>Properties\<close>

text \<open>
  C15: \<open>readChunk1\<close> reads back what \<open>writeChunk\<close> writes, for every time stamp: the chunks of a message, the extended
  time stamp repeated in each of them, are assembled to the same data, type, message stream and 32-bit time
  stamp, and exactly the bytes of the message are consumed.
\<close>

theorem readChunk1_roundtrip:
  assumes m: "Data m \<noteq> []" "length (Data m) \<le> 0xffffff" "Length m = of_nat (length (Data m))" "TypeID m < 256"
    and csid: "2 \<le> CSID m" "CSID m \<le> 65599" and n: "n \<noteq> 0"
    and idle: "remain cs = 0" "cs_inv cs" and ok: "readError r = None" and rin: "rin r = message_bytes (unat n) m @ rest"
  shows "\<exists>cs'. readMessage1 (length (Data m)) n cs r = (Ok (), cs', r\<lparr>rin := rest\<rparr>) \<and> isComplete cs' \<and>
    take (unat (Length cs')) (Data cs') = Data m \<and> Timestamp cs' = Timestamp m \<and> TypeID cs' = TypeID m \<and> StreamID cs' = StreamID m"
proof -
  let ?d = "Data m" and ?c = "unat n" and ?ts = "Timestamp m"
  let ?tail = "chunk_body ?c (basic_header 3 (CSID m) @ ext_bytes ?ts) (drop ?c ?d) @ rest"
  let ?r1 = "be_bytes 3 (min ?ts 0xffffff) @ be_bytes 3 (of_nat (length ?d) :: u32) @ [ucast (TypeID m)] @ le_bytes 4 (StreamID m) @
    ext_bytes ?ts @ take ?c ?d @ ?tail"
  have c: "0 < ?c" using n by (simp add: unat_gt_0)
  have in0: "rin r = basic_header 0 (CSID m) @ ?r1"
    using rin m by (simp add: message_bytes_def header_bytes_0 header_bytes_3 del: be_bytes.simps le_bytes.simps)
  have bh: "readBasicHeader r = (Ok (0, CSID m), r\<lparr>rin := ?r1\<rparr>)"
    using csid in0 ok by (intro readBasicHeader_append) simp_all
  obtain cs1 where rc: "readChunk1 (cs\<lparr>tmpFromat := 0\<rparr>) n (r\<lparr>rin := ?r1\<rparr>) = (Ok (), cs1, r\<lparr>rin := ?tail\<rparr>)"
    and a1: "assembled ?d (min ?c (length ?d)) cs1" and f1: "Timestamp cs1 = ?ts" "TypeID cs1 = ucast (ucast (TypeID m) :: u8)"
      "StreamID cs1 = StreamID m" "exted cs1 = (0xffffff \<le> ?ts)"
    using readChunk1_first [of "cs\<lparr>tmpFromat := 0\<rparr>" "r\<lparr>rin := ?r1\<rparr>" n ?c ?d ?ts "ucast (TypeID m)" "StreamID m" ?tail] idle m ok by auto
  have "take_bit 8 (TypeID m) = TypeID m" using m(4) by (intro take_bit_fits) (simp add: word_less_nat_alt)
  moreover have "ucast (ucast (TypeID m) :: u8) = take_bit 8 (TypeID m)" by (rule bit_word_eqI) (auto simp: bit_simps)
  ultimately have ty: "TypeID cs1 = TypeID m" using f1 by simp
  obtain f where f: "length ?d = Suc f" using m(1) by (cases ?d) auto
  have whole: "isComplete cs' \<and> take (unat (Length cs')) (Data cs') = ?d" if "assembled ?d (length ?d) cs'" for cs'
    using that assembled_unat(3) [OF that] by (simp add: assembled_def isComplete_def)
  show ?thesis
  proof (cases "length ?d \<le> ?c")
    case True
    with a1 have "complete cs1" "?tail = rest" by (simp_all add: assembled_def chunk_body.simps)
    then have "readMessage1 (length ?d) n cs r = (Ok (), cs1, r\<lparr>rin := rest\<rparr>)" using bh rc f by simp
    then show ?thesis using whole [of cs1] a1 f1 ty True by auto
  next
    case False
    with a1 have "\<not> complete cs1" by (simp add: assembled_def)
    then have run: "readMessage1 (length ?d) n cs r = readMessage1 f n cs1 (r\<lparr>rin := ?tail\<rparr>)" using bh rc f by simp
    have "\<exists>cs'. readMessage1 f n cs1 (r\<lparr>rin := ?tail\<rparr>) = (Ok (), cs', r\<lparr>rin := ?tail, rin := rest\<rparr>) \<and>
        assembled ?d (length ?d) cs' \<and> same_message cs1 cs'"
      by (rule readMessage1_rest [where k = ?c and c = ?c and ts = ?ts and csid = "CSID m"]) (use a1 False f1 f c csid ok in simp_all)
    then show ?thesis using run whole f1 ty by (auto simp: same_message_def)
  qed
qed

theorem readChunk1_roundtrip_witness:
  "\<exists>cs'. readMessage1 5 2 (zeroChunkStream\<lparr>CSID := 4\<rparr>) (NewReadWriter
      (message_bytes 2 (zeroChunkStream\<lparr>CSID := 4, Timestamp := 0x1000001, TypeID := 8, StreamID := 1, Length := 5, Data := [1, 2, 3, 4, 5]\<rparr>)) EOF 0 EOF 16) =
      (Ok (), cs', NewReadWriter [] EOF 0 EOF 16) \<and> Timestamp cs' = 0x1000001"
proof -
  let ?m = "zeroChunkStream\<lparr>CSID := 4, Timestamp := 0x1000001, TypeID := 8, StreamID := 1, Length := 5, Data := [1, 2, 3, 4, 5]\<rparr>"
  let ?r = "NewReadWriter (message_bytes 2 ?m) EOF 0 EOF 16"
  have in0: "rin ?r = message_bytes (unat (2 :: u32)) ?m @ []" and r: "readError ?r = None" "?r\<lparr>rin := []\<rparr> = NewReadWriter [] EOF 0 EOF 16"
    by (simp_all add: NewReadWriter_def)
  have idle: "remain (zeroChunkStream\<lparr>CSID := 4\<rparr>) = 0" by (simp add: zeroChunkStream_def)
  have m: "Data ?m \<noteq> []" "length (Data ?m) \<le> 0xffffff" "Length ?m = of_nat (length (Data ?m))" "TypeID ?m < 256" "2 \<le> CSID ?m" "CSID ?m \<le> 65599"
    "length (Data ?m) = 5" by simp_all
  from readChunk1_roundtrip [OF m(1-6) _ idle cs_inv_zero r(1) in0] show ?thesis
    unfolding m(7) r(2) by auto
qed

text \<open>
  Deltas are added: a chunk of format 1 or 2 that starts a message moves the time stamp by the delta in its header, extended or
  not, whether or not the payload arrives. A chunk of format 3 that starts one moves it by the same delta again.
\<close>

theorem readChunk1_adds_delta:
  assumes "remain cs = 0" and "readError r = None" and "readChunk1 cs n r = (x, cs', r')"
    and "tmpFromat cs = 2 \<and> rin r = be_bytes 3 (min dt 0xffffff) @ ext_bytes dt @ rest \<or>
      tmpFromat cs = 1 \<and> rin r = be_bytes 3 (min dt 0xffffff) @ be_bytes 3 len @ [ty] @ ext_bytes dt @ rest \<or>
      tmpFromat cs = 3 \<and> Format cs \<in> {1, 2} \<and> \<not> exted cs \<and> timeDelta cs = dt"
  shows "Timestamp cs' = Timestamp cs + dt"
proof -
  have pay: "Timestamp cs2 = Timestamp cs1" if "readPayload1 n cs1 r1 = (y, cs2, r2)" for y cs1 cs2 r1 r2
    using that by (auto simp: readPayload1_def Let_def split: if_splits prod.splits option.splits)
  have "\<exists>cs1 r1. readHeader1 cs r = (Ok (), cs1, r1) \<and> Timestamp cs1 = Timestamp cs + dt"
  proof (cases "tmpFromat cs = 3")
    case True
    then show ?thesis using assms(1,4) by (auto simp: readHeader1_def readFormat3_def)
  next
    case False
    then consider (two) "tmpFromat cs = 2" "rin r = be_bytes 3 (min dt 0xffffff) @ ext_bytes dt @ rest"
      | (one) "tmpFromat cs = 1" "rin r = be_bytes 3 (min dt 0xffffff) @ be_bytes 3 len @ [ty] @ ext_bytes dt @ rest"
      using assms(4) by blast
    then show ?thesis
    proof cases
      case two
      then show ?thesis
        by (simp add: readHeader1_def readFormat2_def readBE_append [OF two(2) _ assms(2)] be_word_be_bytes3 readExt_append [where rest = rest] assms(2)
            del: be_bytes.simps)
    next
      case one
      then show ?thesis
        by (simp add: readHeader1_def readFormat1_def readBE_append [OF one(2) _ assms(2)] readBE_append [where bs = "be_bytes 3 len"]
            readBE_append [where bs = "[ty]"] be_word_be_bytes3 readExt_append [where rest = rest] assms(2) del: be_bytes.simps)
    qed
  qed
  then obtain cs1 r1 where h: "readHeader1 cs r = (Ok (), cs1, r1)" "Timestamp cs1 = Timestamp cs + dt" by blast
  then have "readPayload1 n cs1 r1 = (x, cs', r')" using assms(1,3) by (simp add: readChunk1_def)
  then show ?thesis using pay h(2) by simp
qed

text \<open>
  Whatever bytes arrive, \<open>readChunk1\<close> keeps the invariant of the assembly buffer, does not panic, and refuses a message header inside a
  message without reading anything.
\<close>

theorem readChunk1_safe:
  assumes "cs_inv cs" and "readChunk1 cs n r = (x, cs', r')"
  shows "cs_inv cs' \<and> x \<noteq> Panic \<and> CSID cs' = CSID cs \<and> wr_same r r' \<and>
    (remain cs \<noteq> 0 \<and> tmpFromat cs \<noteq> 3 \<longrightarrow> x \<noteq> Ok () \<and> cs' = cs \<and> r' = r)"
  using readChunk1_inv [OF assms] assms(2) by (auto simp: readChunk1_def)

end
