(* ===== verification/Crc32.thy ===== *)
theory Crc32
  imports Prelude
begin

text \<open>
  The checksum of MPEG-TS tables, \<open>container/ts/crc32.go\<close>: a table-driven CRC-32. It is shown
  equal to the bitwise division by the generator polynomial.
\<close>

section \<open>The table-driven code\<close>

definition crcTable :: "u32 list" where
  "crcTable =
    [0x00000000, 0x04c11db7, 0x09823b6e, 0x0d4326d9, 0x130476dc, 0x17c56b6b, 0x1a864db2, 0x1e475005,
     0x2608edb8, 0x22c9f00f, 0x2f8ad6d6, 0x2b4bcb61, 0x350c9b64, 0x31cd86d3, 0x3c8ea00a, 0x384fbdbd,
     0x4c11db70, 0x48d0c6c7, 0x4593e01e, 0x4152fda9, 0x5f15adac, 0x5bd4b01b, 0x569796c2, 0x52568b75,
     0x6a1936c8, 0x6ed82b7f, 0x639b0da6, 0x675a1011, 0x791d4014, 0x7ddc5da3, 0x709f7b7a, 0x745e66cd,
     0x9823b6e0, 0x9ce2ab57, 0x91a18d8e, 0x95609039, 0x8b27c03c, 0x8fe6dd8b, 0x82a5fb52, 0x8664e6e5,
     0xbe2b5b58, 0xbaea46ef, 0xb7a96036, 0xb3687d81, 0xad2f2d84, 0xa9ee3033, 0xa4ad16ea, 0xa06c0b5d,
     0xd4326d90, 0xd0f37027, 0xddb056fe, 0xd9714b49, 0xc7361b4c, 0xc3f706fb, 0xceb42022, 0xca753d95,
     0xf23a8028, 0xf6fb9d9f, 0xfbb8bb46, 0xff79a6f1, 0xe13ef6f4, 0xe5ffeb43, 0xe8bccd9a, 0xec7dd02d,
     0x34867077, 0x30476dc0, 0x3d044b19, 0x39c556ae, 0x278206ab, 0x23431b1c, 0x2e003dc5, 0x2ac12072,
     0x128e9dcf, 0x164f8078, 0x1b0ca6a1, 0x1fcdbb16, 0x018aeb13, 0x054bf6a4, 0x0808d07d, 0x0cc9cdca,
     0x7897ab07, 0x7c56b6b0, 0x71159069, 0x75d48dde, 0x6b93dddb, 0x6f52c06c, 0x6211e6b5, 0x66d0fb02,
     0x5e9f46bf, 0x5a5e5b08, 0x571d7dd1, 0x53dc6066, 0x4d9b3063, 0x495a2dd4, 0x44190b0d, 0x40d816ba,
     0xaca5c697, 0xa864db20, 0xa527fdf9, 0xa1e6e04e, 0xbfa1b04b, 0xbb60adfc, 0xb6238b25, 0xb2e29692,
     0x8aad2b2f, 0x8e6c3698, 0x832f1041, 0x87ee0df6, 0x99a95df3, 0x9d684044, 0x902b669d, 0x94ea7b2a,
     0xe0b41de7, 0xe4750050, 0xe9362689, 0xedf73b3e, 0xf3b06b3b, 0xf771768c, 0xfa325055, 0xfef34de2,
     0xc6bcf05f, 0xc27dede8, 0xcf3ecb31, 0xcbffd686, 0xd5b88683, 0xd1799b34, 0xdc3abded, 0xd8fba05a,
     0x690ce0ee, 0x6dcdfd59, 0x608edb80, 0x644fc637, 0x7a089632, 0x7ec98b85, 0x738aad5c, 0x774bb0eb,
     0x4f040d56, 0x4bc510e1, 0x46863638, 0x42472b8f, 0x5c007b8a, 0x58c1663d, 0x558240e4, 0x51435d53,
     0x251d3b9e, 0x21dc2629, 0x2c9f00f0, 0x285e1d47, 0x36194d42, 0x32d850f5, 0x3f9b762c, 0x3b5a6b9b,
     0x0315d626, 0x07d4cb91, 0x0a97ed48, 0x0e56f0ff, 0x1011a0fa, 0x14d0bd4d, 0x19939b94, 0x1d528623,
     0xf12f560e, 0xf5ee4bb9, 0xf8ad6d60, 0xfc6c70d7, 0xe22b20d2, 0xe6ea3d65, 0xeba91bbc, 0xef68060b,
     0xd727bbb6, 0xd3e6a601, 0xdea580d8, 0xda649d6f, 0xc423cd6a, 0xc0e2d0dd, 0xcda1f604, 0xc960ebb3,
     0xbd3e8d7e, 0xb9ff90c9, 0xb4bcb610, 0xb07daba7, 0xae3afba2, 0xaafbe615, 0xa7b8c0cc, 0xa379dd7b,
     0x9b3660c6, 0x9ff77d71, 0x92b45ba8, 0x9675461f, 0x8832161a, 0x8cf30bad, 0x81b02d74, 0x857130c3,
     0x5d8a9099, 0x594b8d2e, 0x5408abf7, 0x50c9b640, 0x4e8ee645, 0x4a4ffbf2, 0x470cdd2b, 0x43cdc09c,
     0x7b827d21, 0x7f436096, 0x7200464f, 0x76c15bf8, 0x68860bfd, 0x6c47164a, 0x61043093, 0x65c52d24,
     0x119b4be9, 0x155a565e, 0x18197087, 0x1cd86d30, 0x029f3d35, 0x065e2082, 0x0b1d065b, 0x0fdc1bec,
     0x3793a651, 0x3352bbe6, 0x3e119d3f, 0x3ad08088, 0x2497d08d, 0x2056cd3a, 0x2d15ebe3, 0x29d4f654,
     0xc5a92679, 0xc1683bce, 0xcc2b1d17, 0xc8ea00a0, 0xd6ad50a5, 0xd26c4d12, 0xdf2f6bcb, 0xdbee767c,
     0xe3a1cbc1, 0xe760d676, 0xea23f0af, 0xeee2ed18, 0xf0a5bd1d, 0xf464a0aa, 0xf9278673, 0xfde69bc4,
     0x89b8fd09, 0x8d79e0be, 0x803ac667, 0x84fbdbd0, 0x9abc8bd5, 0x9e7d9662, 0x933eb0bb, 0x97ffad0c,
     0xafb010b1, 0xab710d06, 0xa6322bdf, 0xa2f33668, 0xbcb4666d, 0xb8757bda, 0xb5365d03, 0xb1f740b4]"

definition crc_step :: "u32 \<Rightarrow> u8 \<Rightarrow> u32" where
  "crc_step crc b =
     (let j = (ucast (drop_bit 24 crc) XOR b) AND 0xff :: u8
      in push_bit 8 crc XOR crcTable ! unat j)"

definition GenCrc32 :: "bytes \<Rightarrow> u32" where
  "GenCrc32 src = foldl crc_step 0xFFFFFFFF src"

section \<open>The bitwise reference\<close>

definition crc_bit :: "u32 \<Rightarrow> u32" where
  "crc_bit c = push_bit 1 c XOR (if bit c 31 then 0x04c11db7 else 0)"

definition crc_byte :: "u32 \<Rightarrow> u8 \<Rightarrow> u32" where
  "crc_byte crc b = (crc_bit ^^ 8) (crc XOR push_bit 24 (ucast b))"

definition crc_reference :: "bytes \<Rightarrow> u32" where
  "crc_reference src = foldl crc_byte 0xFFFFFFFF src"

lemma crc_bit_xor: "crc_bit (x XOR y) = crc_bit x XOR crc_bit y"
proof -
  have "push_bit 1 (x XOR y) = push_bit 1 x XOR push_bit 1 y" by (rule push_bit_xor)
  then show ?thesis by (cases "bit x 31"; cases "bit y 31") (simp_all add: crc_bit_def bit_simps xor.assoc xor.left_commute xor.commute del: push_bit_Suc)
qed

lemma crc_bits_xor: "(crc_bit ^^ n) (x XOR y) = (crc_bit ^^ n) x XOR (crc_bit ^^ n) y"
  by (induction n) (simp_all add: crc_bit_xor)

lemma crc_bits_low: "n \<le> 8 \<Longrightarrow> take_bit 24 x = x \<Longrightarrow> (crc_bit ^^ n) x = push_bit n x"
proof (induction n)
  case (Suc n)
  then have IH: "(crc_bit ^^ n) x = push_bit n x" by simp
  have "\<not> bit x (31 - n)" 
  proof
    assume "bit x (31 - n)"
    then have "31 - n < 24" using Suc.prems(2) by (metis bit_take_bit_iff)
    then show False using Suc.prems(1) by simp
  qed
  then have "\<not> bit (push_bit n x) 31" by (simp add: bit_simps)
  then show ?case unfolding funpow.simps o_apply IH by (simp add: crc_bit_def)
qed simp

section \<open>Equivalence\<close>

fun table_ok :: "u32 \<Rightarrow> u32 list \<Rightarrow> bool" where
  "table_ok c [] = True"
| "table_ok c (t # ts) =
     (t = crc_bit (crc_bit (crc_bit (crc_bit (crc_bit (crc_bit (crc_bit (crc_bit c))))))) \<and>
      table_ok (c + 0x01000000) ts)"

lemma crcTable_ok: "table_ok 0 crcTable"
  by (simp add: crcTable_def crc_bit_def)

lemma length_crcTable: "length crcTable = 256"
  by (simp add: crcTable_def)

lemma table_ok_nth:
  "table_ok c ts \<Longrightarrow> j < length ts \<Longrightarrow> ts ! j = (crc_bit ^^ 8) (c + of_nat j * 0x01000000)"
proof (induction ts arbitrary: c j)
  case (Cons t ts)
  show ?case
  proof (cases j)
    case 0
    with Cons.prems show ?thesis by (simp add: numeral_eq_Suc)
  next
    case (Suc i)
    with Cons.prems have "ts ! i = (crc_bit ^^ 8) (c + 0x01000000 + of_nat i * 0x01000000)"
      by (intro Cons.IH) simp_all
    with Suc show ?thesis by (simp add: algebra_simps)
  qed
qed simp

lemma crcTable_nth: "crcTable ! unat (j :: u8) = (crc_bit ^^ 8) (push_bit 24 (ucast j))"
proof -
  have "unat j < length crcTable" using unat_lt_u8 by (simp add: length_crcTable)
  moreover have "push_bit 24 (ucast j) = (of_nat (unat j) * 0x01000000 :: u32)"
    by (simp add: push_bit_eq_mult)
  ultimately show ?thesis using table_ok_nth [OF crcTable_ok, of "unat j"] by simp
qed

lemma crc_step_byte: "crc_step crc b = crc_byte crc b"
proof -
  let ?j = "ucast (drop_bit 24 crc) XOR b :: u8"
  have m: "?j AND 0xff = ?j" by (rule and_0xff)
  have "crc XOR push_bit 24 (ucast b) = push_bit 24 (ucast ?j) XOR take_bit 24 crc"
    by (rule bit_word_eqI) (auto simp: bit_simps)
  then have "crc_byte crc b = (crc_bit ^^ 8) (push_bit 24 (ucast ?j)) XOR push_bit 8 (take_bit 24 crc)"
    using crc_bits_low [of 8 "take_bit 24 crc"] by (simp add: crc_byte_def crc_bits_xor)
  also have "push_bit 8 (take_bit 24 crc) = push_bit 8 crc"
    by (rule bit_word_eqI) (auto simp: bit_simps)
  finally have "crc_byte crc b = push_bit 8 crc XOR (crc_bit ^^ 8) (push_bit 24 (ucast ?j))"
    by (simp only: xor.commute)
  then show ?thesis unfolding crc_step_def Let_def m crcTable_nth by simp
qed

text \<open>
  C29: The table-driven checksum is the CRC-32 of MPEG: dividing bit by bit by the polynomial
  0x04c11db7, starting from all ones.
\<close>

theorem GenCrc32_reference: "GenCrc32 src = crc_reference src"
proof -
  have "crc_step = crc_byte" by (intro ext) (rule crc_step_byte)
  then show ?thesis by (simp add: GenCrc32_def crc_reference_def)
qed

section \<open>Checking a section\<close>

lemma crc_step_top: "crc_step crc (ucast (drop_bit 24 crc)) = push_bit 8 crc"
proof -
  have "crcTable ! 0 = 0" by (simp add: crcTable_def)
  then show ?thesis by (simp add: crc_step_def)
qed

text \<open>A receiver runs the checksum over a section and the checksum that ends it, and gets zero.\<close>

lemma GenCrc32_residue: "GenCrc32 (src @ be_bytes 4 (GenCrc32 src)) = 0"
proof -
  define c where "c = GenCrc32 src"
  have b: "be_bytes 4 c = [ucast (drop_bit 24 c), ucast (drop_bit 24 (push_bit 8 c)),
      ucast (drop_bit 24 (push_bit 8 (push_bit 8 c))), ucast (drop_bit 24 (push_bit 8 (push_bit 8 (push_bit 8 c))))]"
  proof -
    have "ucast (drop_bit 16 c) = (ucast (drop_bit 24 (push_bit 8 c)) :: u8)"
      "ucast (drop_bit 8 c) = (ucast (drop_bit 24 (push_bit 8 (push_bit 8 c))) :: u8)"
      "ucast c = (ucast (drop_bit 24 (push_bit 8 (push_bit 8 (push_bit 8 c)))) :: u8)"
      by (rule bit_word_eqI; auto simp: bit_simps)+
    then show ?thesis by (simp add: numeral_eq_Suc be_bytes_Cons)
  qed
  have "push_bit 8 (push_bit 8 (push_bit 8 (push_bit 8 c))) = 0"
    by (rule bit_word_eqI) (simp add: bit_simps)
  then have "foldl crc_step c (be_bytes 4 c) = 0" unfolding b foldl.simps crc_step_top .
  then show ?thesis by (simp add: GenCrc32_def c_def)
qed

end
