(* ===== verification/TsMuxer.thy ===== *)
theory TsMuxer
  imports AvTypes Crc32
begin

text \<open>
  The MPEG-TS muxer of \<open>container/ts/muxer.go\<close>: PES headers, the split of a frame into 188-byte
  transport packets with adaptation-field stuffing, and the PAT and PMT tables. Byte-sized
  counters are 8-bit words, as in the source, where they could wrap.
\<close>

section \<open>State\<close>

abbreviation (input) tsDefaultDataLen :: nat where "tsDefaultDataLen \<equiv> 184"
abbreviation (input) tsPacketLen :: nat where "tsPacketLen \<equiv> 188"
abbreviation (input) h264DefaultHZ :: int where "h264DefaultHZ \<equiv> 90"
abbreviation (input) videoPID :: u32 where "videoPID \<equiv> 0x100"
abbreviation (input) audioPID :: u32 where "audioPID \<equiv> 0x101"
abbreviation (input) videoSID :: u8 where "videoSID \<equiv> 0xe0"
abbreviation (input) audioSID :: u8 where "audioSID \<equiv> 0xc0"

record TsMuxer =
  videoCc :: u8
  audioCc :: u8
  patCc :: u8
  pmtCc :: u8
  pat :: bytes
  pmt :: bytes
  tsPacket :: bytes

definition NewMuxer :: TsMuxer where
  "NewMuxer = \<lparr>videoCc = 0, audioCc = 0, patCc = 0, pmtCc = 0, pat = replicate tsPacketLen 0,
     pmt = replicate tsPacketLen 0, tsPacket = replicate tsPacketLen 0\<rparr>"

section \<open>PES headers\<close>

text \<open>Time stamps are \<open>int64\<close>; \<open>uint32\<close> of a shifted value keeps its low 32 bits.\<close>

definition writeTs :: "bytes \<Rightarrow> nat \<Rightarrow> u32 \<Rightarrow> int \<Rightarrow> bytes" where
  "writeTs src i fb ts0 =
     (let ts = (if ts0 > 0x1ffffffff then ts0 - 0x1ffffffff else ts0);
          v1 = push_bit 4 fb OR push_bit 1 (word_of_int (drop_bit 30 ts) AND 0x07) OR 1 :: u32;
          v2 = push_bit 1 (word_of_int (drop_bit 15 ts) AND 0x7fff) OR 1 :: u32;
          v3 = push_bit 1 (word_of_int (ts AND 0x7fff)) OR 1 :: u32
      in src[i := ucast v1, i + 1 := ucast (drop_bit 8 v2), i + 2 := ucast v2,
             i + 3 := ucast (drop_bit 8 v3), i + 4 := ucast v3])"

definition isVideo :: "Packet \<Rightarrow> bool" where
  "isVideo p \<longleftrightarrow> PacketType p = PacketTypeVideo"

text \<open>The header bytes in the 188-byte array \<open>data\<close> and their number \<open>len\<close>.\<close>

definition pes_packet :: "Packet \<Rightarrow> int \<Rightarrow> int \<Rightarrow> u8 \<times> bytes" where
  "pes_packet p pts dts =
     (let sid = (if isVideo p then videoSID else audioSID);
          both = (isVideo p \<and> pts \<noteq> dts);
          flag = (if both then 0xc0 else 0x80) :: u32;
          headerSize = (if both then 10 else 5) :: nat;
          size0 = length (PData p) + headerSize + 3;
          sz = (of_nat (if size0 > 0xffff then 0 else size0)) :: u32;
          d0 = (replicate tsPacketLen 0)[0 := 0, 1 := 0, 2 := 1, 3 := sid, 4 := ucast (drop_bit 8 sz),
                 5 := ucast sz, 6 := 0x80, 7 := ucast flag, 8 := of_nat headerSize];
          d1 = writeTs d0 9 (drop_bit 6 flag) pts
      in if both then (19, writeTs d1 14 1 dts) else (14, d1))"

section \<open>Transport packets\<close>

definition adaptationBufInit :: "bytes \<Rightarrow> u8 \<Rightarrow> bytes" where
  "adaptationBufInit src remainBytes =
     (let src1 = src[0 := remainBytes - 1] in
      if remainBytes = 1 then src1
      else take 1 src1 @ [0] @ replicate (length src1 - 2) 0xff)"

definition writePcr :: "bytes \<Rightarrow> nat \<Rightarrow> int \<Rightarrow> bytes" where
  "writePcr b i pcr = b[i := word_of_int (drop_bit 25 pcr), i + 1 := word_of_int (drop_bit 17 pcr AND 0xff),
     i + 2 := word_of_int (drop_bit 9 pcr AND 0xff), i + 3 := word_of_int (drop_bit 1 pcr AND 0xff),
     i + 4 := word_of_int (push_bit 7 (pcr AND 1) OR 0x7e), i + 5 := 0]"

text \<open>The variables of the loop of \<open>Mux\<close>. \<open>left\<close> is \<open>packetBytesLen\<close>.\<close>

record muxLoop =
  mfirst :: bool
  wBytes :: nat
  pesIndex :: nat
  pesHeaderLen :: u8
  left :: int

definition bumpCc :: "Packet \<Rightarrow> TsMuxer \<Rightarrow> TsMuxer" where
  "bumpCc p m =
     (if isVideo p
      then let m1 = m\<lparr>videoCc := videoCc m + 1\<rparr> in if videoCc m1 > 0xf then m1\<lparr>videoCc := 0\<rparr> else m1
      else let m1 = m\<lparr>audioCc := audioCc m + 1\<rparr> in if audioCc m1 > 0xf then m1\<lparr>audioCc := 0\<rparr> else m1)"

text \<open>
  The four header bytes, then, in a key frame's first packet, the PCR. The test reads a local
  \<open>videoH\<close> that is never assigned, so it is the zero header.
\<close>

definition tsHead :: "Packet \<Rightarrow> int \<Rightarrow> bool \<Rightarrow> TsMuxer \<Rightarrow> bytes \<times> u8" where
  "tsHead p dts first m =
     (let pid = (if isVideo p then videoPID else audioPID);
          cc = (if isVideo p then videoCc m else audioCc m);
          b1 = (tsPacket m)[0 := 0x47, 1 := ucast (drop_bit 8 pid) OR (if first then 0x40 else 0),
                 2 := ucast pid, 3 := 0x10 OR (cc AND 0x0f)]
      in if first \<and> isVideo p \<and> FrameType zeroVideoHeader = FRAME_KEY
         then (writePcr (b1[3 := b1 ! 3 OR 0x20, 4 := 7, 5 := 0x50]) 6 dts, 12)
         else (b1, 4))"

text \<open>Full packets carry 184 bytes; the last one is filled up with an adaptation field.\<close>

definition tsStuff :: "bool \<Rightarrow> int \<Rightarrow> bytes \<Rightarrow> u8 \<Rightarrow> bytes \<times> u8 \<times> u8" where
  "tsStuff first bytesLeft b i =
     (if bytesLeft \<ge> int tsDefaultDataLen
      then (b, i, if first then 184 - (i - 4) else 184)
      else
        let b1 = b[3 := b ! 3 OR 0x20];
            dataLen = word_of_int bytesLeft;
            remainBytes = (if first then 184 - dataLen - (i - 4) else 184 - dataLen)
        in (take (unat i) b1 @ adaptationBufInit (drop (unat i) b1) remainBytes, i + remainBytes, dataLen))"

definition tsPes :: "bytes \<Rightarrow> muxLoop \<Rightarrow> bytes \<Rightarrow> u8 \<Rightarrow> u8 \<Rightarrow> (muxLoop \<times> bytes \<times> u8 \<times> u8) res" where
  "tsPes pesData l b i dataLen =
     (if mfirst l \<and> i < 188 \<and> pesHeaderLen l > 0 then
        let tmpLen = (if pesHeaderLen l \<le> 188 - i then pesHeaderLen l else 188 - i) in
        res_bind (slice (pesIndex l) (pesIndex l + unat tmpLen) pesData) (\<lambda>h.
          Ok (l\<lparr>left := left l - int (unat tmpLen), pesHeaderLen := pesHeaderLen l - tmpLen,
                pesIndex := pesIndex l + unat tmpLen\<rparr>,
              put_at (unat i) h b, i + tmpLen, dataLen - tmpLen))
      else Ok (l, b, i, dataLen))"

definition tsData :: "bytes \<Rightarrow> muxLoop \<Rightarrow> bytes \<Rightarrow> u8 \<Rightarrow> u8 \<Rightarrow> (muxLoop \<times> bytes) res" where
  "tsData d l b i dataLen =
     (if i < 188 then
        let n = (if 188 - i \<le> dataLen then 188 - i else dataLen) in
        res_bind (slice (wBytes l) (wBytes l + unat n) d) (\<lambda>h.
          Ok (l\<lparr>wBytes := wBytes l + unat n, left := left l - int (unat n)\<rparr>, put_at (unat i) h b))
      else Ok (l, b))"

definition tsFrame :: "Packet \<Rightarrow> int \<Rightarrow> bytes \<Rightarrow> muxLoop \<Rightarrow> TsMuxer \<Rightarrow> (muxLoop \<times> bytes) res" where
  "tsFrame p dts pesData l m =
     (case tsHead p dts (mfirst l) m of (b0, i0) \<Rightarrow>
      case tsStuff (mfirst l) (left l) b0 i0 of (b1, i1, dataLen1) \<Rightarrow>
        res_bind (tsPes pesData l b1 i1 dataLen1) (\<lambda>(l2, b2, i2, dataLen2).
          tsData (PData p) l2 b2 i2 dataLen2))"

section \<open>The payload of a transport packet\<close>

definition ts_payload :: "bytes \<Rightarrow> bytes" where
  "ts_payload b = (if b ! 3 AND 0x20 \<noteq> 0 then drop (5 + unat (b ! 4)) b else drop 4 b)"

text \<open>
  A packet of the stream of \<open>p\<close>: 188 bytes, sync byte, start indicator on the first one only, the
  PID, and the continuity counter of the muxer.
\<close>

definition ccOf :: "Packet \<Rightarrow> TsMuxer \<Rightarrow> u8" where
  "ccOf p m = (if isVideo p then videoCc m else audioCc m)"

definition frame_ok :: "Packet \<Rightarrow> bool \<Rightarrow> TsMuxer \<Rightarrow> bytes \<Rightarrow> bool" where
  "frame_ok p first m b \<longleftrightarrow> length b = 188 \<and>
     take 3 b = [0x47, if first then 0x41 else 0x01, if isVideo p then 0x00 else 0x01] \<and>
     b ! 3 AND 0x0f = ccOf p m AND 0x0f"

lemma unat_small: "n < 256 \<Longrightarrow> unat (of_nat n :: u8) = n"
  by (simp add: unsigned_of_nat take_bit_nat_eq_self)

lemma of_nat_sub_u8: "m \<le> n \<Longrightarrow> (of_nat n :: u8) - of_nat m = of_nat (n - m)"
  by (simp add: of_nat_diff)

lemma tsHead_frame:
  assumes "length (tsPacket m) = 188"
  obtains b where "tsHead p dts f m = (b, 4)" and "b ! 3 AND 0x20 = 0" and "frame_ok p f m b"
proof -
  define cc where "cc = ccOf p m"
  obtain r where r: "length r = 184" "\<And>a b c d. (tsPacket m)[0 := a, 1 := b, 2 := c, 3 := d] = [a, b, c, d] @ r"
  proof -
    obtain w x y z r where "tsPacket m = w # x # y # z # r"
      using assms by (auto simp: numeral_eq_Suc length_Suc_conv)
    then show thesis using assms that [of r] by simp
  qed
  have "(0x10 OR (cc AND 0x0f)) AND 0x20 = (0 :: u8)" and "(0x10 OR (cc AND 0x0f)) AND 0x0f = cc AND 0x0f"
  proof -
    have "(0x0f :: u8) AND 0x20 = 0" "(0x10 :: u8) AND 0x20 = 0" "(0x10 :: u8) AND 0x0f = 0" by simp_all
    then show "(0x10 OR (cc AND 0x0f)) AND 0x20 = (0 :: u8)" "(0x10 OR (cc AND 0x0f)) AND 0x0f = cc AND 0x0f"
      by (simp_all add: and.assoc bit.conj_disj_distrib2)
  qed
  then show thesis
    by (intro that [of "(tsPacket m)[0 := 0x47,
          1 := ucast (drop_bit 8 (if isVideo p then 0x100 else 0x101 :: u32)) OR (if f then 0x40 else 0),
          2 := ucast (if isVideo p then 0x100 else 0x101 :: u32), 3 := 0x10 OR (cc AND 0x0f)]"])
      (simp_all add: tsHead_def zeroVideoHeader_def Let_def cc_def ccOf_def frame_ok_def r(1) r(2) [simplified])
qed

lemma frame_ok_tail:
  assumes "frame_ok p f m b" and "length b' = 188" and "take 3 b' = take 3 b" and "b' ! 3 AND 0x0f = b ! 3 AND 0x0f"
    and "length x = k" and "k \<le> 184"
  shows "frame_ok p f m (take (188 - k) b' @ x)"
proof -
  have "3 < 188 - k" using assms(6) by simp
  then have "take 3 (take (188 - k) b' @ x) = take 3 b'" and "(take (188 - k) b' @ x) ! 3 = b' ! 3"
    using assms(2,6) by (simp_all add: nth_append)
  then show ?thesis using assms by (simp add: frame_ok_def)
qed

text \<open>After the stuffing, \<open>k\<close> bytes are free at the end of the packet.\<close>

lemma tsStuff_frame:
  assumes b: "length b = 188" "b ! 3 AND 0x20 = 0" and n: "0 < n" and k: "k = min 184 n"
  obtains b' where "tsStuff f (int n) b 4 = (b', of_nat (188 - k), of_nat k)" and "length b' = 188"
    and "take 3 b' = take 3 b" and "b' ! 3 AND 0x0f = b ! 3 AND 0x0f" and "\<forall>x. length x = k \<longrightarrow> ts_payload (take (188 - k) b' @ x) = x"
proof (cases "184 \<le> n")
  case True
  then have "k = 184" using k by simp
  moreover have "ts_payload (take 4 b @ x) = x" for x
    using b by (simp add: ts_payload_def nth_append)
  ultimately show thesis using True b by (intro that [of b]) (simp_all add: tsStuff_def)
next
  case False
  then have kn: "k = n" "n < 184" using k by simp_all
  obtain w x y z r where bw: "b = w # x # y # z # r" and r: "length r = 184"
    using b(1) by (auto simp: numeral_eq_Suc length_Suc_conv)
  let ?rem = "of_nat (184 - n) :: u8"
  have rem: "184 - of_nat n = ?rem" using of_nat_sub_u8 [of n 184] kn by simp
  have ur: "unat ?rem = 184 - n" using unat_small by simp
  let ?a = "adaptationBufInit r ?rem"
  have z20: "(z OR 0x20) AND 0x20 \<noteq> 0"
  proof -
    have "bit ((z OR 0x20) AND 0x20 :: u8) 5" by (simp add: bit_simps)
    then show ?thesis by auto
  qed
  have a0: "?a ! 0 = of_nat (183 - n)" and la: "length ?a = 184"
  proof -
    obtain q r' where rq: "r = q # r'" using r by (cases r) auto
    have "?rem - 1 = of_nat (183 - n)" using of_nat_sub_u8 [of 1 "184 - n"] kn by simp
    then show "?a ! 0 = of_nat (183 - n)" "length ?a = 184"
      using r by (simp_all add: adaptationBufInit_def Let_def rq)
  qed
  let ?b' = "w # x # y # (z OR 0x20) # ?a"
  show thesis
  proof (rule that [of ?b'])
    have "4 + ?rem = of_nat (188 - n)"
    proof -
      have "(4 :: u8) + of_nat (184 - n) = of_nat (4 + (184 - n))" by simp
      also have "4 + (184 - n) = 188 - n" using kn by simp
      finally show ?thesis .
    qed
    moreover have "\<not> int n \<ge> int 184" and "(word_of_int (int n) :: u8) = of_nat n" using kn by simp_all
    moreover have "b[3 := b ! 3 OR 0x20] = w # x # y # (z OR 0x20) # r" by (simp add: bw)
    moreover have "take (unat (4 :: u8)) (w # x # y # (z OR 0x20) # r) = [w, x, y, z OR 0x20]"
      "drop (unat (4 :: u8)) (w # x # y # (z OR 0x20) # r) = r" by simp_all
    ultimately show "tsStuff f (int n) b 4 = (?b', of_nat (188 - k), of_nat k)"
      unfolding tsStuff_def Let_def kn(1)
      by (simp only: if_False rem diff_self diff_zero append.simps if_cancel)
    show "length ?b' = 188" using la by simp
    show "take 3 ?b' = take 3 b" by (simp add: bw)
    show "?b' ! 3 AND 0x0f = b ! 3 AND 0x0f" by (simp add: bw bit.conj_disj_distrib2)
    show "\<forall>v. length v = k \<longrightarrow> ts_payload (take (188 - k) ?b' @ v) = v"
    proof (intro allI impI)
    fix v :: bytes
    assume "length v = k"
    have "take (188 - n) ?b' = w # x # y # (z OR 0x20) # take (184 - n) ?a"
      using kn by (simp add: take_Cons')
    moreover have "take (184 - n) ?a ! 0 = of_nat (183 - n)" using a0 kn by simp
    moreover have "drop (5 + (183 - n)) (take (188 - n) ?b' @ v) = v"
    proof -
      have "length (take (188 - n) ?b') = 5 + (183 - n)" using kn la by simp
      then show ?thesis by (metis append_eq_conv_conj)
    qed
    ultimately show "ts_payload (take (188 - k) ?b' @ v) = v"
      using z20 kn la unat_small [of "183 - n"]
      by (simp add: ts_payload_def nth_append del: of_nat_diff)
    qed
  qed
qed

lemma put_at_tail:
  assumes "length b = 188" and "i + length h \<le> 188"
  shows "take (i + length h) (put_at i h b) = take i b @ h" and "length (put_at i h b) = 188"
  using assms by (simp_all add: put_at_fit)

lemma tsData_frame:
  assumes "k \<le> 184" and "length b = 188" and "wBytes l + k \<le> length d"
  obtains b' where "tsData d l b (of_nat (188 - k)) (of_nat k) =
      Ok (l\<lparr>wBytes := wBytes l + k, left := left l - int k\<rparr>, b')"
    and "b' = take (188 - k) b @ take k (drop (wBytes l) d)"
proof (cases "k = 0")
  case True
  with assms(2) show thesis by (intro that [of b]) (simp_all add: tsData_def)
next
  case False
  have lt: "(of_nat (188 - k) :: u8) < 188"
    using False assms(1) by (simp add: word_less_nat_alt unat_small del: of_nat_diff)
  have sub: "188 - of_nat (188 - k) = (of_nat k :: u8)"
    using of_nat_sub_u8 [of "188 - k" 188] assms(1) by (simp del: of_nat_diff)
  have u: "unat (of_nat k :: u8) = k" "unat (of_nat (188 - k) :: u8) = 188 - k"
    using assms(1) by (simp_all add: unat_small del: of_nat_diff)
  let ?h = "take k (drop (wBytes l) d)"
  have sl: "slice (wBytes l) (wBytes l + k) d = Ok ?h" using assms(3) by (simp add: slice_def)
  have lh: "length ?h = k" using assms(3) by simp
  have "put_at (188 - k) ?h b = take (188 - k) b @ ?h"
    using assms(1,2) lh by (simp add: put_at_fit)
  then show thesis
    using that [of "put_at (188 - k) ?h b"] unfolding tsData_def Let_def
    by (simp only: lt if_True sub u sl res_bind_simps if_cancel) 
qed

lemma tsFrame_rest:
  assumes m: "length (tsPacket m) = 188" and l: "\<not> mfirst l" "left l = int n" "0 < n"
    and n: "wBytes l + n = length (PData p)" and k: "k = min 184 n"
  obtains b where "tsFrame p dts pesData l m = Ok (l\<lparr>wBytes := wBytes l + k, left := left l - int k\<rparr>, b)"
    and "frame_ok p False m b" and "ts_payload b = take k (drop (wBytes l) (PData p))"
proof -
  obtain b0 where b0: "tsHead p dts (mfirst l) m = (b0, 4)" "b0 ! 3 AND 0x20 = 0" "frame_ok p (mfirst l) m b0"
    by (rule tsHead_frame [OF m])
  have l0: "length b0 = 188" using b0(3) by (simp add: frame_ok_def)
  obtain b1 where b1: "tsStuff (mfirst l) (int n) b0 4 = (b1, of_nat (188 - k), of_nat k)" "length b1 = 188"
    "take 3 b1 = take 3 b0" "b1 ! 3 AND 0x0f = b0 ! 3 AND 0x0f"
    "\<forall>x. length x = k \<longrightarrow> ts_payload (take (188 - k) b1 @ x) = x"
    by (rule tsStuff_frame [where f = "mfirst l", OF l0 b0(2) l(3) k])
  have kle: "k \<le> 184" "wBytes l + k \<le> length (PData p)" using n k by simp_all
  obtain b2 where b2: "tsData (PData p) l b1 (of_nat (188 - k)) (of_nat k) =
      Ok (l\<lparr>wBytes := wBytes l + k, left := left l - int k\<rparr>, b2)"
    "b2 = take (188 - k) b1 @ take k (drop (wBytes l) (PData p))"
    by (rule tsData_frame [OF kle(1) b1(2) kle(2)])
  have "tsPes pesData l b1 (of_nat (188 - k)) (of_nat k) = Ok (l, b1, of_nat (188 - k), of_nat k)"
    using l(1) by (simp only: tsPes_def simp_thms if_False)
  then have run: "tsFrame p dts pesData l m = Ok (l\<lparr>wBytes := wBytes l + k, left := left l - int k\<rparr>, b2)"
    unfolding tsFrame_def b0(1) l(2) prod.case b1(1) using b2(1) by (simp only: res_bind_simps prod.case l(2))
  have lk: "length (take k (drop (wBytes l) (PData p))) = k" using n k by simp
  have "frame_ok p False m b2"
    using frame_ok_tail [OF b0(3) b1(2,3,4) lk kle(1)] l(1) by (simp add: b2(2))
  then show thesis using that [OF run] b1(5) lk b2(2) by simp
qed

lemma tsPes_frame:
  assumes "mfirst l" and "pesIndex l = 0" and h: "unat (pesHeaderLen l) = h" "0 < h" "h \<le> k" and k: "k \<le> 184"
    and "length pesData = 188" and b: "length b = 188"
  obtains b' where "tsPes pesData l b (of_nat (188 - k)) (of_nat k) =
      Ok (l\<lparr>left := left l - int h, pesHeaderLen := 0, pesIndex := h\<rparr>, b', of_nat (188 - (k - h)), of_nat (k - h))"
    and "length b' = 188" and "take (188 - (k - h)) b' = take (188 - k) b @ take h pesData"
proof -
  have ph: "pesHeaderLen l = of_nat h" using h(1) by auto
  have lt: "(of_nat (188 - k) :: u8) < 188"
    using h k by (simp add: word_less_nat_alt unat_small del: of_nat_diff)
  have pos: "pesHeaderLen l > 0" using h by (simp add: word_less_nat_alt)
  have sub: "188 - of_nat (188 - k) = (of_nat k :: u8)"
    using of_nat_sub_u8 [of "188 - k" 188] k by (simp del: of_nat_diff)
  have le: "pesHeaderLen l \<le> of_nat k"
    using h k by (simp add: word_le_nat_alt unat_small)
  have sl: "slice 0 h pesData = Ok (take h pesData)" using assms(7) h k by (simp add: slice_def)
  have add: "of_nat (188 - k) + of_nat h = (of_nat (188 - (k - h)) :: u8)"
  proof -
    have "of_nat (188 - k) + of_nat h = (of_nat (188 - k + h) :: u8)" by (rule of_nat_add [symmetric])
    also have "188 - k + h = 188 - (k - h)" using h k by simp
    finally show ?thesis .
  qed
  have dl: "of_nat k - of_nat h = (of_nat (k - h) :: u8)" using h by (intro of_nat_sub_u8)
  have lp: "length (take h pesData) = h" using assms(7) h k by simp
  have u: "unat (of_nat (188 - k) :: u8) = 188 - k" using k by (simp add: unat_small del: of_nat_diff)
  let ?b' = "put_at (188 - k) (take h pesData) b"
  have e: "188 - k + length (take h pesData) = 188 - (k - h)" using lp h k by simp
  have fit: "188 - k + length (take h pesData) \<le> 188" using lp h k by simp
  show thesis
  proof (rule that [of ?b'])
    show "length ?b' = 188" "take (188 - (k - h)) ?b' = take (188 - k) b @ take h pesData"
      using put_at_tail [OF b fit] e by simp_all
    show "tsPes pesData l b (of_nat (188 - k)) (of_nat k) =
      Ok (l\<lparr>left := left l - int h, pesHeaderLen := 0, pesIndex := h\<rparr>, ?b', of_nat (188 - (k - h)), of_nat (k - h))"
      unfolding tsPes_def Let_def sub
      by (simp only: assms(1,2) lt pos le simp_thms if_True h(1) sl res_bind_simps u add [folded ph]
          dl [folded ph] diff_self add_0)
  qed
qed

lemma tsFrame_first:
  assumes m: "length (tsPacket m) = 188" and l: "mfirst l" "pesIndex l = 0" "wBytes l = 0"
    and h: "unat (pesHeaderLen l) = h" "0 < h" "h \<le> 19" and "length pesData = 188"
    and n: "left l = int n" "n = h + length (PData p)" and k: "k = min 184 n"
  obtains b l' where "tsFrame p dts pesData l m = Ok (l', b)" and "wBytes l' = k - h"
    and "left l' = int (n - k)" and "mfirst l'"
    and "frame_ok p True m b" and "ts_payload b = take k (take h pesData @ PData p)"
proof -
  have hk: "h \<le> k" "k \<le> 184" "0 < n" "k \<le> n" using h n k by auto
  obtain b0 where b0: "tsHead p dts (mfirst l) m = (b0, 4)" "b0 ! 3 AND 0x20 = 0" "frame_ok p (mfirst l) m b0"
    by (rule tsHead_frame [OF m])
  have l0: "length b0 = 188" using b0(3) by (simp add: frame_ok_def)
  obtain b1 where b1: "tsStuff (mfirst l) (int n) b0 4 = (b1, of_nat (188 - k), of_nat k)" "length b1 = 188"
    "take 3 b1 = take 3 b0" "b1 ! 3 AND 0x0f = b0 ! 3 AND 0x0f"
    "\<forall>x. length x = k \<longrightarrow> ts_payload (take (188 - k) b1 @ x) = x"
    by (rule tsStuff_frame [where f = "mfirst l", OF l0 b0(2) hk(3) k])
  let ?l = "l\<lparr>left := left l - int h, pesHeaderLen := 0, pesIndex := h\<rparr>"
  obtain b2 where b2: "tsPes pesData l b1 (of_nat (188 - k)) (of_nat k) =
      Ok (?l, b2, of_nat (188 - (k - h)), of_nat (k - h))" "length b2 = 188"
    "take (188 - (k - h)) b2 = take (188 - k) b1 @ take h pesData"
    by (rule tsPes_frame [OF l(1,2) h(1,2) hk(1,2) assms(8) b1(2)])
  have kle: "k - h \<le> 184" "wBytes ?l + (k - h) \<le> length (PData p)" using l n k hk by simp_all
  obtain b3 where b3: "tsData (PData p) ?l b2 (of_nat (188 - (k - h))) (of_nat (k - h)) =
      Ok (?l\<lparr>wBytes := wBytes ?l + (k - h), left := left ?l - int (k - h)\<rparr>, b3)"
    "b3 = take (188 - (k - h)) b2 @ take (k - h) (drop (wBytes ?l) (PData p))"
    by (rule tsData_frame [OF kle(1) b2(2) kle(2)])
  let ?pay = "take h pesData @ take (k - h) (PData p)"
  have b3': "b3 = take (188 - k) b1 @ ?pay" using b3(2) b2(3) l(3) by simp
  have pay: "?pay = take k (take h pesData @ PData p)" using assms(8) h hk by (simp add: min_def)
  have lp: "length ?pay = k" using assms(8) h n k by simp
  let ?l' = "?l\<lparr>wBytes := wBytes ?l + (k - h), left := left ?l - int (k - h)\<rparr>"
  have run: "tsFrame p dts pesData l m = Ok (?l', b3)"
    unfolding tsFrame_def b0(1) n(1) prod.case b1(1)
    using b2(1) b3(1) by (simp only: res_bind_simps prod.case n(1))
  have "frame_ok p True m b3"
    using frame_ok_tail [OF b0(3) b1(2,3,4) lp hk(2)] l(1) by (simp add: b3')
  moreover have "left ?l' = int (n - k)" using n hk by simp
  moreover have "ts_payload b3 = take k (take h pesData @ PData p)" using b1(5) lp b3' pay by metis
  ultimately show thesis using that [OF run] l by simp
qed

section \<open>Splitting a frame\<close>

lemma tsStuff_room:
  assumes "0 < n" and "k = min 184 n"
  obtains b' where "tsStuff f (int n) b 4 = (b', of_nat (188 - k), of_nat k)"
proof (cases "184 \<le> n")
  case True
  then show thesis using that [of b] assms(2) by (simp add: tsStuff_def)
next
  case False
  then have kn: "k = n" "n < 184" using assms(2) by simp_all
  have rem: "184 - of_nat n = (of_nat (184 - n) :: u8)" using of_nat_sub_u8 [of n 184] kn by simp
  have "4 + (of_nat (184 - n) :: u8) = of_nat (188 - n)"
  proof -
    have "(4 :: u8) + of_nat (184 - n) = of_nat (4 + (184 - n))" by simp
    also have "4 + (184 - n) = 188 - n" using kn by simp
    finally show ?thesis .
  qed
  moreover have "\<not> int n \<ge> int 184" and "(word_of_int (int n) :: u8) = of_nat n" using kn by simp_all
  ultimately show thesis
    using that unfolding tsStuff_def Let_def kn(1)
    by (simp only: if_False rem diff_self diff_zero if_cancel)
qed

lemma tsPes_left:
  "tsPes pesData l b i dataLen = Ok (l', b', i', d') \<Longrightarrow> left l' \<le> left l"
  by (auto simp: tsPes_def Let_def res_bind_eq_Ok split: if_splits)

lemma tsData_left:
  "tsData d l b i dataLen = Ok (l', b') \<Longrightarrow> left l' \<le> left l"
  by (auto simp: tsData_def Let_def res_bind_eq_Ok split: if_splits)

text \<open>Every packet carries at least one byte of the frame.\<close>

lemma tsFrame_progress:
  assumes run: "tsFrame p dts pesData l m = Ok (l', b)" and pos: "0 < left l"
  shows "left l' < left l"
proof -
  define n where "n = nat (left l)"
  define k where "k = min 184 n"
  have n: "left l = int n" "0 < n" using pos by (simp_all add: n_def)
  have k: "0 < k" "k \<le> 184" using n by (simp_all add: k_def)
  obtain b0 where b0: "tsHead p dts (mfirst l) m = (b0, 4)"
    by (auto simp: tsHead_def zeroVideoHeader_def Let_def)
  obtain b1 where b1: "tsStuff (mfirst l) (int n) b0 4 = (b1, of_nat (188 - k), of_nat k)"
    using tsStuff_room [OF n(2) k_def] by blast
  obtain l2 b2 i2 d2 where pes: "tsPes pesData l b1 (of_nat (188 - k)) (of_nat k) = Ok (l2, b2, i2, d2)"
    and data: "tsData (PData p) l2 b2 i2 d2 = Ok (l', b)"
    using run unfolding tsFrame_def b0 n(1) prod.case b1 by (auto simp: res_bind_eq_Ok)
  have lt: "(of_nat (188 - k) :: u8) < 188"
    using k by (simp add: word_less_nat_alt unat_small del: of_nat_diff)
  have sub: "188 - of_nat (188 - k) = (of_nat k :: u8)"
    using of_nat_sub_u8 [of "188 - k" 188] k(2) by (simp del: of_nat_diff)
  have uk: "unat (of_nat k :: u8) = k" using k by (simp add: unat_small)
  have up: "0 < uint x" if "0 < unat x" for x :: u8 using that by (simp only: uint_nat of_nat_0_less_iff)
  show ?thesis
  proof (cases "mfirst l \<and> pesHeaderLen l > 0")
    case True
    then have "left l2 < left l"
      using pes lt k uk unfolding tsPes_def Let_def sub
      by (auto intro!: up simp: res_bind_eq_Ok word_less_nat_alt split: if_splits)
    then show ?thesis using tsData_left [OF data] by simp
  next
    case False
    then have "tsPes pesData l b1 (of_nat (188 - k)) (of_nat k) = Ok (l, b1, of_nat (188 - k), of_nat k)"
      by (auto simp: tsPes_def)
    then have "tsData (PData p) l b1 (of_nat (188 - k)) (of_nat k) = Ok (l', b)" using pes data by simp
    then show ?thesis using lt k uk unfolding tsData_def Let_def sub by (auto intro!: up simp: res_bind_eq_Ok)
  qed
qed

text \<open>The loop of \<open>Mux\<close>; a nil writer is \<open>None\<close>. The counter is advanced before the packet is built.\<close>

function Mux_loop ::
  "Packet \<Rightarrow> int \<Rightarrow> bytes \<Rightarrow> 'w writer option \<Rightarrow> muxLoop \<Rightarrow> TsMuxer \<Rightarrow> 'w \<Rightarrow> unit res \<times> TsMuxer \<times> 'w" where
  "Mux_loop p dts pesData wr l m w =
     (if left l \<le> 0 then (Ok (), m, w)
      else
        let m1 = bumpCc p m in
        case tsFrame p dts pesData l m1 of
          Ok (l', b) \<Rightarrow>
            let m2 = m1\<lparr>tsPacket := b\<rparr> in
            (case wr of
               None \<Rightarrow> Mux_loop p dts pesData wr (l'\<lparr>mfirst := False\<rparr>) m2 w
             | Some write \<Rightarrow>
                (case write b w of
                   (Ok _, w') \<Rightarrow> Mux_loop p dts pesData wr (l'\<lparr>mfirst := False\<rparr>) m2 w'
                 | (Err e, w') \<Rightarrow> (Err e, m2, w')
                 | (Panic, w') \<Rightarrow> (Panic, m2, w')))
        | Err e \<Rightarrow> (Err e, m1, w)
        | Panic \<Rightarrow> (Panic, m1, w))"
  by pat_completeness auto
termination
  by (relation "measure (\<lambda>(p, dts, pesData, wr, l, m, w). nat (left l))")
    (auto dest!: tsFrame_progress)

declare Mux_loop.simps [simp del]

definition Mux :: "Packet \<Rightarrow> 'w writer option \<Rightarrow> TsMuxer \<Rightarrow> 'w \<Rightarrow> unit res \<times> TsMuxer \<times> 'w" where
  "Mux p wr m w =
     (let dts = uint (TimeStamp p) * h264DefaultHZ;
          pts = (if isVideo p then dts + sint (CompositionTime (VHeader p)) * h264DefaultHZ else dts)
      in case pes_packet p pts dts of (hlen, pesData) \<Rightarrow>
           Mux_loop p dts pesData wr
             \<lparr>mfirst = True, wBytes = 0, pesIndex = 0, pesHeaderLen = hlen,
              left = int (length (PData p)) + int (unat hlen)\<rparr> m w)"

section \<open>What a muxed frame looks like\<close>

primrec frames_ok :: "Packet \<Rightarrow> bool \<Rightarrow> TsMuxer \<Rightarrow> bytes list \<Rightarrow> bool" where
  "frames_ok p first m [] \<longleftrightarrow> True"
| "frames_ok p first m (b # bs) \<longleftrightarrow> frame_ok p first (bumpCc p m) b \<and> frames_ok p False (bumpCc p m) bs"

lemma bumpCc_frame [simp]: "tsPacket (bumpCc p m) = tsPacket m"
  by (simp add: bumpCc_def Let_def)

lemma bumpCc_tsPacket [simp]: "bumpCc p (m\<lparr>tsPacket := b\<rparr>) = (bumpCc p m)\<lparr>tsPacket := b\<rparr>"
  by (simp add: bumpCc_def Let_def)

lemma frame_ok_tsPacket [simp]: "frame_ok p f (m\<lparr>tsPacket := b\<rparr>) = frame_ok p f m"
  by (simp add: frame_ok_def ccOf_def fun_eq_iff)

lemma frames_ok_tsPacket [simp]: "frames_ok p f (m\<lparr>tsPacket := b\<rparr>) bs = frames_ok p f m bs"
  by (induction bs arbitrary: f m) simp_all

lemma Mux_loop_rest:
  assumes "length (tsPacket m) = 188" and "\<not> mfirst l" and "left l = int n"
    and "wBytes l + n = length (PData p)"
  shows "\<exists>fs m'. Mux_loop p dts pesData (Some buf_write) l m w = (Ok (), m', w @ concat fs) \<and>
    frames_ok p False m fs \<and> concat (map ts_payload fs) = drop (wBytes l) (PData p)"
  using assms
proof (induction n arbitrary: l m w rule: less_induct)
  case (less n)
  show ?case
  proof (cases "n = 0")
    case True
    then show ?thesis
      using less.prems by (subst Mux_loop.simps) (auto intro!: exI [of _ "[]"])
  next
    case False
    define k where "k = min 184 n"
    have k: "0 < k" "k \<le> n" using False by (simp_all add: k_def)
    have m1: "length (tsPacket (bumpCc p m)) = 188" using less.prems(1) by simp
    obtain b where b: "tsFrame p dts pesData l (bumpCc p m) =
        Ok (l\<lparr>wBytes := wBytes l + k, left := left l - int k\<rparr>, b)"
      "frame_ok p False (bumpCc p m) b" "ts_payload b = take k (drop (wBytes l) (PData p))"
      by (rule tsFrame_rest [OF m1 less.prems(2,3) _ less.prems(4) k_def]) (use False in simp)
    let ?l = "l\<lparr>wBytes := wBytes l + k, left := left l - int k, mfirst := False\<rparr>"
    let ?m = "(bumpCc p m)\<lparr>tsPacket := b\<rparr>"
    have lb: "length (tsPacket ?m) = 188" using b(2) by (simp add: frame_ok_def)
    obtain fs m' where ih: "Mux_loop p dts pesData (Some buf_write) ?l ?m (w @ b) = (Ok (), m', (w @ b) @ concat fs)"
      "frames_ok p False ?m fs" "concat (map ts_payload fs) = drop (wBytes ?l) (PData p)"
      using less.IH [of "n - k" ?m ?l "w @ b"] k lb less.prems(3,4) by (auto simp: of_nat_diff)
    have "Mux_loop p dts pesData (Some buf_write) l m w = (Ok (), m', w @ concat (b # fs))"
      using False ih(1) b(1) less.prems(3) by (subst Mux_loop.simps) (simp add: Let_def buf_write_def)
    moreover have "concat (map ts_payload (b # fs)) = drop (wBytes l) (PData p)"
      using b(3) ih(3) by (simp add: add.commute drop_drop [symmetric] del: drop_drop)
    moreover have "frames_ok p False m (b # fs)" using b(2) ih(2) by simp
    ultimately show ?thesis by blast
  qed
qed

text \<open>The header bytes that are sent: those of \<open>pes_packet\<close>.\<close>

definition pes_header :: "Packet \<Rightarrow> bytes" where
  "pes_header p =
     (let dts = uint (TimeStamp p) * 90;
          pts = (if isVideo p then dts + sint (CompositionTime (VHeader p)) * 90 else dts)
      in case pes_packet p pts dts of (n, d) \<Rightarrow> take (unat n) d)"

lemma length_writeTs [simp]: "length (writeTs src i fb ts) = length src"
  by (simp add: writeTs_def Let_def)

lemma pes_packet_len:
  obtains h d where "pes_packet p pts dts = (h, d)" and "length d = 188" and "0 < unat h" and "unat h \<le> 19"
proof -
  obtain h d where hd: "pes_packet p pts dts = (h, d)" by force
  have "fst (pes_packet p pts dts) \<in> {14, 19}" and "length (snd (pes_packet p pts dts)) = 188"
    by (simp_all add: pes_packet_def Let_def)
  then show thesis using that [OF hd] by (auto simp: hd)
qed

lemma Mux_frames:
  assumes "length (tsPacket m) = 188"
  shows "\<exists>fs m'. Mux p (Some buf_write) m w = (Ok (), m', w @ concat fs) \<and> frames_ok p True m fs \<and>
    concat (map ts_payload fs) = pes_header p @ PData p"
proof -
  define dts where "dts = uint (TimeStamp p) * 90"
  define pts where "pts = (if isVideo p then dts + sint (CompositionTime (VHeader p)) * 90 else dts)"
  obtain h d where hd: "pes_packet p pts dts = (h, d)" "length d = 188" "0 < unat h" "unat h \<le> 19"
    by (rule pes_packet_len)
  define n where "n = unat h + length (PData p)"
  define k where "k = min 184 n"
  let ?l = "\<lparr>mfirst = True, wBytes = 0, pesIndex = 0, pesHeaderLen = h, left = int (length (PData p)) + int (unat h)\<rparr>"
  have ln: "left ?l = int n" by (simp add: n_def)
  have m1: "length (tsPacket (bumpCc p m)) = 188" using assms by simp
  obtain b l' where b: "tsFrame p dts d ?l (bumpCc p m) = Ok (l', b)" "wBytes l' = k - unat h" "left l' = int (n - k)"
    "mfirst l'" "frame_ok p True (bumpCc p m) b" "ts_payload b = take k (take (unat h) d @ PData p)"
    by (rule tsFrame_first [where l = ?l and h = "unat h" and n = n and k = k and p = p and dts = dts
        and pesData = d, OF m1 _ _ _ _ hd(3,4,2) ln]) (simp_all add: n_def k_def)
  let ?m = "(bumpCc p m)\<lparr>tsPacket := b\<rparr>"
  have lb: "length (tsPacket ?m) = 188" using b(5) by (simp add: frame_ok_def)
  have hk: "unat h \<le> k" "k \<le> n" using hd by (simp_all add: k_def n_def)
  obtain fs m' where ih: "Mux_loop p dts d (Some buf_write) (l'\<lparr>mfirst := False\<rparr>) ?m (w @ b) = (Ok (), m', (w @ b) @ concat fs)"
      "frames_ok p False ?m fs" "concat (map ts_payload fs) = drop (k - unat h) (PData p)"
    using Mux_loop_rest [OF lb, of "l'\<lparr>mfirst := False\<rparr>" "n - k" p dts d "w @ b"] b(2,3) hk
    by (auto simp: n_def)
  have "left ?l > 0" unfolding ln using hd(3) by (simp only: of_nat_0_less_iff n_def add_gr_0 simp_thms)
  then have "Mux_loop p dts d (Some buf_write) ?l m w = (Ok (), m', w @ concat (b # fs))"
    using ih(1) b(1) by (subst Mux_loop.simps) (simp add: Let_def buf_write_def)
  then have run: "Mux p (Some buf_write) m w = (Ok (), m', w @ concat (b # fs))"
    by (simp only: Mux_def Let_def dts_def [symmetric] pts_def [symmetric] hd(1) prod.case)
  have ph: "pes_header p = take (unat h) d"
    by (simp only: pes_header_def Let_def dts_def [symmetric] pts_def [symmetric] hd(1) prod.case)
  have "concat (map ts_payload (b # fs)) = pes_header p @ PData p"
    using b(6) ih(3) hd(2,4) hk by (simp add: ph)
  moreover have "frames_ok p True m (b # fs)" using b(5) ih(2) by simp
  ultimately show ?thesis using run by blast
qed

section \<open>Time stamps\<close>

text \<open>The 33-bit time stamp a receiver reads from five bytes of a PES header.\<close>

definition ts_read :: "bytes \<Rightarrow> nat \<Rightarrow> u64" where
  "ts_read b i = push_bit 30 (drop_bit 1 (ucast (b ! i)) AND 7) OR push_bit 22 (ucast (b ! (i + 1))) OR
     push_bit 15 (drop_bit 1 (ucast (b ! (i + 2)))) OR push_bit 7 (ucast (b ! (i + 3))) OR
     drop_bit 1 (ucast (b ! (i + 4)))"

lemma bit_7: "bit (7 :: 'a::len word) n \<longleftrightarrow> n < 3 \<and> n < LENGTH('a)"
proof -
  have "(7 :: 'a word) = mask 3" by (simp add: mask_eq_exp_minus_1)
  then show ?thesis by (simp only: bit_mask_iff possible_bit_word) auto
qed

lemma bit_7fff: "bit (0x7fff :: 'a::len word) n \<longleftrightarrow> n < 15 \<and> n < LENGTH('a)"
proof -
  have "(0x7fff :: 'a word) = mask 15" by (simp add: mask_eq_exp_minus_1)
  then show ?thesis by (simp only: bit_mask_iff possible_bit_word) auto
qed

lemma bit_7fff_int: "bit (0x7fff :: int) n \<longleftrightarrow> n < 15"
proof -
  have "(0x7fff :: int) = mask 15" by (simp add: mask_eq_exp_minus_1)
  then show ?thesis by (simp only: bit_mask_iff possible_bit_int) simp
qed

lemma ts_read_bits:
  fixes ts :: int and fb :: u32
  defines "v1 \<equiv> push_bit 4 fb OR push_bit 1 (word_of_int (drop_bit 30 ts) AND 7) OR 1 :: u32"
    and "v2 \<equiv> push_bit 1 (word_of_int (drop_bit 15 ts) AND 0x7fff) OR 1 :: u32"
    and "v3 \<equiv> push_bit 1 (word_of_int (ts AND 0x7fff)) OR 1 :: u32"
  shows "(push_bit 30 (drop_bit 1 (ucast (ucast v1 :: u8)) AND 7) OR push_bit 22 (ucast (ucast (drop_bit 8 v2) :: u8)) OR
     push_bit 15 (drop_bit 1 (ucast (ucast v2 :: u8))) OR push_bit 7 (ucast (ucast (drop_bit 8 v3) :: u8)) OR
     drop_bit 1 (ucast (ucast v3 :: u8))) = (take_bit 33 (word_of_int ts) :: u64)"
proof (rule bit_word_eqI)
  fix n
  assume "n < LENGTH(64)"
  consider "n < 7" | "7 \<le> n" "n < 15" | "15 \<le> n" "n < 22" | "22 \<le> n" "n < 30" | "30 \<le> n" "n < 33" | "33 \<le> n"
    by linarith
  then show "bit (push_bit 30 (drop_bit 1 (ucast (ucast v1 :: u8)) AND 7) OR push_bit 22 (ucast (ucast (drop_bit 8 v2) :: u8)) OR
     push_bit 15 (drop_bit 1 (ucast (ucast v2 :: u8))) OR push_bit 7 (ucast (ucast (drop_bit 8 v3) :: u8)) OR
     drop_bit 1 (ucast (ucast v3 :: u8)) :: u64) n = bit (take_bit 33 (word_of_int ts) :: u64) n"
    using \<open>n < LENGTH(64)\<close>
    unfolding v1_def v2_def v3_def bit_or_iff bit_and_iff bit_push_bit_iff bit_drop_bit_eq bit_ucast_iff o_def
      bit_take_bit_iff bit_word_of_int_iff bit_7 bit_7fff bit_7fff_int
    by cases (simp_all add: bit_1_iff less_diff_conv2 Nat.le_diff_conv2)
qed

definition wrap33 :: "int \<Rightarrow> int" where
  "wrap33 ts = (if ts \<le> 0x1ffffffff then ts else ts + 1) mod 2 ^ 33"

lemma take_bit_33_int: "take_bit 33 (word_of_int x :: u64) = word_of_int (x mod 2 ^ 33)"
proof (rule word_uint_eqI)
  have "take_bit 64 (take_bit 33 x) = take_bit 33 x" by (simp add: min_def)
  then show "uint (take_bit 33 (word_of_int x :: u64)) = uint (word_of_int (x mod 2 ^ 33) :: u64)"
    by (simp add: unsigned_take_bit_eq uint_word_of_int_eq min_def flip: take_bit_eq_mod del: power_numeral)
qed

lemma ts_read_writeTs:
  assumes "i + 4 < length src"
  shows "ts_read (writeTs src i fb ts) i = word_of_int (wrap33 ts)"
proof -
  define ts' where "ts' = (if ts > 0x1ffffffff then ts - 0x1ffffffff else ts)"
  have "take_bit 33 (word_of_int ts' :: u64) = word_of_int (wrap33 ts)"
  proof -
    have "ts + 1 = ts - 0x1ffffffff + 2 ^ 33" by simp
    then have "(ts - 0x1ffffffff) mod 2 ^ 33 = (ts + 1) mod 2 ^ 33" by (simp only: mod_add_self2)
    then have "ts' mod 2 ^ 33 = wrap33 ts" by (simp add: ts'_def wrap33_def)
    then show ?thesis by (simp only: take_bit_33_int)
  qed
  moreover have "ts_read (writeTs src i fb ts) i = take_bit 33 (word_of_int ts')"
    unfolding ts_read_bits [where fb = fb, symmetric] ts_read_def writeTs_def Let_def ts'_def
    using assms by (simp only: nth_list_update length_list_update) simp
  ultimately show ?thesis by simp
qed

section \<open>Program tables\<close>

text \<open>\<open>PAT\<close> and \<open>PMT\<close> return a slice of the muxer's array; its contents are returned here.\<close>

definition fillTable :: "nat \<Rightarrow> u32 \<Rightarrow> bytes \<Rightarrow> bytes" where
  "fillTable i crc p =
     (let p2 = p[i := ucast (drop_bit 24 crc), i + 1 := ucast (drop_bit 16 crc),
                 i + 2 := ucast (drop_bit 8 crc), i + 3 := ucast crc]
      in take (i + 4) p2 @ replicate (tsPacketLen - (i + 4)) 0xff)"

definition PAT :: "TsMuxer \<Rightarrow> bytes \<times> TsMuxer" where
  "PAT m =
     (let cc = (if patCc m > 0xf then 0 else patCc m);
          tsHeader = [0x47, 0x40, 0x00, 0x10 OR (cc AND 0x0f), 0x00];
          patHeader = [0x00, 0xb0, 0x0d, 0x00, 0x01, 0xc1, 0x00, 0x00, 0x00, 0x01, 0xf0, 0x01];
          p1 = put_at (length tsHeader) patHeader (put_at 0 tsHeader (pat m));
          i = length tsHeader + length patHeader;
          p3 = fillTable i (GenCrc32 patHeader) p1
      in (p3, m\<lparr>patCc := cc + 1, pat := p3\<rparr>))"

definition PMT :: "u8 \<Rightarrow> bool \<Rightarrow> TsMuxer \<Rightarrow> bytes \<times> TsMuxer" where
  "PMT soundFormat hasVideo m =
     (let prog0 = (if \<not> hasVideo then [0x0f, 0xe1, 0x01, 0xf0, 0x00]
                   else [0x1b, 0xe1, 0x00, 0xf0, 0x00, 0x0f, 0xe1, 0x01, 0xf0, 0x00]);
          pmtHeader = [0x02, 0xb0, of_nat (length prog0 + 9 + 4), 0x00, 0x01, 0xc1, 0x00, 0x00, 0xe1,
                       if hasVideo then 0x00 else 0x01, 0xf0, 0x00];
          cc = (if pmtCc m > 0xf then 0 else pmtCc m);
          tsHeader = [0x47, 0x50, 0x01, 0x10 OR (cc AND 0x0f), 0x00];
          progInfo = (if soundFormat = 2 \<or> soundFormat = 14
                      then (if hasVideo then prog0[5 := 0x4] else prog0[0 := 0x4]) else prog0);
          p1 = put_at (length tsHeader + length pmtHeader) progInfo
                 (put_at (length tsHeader) pmtHeader (put_at 0 tsHeader (pmt m)));
          i = length tsHeader + length pmtHeader + length progInfo;
          p3 = fillTable i (GenCrc32 (take (length pmtHeader + length progInfo) (drop 5 p1))) p1
      in (p3, m\<lparr>pmtCc := cc + 1, pmt := p3\<rparr>))"

text \<open>A table packet a receiver accepts: 188 bytes, and the section's checksum comes out as zero.\<close>

definition section_of :: "bytes \<Rightarrow> bytes" where
  "section_of b = take (3 + unat (b ! 7)) (drop 5 b)"

definition psi_ok :: "bytes \<Rightarrow> u8 \<Rightarrow> bool" where
  "psi_ok b cc \<longleftrightarrow> length b = 188 \<and> b ! 0 = 0x47 \<and> b ! 3 = 0x10 OR (cc AND 0x0f) \<and>
     GenCrc32 (section_of b) = 0"

lemma fillTable_append:
  assumes "4 \<le> length ys"
  shows "fillTable (length xs) crc (xs @ ys) = xs @ be_bytes 4 crc @ replicate (188 - (length xs + 4)) 0xff"
proof -
  obtain p q r s t where "ys = p # q # r # s # t"
    using assms by (auto simp: numeral_eq_Suc Suc_le_length_iff)
  moreover have "be_bytes 4 crc = [ucast (drop_bit 24 crc), ucast (drop_bit 16 crc), ucast (drop_bit 8 crc), ucast crc]"
    by (simp add: numeral_eq_Suc be_bytes_Cons)
  ultimately show ?thesis by (simp add: fillTable_def Let_def list_update_append)
qed

lemma PAT_bytes:
  assumes "length (pat m) = 188"
  shows "fst (PAT m) = [0x47, 0x40, 0x00, 0x10 OR ((if patCc m > 0xf then 0 else patCc m) AND 0x0f), 0x00] @
    [0x00, 0xb0, 0x0d, 0x00, 0x01, 0xc1, 0x00, 0x00, 0x00, 0x01, 0xf0, 0x01] @
    be_bytes 4 (GenCrc32 [0x00, 0xb0, 0x0d, 0x00, 0x01, 0xc1, 0x00, 0x00, 0x00, 0x01, 0xf0, 0x01]) @
    replicate 167 0xff"
proof -
  let ?t = "[0x47, 0x40, 0x00, 0x10 OR ((if patCc m > 0xf then 0 else patCc m) AND 0x0f), 0x00] :: bytes"
  let ?h = "[0x00, 0xb0, 0x0d, 0x00, 0x01, 0xc1, 0x00, 0x00, 0x00, 0x01, 0xf0, 0x01] :: bytes"
  have "put_at (length ?t) ?h (put_at 0 ?t (pat m)) = (?t @ ?h) @ drop (length ?t + length ?h) (pat m)"
    using assms by (simp add: put_at_fit)
  then have "fst (PAT m) = fillTable (length (?t @ ?h)) (GenCrc32 ?h) ((?t @ ?h) @ drop (length ?t + length ?h) (pat m))"
    unfolding PAT_def Let_def fst_conv by (simp only: length_append)
  also have "\<dots> = (?t @ ?h) @ be_bytes 4 (GenCrc32 ?h) @ replicate (188 - (length (?t @ ?h) + 4)) 0xff"
    using assms by (intro fillTable_append) simp
  finally show ?thesis by simp
qed

lemma PMT_bytes:
  fixes s :: u8 and v :: bool
  assumes "length (pmt m) = 188"
  defines "prog \<equiv> (if v then [0x1b, 0xe1, 0x00, 0xf0, 0x00, if s = 2 \<or> s = 14 then 0x04 else 0x0f, 0xe1, 0x01, 0xf0, 0x00]
      else [if s = 2 \<or> s = 14 then 0x04 else 0x0f, 0xe1, 0x01, 0xf0, 0x00])"
  defines "sec \<equiv> [0x02, 0xb0, of_nat (length prog + 13), 0x00, 0x01, 0xc1, 0x00, 0x00, 0xe1,
      if v then 0x00 else 0x01, 0xf0, 0x00] @ prog"
  shows "fst (PMT s v m) = [0x47, 0x50, 0x01, 0x10 OR ((if pmtCc m > 0xf then 0 else pmtCc m) AND 0x0f), 0x00] @
    sec @ be_bytes 4 (GenCrc32 sec) @ replicate (188 - (5 + length sec + 4)) 0xff"
proof -
  let ?t = "[0x47, 0x50, 0x01, 0x10 OR ((if pmtCc m > 0xf then 0 else pmtCc m) AND 0x0f), 0x00] :: bytes"
  let ?q = "if \<not> v then [0x0f, 0xe1, 0x01, 0xf0, 0x00] else [0x1b, 0xe1, 0x00, 0xf0, 0x00, 0x0f, 0xe1, 0x01, 0xf0, 0x00] :: bytes"
  let ?p = "if s = 2 \<or> s = 14 then (if v then ?q[5 := 0x4] else ?q[0 := 0x4]) else ?q"
  let ?h = "[0x02, 0xb0, of_nat (length ?q + 9 + 4), 0x00, 0x01, 0xc1, 0x00, 0x00, 0xe1,
      if v then 0x00 else 0x01, 0xf0, 0x00] :: bytes"
  let ?i = "length ?t + length ?h + length ?p"
  have prog: "?p = prog" by (simp add: prog_def)
  have lp: "length prog = (if v then 10 else 5)" by (simp add: prog_def)
  have sec: "?h @ ?p = sec" unfolding prog sec_def by (simp add: lp)
  have ls: "length ?h + length ?p = length sec" unfolding sec [symmetric] by simp
  have li: "?i = length (?t @ sec)" "?i + 4 \<le> 188" using ls by (cases v; simp add: lp prog)+
  have p1: "put_at (length ?t + length ?h) ?p (put_at (length ?t) ?h (put_at 0 ?t (pmt m))) =
      (?t @ sec) @ drop ?i (pmt m)"
    using assms(1) unfolding sec [symmetric] prog by (simp add: put_at_fit lp)
  have crc: "take (length ?h + length ?p) (drop 5 ((?t @ sec) @ drop ?i (pmt m))) = sec"
    unfolding ls by simp
  have "fst (PMT s v m) = fillTable ?i (GenCrc32 sec) ((?t @ sec) @ drop ?i (pmt m))"
    unfolding PMT_def Let_def fst_conv p1 crc ..
  also have "\<dots> = fillTable (length (?t @ sec)) (GenCrc32 sec) ((?t @ sec) @ drop ?i (pmt m))"
    using li(1) by (rule arg_cong)
  also have "\<dots> = (?t @ sec) @ be_bytes 4 (GenCrc32 sec) @ replicate (188 - (length (?t @ sec) + 4)) 0xff"
    using assms(1) li(2) by (intro fillTable_append) simp
  finally show ?thesis by simp
qed

lemma psi_ok_intro:
  assumes "b = [0x47, x, y, 0x10 OR (cc AND 0x0f), 0x00] @ sec @ be_bytes 4 (GenCrc32 sec) @ replicate n 0xff"
    and "3 \<le> length sec" and "unat (sec ! 2) = length sec + 1" and "length sec + n = 179"
  shows "psi_ok b cc"
proof -
  have "b ! 7 = sec ! 2" using assms(1,2) by (simp add: nth_append)
  then have "section_of b = sec @ be_bytes 4 (GenCrc32 sec)"
    using assms by (simp add: section_of_def)
  then show ?thesis using assms(1,4) by (simp add: psi_ok_def GenCrc32_residue)
qed

text \<open>
  C35: Both program tables are whole transport packets with the next value of their four-bit
  counter, and a receiver that checks the section against its checksum accepts them, for every
  sound format, with and without video.
\<close>

theorem psi_tables:
  assumes "length (pat m) = 188" and "length (pmt m) = 188"
  shows "psi_ok (fst (PAT m)) (if patCc m > 0xf then 0 else patCc m) \<and>
    psi_ok (fst (PMT soundFormat hasVideo m)) (if pmtCc m > 0xf then 0 else pmtCc m)"
  by (intro conjI psi_ok_intro [OF PAT_bytes [OF assms(1)]] psi_ok_intro [OF PMT_bytes [OF assms(2)]]) simp_all

theorem psi_tables_witness:
  "psi_ok (fst (PAT NewMuxer)) 0 \<and> psi_ok (fst (PMT 10 True NewMuxer)) 0"
  using psi_tables [of NewMuxer 10 True] by (simp add: NewMuxer_def)

section \<open>Properties of the muxer\<close>

text \<open>The counters of the packets, from the counter of the muxer.\<close>

lemma ccOf_bumpCc:
  assumes "ccOf p m \<le> 15"
  shows "unat (ccOf p (bumpCc p m)) = Suc (unat (ccOf p m)) mod 16" and "ccOf p (bumpCc p m) \<le> 15"
proof -
  let ?c = "ccOf p m"
  have c: "unat ?c \<le> 15" using assms by (simp add: word_le_nat_alt)
  then have suc: "unat (?c + 1) = Suc (unat ?c)" by (simp add: unat_word_ariths)
  have b: "ccOf p (bumpCc p m) = (if ?c + 1 > 15 then 0 else ?c + 1)" by (simp add: ccOf_def bumpCc_def Let_def)
  have "?c + 1 > 15 \<longleftrightarrow> unat ?c = 15" using c suc by (auto simp: word_less_nat_alt)
  then show "unat (ccOf p (bumpCc p m)) = Suc (unat ?c) mod 16" using c suc b by auto
  show "ccOf p (bumpCc p m) \<le> 15" using b by (auto simp: not_less)
qed

lemma and_15: "x \<le> 15 \<Longrightarrow> x AND 15 = x" for x :: u8
proof -
  assume "x \<le> 15"
  then have "unat x < 2 ^ 4" by (simp add: word_le_nat_alt)
  then have "take_bit 4 x = x" by (rule take_bit_fits)
  moreover have "x AND 15 = take_bit 4 x" by (simp add: take_bit_eq_mask mask_eq_exp_minus_1)
  ultimately show ?thesis by simp
qed

lemma frames_counters:
  "frames_ok p f m fs \<Longrightarrow> ccOf p m \<le> 15 \<Longrightarrow> j < length fs \<Longrightarrow> unat (fs ! j ! 3 AND 0x0f) = (unat (ccOf p m) + j + 1) mod 16"
proof (induction fs arbitrary: f m j)
  case (Cons b fs)
  note bump = ccOf_bumpCc [OF Cons.prems(2)]
  show ?case
  proof (cases j)
    case 0
    have "b ! 3 AND 0x0f = ccOf p (bumpCc p m) AND 0x0f" using Cons.prems(1) by (simp add: frame_ok_def)
    also have "... = ccOf p (bumpCc p m)" by (rule and_15 [OF bump(2)])
    finally show ?thesis using bump(1) 0 by simp
  next
    case (Suc i)
    then have "unat (fs ! i ! 3 AND 0x0f) = (unat (ccOf p (bumpCc p m)) + i + 1) mod 16"
      using Cons.IH [of False "bumpCc p m" i] Cons.prems bump(2) by simp
    moreover have "(Suc c mod 16 + i + 1) mod 16 = (c + Suc i + 1) mod 16" for c
      using mod_add_left_eq [of "Suc c" 16 "i + 1"] by (simp add: add.assoc)
    ultimately show ?thesis unfolding bump(1) Suc by simp
  qed
qed simp

text \<open>
  C28: \<open>Mux\<close> returns for every packet (its loop ends: each turn consumes a byte). It writes whole
  188-byte transport packets with the sync byte, the PID of the stream, the start indicator on the
  first one only and consecutive four-bit counters (from a counter of at most 15 the packets are numbered on modulo 16), and their payloads,
  stuffing removed, are the PES header followed by the frame.
\<close>

theorem mux_roundtrip:
  assumes "length (tsPacket m) = 188"
  shows "\<exists>fs m'. Mux p (Some buf_write) m w = (Ok (), m', w @ concat fs) \<and> frames_ok p True m fs \<and>
    concat (map ts_payload fs) = pes_header p @ PData p \<and>
    (ccOf p m \<le> 15 \<longrightarrow> (\<forall>j<length fs. unat (fs ! j ! 3 AND 0x0f) = (unat (ccOf p m) + j + 1) mod 16))"
  using Mux_frames [OF assms, of p w] frames_counters by blast

theorem mux_roundtrip_witness:
  "\<exists>fs m'. Mux (zeroPacket\<lparr>PacketType := 1, PData := replicate 400 7\<rparr>) (Some buf_write) NewMuxer [] = (Ok (), m', concat fs) \<and>
    concat (map ts_payload fs) = pes_header (zeroPacket\<lparr>PacketType := 1, PData := replicate 400 7\<rparr>) @ replicate 400 7 \<and>
    (\<forall>j<length fs. unat (fs ! j ! 3 AND 0x0f) = (j + 1) mod 16)"
proof -
  define p where "p = zeroPacket\<lparr>PacketType := 1, PData := replicate 400 7\<rparr>"
  have "length (tsPacket NewMuxer) = 188" and cc: "ccOf p NewMuxer = 0" by (simp_all add: NewMuxer_def ccOf_def)
  from mux_roundtrip [OF this(1), of p "[]"] obtain fs m' where "Mux p (Some buf_write) NewMuxer [] = (Ok (), m', [] @ concat fs)"
    "concat (map ts_payload fs) = pes_header p @ PData p" "ccOf p NewMuxer \<le> 15 \<longrightarrow> (\<forall>j<length fs. unat (fs ! j ! 3 AND 0x0f) = (unat (ccOf p NewMuxer) + j + 1) mod 16)"
    by blast
  then show ?thesis unfolding p_def [symmetric] by (intro exI [of _ fs] exI [of _ m']) (simp add: cc, simp add: p_def)
qed

lemma ts_read_take: "i + 4 < n \<Longrightarrow> ts_read (take n b) i = ts_read b i"
  by (simp add: ts_read_def)

lemma ts_read_writeTs_other: "i + 4 < j \<Longrightarrow> ts_read (writeTs b j fb ts) i = ts_read b i"
  by (simp add: ts_read_def writeTs_def Let_def)

text \<open>
  C36: The time stamps a receiver reads from the PES header are the 90 kHz presentation and decoding
  times of the packet, reduced to 33 bits; but above 0x1ffffffff, where the code subtracts
  0x1ffffffff instead of 2^33, they are one tick late. The decoding time is sent for video with a
  composition offset only.
\<close>

theorem pes_timestamps:
  assumes "dts = uint (TimeStamp p) * 90"
    and "pts = (if isVideo p then dts + sint (CompositionTime (VHeader p)) * 90 else dts)"
  shows "ts_read (pes_header p) 9 = word_of_int (wrap33 pts) \<and>
    length (pes_header p) = (if pts = dts then 14 else 19) \<and>
    (pts \<noteq> dts \<longrightarrow> ts_read (pes_header p) 14 = word_of_int (wrap33 dts))"
proof -
  obtain d0 :: bytes and fb where d0: "pes_packet p pts dts =
      (if isVideo p \<and> pts \<noteq> dts then (19, writeTs (writeTs d0 9 fb pts) 14 1 dts) else (14, writeTs d0 9 fb pts))"
    "length d0 = 188"
    by (rule that, unfold pes_packet_def Let_def, rule refl, simp)
  have ne: "pts \<noteq> dts \<Longrightarrow> isVideo p" using assms(2) by (simp split: if_splits)
  have ph: "pes_header p = (case pes_packet p pts dts of (n, d) \<Rightarrow> take (unat n) d)"
    unfolding pes_header_def Let_def assms(1) [symmetric] assms(2) [symmetric] ..
  show ?thesis
    using d0(2) ne unfolding ph d0(1) by (auto simp: ts_read_take ts_read_writeTs ts_read_writeTs_other)
qed

theorem pes_timestamps_witness:
  "ts_read (pes_header (zeroPacket\<lparr>TimeStamp := 95443718\<rparr>)) 9 = word_of_int (95443718 * 90 mod 2 ^ 33 + 1)"
  using pes_timestamps [of "95443718 * 90" "zeroPacket\<lparr>TimeStamp := 95443718\<rparr>" "95443718 * 90"]
  by (simp add: isVideo_def zeroPacket_def wrap33_def)

end
