(* ===== verification/Amf.thy ===== *)
theory Amf
  imports Prelude "HOL-Library.List_Lexorder"
begin

text \<open>
  What the package \<open>protocol/amf\<close> is built on: the dynamic values it encodes and decodes, Go's
  float64 conversions on IEEE bit patterns, the readers and writers of \<open>util.go\<close>, and sequencing of
  code whose recursion is bounded by fuel.
\<close>

section \<open>Fuelled code\<close>

text \<open>
  The decoders call each other recursively along the input. They take fuel; \<open>None\<close> is "out of
  fuel" and is shown not to occur when the fuel exceeds the length of the input.
\<close>

type_synonym ('s, 'a) fprog = "'s \<Rightarrow> ('a res \<times> 's) option"

definition fbind :: "('s, 'a) fprog \<Rightarrow> ('a \<Rightarrow> ('s, 'b) fprog) \<Rightarrow> ('s, 'b) fprog" where
  "fbind m f = (\<lambda>s. case m s of
      None \<Rightarrow> None
    | Some (r, s') \<Rightarrow> (case r of Ok a \<Rightarrow> f a s' | Err e \<Rightarrow> Some (Err e, s') | Panic \<Rightarrow> Some (Panic, s')))"

definition flift :: "('s, 'a) prog \<Rightarrow> ('s, 'a) fprog" where
  "flift p = (\<lambda>s. Some (p s))"

definition fret :: "'a \<Rightarrow> ('s, 'a) fprog" where
  "fret a = (\<lambda>s. Some (Ok a, s))"

definition ferr :: "string \<Rightarrow> ('s, 'a) fprog" where
  "ferr t = (\<lambda>s. Some (Err (Errorf t), s))"

definition fempty :: "('s, 'a) fprog" where
  "fempty = (\<lambda>s. None)"

text \<open>\<open>return Error("text: %s", err)\<close>: the error is replaced.\<close>

definition rewrap :: "string \<Rightarrow> 'a res \<Rightarrow> 'a res" where
  "rewrap t r = (case r of Err e \<Rightarrow> Err (Errorf t) | _ \<Rightarrow> r)"

definition fwrap :: "string \<Rightarrow> ('s, 'a) fprog \<Rightarrow> ('s, 'a) fprog" where
  "fwrap t m = (\<lambda>s. case m s of None \<Rightarrow> None | Some (r, s') \<Rightarrow> Some (rewrap t r, s'))"

definition pwrap :: "string \<Rightarrow> ('s, 'a) prog \<Rightarrow> ('s, 'a) prog" where
  "pwrap t m = (\<lambda>s. case m s of (r, s') \<Rightarrow> (rewrap t r, s'))"

definition perr :: "string \<Rightarrow> ('s, 'a) prog" where
  "perr t = (\<lambda>s. (Err (Errorf t), s))"

lemma rewrap_simps [simp, go_simps]:
  "rewrap t (Ok a) = Ok a" "rewrap t (Err e) = Err (Errorf t)" "rewrap t Panic = Panic"
  by (simp_all add: rewrap_def)

lemma fret_apply [simp]: "fret a s = Some (Ok a, s)" by (simp add: fret_def)
lemma ferr_apply [simp]: "ferr t s = Some (Err (Errorf t), s)" by (simp add: ferr_def)
lemma fempty_apply [simp]: "fempty s = None" by (simp add: fempty_def)
lemma flift_apply [simp]: "flift p s = Some (p s)" by (simp add: flift_def)
lemma perr_apply [simp]: "perr t s = (Err (Errorf t), s)" by (simp add: perr_def)

lemma fbind_apply [go_simps]:
  "m s = Some (Ok a, s') \<Longrightarrow> fbind m f s = f a s'"
  "m s = Some (Err e, s') \<Longrightarrow> fbind m f s = Some (Err e, s')"
  "m s = Some (Panic, s') \<Longrightarrow> fbind m f s = Some (Panic, s')"
  "m s = None \<Longrightarrow> fbind m f s = None"
  by (simp_all add: fbind_def)

lemma fwrap_apply [go_simps]: "m s = Some (r, s') \<Longrightarrow> fwrap t m s = Some (rewrap t r, s')"
  by (simp add: fwrap_def)

lemma pwrap_apply [go_simps]: "m s = (r, s') \<Longrightarrow> pwrap t m s = (rewrap t r, s')"
  by (simp add: pwrap_def)

section \<open>Values\<close>

text \<open>
  A Go \<open>interface{}\<close> as the codec sees it, by kind. Strings are byte strings, floats their IEEE
  bits, \<open>VInt\<close> and \<open>VUint\<close> the integer kinds up to 32 bits and \<open>int\<close>, \<open>VInt64\<close> and \<open>VUint64\<close> the wide
  ones, \<open>VTime\<close> a UTC time in seconds. A map of type \<open>Object\<close> is its list of entries in iteration
  order. \<open>VMap\<close> and \<open>VOther\<close> stand for other maps and for everything else.
\<close>

datatype val = VNil | VBool bool | VStr bytes | VFloat u64 | VInt int | VUint nat | VInt64 int | VUint64 nat
  | VBytes bytes | VArray "val list" | VObject "(bytes \<times> val) list" | VTyped bytes "(bytes \<times> val) list"
  | VTime int | VMap | VOther

record Trait =
  TType :: bytes
  Externalizable :: bool
  Dynamic :: bool
  Properties :: "bytes list"

definition NewTrait :: Trait where
  "NewTrait = \<lparr>TType = [], Externalizable = False, Dynamic = False, Properties = []\<rparr>"

definition NewTypedObject :: val where
  "NewTypedObject = VTyped [] []"

text \<open>Assignment to a map entry: an existing key keeps its place.\<close>

fun put_key :: "bytes \<Rightarrow> 'v \<Rightarrow> (bytes \<times> 'v) list \<Rightarrow> (bytes \<times> 'v) list" where
  "put_key k v [] = [(k, v)]"
| "put_key k v ((k', v') # m) = (if k' = k then (k, v) # m else (k', v') # put_key k v m)"

lemma put_key_fresh: "k \<notin> fst ` set m \<Longrightarrow> put_key k v m = m @ [(k, v)]"
  by (induction m) auto

lemma map_of_put_key: "map_of (put_key k v m) = (map_of m)(k \<mapsto> v)"
  by (induction m) auto

definition chars :: "string \<Rightarrow> bytes" where
  "chars s = map (\<lambda>c. of_nat (of_char c)) s"

section \<open>Markers (protocol/amf/const.go)\<close>

abbreviation (input) AMF0_NUMBER_MARKER :: u8 where "AMF0_NUMBER_MARKER \<equiv> 0x00"
abbreviation (input) AMF0_BOOLEAN_MARKER :: u8 where "AMF0_BOOLEAN_MARKER \<equiv> 0x01"
abbreviation (input) AMF0_STRING_MARKER :: u8 where "AMF0_STRING_MARKER \<equiv> 0x02"
abbreviation (input) AMF0_OBJECT_MARKER :: u8 where "AMF0_OBJECT_MARKER \<equiv> 0x03"
abbreviation (input) AMF0_MOVIECLIP_MARKER :: u8 where "AMF0_MOVIECLIP_MARKER \<equiv> 0x04"
abbreviation (input) AMF0_NULL_MARKER :: u8 where "AMF0_NULL_MARKER \<equiv> 0x05"
abbreviation (input) AMF0_UNDEFINED_MARKER :: u8 where "AMF0_UNDEFINED_MARKER \<equiv> 0x06"
abbreviation (input) AMF0_REFERENCE_MARKER :: u8 where "AMF0_REFERENCE_MARKER \<equiv> 0x07"
abbreviation (input) AMF0_ECMA_ARRAY_MARKER :: u8 where "AMF0_ECMA_ARRAY_MARKER \<equiv> 0x08"
abbreviation (input) AMF0_OBJECT_END_MARKER :: u8 where "AMF0_OBJECT_END_MARKER \<equiv> 0x09"
abbreviation (input) AMF0_STRICT_ARRAY_MARKER :: u8 where "AMF0_STRICT_ARRAY_MARKER \<equiv> 0x0a"
abbreviation (input) AMF0_DATE_MARKER :: u8 where "AMF0_DATE_MARKER \<equiv> 0x0b"
abbreviation (input) AMF0_LONG_STRING_MARKER :: u8 where "AMF0_LONG_STRING_MARKER \<equiv> 0x0c"
abbreviation (input) AMF0_UNSUPPORTED_MARKER :: u8 where "AMF0_UNSUPPORTED_MARKER \<equiv> 0x0d"
abbreviation (input) AMF0_RECORDSET_MARKER :: u8 where "AMF0_RECORDSET_MARKER \<equiv> 0x0e"
abbreviation (input) AMF0_XML_DOCUMENT_MARKER :: u8 where "AMF0_XML_DOCUMENT_MARKER \<equiv> 0x0f"
abbreviation (input) AMF0_TYPED_OBJECT_MARKER :: u8 where "AMF0_TYPED_OBJECT_MARKER \<equiv> 0x10"
abbreviation (input) AMF0_ACMPLUS_OBJECT_MARKER :: u8 where "AMF0_ACMPLUS_OBJECT_MARKER \<equiv> 0x11"

abbreviation (input) AMF3_UNDEFINED_MARKER :: u8 where "AMF3_UNDEFINED_MARKER \<equiv> 0x00"
abbreviation (input) AMF3_NULL_MARKER :: u8 where "AMF3_NULL_MARKER \<equiv> 0x01"
abbreviation (input) AMF3_FALSE_MARKER :: u8 where "AMF3_FALSE_MARKER \<equiv> 0x02"
abbreviation (input) AMF3_TRUE_MARKER :: u8 where "AMF3_TRUE_MARKER \<equiv> 0x03"
abbreviation (input) AMF3_INTEGER_MARKER :: u8 where "AMF3_INTEGER_MARKER \<equiv> 0x04"
abbreviation (input) AMF3_DOUBLE_MARKER :: u8 where "AMF3_DOUBLE_MARKER \<equiv> 0x05"
abbreviation (input) AMF3_STRING_MARKER :: u8 where "AMF3_STRING_MARKER \<equiv> 0x06"
abbreviation (input) AMF3_XMLDOC_MARKER :: u8 where "AMF3_XMLDOC_MARKER \<equiv> 0x07"
abbreviation (input) AMF3_DATE_MARKER :: u8 where "AMF3_DATE_MARKER \<equiv> 0x08"
abbreviation (input) AMF3_ARRAY_MARKER :: u8 where "AMF3_ARRAY_MARKER \<equiv> 0x09"
abbreviation (input) AMF3_OBJECT_MARKER :: u8 where "AMF3_OBJECT_MARKER \<equiv> 0x0a"
abbreviation (input) AMF3_XMLSTRING_MARKER :: u8 where "AMF3_XMLSTRING_MARKER \<equiv> 0x0b"
abbreviation (input) AMF3_BYTEARRAY_MARKER :: u8 where "AMF3_BYTEARRAY_MARKER \<equiv> 0x0c"

section \<open>Decoder state\<close>

text \<open>
  \<open>refCache\<close> is only ever appended to (references are an unsupported type), so its length is kept.
  No external handler is registered anywhere in the program. \<open>rd\<close> is the unread part of the
  \<open>bytes.Reader\<close> the decoder is called with.
\<close>

record Decoder =
  refCache :: nat
  stringRefs :: "bytes list"
  objectRefs :: "val list"
  traitRefs :: "Trait list"

record dstate = Decoder +
  rd :: bytes

definition NewDecoder :: "bytes \<Rightarrow> dstate" where
  "NewDecoder b = \<lparr>refCache = 0, stringRefs = [], objectRefs = [], traitRefs = [], rd = b\<rparr>"

section \<open>Reading (protocol/amf/util.go)\<close>

text \<open>
  \<open>Read\<close> of a \<open>bytes.Reader\<close>: at the end it fails, also for an empty buffer; otherwise it fills as
  much of the buffer as there are bytes. The rest of the buffer stays zero.
\<close>

definition r_Read :: "nat \<Rightarrow> (dstate, nat \<times> bytes) prog" where
  "r_Read n d = (if rd d = [] then (Err EOF, d)
     else (Ok (min n (length (rd d)), take n (rd d) @ replicate (n - length (rd d)) 0), d\<lparr>rd := drop n (rd d)\<rparr>))"

definition ReadBytes :: "nat \<Rightarrow> (dstate, bytes) prog" where
  "ReadBytes n = pbind (r_Read n) (\<lambda>(m, b). if m \<noteq> n then perr ''decode read bytes failed'' else preturn b)"

definition ReadByte :: "(dstate, u8) prog" where
  "ReadByte = pbind (ReadBytes 1) (\<lambda>b. preturn (b ! 0))"

definition ReadMarker :: "(dstate, u8) prog" where
  "ReadMarker = ReadByte"

definition AssertMarker :: "bool \<Rightarrow> u8 \<Rightarrow> (dstate, unit) prog" where
  "AssertMarker checkMarker m = (if \<not> checkMarker then preturn ()
     else pbind ReadMarker (\<lambda>b. if b \<noteq> m then perr ''decode assert marker failed'' else preturn ()))"

text \<open>\<open>binary.Read\<close> of an \<open>n\<close>-byte number reads through \<open>io.ReadFull\<close>.\<close>

definition binary_Read :: "nat \<Rightarrow> (dstate, bytes) prog" where
  "binary_Read n d = (if rd d = [] then (Err EOF, d)
     else if length (rd d) < n then (Err UnexpectedEOF, d\<lparr>rd := []\<rparr>)
     else (Ok (take n (rd d)), d\<lparr>rd := drop n (rd d)\<rparr>))"

section \<open>Writing (protocol/amf/util.go)\<close>

text \<open>The writer is the \<open>bytes.Buffer\<close> that every caller in the program passes; it does not fail.\<close>

definition WriteBytes :: "bytes \<Rightarrow> (bytes, nat) prog" where
  "WriteBytes b w = (Ok (length b), w @ b)"

definition WriteByte :: "u8 \<Rightarrow> (bytes, unit) prog" where
  "WriteByte b = pbind (WriteBytes [b]) (\<lambda>_. preturn ())"

definition WriteMarker :: "u8 \<Rightarrow> (bytes, unit) prog" where
  "WriteMarker m = WriteByte m"

definition markN :: "bool \<Rightarrow> u8 \<Rightarrow> (bytes, nat) prog" where
  "markN encodeMarker m = (if encodeMarker then pbind (WriteMarker m) (\<lambda>_. preturn 1) else preturn 0)"

section \<open>Go's float64 conversions\<close>

text \<open>
  A float64 is its IEEE 754 bit pattern. Integers convert with rounding to nearest, ties to even.
  A conversion to an integer drops the fraction; out of range (and for NaN) the Go specification
  leaves the result to the implementation, here it is the value amd64 gives.
\<close>

fun ilog2 :: "nat \<Rightarrow> nat" where
  "ilog2 n = (if n < 2 then 0 else Suc (ilog2 (n div 2)))"

declare ilog2.simps [simp del]

definition rne :: "nat \<Rightarrow> nat \<Rightarrow> nat" where
  "rne n d = (let q = n div d; r = n mod d in if 2 * r > d \<or> (2 * r = d \<and> odd q) then q + 1 else q)"

definition f64_mag :: "nat \<Rightarrow> nat" where
  "f64_mag n = (if n = 0 then 0 else
     let l = ilog2 n in (l + 1022) * 2 ^ 52 + (if l \<le> 52 then n * 2 ^ (52 - l) else rne n (2 ^ (l - 52))))"

definition f64_of_int :: "int \<Rightarrow> u64" where
  "f64_of_int i = (if i < 0 then of_nat (2 ^ 63 + f64_mag (nat (- i))) else of_nat (f64_mag (nat i)))"

definition f64_exp :: "u64 \<Rightarrow> nat" where "f64_exp x = unat x div 2 ^ 52 mod 2048"

definition f64_sig :: "u64 \<Rightarrow> nat" where
  "f64_sig x = (if f64_exp x = 0 then 0 else 2 ^ 52) + unat x mod 2 ^ 52"

text \<open>The absolute value of a finite float is \<open>f64_num / f64_den\<close>.\<close>

definition f64_num :: "u64 \<Rightarrow> nat" where
  "f64_num x = (if f64_exp x \<ge> 1075 then f64_sig x * 2 ^ (f64_exp x - 1075) else f64_sig x)"

definition f64_den :: "u64 \<Rightarrow> nat" where
  "f64_den x = (if f64_exp x \<ge> 1075 then 1 else 2 ^ (1075 - max 1 (f64_exp x)))"

definition i64_result :: "u64 \<Rightarrow> nat \<Rightarrow> int" where
  "i64_result x n = (let v = (if unat x \<ge> 2 ^ 63 then - int n else int n)
     in if f64_exp x = 2047 \<or> v < - (2 ^ 63) \<or> v \<ge> 2 ^ 63 then - (2 ^ 63) else v)"

definition f64_trunc :: "u64 \<Rightarrow> int" where
  "f64_trunc x = i64_result x (f64_num x div f64_den x)"

text \<open>\<open>int64(x / 1000)\<close>, the quotient rounded to a float64 before its fraction is dropped.\<close>

definition f64_div1000 :: "u64 \<Rightarrow> int" where
  "f64_div1000 x =
     (let n = f64_num x; d = 1000 * f64_den x; l = ilog2 (n div d)
      in i64_result x
           (if n < d then rne (n * 2 ^ 53) d div 2 ^ 53
            else if l \<le> 52 then rne (n * 2 ^ (52 - l)) d div 2 ^ (52 - l)
            else rne n (d * 2 ^ (l - 52)) * 2 ^ (l - 52)))"

lemma ilog2_bounds: "0 < n \<Longrightarrow> 2 ^ ilog2 n \<le> n \<and> n < 2 ^ Suc (ilog2 n)"
proof (induction n rule: ilog2.induct)
  case (1 n)
  show ?case
  proof (cases "n < 2")
    case True
    then show ?thesis using 1 by (simp add: ilog2.simps)
  next
    case False
    then have ih: "2 ^ ilog2 (n div 2) \<le> n div 2" "n div 2 < 2 ^ Suc (ilog2 (n div 2))"
      using 1 by simp_all
    have l: "ilog2 n = Suc (ilog2 (n div 2))" using False by (subst ilog2.simps) simp
    have "2 * (n div 2) \<le> n" "n < 2 * (n div 2) + 2" by presburger+
    then show ?thesis unfolding l power_Suc using ih by (auto simp del: ilog2.simps)
  qed
qed

lemma ilog2_less: "0 < n \<Longrightarrow> n < 2 ^ k \<Longrightarrow> ilog2 n < k"
proof -
  assume n: "0 < n" "n < 2 ^ k"
  then have "(2 :: nat) ^ ilog2 n < 2 ^ k" using ilog2_bounds [of n] by (meson le_less_trans)
  then show ?thesis by simp
qed

lemma f64_mag_parts:
  assumes "0 < n" and "n < 2 ^ 53" and "s \<in> {0, 2 ^ 63}"
  defines "x \<equiv> of_nat (s + f64_mag n) :: u64"
  shows "f64_num x div f64_den x = n" and "unat x \<ge> 2 ^ 63 \<longleftrightarrow> s \<noteq> 0" and "f64_exp x < 2047"
proof -
  define l where "l = ilog2 n"
  define q where "q = n * 2 ^ (52 - l)"
  have l: "l \<le> 52" "2 ^ l \<le> n" "n < 2 ^ Suc l"
    using ilog2_bounds [OF assms(1)] ilog2_less [OF assms(1,2)] by (simp_all add: l_def)
  have q: "2 ^ 52 \<le> q" "q < 2 ^ 53"
  proof -
    have "(2 :: nat) ^ 52 = 2 ^ l * 2 ^ (52 - l)" using l(1) by (simp flip: power_add)
    then show "2 ^ 52 \<le> q" unfolding q_def using l(2) by (simp only: mult_le_mono1)
    have "(2 :: nat) ^ 53 = 2 ^ Suc l * 2 ^ (52 - l)" using l(1) by (simp flip: power_add power_Suc)
    then show "q < 2 ^ 53" unfolding q_def using l(3) by (simp only: mult_less_cancel2 zero_less_power simp_thms zero_less_numeral)
  qed
  have mag: "f64_mag n = (l + 1023) * 2 ^ 52 + (q - 2 ^ 52)"
    using assms(1) l(1) q(1) by (simp add: f64_mag_def l_def [symmetric] q_def [symmetric])
  have lt: "f64_mag n < 2 ^ 63" using l(1) q(2) by (simp add: mag)
  have ux: "unat x = s + f64_mag n"
  proof -
    have "s + f64_mag n < 2 ^ 64" using lt assms(3) by auto
    then show ?thesis unfolding x_def unsigned_of_nat by (simp add: take_bit_nat_eq_self)
  qed
  show "unat x \<ge> 2 ^ 63 \<longleftrightarrow> s \<noteq> 0" using ux lt assms(3) by auto
  obtain c where c: "s = c * 2 ^ 52" "c = 0 \<or> c = 2048" using assms(3) that [of 0] that [of 2048] by auto
  have uc: "unat x = (q - 2 ^ 52) + (c + (l + 1023)) * 2 ^ 52"
    unfolding ux mag c(1) by (simp only: add_mult_distrib add_ac)
  have small: "q - 2 ^ 52 < 2 ^ 52" using q by simp
  have "unat x div 2 ^ 52 = c + (l + 1023)" "unat x mod 2 ^ 52 = q - 2 ^ 52"
    unfolding uc using small by (simp_all only: div_mult_self1 mod_mult_self1 div_less mod_less add_0_right
      power_not_zero zero_neq_numeral not_False_eq_True)
  note parts = this
  have e: "f64_exp x = l + 1023"
  proof -
    have "(c + (l + 1023)) mod 2048 = (l + 1023) mod 2048"
      using c(2) by (elim disjE) (simp_all only: mod_add_self1 add_0)
    then show ?thesis using l(1) unfolding f64_exp_def parts(1) by simp
  qed
  then show "f64_exp x < 2047" using l(1) by simp
  have sig: "f64_sig x = q" using e q(1) by (simp add: f64_sig_def parts(2) [simplified])
  show "f64_num x div f64_den x = n"
    using l(1) by (cases "l = 52") (simp_all add: f64_num_def f64_den_def e sig q_def)
qed

lemma f64_roundtrip:
  assumes "\<bar>n\<bar> < 2 ^ 53"
  shows "f64_trunc (f64_of_int n) = n"
proof (cases "n = 0")
  case True
  then show ?thesis
    by (simp add: f64_of_int_def f64_mag_def f64_trunc_def i64_result_def f64_num_def f64_den_def f64_exp_def f64_sig_def)
next
  case False
  define k where "k = nat \<bar>n\<bar>"
  have k: "0 < k" "k < 2 ^ 53" using False assms by (simp_all add: k_def nat_less_iff)
  define s where "s = (if n < 0 then 2 ^ 63 else 0 :: nat)"
  have s: "s \<in> {0, 2 ^ 63}" by (simp add: s_def)
  have x: "f64_of_int n = of_nat (s + f64_mag k)" by (simp add: f64_of_int_def s_def k_def)
  note p = f64_mag_parts [OF k s, folded x]
  have "f64_trunc (f64_of_int n) = (if s \<noteq> 0 then - int k else int k)"
    using p k unfolding f64_trunc_def i64_result_def Let_def by auto
  then show ?thesis using False by (simp add: s_def k_def)
qed

section \<open>Reading and writing in one step\<close>

lemma WriteBytes_apply [simp]: "WriteBytes b w = (Ok (length b), w @ b)"
  by (simp add: WriteBytes_def)

lemma WriteMarker_apply [simp]: "WriteMarker m w = (Ok (), w @ [m])"
  by (simp add: WriteMarker_def WriteByte_def pbind_def)

lemma markN_apply [simp]: "markN True m w = (Ok 1, w @ [m])" "markN False m w = (Ok 0, w)"
  by (simp_all add: markN_def pbind_def)

lemma ReadMarker_Cons [simp]: "rd d = m # bs \<Longrightarrow> ReadMarker d = (Ok m, d\<lparr>rd := bs\<rparr>)"
  by (simp add: ReadMarker_def ReadByte_def ReadBytes_def r_Read_def pbind_def)

lemma binary_Read_append: "length b = n \<Longrightarrow> 0 < n \<Longrightarrow> rd d = b @ rest \<Longrightarrow> binary_Read n d = (Ok b, d\<lparr>rd := rest\<rparr>)"
  by (auto simp: binary_Read_def)

lemma ReadBytes_append: "length b = n \<Longrightarrow> 0 < n \<Longrightarrow> rd d = b @ rest \<Longrightarrow> ReadBytes n d = (Ok b, d\<lparr>rd := rest\<rparr>)"
  by (auto simp: ReadBytes_def r_Read_def pbind_def)

lemma AssertMarker_False [simp]: "AssertMarker False m = preturn ()"
  by (simp add: AssertMarker_def)


section \<open>Consumption of the input\<close>

text \<open>
  \<open>consumes safe k m n\<close>: on every input shorter than \<open>n\<close> the fuelled program \<open>m\<close> returns, has only
  moved forward in the input, by at least \<open>k\<close> bytes if it succeeds, and, when \<open>safe\<close> holds, does not
  panic unless the input contains the marker of an AMF3 value.
\<close>

definition forward :: "bool \<Rightarrow> nat \<Rightarrow> dstate \<Rightarrow> 'a res \<Rightarrow> dstate \<Rightarrow> bool" where
  "forward safe k d r d' \<longleftrightarrow> suffix (rd d') (rd d) \<and>
     (\<forall>a. r = Ok a \<longrightarrow> length (rd d') + k \<le> length (rd d)) \<and>
     (safe \<and> 0x11 \<notin> set (rd d) \<longrightarrow> r \<noteq> Panic)"

definition pcons :: "bool \<Rightarrow> nat \<Rightarrow> (dstate, 'a) prog \<Rightarrow> bool" where
  "pcons safe k m \<longleftrightarrow> (\<forall>d. forward safe k d (fst (m d)) (snd (m d)))"

definition consumes :: "bool \<Rightarrow> nat \<Rightarrow> (dstate, 'a) fprog \<Rightarrow> nat \<Rightarrow> bool" where
  "consumes safe k m n \<longleftrightarrow> (\<forall>d. length (rd d) < n \<longrightarrow> (\<exists>r d'. m d = Some (r, d') \<and> forward safe k d r d'))"

named_theorems cons_intros \<open>rules for the consumption of decoders\<close>

lemma forward_trans:
  assumes "forward s k d (Ok a) d'" and "forward s j d' r d''"
  shows "forward s (k + j) d r d''"
  using assms by (auto simp: forward_def dest: suffix_order.trans set_mono_suffix)

lemma forward_mono: "forward s k d r d' \<Longrightarrow> k' \<le> k \<Longrightarrow> (s' \<Longrightarrow> s) \<Longrightarrow> forward s' k' d r d'"
  by (auto simp: forward_def)

lemma forward_err: "forward s k d (Err e) d' \<Longrightarrow> forward s j d (Err e') d'"
  by (simp add: forward_def)

lemma pcons_bind [cons_intros]:
  assumes "pcons s k m" and "\<And>a. pcons s 0 (g a)"
  shows "pcons s k (pbind m g)"
  unfolding pcons_def
proof
  fix d
  obtain r d' where m: "m d = (r, d')" by fastforce
  have f: "forward s k d r d'" using assms(1) m by (metis pcons_def fst_conv snd_conv)
  show "forward s k d (fst (pbind m g d)) (snd (pbind m g d))"
  proof (cases r)
    case (Ok a)
    have "forward s 0 d' (fst (g a d')) (snd (g a d'))" using assms(2) by (simp add: pcons_def)
    then show ?thesis using forward_trans [OF f [unfolded Ok]] m Ok by (fastforce simp: pbind_def)
  qed (use f m in \<open>simp_all add: pbind_def forward_def\<close>)
qed

lemma pcons_return [cons_intros]: "pcons s 0 (preturn a)"
  by (simp add: pcons_def forward_def preturn_def)

lemma pcons_err [cons_intros]: "pcons s k (perr t)"
  by (simp add: pcons_def forward_def perr_def)

lemma pcons_mono: "pcons s k m \<Longrightarrow> k' \<le> k \<Longrightarrow> pcons s k' m"
  unfolding pcons_def using forward_mono by blast

lemma pcons_wrap [cons_intros]:
  assumes "pcons s k m"
  shows "pcons s k (pwrap t m)"
  unfolding pcons_def
proof
  fix d
  obtain r d' where m: "m d = (r, d')" by fastforce
  have "forward s k d r d'" using assms m by (metis pcons_def fst_conv snd_conv)
  then show "forward s k d (fst (pwrap t m d)) (snd (pwrap t m d))"
    using m by (cases r) (simp_all add: pwrap_def forward_def)
qed

lemma pcons_if [cons_intros]: "(b \<Longrightarrow> pcons s k m) \<Longrightarrow> (\<not> b \<Longrightarrow> pcons s k m') \<Longrightarrow> pcons s k (if b then m else m')"
  by simp

lemma pcons_case_prod [cons_intros]: "(\<And>a b. pcons s k (f a b)) \<Longrightarrow> pcons s k (case p of (a, b) \<Rightarrow> f a b)"
  by (cases p) simp

lemma pcons_case_val [cons_intros]: 
  "(\<And>a. pcons s k (f1 a)) \<Longrightarrow> pcons s k (case v of VTime a \<Rightarrow> f1 a | _ \<Rightarrow> perr t)"
  "(\<And>a. pcons s k (f2 a)) \<Longrightarrow> pcons s k (case v of VStr a \<Rightarrow> f2 a | _ \<Rightarrow> perr t)"
  "(\<And>a. pcons s k (f2 a)) \<Longrightarrow> pcons s k (case v of VBytes a \<Rightarrow> f2 a | _ \<Rightarrow> perr t)"
  by (cases v; simp add: pcons_err)+

lemma pcons_r_Read [cons_intros]: "pcons s 0 (r_Read n)"
  by (simp add: pcons_def r_Read_def forward_def suffix_drop)

lemma pcons_ReadBytes [cons_intros]: "pcons s n (ReadBytes n)"
  by (simp add: pcons_def ReadBytes_def r_Read_def forward_def suffix_drop pbind_def)

lemma pcons_ReadByte [cons_intros]: "pcons s 1 ReadByte"
  unfolding ReadByte_def by (intro cons_intros)

lemma pcons_ReadMarker [cons_intros]: "pcons s 1 ReadMarker"
  unfolding ReadMarker_def by (rule pcons_ReadByte)

lemma pcons_AssertMarker [cons_intros]: "pcons s 0 (AssertMarker b m)"
  unfolding AssertMarker_def
  by (intro cons_intros pcons_mono [OF pcons_bind [OF pcons_ReadMarker]]) simp_all

lemma pcons_binary_Read [cons_intros]: "pcons s n (binary_Read n)"
  by (simp add: pcons_def binary_Read_def forward_def suffix_drop)

lemma consumes_lift [cons_intros]: "pcons s k m \<Longrightarrow> consumes s k (flift m) n"
  unfolding pcons_def consumes_def by (metis flift_apply prod.collapse)

lemma consumes_bind [cons_intros]:
  assumes m: "consumes s k m n" and g: "\<And>a. consumes s 0 (g a) (n - k)"
  shows "consumes s k (fbind m g) n"
  unfolding consumes_def
proof (intro allI impI)
  fix d :: dstate assume n: "length (rd d) < n"
  obtain r d' where r: "m d = Some (r, d')" "forward s k d r d'" using m n by (auto simp: consumes_def)
  show "\<exists>r d'. fbind m g d = Some (r, d') \<and> forward s k d r d'"
  proof (cases r)
    case (Ok a)
    then have "length (rd d') < n - k" using r(2) n by (auto simp: forward_def)
    then obtain r' d'' where "g a d' = Some (r', d'')" "forward s 0 d' r' d''" using g [of a] unfolding consumes_def by blast
    then show ?thesis using forward_trans [OF r(2) [unfolded Ok]] r(1) Ok by (fastforce simp: fbind_def)
  qed (use r in \<open>simp_all add: fbind_def forward_def\<close>)
qed

lemma consumes_mono:
  "consumes s k m n \<Longrightarrow> k' \<le> k \<Longrightarrow> n' \<le> n \<Longrightarrow> (s' \<Longrightarrow> s) \<Longrightarrow> consumes s' k' m n'"
  unfolding consumes_def using forward_mono by (metis order.strict_trans2)

lemma consumes_wrap [cons_intros]:
  assumes "consumes s k m n"
  shows "consumes s k (fwrap t m) n"
  unfolding consumes_def
proof (intro allI impI)
  fix d :: dstate assume "length (rd d) < n"
  then obtain r d' where "m d = Some (r, d')" "forward s k d r d'" using assms by (auto simp: consumes_def)
  then show "\<exists>r d'. fwrap t m d = Some (r, d') \<and> forward s k d r d'"
    by (cases r) (simp_all add: fwrap_def forward_def)
qed

lemma consumes_ret [cons_intros]: "consumes s 0 (fret a) n"
  by (simp add: consumes_def forward_def)

lemma consumes_err [cons_intros]: "consumes s k (ferr t) n"
  by (simp add: consumes_def forward_def)

lemma consumes_if [cons_intros]:
  "(b \<Longrightarrow> consumes s k m n) \<Longrightarrow> (\<not> b \<Longrightarrow> consumes s k m' n) \<Longrightarrow> consumes s k (if b then m else m') n"
  by simp

lemma consumes_case_prod [cons_intros]:
  "(\<And>a b. consumes s k (f a b) n) \<Longrightarrow> consumes s k (case p of (a, b) \<Rightarrow> f a b) n"
  by (cases p) simp

lemma consumes_case_array [cons_intros]:
  "(\<And>a. consumes s k (f a) n) \<Longrightarrow> consumes s k (case v of VArray a \<Rightarrow> f a | _ \<Rightarrow> ferr t) n"
  by (cases v) (simp_all add: consumes_err)

lemma consumes_zero [cons_intros]: "consumes s k m 0"
  by (simp add: consumes_def)

lemma consumes_step:
  assumes "pcons s 1 p" and "\<And>a. consumes s 0 (g a) (n - 1)"
  shows "consumes s 0 (fbind (flift p) g) n"
  by (rule consumes_mono [where k = 1 and s = s]) (use assms in \<open>auto intro: consumes_bind consumes_lift\<close>)

lemma consumes_stay:
  assumes "pcons s 0 p" and "\<And>a. consumes s 0 (g a) n"
  shows "consumes s 0 (fbind (flift p) g) n"
  using consumes_bind [OF consumes_lift [OF assms(1), of n], of g] assms(2) by simp

end
