(* ===== verification/Amf3.thy ===== *)
theory Amf3
  imports Amf
begin

text \<open>
  AMF3: \<open>protocol/amf/encoder_amf3.go\<close>, \<open>decoder_amf3.go\<close> and \<open>decoder_amf3_external.go\<close>. The element
  encoders of an array or object are passed as programs, so that the router is the only recursive
  function of the encoder; the decoder's loops share its fuel.
\<close>

section \<open>Encoder\<close>

definition encodeAmf3Uint29 :: "u32 \<Rightarrow> (bytes, nat) prog" where
  "encodeAmf3Uint29 v =
     (if v \<le> 0x7F then pbind (WriteByte (ucast v)) (\<lambda>_. preturn 1)
      else if v \<le> 0x3FFF then WriteBytes [ucast (drop_bit 7 v OR 0x80), ucast (v AND 0x7F)]
      else if v \<le> 0x1FFFFF then
        WriteBytes [ucast (drop_bit 14 v OR 0x80), ucast (drop_bit 7 v AND 0x7F OR 0x80), ucast (v AND 0x7F)]
      else if v \<le> 0x1FFFFFFF then
        WriteBytes [ucast (drop_bit 22 v OR 0x80), ucast (drop_bit 15 v AND 0x7F OR 0x80),
                    ucast (drop_bit 8 v AND 0x7F OR 0x80), ucast v]
      else perr ''amf3 encode: cannot encode u29 with value (out of range)'')"

definition encodeAmf3Utf8 :: "bytes \<Rightarrow> (bytes, nat) prog" where
  "encodeAmf3Utf8 val =
     pbind (pwrap ''amf3 encode: cannot encode u29 for string''
             (encodeAmf3Uint29 (push_bit 1 (of_nat (length val)) OR 1))) (\<lambda>n.
     pbind (WriteBytes val) (\<lambda>m. preturn (n + m)))"

definition EncodeAmf3Undefined :: "bool \<Rightarrow> (bytes, nat) prog" where
  "EncodeAmf3Undefined encodeMarker = markN encodeMarker AMF3_UNDEFINED_MARKER"

definition EncodeAmf3Null :: "bool \<Rightarrow> (bytes, nat) prog" where
  "EncodeAmf3Null encodeMarker = markN encodeMarker AMF3_NULL_MARKER"

definition EncodeAmf3False :: "bool \<Rightarrow> (bytes, nat) prog" where
  "EncodeAmf3False encodeMarker = markN encodeMarker AMF3_FALSE_MARKER"

definition EncodeAmf3True :: "bool \<Rightarrow> (bytes, nat) prog" where
  "EncodeAmf3True encodeMarker = markN encodeMarker AMF3_TRUE_MARKER"

definition EncodeAmf3Integer :: "u32 \<Rightarrow> bool \<Rightarrow> (bytes, nat) prog" where
  "EncodeAmf3Integer val encodeMarker =
     pbind (markN encodeMarker AMF3_INTEGER_MARKER) (\<lambda>n. pbind (encodeAmf3Uint29 val) (\<lambda>m. preturn (n + m)))"

definition EncodeAmf3Double :: "u64 \<Rightarrow> bool \<Rightarrow> (bytes, nat) prog" where
  "EncodeAmf3Double val encodeMarker =
     pbind (markN encodeMarker AMF3_DOUBLE_MARKER) (\<lambda>n. pbind (WriteBytes (be_bytes 8 val)) (\<lambda>_. preturn (n + 8)))"

definition EncodeAmf3String :: "bytes \<Rightarrow> bool \<Rightarrow> (bytes, nat) prog" where
  "EncodeAmf3String val encodeMarker =
     pbind (markN encodeMarker AMF3_STRING_MARKER) (\<lambda>n. pbind (encodeAmf3Utf8 val) (\<lambda>m. preturn (n + m)))"

definition EncodeAmf3Date :: "int \<Rightarrow> bool \<Rightarrow> (bytes, nat) prog" where
  "EncodeAmf3Date val encodeMarker =
     pbind (markN encodeMarker AMF3_DATE_MARKER) (\<lambda>n.
     pbind (WriteMarker 0x01) (\<lambda>_.
     pbind (WriteBytes (be_bytes 8 (f64_of_int (f64_trunc (f64_of_int val) * 1000)))) (\<lambda>_. preturn (n + 1 + 8))))"

text \<open>A loop over element encoders that adds up the counts.\<close>

primrec runElems :: "string \<Rightarrow> (bytes, nat) prog list \<Rightarrow> nat \<Rightarrow> (bytes, nat) prog" where
  "runElems t [] n = preturn n"
| "runElems t (e # es) n = pbind (pwrap t e) (\<lambda>m. runElems t es (n + m))"

definition EncodeAmf3Array :: "(bytes, nat) prog list \<Rightarrow> bool \<Rightarrow> (bytes, nat) prog" where
  "EncodeAmf3Array es encodeMarker =
     pbind (markN encodeMarker AMF3_ARRAY_MARKER) (\<lambda>n.
     pbind (pwrap ''amf3 encode: cannot encode u29 for array''
             (encodeAmf3Uint29 (push_bit 1 (of_nat (length es)) OR 1))) (\<lambda>m.
     pbind (pwrap ''amf3 encode: cannot encode empty string for array'' (encodeAmf3Utf8 [])) (\<lambda>k.
     runElems ''amf3 encode: cannot encode array element'' es (n + m + k))))"

text \<open>
  The trait of an object: its properties are the sorted keys. It is neither dynamic nor externalizable, so the branches for
  these never run.
\<close>

definition objectTrait :: "bytes \<Rightarrow> bytes list \<Rightarrow> Trait" where
  "objectTrait typ keys = NewTrait\<lparr>TType := typ, Dynamic := False, Externalizable := False, Properties := keys\<rparr>"

definition traitHeader :: "Trait \<Rightarrow> u32" where
  "traitHeader trait =
     0x03 OR (if Dynamic trait then push_bit 2 0x02 else 0) OR (if Externalizable trait then push_bit 2 0x01 else 0) OR
     push_bit 4 (of_nat (length (Properties trait)))"

text \<open>The entries that are not among the properties; the empty key that ends them is written after every entry.\<close>

fun dynEntries :: "bytes list \<Rightarrow> (bytes \<times> (bytes, nat) prog) list \<Rightarrow> nat \<Rightarrow> (bytes, nat) prog" where
  "dynEntries props [] n = preturn n"
| "dynEntries props ((k, v) # es) n =
     pbind (if k \<in> set props then preturn n
            else pbind (pwrap ''amf3 encode: cannot encode dynamic object property key'' (encodeAmf3Utf8 k)) (\<lambda>m.
              pbind (pwrap ''amf3 encode: cannot encode dynamic object value'' v) (\<lambda>j. preturn (n + m + j)))) (\<lambda>n1.
     pbind (pwrap ''amf3 encode: cannot encode dynamic object ending marker string'' (encodeAmf3Utf8 [])) (\<lambda>m.
     dynEntries props es (n1 + m)))"

definition EncodeAmf3Object :: "bytes \<Rightarrow> (bytes \<times> (bytes, nat) prog) list \<Rightarrow> bool \<Rightarrow> (bytes, nat) prog" where
  "EncodeAmf3Object typ entries encodeMarker =
     (let es = sort_key fst entries; trait = objectTrait typ (map fst es) in
      pbind (markN encodeMarker AMF3_OBJECT_MARKER) (\<lambda>n.
      pbind (pwrap ''amf3 encode: cannot encode trait header for object'' (encodeAmf3Uint29 (traitHeader trait))) (\<lambda>m.
      pbind (pwrap ''amf3 encode: cannot encode trait type for object'' (encodeAmf3Utf8 (TType trait))) (\<lambda>k.
      pbind (runElems ''amf3 encode: cannot encode trait property for object''
              (map encodeAmf3Utf8 (Properties trait)) (n + m + k)) (\<lambda>j.
      if Externalizable trait then perr ''amf3 encode: cannot encode externalizable object''
      else
        pbind (runElems ''amf3 encode: cannot encode sealed object value'' (map snd es) j) (\<lambda>i.
        if Dynamic trait then dynEntries (Properties trait) entries i else preturn i))))))"

lemma pbind_preturn_right: "pbind m preturn = m"
  by (rule ext) (simp add: pbind_def preturn_def split: prod.split res.split)

lemma EncodeAmf3Object_static:
  "EncodeAmf3Object typ entries encodeMarker =
     (let es = sort_key fst entries in
      pbind (markN encodeMarker 0x0a) (\<lambda>n.
      pbind (pwrap ''amf3 encode: cannot encode trait header for object''
              (encodeAmf3Uint29 (0x03 OR push_bit 4 (of_nat (length es))))) (\<lambda>m.
      pbind (pwrap ''amf3 encode: cannot encode trait type for object'' (encodeAmf3Utf8 typ)) (\<lambda>k.
      pbind (runElems ''amf3 encode: cannot encode trait property for object''
              (map (\<lambda>(p, _). encodeAmf3Utf8 p) es) (n + m + k)) (\<lambda>j.
      runElems ''amf3 encode: cannot encode sealed object value'' (map snd es) j)))))"
  by (simp add: EncodeAmf3Object_def objectTrait_def NewTrait_def traitHeader_def Let_def comp_def case_prod_unfold pbind_preturn_right)

definition EncodeAmf3ByteArray :: "bytes \<Rightarrow> bool \<Rightarrow> (bytes, nat) prog" where
  "EncodeAmf3ByteArray val encodeMarker =
     pbind (markN encodeMarker AMF3_BYTEARRAY_MARKER) (\<lambda>n.
     pbind (pwrap ''amf3 encode: cannot encode u29 for bytearray''
             (encodeAmf3Uint29 (push_bit 1 (of_nat (length val)) OR 1))) (\<lambda>m.
     pbind (WriteBytes val) (\<lambda>k. preturn (n + m + k))))"

abbreviation (input) AMF3_INTEGER_MAX :: nat where "AMF3_INTEGER_MAX \<equiv> 536870911"

definition EncodeAmf3Uint :: "nat \<Rightarrow> (bytes, nat) prog" where
  "EncodeAmf3Uint n = (if n \<le> AMF3_INTEGER_MAX then EncodeAmf3Integer (of_nat n) True
     else EncodeAmf3Double (f64_of_int (int n)) True)"

fun EncodeAmf3 :: "val \<Rightarrow> (bytes, nat) prog" where
  "EncodeAmf3 VNil = EncodeAmf3Null True"
| "EncodeAmf3 (VStr s) = EncodeAmf3String s True"
| "EncodeAmf3 (VBool b) = (if b then EncodeAmf3True True else EncodeAmf3False True)"
| "EncodeAmf3 (VInt n) = (if n \<ge> 0 \<and> n \<le> int AMF3_INTEGER_MAX then EncodeAmf3Integer (word_of_int n) True
     else EncodeAmf3Double (f64_of_int n) True)"
| "EncodeAmf3 (VUint n) = EncodeAmf3Uint n"
| "EncodeAmf3 (VInt64 n) = EncodeAmf3Double (f64_of_int n) True"
| "EncodeAmf3 (VUint64 n) = EncodeAmf3Double (f64_of_int (int n)) True"
| "EncodeAmf3 (VFloat x) = EncodeAmf3Double x True"
| "EncodeAmf3 (VBytes bs) = EncodeAmf3Array (map (\<lambda>b. EncodeAmf3Uint (unat b)) bs) True"
| "EncodeAmf3 (VArray vs) = EncodeAmf3Array (map EncodeAmf3 vs) True"
| "EncodeAmf3 VMap = perr ''encode amf3: unable to create object from map''"
| "EncodeAmf3 (VObject m) = EncodeAmf3Object [] (map (\<lambda>(k, v). (k, EncodeAmf3 v)) m) True"
| "EncodeAmf3 (VTime t) = EncodeAmf3Date t True"
| "EncodeAmf3 (VTyped t m) = EncodeAmf3Object t (map (\<lambda>(k, v). (k, EncodeAmf3 v)) m) True"
| "EncodeAmf3 VOther = perr ''encode amf3: unsupported type''"

section \<open>Decoder: numbers, strings and references\<close>

primrec decodeU29_loop :: "nat \<Rightarrow> u32 \<Rightarrow> (dstate, u32) prog" where
  "decodeU29_loop 0 result = pbind ReadByte (\<lambda>b. preturn (push_bit 8 result + ucast b))"
| "decodeU29_loop (Suc i) result = pbind ReadByte (\<lambda>b.
     let result' = push_bit 7 result + ucast (b AND 0x7F)
     in if b AND 0x80 = 0 then preturn result' else decodeU29_loop i result')"

definition decodeU29 :: "(dstate, u32) prog" where
  "decodeU29 = decodeU29_loop 3 0"

definition decodeReferenceInt :: "(dstate, bool \<times> u32) prog" where
  "decodeReferenceInt =
     pbind (pwrap ''amf3 decode: unable to decode reference int'' decodeU29) (\<lambda>u29.
     preturn (u29 AND 1 = 0, drop_bit 1 u29))"

definition stringRef :: "u32 \<Rightarrow> (dstate, bytes) prog" where
  "stringRef i d = (index (stringRefs d) (unat i), d)"

definition objectRef :: "u32 \<Rightarrow> (dstate, val) prog" where
  "objectRef i d = (index (objectRefs d) (unat i), d)"

definition addStringRef :: "bytes \<Rightarrow> (dstate, unit) prog" where
  "addStringRef s d = (Ok (), d\<lparr>stringRefs := stringRefs d @ [s]\<rparr>)"

definition addObjectRef :: "val \<Rightarrow> (dstate, unit) prog" where
  "addObjectRef v d = (Ok (), d\<lparr>objectRefs := objectRefs d @ [v]\<rparr>)"

definition DecodeAmf3Undefined :: "bool \<Rightarrow> (dstate, val) prog" where
  "DecodeAmf3Undefined decodeMarker = pbind (AssertMarker decodeMarker AMF3_UNDEFINED_MARKER) (\<lambda>_. preturn VNil)"

definition DecodeAmf3Null :: "bool \<Rightarrow> (dstate, val) prog" where
  "DecodeAmf3Null decodeMarker = pbind (AssertMarker decodeMarker AMF3_NULL_MARKER) (\<lambda>_. preturn VNil)"

definition DecodeAmf3False :: "bool \<Rightarrow> (dstate, val) prog" where
  "DecodeAmf3False decodeMarker = pbind (AssertMarker decodeMarker AMF3_FALSE_MARKER) (\<lambda>_. preturn (VBool False))"

definition DecodeAmf3True :: "bool \<Rightarrow> (dstate, val) prog" where
  "DecodeAmf3True decodeMarker = pbind (AssertMarker decodeMarker AMF3_TRUE_MARKER) (\<lambda>_. preturn (VBool True))"

definition DecodeAmf3Integer :: "bool \<Rightarrow> (dstate, val) prog" where
  "DecodeAmf3Integer decodeMarker =
     pbind (AssertMarker decodeMarker AMF3_INTEGER_MARKER) (\<lambda>_.
     pbind decodeU29 (\<lambda>u29.
     preturn (VInt (if sint u29 > 0xfffffff then sint (u29 - 0x20000000) else sint u29))))"

definition DecodeAmf3Double :: "bool \<Rightarrow> (dstate, val) prog" where
  "DecodeAmf3Double decodeMarker =
     pbind (AssertMarker decodeMarker AMF3_DOUBLE_MARKER) (\<lambda>_.
     pbind (pwrap ''amf3 decode: unable to read double'' (binary_Read 8)) (\<lambda>b. preturn (VFloat (be_word b))))"

definition DecodeAmf3String :: "bool \<Rightarrow> (dstate, bytes) prog" where
  "DecodeAmf3String decodeMarker =
     pbind (AssertMarker decodeMarker AMF3_STRING_MARKER) (\<lambda>_.
     pbind (pwrap ''amf3 decode: unable to decode string reference and length'' decodeReferenceInt) (\<lambda>(isRef, refVal).
     if isRef then stringRef refVal
     else pbind (pwrap ''amf3 decode: unable to read string'' (r_Read (unat refVal))) (\<lambda>(_, buf).
       if buf \<noteq> [] then pbind (addStringRef buf) (\<lambda>_. preturn buf) else preturn buf)))"

definition DecodeAmf3Date :: "bool \<Rightarrow> (dstate, val) prog" where
  "DecodeAmf3Date decodeMarker =
     pbind (AssertMarker decodeMarker AMF3_DATE_MARKER) (\<lambda>_.
     pbind (pwrap ''amf3 decode: unable to decode date reference and length'' decodeReferenceInt) (\<lambda>(isRef, refVal).
     if isRef then pbind (objectRef refVal) (\<lambda>v. case v of VTime t \<Rightarrow> preturn (VTime t)
         | _ \<Rightarrow> perr ''amf3 decode: unable to extract time from date object references'')
     else pbind (pwrap ''amf3 decode: unable to read double'' (binary_Read 8)) (\<lambda>b.
       let t = VTime (f64_div1000 (be_word b)) in pbind (addObjectRef t) (\<lambda>_. preturn t))))"

definition xmlMarker :: "(dstate, unit) prog" where
  "xmlMarker = pbind ReadMarker (\<lambda>m. if m \<noteq> 0x07 \<and> m \<noteq> 0x0b then perr ''decode assert marker failed'' else preturn ())"

definition DecodeAmf3Xml :: "bool \<Rightarrow> (dstate, val) prog" where
  "DecodeAmf3Xml decodeMarker =
     pbind (if decodeMarker then xmlMarker else preturn ()) (\<lambda>_.
     pbind (pwrap ''amf3 decode: unable to decode xml reference and length'' decodeReferenceInt) (\<lambda>(isRef, refVal).
     if isRef then pbind (objectRef refVal) (\<lambda>v. case v of VStr s \<Rightarrow> preturn (VStr s)
         | _ \<Rightarrow> perr ''amf3 decode: cannot coerce object reference into xml string'')
     else pbind (pwrap ''amf3 decode: unable to read xml string'' (r_Read (unat refVal))) (\<lambda>(_, buf).
       if buf \<noteq> [] then pbind (addObjectRef (VStr buf)) (\<lambda>_. preturn (VStr buf)) else preturn (VStr buf))))"

definition DecodeAmf3ByteArray :: "bool \<Rightarrow> (dstate, val) prog" where
  "DecodeAmf3ByteArray decodeMarker =
     pbind (AssertMarker decodeMarker AMF3_BYTEARRAY_MARKER) (\<lambda>_.
     pbind (pwrap ''amf3 decode: unable to decode byte array reference and length'' decodeReferenceInt) (\<lambda>(isRef, refVal).
     if isRef then pbind (objectRef refVal) (\<lambda>v. case v of VBytes s \<Rightarrow> preturn (VBytes s)
         | _ \<Rightarrow> perr ''amf3 decode: unable to convert object ref to bytes'')
     else pbind (pwrap ''amf3 decode: unable to read bytearray'' (r_Read (unat refVal))) (\<lambda>(_, buf).
       pbind (addObjectRef (VBytes buf)) (\<lambda>_. preturn (VBytes buf)))))"

section \<open>Decoder: arrays and objects\<close>

text \<open>
  The loops that call back into the decoder are arguments: \<open>elems n\<close> decodes \<open>n\<close> values, \<open>props ks obj\<close>
  decodes a value for each key (with the error text of the loop it stands for), \<open>dyn obj\<close> decodes
  key-value pairs up to an empty key.
\<close>

type_synonym obj = "(bytes \<times> val) list"

definition DecodeAmf3Array :: "(nat \<Rightarrow> (dstate, val list) fprog) \<Rightarrow> bool \<Rightarrow> (dstate, val) fprog" where
  "DecodeAmf3Array elems decodeMarker =
     fbind (flift (AssertMarker decodeMarker AMF3_ARRAY_MARKER)) (\<lambda>_.
     fbind (flift (pwrap ''amf3 decode: unable to decode array reference and length'' decodeReferenceInt)) (\<lambda>(isRef, refVal).
     if isRef then fbind (flift (objectRef (drop_bit 1 refVal))) (\<lambda>v. case v of VArray a \<Rightarrow> fret (VArray a)
         | _ \<Rightarrow> ferr ''amf3 decode: unable to extract array from object references'')
     else fbind (flift (pwrap ''amf3 decode: unable to read key for array'' (DecodeAmf3String False))) (\<lambda>key.
       if key \<noteq> [] then ferr ''amf3 decode: array key is not empty, can't handle associative array''
       else fbind (elems (unat refVal)) (\<lambda>vs.
         fbind (flift (addObjectRef (VArray vs))) (\<lambda>_. fret (VArray vs))))))"

primrec traitProps :: "nat \<Rightarrow> bytes list \<Rightarrow> (dstate, bytes list) prog" where
  "traitProps 0 ps = preturn ps"
| "traitProps (Suc n) ps =
     pbind (pwrap ''amf3 decode: unable to read trait property for object'' (DecodeAmf3String False)) (\<lambda>p.
     traitProps n (ps @ [p]))"

definition readTrait :: "u32 \<Rightarrow> (dstate, Trait) prog" where
  "readTrait refVal =
     (if refVal AND 1 = 0 then (\<lambda>d. (index (traitRefs d) (unat (drop_bit 1 refVal)), d))
      else
        pbind (pwrap ''amf3 decode: unable to read trait type for object'' (DecodeAmf3String False)) (\<lambda>cls.
        pbind (traitProps (unat (drop_bit 3 refVal)) []) (\<lambda>ps.
        let t = \<lparr>TType = cls, Externalizable = (refVal AND 2 \<noteq> 0), Dynamic = (refVal AND 4 \<noteq> 0), Properties = ps\<rparr>
        in (\<lambda>d. (Ok t, d\<lparr>traitRefs := traitRefs d @ [t]\<rparr>)))))"

text \<open>Flag bytes follow each other as long as the top bit is set.\<close>

fun readFlags_loop :: "bytes \<Rightarrow> bytes \<Rightarrow> bytes res \<times> bytes" where
  "readFlags_loop result [] = (Err (Errorf ''unable to read flags''), [])"
| "readFlags_loop result (b # bs) =
     (if b AND 0x80 = 0 then (Ok (result @ [b]), bs) else readFlags_loop (result @ [b]) bs)"

definition readFlags :: "(dstate, bytes) prog" where
  "readFlags d = (case readFlags_loop [] (rd d) of (r, bs) \<Rightarrow> (r, d\<lparr>rd := bs\<rparr>))"

fun decimal :: "nat \<Rightarrow> string" where
  "decimal n = (if n < 10 then [char_of (48 + n)] else decimal (n div 10) @ [char_of (48 + n mod 10)])"

declare decimal.simps [simp del]

text \<open>The fields that one flag byte announces, named ones first, then the reserved ones.\<close>

definition flagFields :: "nat \<Rightarrow> u8 \<Rightarrow> bytes list \<Rightarrow> (bytes \<times> string) list" where
  "flagFields i flags fieldNames =
     (let reservedPosition = length fieldNames in
      map (\<lambda>p. (fieldNames ! p, ''unable to decode external field''))
        (filter (\<lambda>p. flags AND push_bit p 1 \<noteq> 0) [0..<length fieldNames]) @
      (if drop_bit reservedPosition flags \<noteq> 0 then
         map (\<lambda>j. (chars (''extra_'' @ decimal i @ ''_'' @ decimal j), ''unable to decode post-external field''))
           (filter (\<lambda>j. drop_bit j flags AND 1 \<noteq> 0) [reservedPosition..<6])
       else []))"

fun allFields :: "nat \<Rightarrow> bytes \<Rightarrow> bytes list list \<Rightarrow> (bytes \<times> string) list" where
  "allFields i [] sets = []"
| "allFields i (flags # fs) [] = flagFields i flags [] @ allFields (Suc i) fs []"
| "allFields i (flags # fs) (s # sets) = flagFields i flags s @ allFields (Suc i) fs sets"

type_synonym props = "(bytes \<times> string) list \<Rightarrow> obj \<Rightarrow> (dstate, obj) fprog"

definition decodeExternal :: "props \<Rightarrow> obj \<Rightarrow> bytes list list \<Rightarrow> (dstate, obj) fprog" where
  "decodeExternal props obj fieldSets =
     fbind (flift (pwrap ''unable to read flags'' readFlags)) (\<lambda>flagSet. props (allFields 0 flagSet fieldSets) obj)"

definition decodeAbstractMessage :: "props \<Rightarrow> (dstate, obj) fprog" where
  "decodeAbstractMessage props =
     fwrap ''unable to decode abstract external'' (decodeExternal props []
       [map chars [''body'', ''clientId'', ''destination'', ''headers'', ''messageId'', ''timeStamp'', ''timeToLive''],
        map chars [''clientIdBytes'', ''messageIdBytes'']])"

definition decodeAsyncMessage :: "props \<Rightarrow> (dstate, obj) fprog" where
  "decodeAsyncMessage props =
     fbind (fwrap ''unable to decode abstract for async'' (decodeAbstractMessage props)) (\<lambda>obj.
     fwrap ''unable to decode async external''
       (decodeExternal props obj [map chars [''correlationId'', ''correlationIdBytes'']]))"

definition decodeAcknowledgeMessage :: "props \<Rightarrow> (dstate, obj) fprog" where
  "decodeAcknowledgeMessage props =
     fbind (fwrap ''unable to decode async for ack'' (decodeAsyncMessage props)) (\<lambda>obj.
     fwrap ''unable to decode ack external'' (decodeExternal props obj []))"

definition decodeArrayCollection :: "(dstate, val) fprog \<Rightarrow> (dstate, val) fprog" where
  "decodeArrayCollection dec = fwrap ''cannot decode child of array collection'' dec"

definition readExternal :: "(dstate, val) fprog \<Rightarrow> props \<Rightarrow> bytes \<Rightarrow> (dstate, val) fprog" where
  "readExternal dec props typ =
     (if typ = chars ''DSA'' then
        fbind (fwrap ''amf3 decode: unable to decode dsa'' (decodeAsyncMessage props)) (\<lambda>o'. fret (VObject o'))
      else if typ = chars ''DSK'' then
        fbind (fwrap ''amf3 decode: unable to decode dsk'' (decodeAcknowledgeMessage props)) (\<lambda>o'. fret (VObject o'))
      else if typ = chars ''flex.messaging.io.ArrayCollection'' then
        fbind (fwrap ''amf3 decode: unable to decode ac'' (decodeArrayCollection dec)) (\<lambda>v.
        fbind (flift (addObjectRef v)) (\<lambda>_. fret v))
      else ferr ''amf3 decode: unable to decode external type, no handler'')"

definition DecodeAmf3Object ::
  "(dstate, val) fprog \<Rightarrow> props \<Rightarrow> (obj \<Rightarrow> (dstate, obj) fprog) \<Rightarrow> bool \<Rightarrow> (dstate, val) fprog" where
  "DecodeAmf3Object dec props dyn decodeMarker =
     fbind (flift (AssertMarker decodeMarker AMF3_OBJECT_MARKER)) (\<lambda>_.
     fbind (flift (pwrap ''amf3 decode: unable to decode object reference and length'' decodeReferenceInt)) (\<lambda>(isRef, refVal).
     if isRef then flift (objectRef (drop_bit 1 refVal))
     else
       fbind (flift (readTrait refVal)) (\<lambda>trait.
       fbind (flift (addObjectRef VNil)) (\<lambda>_.
       if Externalizable trait then readExternal dec props (TType trait)
       else
         fbind (props (map (\<lambda>k. (k, ''amf3 decode: unable to decode object property'')) (Properties trait)) []) (\<lambda>obj.
         if Dynamic trait then fbind (dyn obj) (\<lambda>obj'. fret (VObject obj'))
         else fret (VObject obj))))))"

definition amf3Router ::
  "(dstate, val) fprog \<Rightarrow> (nat \<Rightarrow> (dstate, val list) fprog) \<Rightarrow> props \<Rightarrow> (obj \<Rightarrow> (dstate, obj) fprog) \<Rightarrow> (dstate, val) fprog" where
  "amf3Router dec elems props dyn =
     fbind (flift ReadMarker) (\<lambda>marker.
       if marker = AMF3_UNDEFINED_MARKER then flift (DecodeAmf3Undefined False)
       else if marker = AMF3_NULL_MARKER then flift (DecodeAmf3Null False)
       else if marker = AMF3_FALSE_MARKER then flift (DecodeAmf3False False)
       else if marker = AMF3_TRUE_MARKER then flift (DecodeAmf3True False)
       else if marker = AMF3_INTEGER_MARKER then flift (DecodeAmf3Integer False)
       else if marker = AMF3_DOUBLE_MARKER then flift (DecodeAmf3Double False)
       else if marker = AMF3_STRING_MARKER then flift (pbind (DecodeAmf3String False) (\<lambda>s. preturn (VStr s)))
       else if marker = AMF3_XMLDOC_MARKER then flift (DecodeAmf3Xml False)
       else if marker = AMF3_DATE_MARKER then flift (DecodeAmf3Date False)
       else if marker = AMF3_ARRAY_MARKER then DecodeAmf3Array elems False
       else if marker = AMF3_OBJECT_MARKER then DecodeAmf3Object dec props dyn False
       else if marker = AMF3_XMLSTRING_MARKER then flift (DecodeAmf3Xml False)
       else if marker = AMF3_BYTEARRAY_MARKER then flift (DecodeAmf3ByteArray False)
       else ferr ''decode amf3: unsupported type'')"

fun DecodeAmf3 :: "nat \<Rightarrow> (dstate, val) fprog"
  and DecodeAmf3_elems :: "nat \<Rightarrow> nat \<Rightarrow> val list \<Rightarrow> (dstate, val list) fprog"
  and DecodeAmf3_props :: "nat \<Rightarrow> (bytes \<times> string) list \<Rightarrow> obj \<Rightarrow> (dstate, obj) fprog"
  and DecodeAmf3_dyn :: "nat \<Rightarrow> obj \<Rightarrow> (dstate, obj) fprog"
where
  "DecodeAmf3 0 = fempty"
| "DecodeAmf3 (Suc f) =
     amf3Router (DecodeAmf3 f) (\<lambda>n. DecodeAmf3_elems f n []) (DecodeAmf3_props f) (DecodeAmf3_dyn f)"
| "DecodeAmf3_elems 0 n result = fempty"
| "DecodeAmf3_elems (Suc f) n result =
     (if n = 0 then fret result
      else fbind (fwrap ''amf3 decode: array element could not be decoded'' (DecodeAmf3 f)) (\<lambda>tmp.
        DecodeAmf3_elems f (n - 1) (result @ [tmp])))"
| "DecodeAmf3_props 0 ks obj = fempty"
| "DecodeAmf3_props (Suc f) ks obj =
     (case ks of [] \<Rightarrow> fret obj
      | (key, t) # ks' \<Rightarrow> fbind (fwrap t (DecodeAmf3 f)) (\<lambda>v. DecodeAmf3_props f ks' (put_key key v obj)))"
| "DecodeAmf3_dyn 0 obj = fempty"
| "DecodeAmf3_dyn (Suc f) obj =
     fbind (flift (pwrap ''amf3 decode: unable to decode dynamic key'' (DecodeAmf3String False))) (\<lambda>key.
       if key = [] then fret obj
       else fbind (fwrap ''amf3 decode: unable to decode dynamic value'' (DecodeAmf3 f)) (\<lambda>v.
         DecodeAmf3_dyn f (put_key key v obj)))"

declare DecodeAmf3.simps [simp del] DecodeAmf3_elems.simps [simp del]
  DecodeAmf3_props.simps [simp del] DecodeAmf3_dyn.simps [simp del]

section \<open>The AMF3 decoder returns\<close>

lemma pcons_decodeU29 [cons_intros]: "pcons s 1 decodeU29"
proof -
  have "pcons s 1 (decodeU29_loop i r)" for i r
  proof (induction i arbitrary: r)
    case 0
    then show ?case unfolding decodeU29_loop.simps by (intro pcons_bind pcons_ReadByte pcons_return)
  next
    case (Suc i)
    then show ?case unfolding decodeU29_loop.simps Let_def
      by (intro pcons_bind pcons_ReadByte pcons_if pcons_return pcons_mono [OF Suc]) simp
  qed
  then show ?thesis by (simp add: decodeU29_def)
qed

lemma pcons_decodeReferenceInt [cons_intros]: "pcons s 1 decodeReferenceInt"
  unfolding decodeReferenceInt_def by (intro cons_intros)

lemma pcons_refs [cons_intros]:
  "pcons False 0 (stringRef i)" "pcons False 0 (objectRef i)" "pcons s 0 (addStringRef x)" "pcons s 0 (addObjectRef v)"
  by (simp_all add: pcons_def forward_def stringRef_def objectRef_def addStringRef_def addObjectRef_def index_def)

lemmas weak_intros = pcons_mono [OF pcons_decodeReferenceInt, of 0] pcons_mono [OF pcons_decodeU29, of 0]
  pcons_mono [OF pcons_binary_Read, of 0] pcons_mono [OF pcons_ReadByte, of 0] pcons_mono [OF pcons_ReadMarker, of 0]
  pcons_mono [OF pcons_ReadBytes, of 0]

lemma pcons_xmlMarker [cons_intros]: "pcons s 0 xmlMarker"
  unfolding xmlMarker_def by (intro cons_intros weak_intros; simp)

lemma pcons_amf3_scalars:
  "pcons False 0 (DecodeAmf3Undefined b)" "pcons False 0 (DecodeAmf3Null b)" "pcons False 0 (DecodeAmf3False b)"
  "pcons False 0 (DecodeAmf3True b)" "pcons False 0 (DecodeAmf3Integer b)" "pcons False 0 (DecodeAmf3Double b)"
  "pcons False 0 (DecodeAmf3Date b)" "pcons False 0 (DecodeAmf3Xml b)" "pcons False 0 (DecodeAmf3ByteArray b)"
  unfolding DecodeAmf3Undefined_def DecodeAmf3Null_def DecodeAmf3False_def DecodeAmf3True_def DecodeAmf3Integer_def
    DecodeAmf3Double_def DecodeAmf3Date_def DecodeAmf3Xml_def DecodeAmf3ByteArray_def Let_def
  by (intro pcons_bind pcons_AssertMarker pcons_wrap pcons_return pcons_if pcons_case_prod pcons_case_val pcons_err
      pcons_r_Read pcons_refs pcons_xmlMarker weak_intros; simp)+

lemma pcons_DecodeAmf3String: "pcons False 1 (DecodeAmf3String False)"
proof -
  have "AssertMarker False m = preturn ()" for m by (simp add: AssertMarker_def)
  moreover have "pbind (preturn ()) g = g ()" for g :: "unit \<Rightarrow> (dstate, bytes) prog" by (simp add: fun_eq_iff pbind_def)
  ultimately show ?thesis unfolding DecodeAmf3String_def
    by (simp only:) (intro pcons_bind pcons_wrap pcons_decodeReferenceInt pcons_case_prod pcons_if pcons_refs
        pcons_return pcons_r_Read)
qed

lemmas weak_String = pcons_mono [OF pcons_DecodeAmf3String, of 0, simplified]

lemma pcons_readTrait [cons_intros]: "pcons False 0 (readTrait r)"
proof -
  have "pcons False 0 (traitProps n ps)" for n ps
    by (induction n arbitrary: ps) (auto intro!: cons_intros weak_String)
  moreover have "pcons False 0 (\<lambda>d. (index (traitRefs d) i, d))" "pcons False 0 (\<lambda>d. (Ok t, d\<lparr>traitRefs := traitRefs d @ [t]\<rparr>))" for i t
    by (simp_all add: pcons_def forward_def)
  ultimately show ?thesis
    unfolding readTrait_def Let_def by (intro pcons_if pcons_bind pcons_wrap weak_String) auto
qed

lemma pcons_readFlags [cons_intros]: "pcons s 0 readFlags"
proof -
  have "suffix (snd (readFlags_loop r b)) b \<and> fst (readFlags_loop r b) \<noteq> Panic" for r b
    by (induction r b rule: readFlags_loop.induct) (auto intro: suffix_ConsI)
  then show ?thesis
    by (auto simp: pcons_def readFlags_def forward_def dest: suffix_length_le split: prod.splits)
      (metis fst_conv snd_conv suffix_length_le)+
qed

lemma consumes_external:
  assumes dec: "consumes False 0 dec n" and props: "\<And>ks obj. consumes False 0 (props ks obj) n"
  shows "consumes False 0 (readExternal dec props t) n"
proof -
  have ext: "consumes False 0 (decodeExternal props obj sets) n" for obj sets
    unfolding decodeExternal_def by (rule consumes_bind, rule consumes_lift) (auto intro!: cons_intros props)
  have wrapped: "consumes False 0 m n \<Longrightarrow> (\<And>a. consumes False 0 (g a) n) \<Longrightarrow> consumes False 0 (fbind (fwrap t m) g) n"
    for m :: "(dstate, 'a) fprog" and g :: "'a \<Rightarrow> (dstate, 'b) fprog" and t
    using consumes_bind [OF consumes_wrap] by fastforce
  have async: "consumes False 0 (decodeAsyncMessage props) n"
    unfolding decodeAsyncMessage_def decodeAbstractMessage_def by (intro wrapped consumes_wrap ext)
  show ?thesis
    unfolding readExternal_def decodeAcknowledgeMessage_def decodeArrayCollection_def
    by (intro consumes_if wrapped consumes_wrap ext async dec consumes_ret consumes_err
        consumes_bind [where k = 0, OF consumes_lift] pcons_refs)
qed

lemma consumes_amf3_fuel:
  "consumes False 1 (DecodeAmf3 f) f \<and> (\<forall>n acc. consumes False 0 (DecodeAmf3_elems f n acc) (f - 1)) \<and>
   (\<forall>ks obj. consumes False 0 (DecodeAmf3_props f ks obj) (f - 1)) \<and> (\<forall>obj. consumes False 0 (DecodeAmf3_dyn f obj) f)"
proof (induction f)
  case 0
  show ?case by (simp add: consumes_zero)
next
  case (Suc f)
  have dec: "consumes False k (DecodeAmf3 f) n" if "k \<le> 1" "n \<le> f" for k n
    using Suc consumes_mono that by blast
  have elems: "consumes False 0 (DecodeAmf3_elems f i acc) n" if "n \<le> f - 1" for i acc n
    using Suc consumes_mono that by blast
  have props: "consumes False 0 (DecodeAmf3_props f ks obj) n" if "n \<le> f - 1" for ks obj n
    using Suc consumes_mono that by blast
  have dyn: "consumes False 0 (DecodeAmf3_dyn f obj) n" if "n \<le> f" for obj n
    using Suc consumes_mono that by blast
  have array: "consumes False 0 (DecodeAmf3Array (\<lambda>n. DecodeAmf3_elems f n []) False) f"
    unfolding DecodeAmf3Array_def
    by (intro consumes_step consumes_stay consumes_if consumes_case_prod consumes_case_array consumes_err consumes_ret
        consumes_bind [where k = 0] elems pcons_AssertMarker pcons_wrap pcons_decodeReferenceInt pcons_refs
        pcons_DecodeAmf3String) simp_all
  have object: "consumes False 0 (DecodeAmf3Object (DecodeAmf3 f) (DecodeAmf3_props f) (DecodeAmf3_dyn f) False) f"
    unfolding DecodeAmf3Object_def
    by (intro consumes_step [OF pcons_wrap [OF pcons_decodeReferenceInt]] consumes_stay consumes_if consumes_case_prod
        consumes_err consumes_ret consumes_lift
        consumes_bind [where k = 0] consumes_external dec props dyn pcons_AssertMarker pcons_refs pcons_readTrait) simp_all
  have "consumes False 1 (DecodeAmf3 (Suc f)) (Suc f)"
    unfolding DecodeAmf3.simps amf3Router_def
    by (rule consumes_bind [where k = 1, OF consumes_lift [OF pcons_ReadMarker]])
      (simp only: diff_Suc_1, intro consumes_if consumes_lift array object pcons_amf3_scalars pcons_bind pcons_return
        weak_String consumes_err)
  moreover have "consumes False 0 (DecodeAmf3_elems (Suc f) n acc) f" for n acc
    unfolding DecodeAmf3_elems.simps
    by (intro consumes_if consumes_ret consumes_mono [OF consumes_bind [where k = 1 and n = f, OF consumes_wrap [OF dec]]] elems) simp_all
  moreover have "consumes False 0 (DecodeAmf3_props (Suc f) ks obj) f" for ks obj
    unfolding DecodeAmf3_props.simps
    by (cases ks) (auto intro!: consumes_ret consumes_mono [OF consumes_bind [where k = 1 and n = f, OF consumes_wrap [OF dec]]] props)
  moreover have "consumes False 0 (DecodeAmf3_dyn (Suc f) obj) (Suc f)" for obj
    unfolding DecodeAmf3_dyn.simps
    by (rule consumes_step [OF pcons_wrap [OF pcons_DecodeAmf3String]])
      (auto intro!: consumes_ret consumes_bind [where k = 0, OF consumes_wrap [OF dec]] dyn)
  ultimately show ?case by simp
qed

lemma consumes_DecodeAmf3: "n \<le> f \<Longrightarrow> k \<le> 1 \<Longrightarrow> consumes False k (DecodeAmf3 f) n"
  using consumes_amf3_fuel [of f] consumes_mono by blast

section \<open>Encoded numbers and strings\<close>

lemma runElems_bytes:
  assumes "\<And>v w. v \<in> set vs \<Longrightarrow> enc v w = (Ok (length (b v)), w @ b v)"
  shows "runElems t (map enc vs) n w = (Ok (n + length (concat (map b vs))), w @ concat (map b vs))"
  using assms
proof (induction vs arbitrary: n w)
  case (Cons v vs)
  have "enc v w = (Ok (length (b v)), w @ b v)" using Cons.prems by simp
  moreover have "runElems t (map enc vs) n w = (Ok (n + length (concat (map b vs))), w @ concat (map b vs))" for n w
    using Cons by simp
  ultimately show ?case by (simp add: pbind_def pwrap_def)
qed simp


definition u29_bytes :: "u32 \<Rightarrow> bytes" where
  "u29_bytes v =
     (if v \<le> 0x7F then [ucast v]
      else if v \<le> 0x3FFF then [ucast (drop_bit 7 v OR 0x80), ucast (v AND 0x7F)]
      else if v \<le> 0x1FFFFF then [ucast (drop_bit 14 v OR 0x80), ucast (drop_bit 7 v AND 0x7F OR 0x80), ucast (v AND 0x7F)]
      else [ucast (drop_bit 22 v OR 0x80), ucast (drop_bit 15 v AND 0x7F OR 0x80),
            ucast (drop_bit 8 v AND 0x7F OR 0x80), ucast v])"

lemma encodeAmf3Uint29_bytes:
  "v \<le> 0x1FFFFFFF \<Longrightarrow> encodeAmf3Uint29 v w = (Ok (length (u29_bytes v)), w @ u29_bytes v)"
  by (auto simp: encodeAmf3Uint29_def u29_bytes_def WriteByte_def pbind_def)

lemma u29_bytes_nonempty [simp]: "u29_bytes v \<noteq> []"
  by (simp add: u29_bytes_def)

lemma word_le_mask: "v \<le> of_nat (2 ^ k - 1) \<Longrightarrow> k < 32 \<Longrightarrow> take_bit k v = v" for v :: u32
proof -
  assume "v \<le> of_nat (2 ^ k - 1)" "k < 32"
  moreover have "unat (of_nat (2 ^ k - 1) :: u32) = 2 ^ k - 1"
  proof -
    have "(2 :: nat) ^ k \<le> 2 ^ 31" using \<open>k < 32\<close> by (intro power_increasing) simp_all
    then show ?thesis by (simp add: unsigned_of_nat take_bit_nat_eq_self del: of_nat_diff)
  qed
  ultimately have "unat v < 2 ^ k" by (simp add: word_le_nat_alt le_diff_conv2 Suc_le_lessD del: of_nat_diff)
  then show ?thesis by (rule take_bit_fits)
qed

lemma bit_7f: "bit (0x7F :: 'a::len word) n \<longleftrightarrow> n < 7 \<and> n < LENGTH('a)"
proof -
  have "(0x7F :: 'a word) = mask 7" by (simp add: mask_eq_exp_minus_1)
  then show ?thesis by (simp only: bit_mask_iff possible_bit_word) auto
qed

lemma bit_80: "bit (0x80 :: 'a::len word) n \<longleftrightarrow> n = 7 \<and> n < LENGTH('a)"
proof -
  have "(0x80 :: 'a word) = push_bit 7 1" by (simp add: push_bit_eq_mult)
  then show ?thesis by (simp only: bit_push_bit_iff bit_1_iff) (auto simp: possible_bit_def)
qed

lemma bit_masks_int: "bit (0x7F :: int) n \<longleftrightarrow> n < 7" "bit (0x80 :: int) n \<longleftrightarrow> n = 7"
proof -
  have "(0x7F :: int) = mask 7" "(0x80 :: int) = push_bit 7 1" by (simp_all add: mask_eq_exp_minus_1 push_bit_eq_mult)
  then show "bit (0x7F :: int) n \<longleftrightarrow> n < 7" "bit (0x80 :: int) n \<longleftrightarrow> n = 7"
    by (simp_all only: bit_mask_iff bit_push_bit_iff bit_1_iff possible_bit_int) auto
qed

lemma add_low7: "push_bit 7 r + ucast (b AND 0x7F) = push_bit 7 r OR ucast (b AND 0x7F)" for r :: u32 and b :: u8
  by (rule disjunctive_add_eq_or, rule bit_word_eqI) (auto simp: bit_simps bit_masks_int)

lemma low7_marks: "(ucast (x OR 0x80) :: u8) AND 0x80 \<noteq> 0" "(ucast (x AND 0x7F) :: u8) AND 0x80 = 0" for x :: u32
proof -
  have "bit ((ucast (x OR 0x80) :: u8) AND 0x80) 7" by (simp add: bit_simps bit_80)
  then show "(ucast (x OR 0x80) :: u8) AND 0x80 \<noteq> 0" by (metis bit_0_eq bot_apply bot_bool_def)
  show "(ucast (x AND 0x7F) :: u8) AND 0x80 = 0" by (rule bit_word_eqI) (auto simp: bit_simps bit_masks_int)
qed

lemma ReadByte_Cons [simp]: "rd d = m # bs \<Longrightarrow> ReadByte d = (Ok m, d\<lparr>rd := bs\<rparr>)"
  using ReadMarker_Cons by (simp add: ReadMarker_def)

lemma bit_le: "take_bit k v = v \<Longrightarrow> bit v n \<Longrightarrow> n < k" for v :: "'a::len word"
  by (metis bit_take_bit_iff)

lemmas seven_simps = bit_or_iff bit_and_iff bit_push_bit_iff bit_drop_bit_eq bit_ucast_iff o_def bit_7f bit_80

lemma join_2:
  assumes "take_bit 14 v = v"
  shows "push_bit 7 (ucast ((ucast (drop_bit 7 v OR 0x80) :: u8) AND 0x7F)) OR ucast ((ucast (v AND 0x7F) :: u8) AND 0x7F) = (v :: u32)"
proof (rule bit_word_eqI)
  fix n
  assume "n < LENGTH(32)"
  consider "n < 7" | "7 \<le> n" "n < 14" | "14 \<le> n" "\<not> bit v n" using bit_le [OF assms, of n] by linarith
  then show "bit (push_bit 7 (ucast ((ucast (drop_bit 7 v OR 0x80) :: u8) AND 0x7F)) OR ucast ((ucast (v AND 0x7F) :: u8) AND 0x7F) :: u32) n = bit v n"
    using \<open>n < LENGTH(32)\<close> unfolding seven_simps by cases (auto simp: less_diff_conv2 le_imp_diff_is_add)
qed

lemma join_3:
  assumes "take_bit 21 v = v"
  shows "push_bit 7 (push_bit 7 (ucast ((ucast (drop_bit 14 v OR 0x80) :: u8) AND 0x7F)) OR
      ucast ((ucast (drop_bit 7 v AND 0x7F OR 0x80) :: u8) AND 0x7F)) OR ucast ((ucast (v AND 0x7F) :: u8) AND 0x7F) = (v :: u32)"
    (is "?l = v")
proof (rule bit_word_eqI)
  fix n
  assume "n < LENGTH(32)"
  consider "n < 7" | "7 \<le> n" "n < 14" | "14 \<le> n" "n < 21" | "21 \<le> n" "\<not> bit v n" using bit_le [OF assms, of n] by linarith
  then show "bit ?l n = bit v n"
    using \<open>n < LENGTH(32)\<close> unfolding seven_simps by cases (auto simp: less_diff_conv2 Nat.le_diff_conv2 le_imp_diff_is_add)
qed

lemma join_4:
  assumes "take_bit 29 v = v"
  shows "push_bit 8 (push_bit 7 (push_bit 7 (ucast ((ucast (drop_bit 22 v OR 0x80) :: u8) AND 0x7F)) OR
      ucast ((ucast (drop_bit 15 v AND 0x7F OR 0x80) :: u8) AND 0x7F)) OR
      ucast ((ucast (drop_bit 8 v AND 0x7F OR 0x80) :: u8) AND 0x7F)) OR ucast (ucast v :: u8) = (v :: u32)"
    (is "?l = v")
proof (rule bit_word_eqI)
  fix n
  assume "n < LENGTH(32)"
  consider "n < 8" | "8 \<le> n" "n < 15" | "15 \<le> n" "n < 22" | "22 \<le> n" "n < 29" | "29 \<le> n" "\<not> bit v n"
    using bit_le [OF assms, of n] by linarith
  then show "bit ?l n = bit v n"
    using \<open>n < LENGTH(32)\<close> unfolding seven_simps by cases (auto simp: less_diff_conv2 Nat.le_diff_conv2 le_imp_diff_is_add)
qed

lemma decodeU29_bytes:
  assumes "v \<le> 0x1FFFFFFF" and "rd d = u29_bytes v @ rest"
  shows "decodeU29 d = (Ok v, d\<lparr>rd := rest\<rparr>)"
proof -
  have t29: "take_bit 29 v = v" using word_le_mask [of v 29] assms(1) by simp
  consider "v \<le> 0x7F" | "\<not> v \<le> 0x7F" "v \<le> 0x3FFF" | "\<not> v \<le> 0x3FFF" "v \<le> 0x1FFFFF" | "\<not> v \<le> 0x1FFFFF"
    by blast
  then show ?thesis
  proof cases
    case 1
    then have t7: "take_bit 7 v = v" using word_le_mask [of v 7] by simp
    have "(ucast v :: u8) AND 0x80 = 0" by (rule bit_word_eqI) (auto simp: bit_simps bit_masks_int dest: bit_le [OF t7])
    moreover have "ucast ((ucast v :: u8) AND 0x7F) = v"
      by (rule bit_word_eqI) (use bit_le [OF t7] in \<open>fastforce simp: bit_simps bit_masks_int\<close>)
    ultimately show ?thesis
      using assms(2) 1 by (simp add: decodeU29_def numeral_3_eq_3 u29_bytes_def pbind_def)
  next
    case 2
    then have j: "take_bit 14 v = v" using word_le_mask [of v 14] by simp
    show ?thesis
      using assms(2) 2 low7_marks join_2 [OF j]
      by (simp add: decodeU29_def numeral_3_eq_3 u29_bytes_def pbind_def add_low7)
  next
    case 3
    then have j: "take_bit 21 v = v" using word_le_mask [of v 21] by simp
    have "(0x7F :: u32) \<le> 0x3FFF" by simp
    then have "\<not> v \<le> 0x7F" using 3(1) order.trans by blast
    then show ?thesis
      using assms(2) 3 low7_marks join_3 [OF j]
      by (simp add: decodeU29_def numeral_3_eq_3 u29_bytes_def pbind_def add_low7)
  next
    case 4
    have "(0x7F :: u32) \<le> 0x1FFFFF" "(0x3FFF :: u32) \<le> 0x1FFFFF" by simp_all
    then have "\<not> v \<le> 0x7F" "\<not> v \<le> 0x3FFF" using 4 order.trans by blast+
    then show ?thesis
      using assms(2) 4 low7_marks join_4 [OF t29]
      by (simp add: decodeU29_def numeral_3_eq_3 u29_bytes_def pbind_def add_low7 push_bit_add_ucast)
  qed
qed

section \<open>The AMF3 format\<close>

lemma unat_of_nat32: "n < 2 ^ 32 \<Longrightarrow> unat (of_nat n :: u32) = n"
  by (simp add: unsigned_of_nat take_bit_nat_eq_self)

lemma take_bit_le29: "take_bit 29 v = v \<Longrightarrow> v \<le> 0x1FFFFFFF" for v :: u32
proof -
  assume "take_bit 29 v = v"
  then have "unat v = take_bit 29 (unat v)" by (metis unsigned_take_bit_eq)
  then have "unat v < 2 ^ 29" by (metis take_bit_nat_less_exp)
  then show ?thesis by (simp add: word_le_nat_alt)
qed

lemma bit_of_nat_less: "bit (of_nat n :: u32) i \<Longrightarrow> n < 2 ^ k \<Longrightarrow> i < k"
proof -
  assume b: "bit (of_nat n :: u32) i" and n: "n < 2 ^ k"
  have "take_bit k (of_nat n :: u32) = of_nat n"
    using n by (simp add: take_bit_of_nat take_bit_nat_eq_self)
  then show ?thesis using b by (metis bit_take_bit_iff)
qed

lemma length_header:
  assumes "n < 2 ^ 28"
  defines "v \<equiv> push_bit 1 (of_nat n) OR 1 :: u32"
  shows "v \<le> 0x1FFFFFFF" and "v AND 1 \<noteq> 0" and "unat (drop_bit 1 v) = n"
proof -
  have "take_bit 29 v = v"
    unfolding v_def
    by (rule bit_word_eqI, unfold bit_take_bit_iff bit_or_iff bit_push_bit_iff bit_1_iff)
      (auto dest: bit_of_nat_less [OF _ assms(1)])
  then show "v \<le> 0x1FFFFFFF" by (rule take_bit_le29)
  have "bit (v AND 1) 0" unfolding v_def bit_and_iff bit_or_iff bit_1_iff by simp
  then show "v AND 1 \<noteq> 0" by (metis bit_0_eq bot_apply bot_bool_def)
  have "drop_bit 1 v = of_nat n"
    unfolding v_def
    by (rule bit_word_eqI, unfold bit_drop_bit_eq o_def bit_or_iff bit_push_bit_iff bit_1_iff)
      (auto dest: bit_of_nat_less [OF _ assms(1)])
  then show "unat (drop_bit 1 v) = n" using assms(1) by (simp add: unat_of_nat32)
qed

lemma trait_header:
  assumes "n < 2 ^ 25"
  defines "v \<equiv> 0x03 OR push_bit 4 (of_nat n) :: u32"
  shows "v \<le> 0x1FFFFFFF" and "v AND 1 \<noteq> 0" and "drop_bit 1 v AND 1 \<noteq> 0" and "drop_bit 1 v AND 2 = 0"
    and "drop_bit 1 v AND 4 = 0" and "unat (drop_bit 3 (drop_bit 1 v)) = n"
proof -
  have m: "bit (3 :: u32) i \<longleftrightarrow> i < 2" "bit (2 :: u32) i \<longleftrightarrow> i = 1" "bit (4 :: u32) i \<longleftrightarrow> i = 2" for i
  proof -
    have "(3 :: u32) = mask 2" "(2 :: u32) = push_bit 1 1" "(4 :: u32) = push_bit 2 1" by (simp_all add: mask_eq_exp_minus_1)
    then show "bit (3 :: u32) i \<longleftrightarrow> i < 2" "bit (2 :: u32) i \<longleftrightarrow> i = 1" "bit (4 :: u32) i \<longleftrightarrow> i = 2"
      by (simp_all only: bit_mask_iff bit_push_bit_iff bit_1_iff possible_bit_word) auto
  qed
  note b = bit_take_bit_iff bit_or_iff bit_and_iff bit_drop_bit_eq o_def bit_push_bit_iff bit_1_iff m
  have "take_bit 29 v = v"
    unfolding v_def by (rule bit_word_eqI, unfold b) (auto dest: bit_of_nat_less [OF _ assms(1)])
  then show "v \<le> 0x1FFFFFFF" by (rule take_bit_le29)
  have "bit (v AND 1) 0" "bit (drop_bit 1 v AND 1) 0" unfolding v_def b by simp_all
  then show "v AND 1 \<noteq> 0" "drop_bit 1 v AND 1 \<noteq> 0" by (metis bit_0_eq bot_apply bot_bool_def)+
  show "drop_bit 1 v AND 2 = 0" "drop_bit 1 v AND 4 = 0"
    unfolding v_def by (rule bit_word_eqI, unfold b, auto)+
  have "drop_bit 3 (drop_bit 1 v) = of_nat n"
    unfolding v_def by (rule bit_word_eqI, unfold b) (auto dest: bit_of_nat_less [OF _ assms(1)])
  then show "unat (drop_bit 3 (drop_bit 1 v)) = n" using assms(1) by (simp add: unat_of_nat32)
qed

definition len_bytes :: "nat \<Rightarrow> bytes" where
  "len_bytes n = u29_bytes (push_bit 1 (of_nat n) OR 1)"

definition utf8_bytes :: "bytes \<Rightarrow> bytes" where
  "utf8_bytes s = len_bytes (length s) @ s"

lemma encodeAmf3Utf8_bytes:
  "length s < 2 ^ 28 \<Longrightarrow> encodeAmf3Utf8 s w = (Ok (length (utf8_bytes s)), w @ utf8_bytes s)"
  using encodeAmf3Uint29_bytes [OF length_header(1), of "length s" w]
  by (simp add: encodeAmf3Utf8_def pbind_def pwrap_def utf8_bytes_def len_bytes_def)

lemma decodeReferenceInt_len:
  assumes "n < 2 ^ 28" and "rd d = len_bytes n @ rest"
  shows "\<exists>v. decodeReferenceInt d = (Ok (False, v), d\<lparr>rd := rest\<rparr>) \<and> unat v = n"
  using decodeU29_bytes [OF length_header(1) [OF assms(1)], of d rest] assms length_header(2,3) [OF assms(1)]
  by (simp add: decodeReferenceInt_def pbind_def pwrap_def len_bytes_def)

lemma r_Read_append:
  "s @ rest \<noteq> [] \<Longrightarrow> rd d = s @ rest \<Longrightarrow> r_Read (length s) d = (Ok (length s, s), d\<lparr>rd := rest\<rparr>)"
  by (auto simp: r_Read_def)

lemma DecodeAmf3String_bytes:
  assumes "length s < 2 ^ 28" and "rd d = utf8_bytes s @ rest" and "s @ rest \<noteq> []"
  shows "DecodeAmf3String False d = (Ok s, d\<lparr>rd := rest, stringRefs := stringRefs d @ (if s = [] then [] else [s])\<rparr>)"
proof -
  obtain v where v: "decodeReferenceInt d = (Ok (False, v), d\<lparr>rd := s @ rest\<rparr>)" "unat v = length s"
    using decodeReferenceInt_len [OF assms(1), of d "s @ rest"] assms(2) by (auto simp: utf8_bytes_def)
  have "r_Read (length s) (d\<lparr>rd := s @ rest\<rparr>) = (Ok (length s, s), d\<lparr>rd := rest\<rparr>)"
    using r_Read_append [of s rest "d\<lparr>rd := s @ rest\<rparr>"] assms(3) by simp
  then show ?thesis
    using v by (simp add: DecodeAmf3String_def pbind_def pwrap_def addStringRef_def)
qed

fun amf3_bytes :: "val \<Rightarrow> bytes" where
  "amf3_bytes VNil = [0x01]"
| "amf3_bytes (VStr s) = 0x06 # utf8_bytes s"
| "amf3_bytes (VBool b) = [if b then 0x03 else 0x02]"
| "amf3_bytes (VInt n) = (if n \<ge> 0 \<and> n \<le> int AMF3_INTEGER_MAX then 0x04 # u29_bytes (word_of_int n) else 0x05 # be_bytes 8 (f64_of_int n))"
| "amf3_bytes (VUint n) = (if n \<le> AMF3_INTEGER_MAX then 0x04 # u29_bytes (of_nat n) else 0x05 # be_bytes 8 (f64_of_int (int n)))"
| "amf3_bytes (VInt64 n) = 0x05 # be_bytes 8 (f64_of_int n)"
| "amf3_bytes (VUint64 n) = 0x05 # be_bytes 8 (f64_of_int (int n))"
| "amf3_bytes (VFloat x) = 0x05 # be_bytes 8 x"
| "amf3_bytes (VArray vs) = 0x09 # len_bytes (length vs) @ utf8_bytes [] @ concat (map amf3_bytes vs)"
| "amf3_bytes (VBytes bs) = 0x09 # len_bytes (length bs) @ utf8_bytes [] @ concat (map (\<lambda>b. 0x04 # u29_bytes (of_nat (unat b))) bs)"
| "amf3_bytes (VTime t) = 0x08 # 0x01 # be_bytes 8 (f64_of_int (f64_trunc (f64_of_int t) * 1000))"
| "amf3_bytes (VObject m) = (let es = sort_key fst (map (\<lambda>(k, v). (k, amf3_bytes v)) m) in
     0x0a # u29_bytes (0x03 OR push_bit 4 (of_nat (length m))) @ utf8_bytes [] @
     concat (map (\<lambda>(k, b). utf8_bytes k) es) @ concat (map snd es))"
| "amf3_bytes (VTyped t m) = (let es = sort_key fst (map (\<lambda>(k, v). (k, amf3_bytes v)) m) in
     0x0a # u29_bytes (0x03 OR push_bit 4 (of_nat (length m))) @ utf8_bytes t @
     concat (map (\<lambda>(k, b). utf8_bytes k) es) @ concat (map snd es))"
| "amf3_bytes _ = []"

text \<open>
  The values covered: every kind that the encoder takes, with lengths that fit 28 bits and no more keys than fit the trait header.
\<close>

fun amf3_ok :: "val \<Rightarrow> bool" where
  "amf3_ok (VStr s) \<longleftrightarrow> length s < 2 ^ 28"
| "amf3_ok (VBytes bs) \<longleftrightarrow> length bs < 2 ^ 28"
| "amf3_ok (VArray vs) \<longleftrightarrow> length vs < 2 ^ 28 \<and> (\<forall>v\<in>set vs. amf3_ok v)"
| "amf3_ok (VObject m) \<longleftrightarrow> length m < 2 ^ 25 \<and> distinct (map fst m) \<and> (\<forall>(k, v)\<in>set m. length k < 2 ^ 28 \<and> amf3_ok v)"
| "amf3_ok (VTyped t m) \<longleftrightarrow> length t < 2 ^ 28 \<and> length m < 2 ^ 25 \<and> distinct (map fst m) \<and> (\<forall>(k, v)\<in>set m. length k < 2 ^ 28 \<and> amf3_ok v)"
| "amf3_ok VMap \<longleftrightarrow> False"
| "amf3_ok VOther \<longleftrightarrow> False"
| "amf3_ok _ \<longleftrightarrow> True"

text \<open>
  What comes back: integers of the upper half of the 29-bit range 2^29 too small, wide and larger integers as float64, byte slices as arrays of
  integers, dates rounded to what a float64 of milliseconds holds, and objects, also typed ones, as plain objects with their keys sorted.
\<close>

definition int29 :: "int \<Rightarrow> int" where
  "int29 n = (if n < 2 ^ 28 then n else n - 2 ^ 29)"

fun amf3_norm :: "val \<Rightarrow> val" where
  "amf3_norm (VInt n) = (if n \<ge> 0 \<and> n \<le> int AMF3_INTEGER_MAX then VInt (int29 n) else VFloat (f64_of_int n))"
| "amf3_norm (VUint n) = (if n \<le> AMF3_INTEGER_MAX then VInt (int29 (int n)) else VFloat (f64_of_int (int n)))"
| "amf3_norm (VInt64 n) = VFloat (f64_of_int n)"
| "amf3_norm (VUint64 n) = VFloat (f64_of_int (int n))"
| "amf3_norm (VArray vs) = VArray (map amf3_norm vs)"
| "amf3_norm (VObject m) = VObject (sort_key fst (map (\<lambda>(k, v). (k, amf3_norm v)) m))"
| "amf3_norm (VTyped t m) = VObject (sort_key fst (map (\<lambda>(k, v). (k, amf3_norm v)) m))"
| "amf3_norm (VBytes bs) = VArray (map (\<lambda>b. VInt (uint b)) bs)"
| "amf3_norm (VTime t) = VTime (f64_div1000 (f64_of_int (f64_trunc (f64_of_int t) * 1000)))"
| "amf3_norm v = v"

text \<open>A byte slice goes as the array of its bytes.\<close>

definition byte_vals :: "bytes \<Rightarrow> val list" where
  "byte_vals bs = map (\<lambda>b. VUint (unat b)) bs"

lemma byte_vals_spec:
  "EncodeAmf3 (VBytes bs) = EncodeAmf3 (VArray (byte_vals bs))" "amf3_bytes (VBytes bs) = amf3_bytes (VArray (byte_vals bs))"
  "amf3_norm (VBytes bs) = amf3_norm (VArray (byte_vals bs))" "amf3_ok (VBytes bs) = amf3_ok (VArray (byte_vals bs))"
proof -
  have b: "unat b \<le> 536870911" "int29 (uint b) = uint b" for b :: u8
  proof -
    have n: "unat b < 2 ^ 8" and i: "uint b < 2 ^ 8" using unsigned_less [where w = b and 'a = nat] unsigned_less [where w = b and 'a = int] by simp_all
    show "unat b \<le> 536870911" using n by simp
    show "int29 (uint b) = uint b" using i by (simp add: int29_def)
  qed
  show "EncodeAmf3 (VBytes bs) = EncodeAmf3 (VArray (byte_vals bs))" by (simp add: byte_vals_def comp_def)
  show "amf3_bytes (VBytes bs) = amf3_bytes (VArray (byte_vals bs))" by (simp add: byte_vals_def comp_def b)
  show "amf3_norm (VBytes bs) = amf3_norm (VArray (byte_vals bs))" by (simp add: byte_vals_def b)
  show "amf3_ok (VBytes bs) = amf3_ok (VArray (byte_vals bs))" by (simp add: byte_vals_def)
qed

lemma insort_key_map: "insort_key f (g x) (map g xs) = map g (insort_key (\<lambda>y. f (g y)) x xs)"
  by (induction xs) simp_all

lemma sort_key_map: "sort_key f (map g xs) = map g (sort_key (\<lambda>y. f (g y)) xs)"
  by (induction xs) (simp_all add: insort_key_map)

lemma sort_entries: "sort_key fst (map (\<lambda>(k, v). (k, h v)) m) = map (\<lambda>(k, v). (k, h v)) (sort_key fst m)"
  by (simp add: sort_key_map case_prod_beta)

lemma EncodeAmf3_numbers:
  "EncodeAmf3Double x True w = (Ok (length (0x05 # be_bytes 8 x)), w @ 0x05 # be_bytes 8 x)"
  "v \<le> 0x1FFFFFFF \<Longrightarrow> EncodeAmf3Integer v True w = (Ok (length (0x04 # u29_bytes v)), w @ 0x04 # u29_bytes v)"
  by (simp_all add: EncodeAmf3Double_def EncodeAmf3Integer_def pbind_def encodeAmf3Uint29_bytes)

lemma word_of_int_le29: "0 \<le> n \<Longrightarrow> n \<le> 536870911 \<Longrightarrow> word_of_int n \<le> (0x1FFFFFFF :: u32)"
proof -
  assume "0 \<le> n" "n \<le> 536870911"
  then have "uint (word_of_int n :: u32) = n" by (simp add: uint_word_of_int_eq take_bit_int_eq_self)
  then show ?thesis using \<open>n \<le> 536870911\<close> by (simp add: word_le_def)
qed

lemma EncodeAmf3_array_bytes:
  assumes "length vs < 2 ^ 28" and "\<And>v w. v \<in> set vs \<Longrightarrow> EncodeAmf3 v w = (Ok (length (amf3_bytes v)), w @ amf3_bytes v)"
  shows "EncodeAmf3 (VArray vs) w = (Ok (length (amf3_bytes (VArray vs))), w @ amf3_bytes (VArray vs))"
proof -
  have "runElems t (map EncodeAmf3 vs) n w = (Ok (n + length (concat (map amf3_bytes vs))), w @ concat (map amf3_bytes vs))" for t n w
    using assms(2) by (intro runElems_bytes) auto
  moreover have "encodeAmf3Uint29 (push_bit 1 (of_nat (length vs)) OR 1) w = (Ok (length (len_bytes (length vs))), w @ len_bytes (length vs))" for w
    using assms(1) length_header(1) [of "length vs"] encodeAmf3Uint29_bytes by (simp add: len_bytes_def)
  ultimately show ?thesis
    using encodeAmf3Utf8_bytes [of "[]"] by (simp add: EncodeAmf3Array_def pbind_def pwrap_def)
qed

text \<open>The bytes of an object of type \<open>t\<close>; plain objects have the empty type.\<close>

definition object_bytes :: "bytes \<Rightarrow> (bytes \<times> val) list \<Rightarrow> bytes" where
  "object_bytes t m = (let es = sort_key fst m in
     0x0a # u29_bytes (0x03 OR push_bit 4 (of_nat (length m))) @ utf8_bytes t @
     concat (map utf8_bytes (map fst es)) @ concat (map (\<lambda>e. amf3_bytes (snd e)) es))"

lemma object_bytes_spec: "amf3_bytes (VObject m) = object_bytes [] m" "amf3_bytes (VTyped t m) = object_bytes t m"
  by (simp_all add: object_bytes_def sort_entries Let_def case_prod_beta comp_def)

lemma EncodeAmf3_object_bytes:
  assumes "length t < 2 ^ 28" and "length m < 2 ^ 25" and "\<forall>(k, v)\<in>set m. length k < 2 ^ 28"
    and "\<And>k v w. (k, v) \<in> set m \<Longrightarrow> EncodeAmf3 v w = (Ok (length (amf3_bytes v)), w @ amf3_bytes v)"
  shows "EncodeAmf3Object t (map (\<lambda>(k, v). (k, EncodeAmf3 v)) m) True w = (Ok (length (object_bytes t m)), w @ object_bytes t m)"
proof -
  let ?s = "sort_key fst m"
  have ih: "EncodeAmf3 (snd e) w = (Ok (length (amf3_bytes (snd e))), w @ amf3_bytes (snd e))" if "e \<in> set ?s" for e w
    using assms(4) [of "fst e" "snd e"] that by simp
  have vals: "runElems t (map (\<lambda>e. EncodeAmf3 (snd e)) ?s) n w =
      (Ok (n + length (concat (map (\<lambda>e. amf3_bytes (snd e)) ?s))), w @ concat (map (\<lambda>e. amf3_bytes (snd e)) ?s))" for t n w
    by (rule runElems_bytes) (rule ih)
  have keys: "runElems t (map (\<lambda>e. encodeAmf3Utf8 (fst e)) ?s) n w =
      (Ok (n + length (concat (map (\<lambda>e. utf8_bytes (fst e)) ?s))), w @ concat (map (\<lambda>e. utf8_bytes (fst e)) ?s))" for t n w
    using assms(3) by (intro runElems_bytes encodeAmf3Utf8_bytes) auto
  have hdr: "encodeAmf3Uint29 (0x03 OR push_bit 4 (of_nat (length m))) w =
      (Ok (length (u29_bytes (0x03 OR push_bit 4 (of_nat (length m))))), w @ u29_bytes (0x03 OR push_bit 4 (of_nat (length m))))" for w
    using assms(2) by (intro encodeAmf3Uint29_bytes trait_header(1)) simp
  show ?thesis
    using encodeAmf3Utf8_bytes [OF assms(1)] vals keys hdr
    by (simp add: EncodeAmf3Object_static sort_entries pbind_def pwrap_def Let_def case_prod_beta comp_def object_bytes_def)
qed

lemma EncodeAmf3_uint_bytes: "EncodeAmf3 (VUint n) w = (Ok (length (amf3_bytes (VUint n))), w @ amf3_bytes (VUint n))"
proof -
  have "word_of_int (int n) = (of_nat n :: u32)" by simp
  then show ?thesis using word_of_int_le29 [of "int n"] by (simp add: EncodeAmf3Uint_def EncodeAmf3_numbers)
qed

lemma EncodeAmf3_bytes: "amf3_ok v \<Longrightarrow> EncodeAmf3 v w = (Ok (length (amf3_bytes v)), w @ amf3_bytes v)"
proof (induction v arbitrary: w rule: amf3_norm.induct [case_names Int Uint Int64 Uint64 Array Object Typed Bytes Time Nil])
  case (Int n)
  then show ?case using word_of_int_le29 [of n] by (simp add: EncodeAmf3_numbers)
next
  case (Uint n)
  show ?case by (rule EncodeAmf3_uint_bytes)
next
  case (Array vs)
  then show ?case by (intro EncodeAmf3_array_bytes) auto
next
  case (Bytes bs)
  then show ?case unfolding byte_vals_spec(1,2)
    by (intro EncodeAmf3_array_bytes) (use EncodeAmf3_uint_bytes in \<open>auto simp: byte_vals_def simp del: EncodeAmf3.simps amf3_bytes.simps\<close>)
next
  case (Object m)
  have "EncodeAmf3Object [] (map (\<lambda>(k, v). (k, EncodeAmf3 v)) m) True w = (Ok (length (object_bytes [] m)), w @ object_bytes [] m)"
    by (rule EncodeAmf3_object_bytes) (use Object in fastforce)+
  then show ?case unfolding object_bytes_spec(1) by simp
next
  case (Typed t m)
  have "EncodeAmf3Object t (map (\<lambda>(k, v). (k, EncodeAmf3 v)) m) True w = (Ok (length (object_bytes t m)), w @ object_bytes t m)"
    by (rule EncodeAmf3_object_bytes) (use Typed in fastforce)+
  then show ?case unfolding object_bytes_spec(2) by simp
qed (simp_all add: EncodeAmf3_numbers EncodeAmf3String_def encodeAmf3Utf8_bytes EncodeAmf3Null_def EncodeAmf3True_def
    EncodeAmf3False_def EncodeAmf3Date_def pbind_def)

section \<open>The AMF3 round trip\<close>

definition decodes3 :: "val \<Rightarrow> bool" where
  "decodes3 v \<longleftrightarrow> (\<forall>f d rest. length (rd d) < f \<longrightarrow> rd d = amf3_bytes v @ rest \<longrightarrow> rest \<noteq> [] \<longrightarrow>
     (\<exists>d'. DecodeAmf3 f d = Some (Ok (amf3_norm v), d') \<and> rd d' = rest))"

lemma decodes3D:
  assumes "decodes3 v" and "length (rd d) < f" and "rd d = amf3_bytes v @ rest" and "rest \<noteq> []"
  obtains d' where "DecodeAmf3 f d = Some (Ok (amf3_norm v), d')" and "rd d' = rest"
  using assms unfolding decodes3_def by blast

lemma amf3_bytes_nonempty: "amf3_ok v \<Longrightarrow> amf3_bytes v \<noteq> []"
  by (cases v) (simp_all add: Let_def)

lemma DecodeAmf3Date_bytes:
  assumes "rd d = 0x01 # be_bytes 8 x @ rest"
  shows "\<exists>d'. DecodeAmf3Date False d = (Ok (VTime (f64_div1000 x)), d') \<and> rd d' = rest"
proof -
  have "decodeU29 d = (Ok 1, d\<lparr>rd := be_bytes 8 x @ rest\<rparr>)" using assms by (simp add: decodeU29_def numeral_3_eq_3 pbind_def preturn_def Let_def)
  then have "decodeReferenceInt d = (Ok (False, 0), d\<lparr>rd := be_bytes 8 x @ rest\<rparr>)" by (simp add: decodeReferenceInt_def pbind_def pwrap_def preturn_def)
  then show ?thesis
    using binary_Read_append [of "be_bytes 8 x" 8 "d\<lparr>rd := be_bytes 8 x @ rest\<rparr>" rest]
    by (simp add: DecodeAmf3Date_def pbind_def pwrap_def be_word_be_bytes addObjectRef_def Let_def)
qed

definition amf3Switch :: "nat \<Rightarrow> u8 \<Rightarrow> (dstate, val) fprog" where
  "amf3Switch g m d = DecodeAmf3 (Suc g) (d\<lparr>rd := m # rd d\<rparr>)"

lemma decodes3I:
  assumes "amf3_bytes v = m # b"
    and "\<And>g d rest. length b + length rest < g \<Longrightarrow> rd d = b @ rest \<Longrightarrow> rest \<noteq> [] \<Longrightarrow>
      \<exists>d'. amf3Switch g m d = Some (Ok (amf3_norm v), d') \<and> rd d' = rest"
  shows "decodes3 v"
  unfolding decodes3_def
proof (intro allI impI)
  fix f and d :: dstate and rest
  assume f: "length (rd d) < f" and d: "rd d = amf3_bytes v @ rest" and r: "rest \<noteq> []"
  obtain g where g: "f = Suc g" using f by (cases f) simp_all
  have same: "d\<lparr>rd := m # b @ rest\<rparr> = d" using d assms(1) by (cases d) simp
  have "length b + length rest < g" using f d g assms(1) by simp
  from assms(2) [OF this, of "d\<lparr>rd := b @ rest\<rparr>"]
  show "\<exists>d'. DecodeAmf3 f d = Some (Ok (amf3_norm v), d') \<and> rd d' = rest"
    using r g same by (simp add: amf3Switch_def)
qed

lemma amf3Switch_simps:
  "amf3Switch g 0x01 = flift (DecodeAmf3Null False)"
  "amf3Switch g 0x02 = flift (DecodeAmf3False False)"
  "amf3Switch g 0x03 = flift (DecodeAmf3True False)"
  "amf3Switch g 0x04 = flift (DecodeAmf3Integer False)"
  "amf3Switch g 0x05 = flift (DecodeAmf3Double False)"
  "amf3Switch g 0x08 = flift (DecodeAmf3Date False)"
  "amf3Switch g 0x06 = flift (pbind (DecodeAmf3String False) (\<lambda>s. preturn (VStr s)))"
  "amf3Switch g 0x09 = DecodeAmf3Array (\<lambda>n. DecodeAmf3_elems g n []) False"
  "amf3Switch g 0x0a = DecodeAmf3Object (DecodeAmf3 g) (DecodeAmf3_props g) (DecodeAmf3_dyn g) False"
  by (simp_all add: fun_eq_iff amf3Switch_def DecodeAmf3.simps amf3Router_def fbind_def)

lemma DecodeAmf3Double_bytes:
  "rd d = be_bytes 8 x @ rest \<Longrightarrow> DecodeAmf3Double False d = (Ok (VFloat x), d\<lparr>rd := rest\<rparr>)"
  using binary_Read_append [of "be_bytes 8 x" 8 d rest]
  by (simp add: DecodeAmf3Double_def pbind_def pwrap_def be_word_be_bytes)

text \<open>The integer a peer reads: the upper half of the 29-bit range is taken as negative.\<close>

lemma DecodeAmf3Integer_bytes:
  assumes "0 \<le> n" and "n \<le> 536870911" and "rd d = u29_bytes (word_of_int n) @ rest"
  shows "DecodeAmf3Integer False d = (Ok (VInt (if n < 2 ^ 28 then n else n - 2 ^ 29)), d\<lparr>rd := rest\<rparr>)"
proof -
  have s: "sint (word_of_int k :: u32) = k" if "- (2 ^ 31) \<le> k" "k < 2 ^ 31" for k
    using that by (simp add: signed_of_int signed_take_bit_int_eq_self)
  have "word_of_int n - (0x20000000 :: u32) = word_of_int (n - 2 ^ 29)" by simp
  then have "sint (word_of_int n - (0x20000000 :: u32)) = n - 2 ^ 29"
    using s [of "n - 2 ^ 29"] assms(1,2) by (simp only:) simp
  then show ?thesis
    using decodeU29_bytes [OF word_of_int_le29 [OF assms(1,2)] assms(3)] s [of n] assms(1,2)
    by (simp add: DecodeAmf3Integer_def pbind_def)
qed

lemma DecodeAmf3_elems_bytes:
  assumes "\<forall>v\<in>set vs. amf3_ok v \<and> decodes3 v" and "length (rd d) + 1 < f"
    and "rd d = concat (map amf3_bytes vs) @ rest" and "rest \<noteq> []"
  shows "\<exists>d'. DecodeAmf3_elems f (length vs) acc d = Some (Ok (acc @ map amf3_norm vs), d') \<and> rd d' = rest"
  using assms
proof (induction vs arbitrary: f d acc)
  case Nil
  then show ?case by (cases f) (auto simp: DecodeAmf3_elems.simps)
next
  case (Cons v vs)
  obtain g where f: "f = Suc g" using Cons.prems(2) by (cases f) simp_all
  let ?r = "concat (map amf3_bytes vs) @ rest"
  obtain d1 where d1: "DecodeAmf3 g d = Some (Ok (amf3_norm v), d1)" "rd d1 = ?r"
    using decodes3D [of v d g ?r] Cons.prems f by auto
  obtain x xs where "amf3_bytes v = x # xs" using Cons.prems(1) amf3_bytes_nonempty [of v] by (cases "amf3_bytes v") auto
  then have "length (rd d1) + 1 < g" using Cons.prems(2,3) f d1(2) by simp
  then obtain d2 where "DecodeAmf3_elems g (length vs) (acc @ [amf3_norm v]) d1 =
      Some (Ok ((acc @ [amf3_norm v]) @ map amf3_norm vs), d2)" "rd d2 = rest"
    using Cons.IH [of d1 g "acc @ [amf3_norm v]"] Cons.prems(1,4) d1(2) by auto
  then show ?case using d1 by (simp add: f DecodeAmf3_elems.simps fbind_def fwrap_def)
qed

lemma DecodeAmf3_props_bytes:
  assumes "\<forall>(k, v)\<in>set m. amf3_ok v \<and> decodes3 v" and "length (rd d) + 1 < f"
    and "rd d = concat (map (\<lambda>e. amf3_bytes (snd e)) m) @ rest" and "rest \<noteq> []" and "distinct (map fst (acc @ m))"
  shows "\<exists>d'. DecodeAmf3_props f (map (\<lambda>e. (fst e, t)) m) acc d =
    Some (Ok (acc @ map (\<lambda>(k, v). (k, amf3_norm v)) m), d') \<and> rd d' = rest"
  using assms
proof (induction m arbitrary: f d acc)
  case Nil
  then show ?case by (cases f) (auto simp: DecodeAmf3_props.simps)
next
  case (Cons e m)
  obtain k v where e: "e = (k, v)" by force
  obtain g where f: "f = Suc g" using Cons.prems(2) by (cases f) simp_all
  let ?r = "concat (map (\<lambda>e. amf3_bytes (snd e)) m) @ rest"
  obtain d1 where d1: "DecodeAmf3 g d = Some (Ok (amf3_norm v), d1)" "rd d1 = ?r"
    using decodes3D [of v d g ?r] Cons.prems f e by auto
  obtain x xs where "amf3_bytes v = x # xs" using Cons.prems(1) e amf3_bytes_nonempty [of v] by (cases "amf3_bytes v") auto
  then have l: "length (rd d1) + 1 < g" using Cons.prems(2,3) f d1(2) e by simp
  let ?acc = "acc @ [(k, amf3_norm v)]"
  have put: "put_key k (amf3_norm v) acc = ?acc" using Cons.prems(5) e by (intro put_key_fresh) auto
  obtain d2 where "DecodeAmf3_props g (map (\<lambda>e. (fst e, t)) m) ?acc d1 =
      Some (Ok (?acc @ map (\<lambda>(k, v). (k, amf3_norm v)) m), d2)" "rd d2 = rest"
    using Cons.IH [of d1 g ?acc] Cons.prems(1,4,5) d1(2) l e by auto
  then show ?case using d1 put by (simp add: f e DecodeAmf3_props.simps fbind_def fwrap_def)
qed

lemma traitProps_bytes:
  assumes "\<forall>k\<in>set ks. length k < 2 ^ 28" and "rd d = concat (map utf8_bytes ks) @ rest" and "rest \<noteq> []"
  shows "\<exists>d'. traitProps (length ks) ps d = (Ok (ps @ ks), d') \<and> rd d' = rest"
  using assms
proof (induction ks arbitrary: d ps)
  case (Cons k ks)
  let ?d = "d\<lparr>rd := concat (map utf8_bytes ks) @ rest, stringRefs := stringRefs d @ (if k = [] then [] else [k])\<rparr>"
  have "DecodeAmf3String False d = (Ok k, ?d)"
    using Cons.prems by (intro DecodeAmf3String_bytes) simp_all
  then show ?case using Cons.IH [of ?d "ps @ [k]"] Cons.prems by (simp add: pbind_def pwrap_def)
qed simp

lemma decodes3_number:
  assumes "amf3_bytes v = 0x05 # be_bytes 8 x" and "amf3_norm v = VFloat x"
  shows "decodes3 v"
  by (rule decodes3I [OF assms(1)]) (simp add: assms(2) amf3Switch_simps DecodeAmf3Double_bytes)

lemma decodes3_integer:
  assumes "amf3_bytes v = 0x04 # u29_bytes (word_of_int n)" and "amf3_norm v = VInt (int29 n)" and "0 \<le> n" and "n \<le> 536870911"
  shows "decodes3 v"
  using assms(3,4) by (intro decodes3I [OF assms(1)]) (simp add: assms(2) amf3Switch_simps DecodeAmf3Integer_bytes int29_def)

lemma decodes3_array:
  assumes "length vs < 2 ^ 28" and "\<forall>v\<in>set vs. amf3_ok v \<and> decodes3 v"
  shows "decodes3 (VArray vs)"
proof (rule decodes3I)
  show "amf3_bytes (VArray vs) = 0x09 # len_bytes (length vs) @ utf8_bytes [] @ concat (map amf3_bytes vs)" by simp
  fix g and d :: dstate and rest :: bytes
  assume g: "length (len_bytes (length vs) @ utf8_bytes [] @ concat (map amf3_bytes vs)) + length rest < g"
    and d: "rd d = (len_bytes (length vs) @ utf8_bytes [] @ concat (map amf3_bytes vs)) @ rest" and r: "rest \<noteq> []"
  let ?d1 = "d\<lparr>rd := utf8_bytes [] @ concat (map amf3_bytes vs) @ rest\<rparr>"
  let ?d2 = "d\<lparr>rd := concat (map amf3_bytes vs) @ rest\<rparr>"
  obtain v where v: "decodeReferenceInt d = (Ok (False, v), ?d1)" "unat v = length vs"
    using decodeReferenceInt_len [OF assms(1), of d] d by auto
  have key: "DecodeAmf3String False ?d1 = (Ok [], ?d2)"
    using DecodeAmf3String_bytes [of "[]" ?d1 "concat (map amf3_bytes vs) @ rest"] r by simp
  have "0 < length (len_bytes (length vs))" "0 < length (utf8_bytes [])" by (simp_all add: len_bytes_def utf8_bytes_def)
  then have "length (rd ?d2) + 1 < g" using g by (simp del: length_greater_0_conv)
  then obtain d3 where "DecodeAmf3_elems g (length vs) [] ?d2 = Some (Ok ([] @ map amf3_norm vs), d3)" "rd d3 = rest"
    using DecodeAmf3_elems_bytes [OF assms(2), of ?d2 g rest "[]"] r by auto
  then show "\<exists>d'. amf3Switch g 0x09 d = Some (Ok (amf3_norm (VArray vs)), d') \<and> rd d' = rest"
    using v key by (simp add: amf3Switch_simps DecodeAmf3Array_def fbind_def pwrap_def addObjectRef_def)
qed

lemma decodes3_object:
  assumes "length m < 2 ^ 25" and "distinct (map fst m)"
    and "\<forall>(k, v)\<in>set m. length k < 2 ^ 28 \<and> amf3_ok v \<and> decodes3 v"
    and ty: "length typ < 2 ^ 28" and u: "amf3_bytes u = object_bytes typ m" "amf3_norm u = amf3_norm (VObject m)"
  shows "decodes3 u"
proof (rule decodes3I)
  let ?s = "sort_key fst m" and ?h = "0x03 OR push_bit 4 (of_nat (length m)) :: u32"
  let ?ks = "concat (map utf8_bytes (map fst ?s))" and ?vs = "concat (map (\<lambda>e. amf3_bytes (snd e)) ?s)"
  show "amf3_bytes u = 0x0a # u29_bytes ?h @ utf8_bytes typ @ ?ks @ ?vs"
    by (simp add: u(1) object_bytes_def Let_def)
  fix g and d :: dstate and rest :: bytes
  assume g: "length (u29_bytes ?h @ utf8_bytes typ @ ?ks @ ?vs) + length rest < g"
    and d: "rd d = (u29_bytes ?h @ utf8_bytes typ @ ?ks @ ?vs) @ rest" and r: "rest \<noteq> []"
  note th = trait_header [OF assms(1)]
  let ?d1 = "d\<lparr>rd := utf8_bytes typ @ ?ks @ ?vs @ rest\<rparr>" and ?d2 = "d\<lparr>rd := ?ks @ ?vs @ rest, stringRefs := stringRefs d @ (if typ = [] then [] else [typ])\<rparr>"
  have ref: "decodeReferenceInt d = (Ok (False, drop_bit 1 ?h), ?d1)"
    using decodeU29_bytes [OF th(1), of d] d th(2) by (simp add: decodeReferenceInt_def pbind_def pwrap_def)
  have cls: "DecodeAmf3String False ?d1 = (Ok typ, ?d2)"
    using DecodeAmf3String_bytes [OF ty, of ?d1 "?ks @ ?vs @ rest"] r by simp
  have k28: "\<forall>k\<in>set (map fst ?s). length k < 2 ^ 28" using assms(3) by auto
  obtain d3 where d3: "traitProps (length m) [] ?d2 = (Ok (map fst ?s), d3)" "rd d3 = ?vs @ rest"
    using traitProps_bytes [OF k28, of ?d2 "?vs @ rest" "[]"] r by auto
  let ?t = "\<lparr>TType = typ, Externalizable = False, Dynamic = False, Properties = map fst ?s\<rparr>"
  let ?d4 = "d3\<lparr>traitRefs := traitRefs d3 @ [?t], objectRefs := objectRefs d3 @ [VNil]\<rparr>"
  have trait: "readTrait (drop_bit 1 ?h) ?d1 = (Ok ?t, d3\<lparr>traitRefs := traitRefs d3 @ [?t]\<rparr>)"
    using cls d3(1) th(3-6) by (simp add: readTrait_def pbind_def pwrap_def Let_def)
  have "0 < length (u29_bytes ?h)" "0 < length (utf8_bytes typ)" by (simp_all add: len_bytes_def utf8_bytes_def)
  then have "length (rd ?d4) + 1 < g" using g d3(2) by (simp del: length_greater_0_conv)
  moreover have "\<forall>(k, v)\<in>set ?s. amf3_ok v \<and> decodes3 v" "distinct (map fst ([] @ ?s))"
    using assms(2,3) by (auto simp: distinct_map)
  ultimately obtain d5 where "DecodeAmf3_props g (map (\<lambda>e. (fst e, ''amf3 decode: unable to decode object property'')) ?s) [] ?d4 =
      Some (Ok ([] @ map (\<lambda>(k, v). (k, amf3_norm v)) ?s), d5)" "rd d5 = rest"
    using DecodeAmf3_props_bytes [of ?s ?d4 g rest "[]" "''amf3 decode: unable to decode object property''"] r d3(2) by auto
  then show "\<exists>d'. amf3Switch g 0x0a d = Some (Ok (amf3_norm u), d') \<and> rd d' = rest"
    using ref trait u(2)
    by (simp add: amf3Switch_simps DecodeAmf3Object_def fbind_def pwrap_def addObjectRef_def sort_entries comp_def)
qed

lemma decodes3_uint: "decodes3 (VUint n)"
  using decodes3_integer [of "VUint n" "int n"] decodes3_number [of "VUint n" "f64_of_int (int n)"]
  by (cases "n \<le> 536870911") auto

lemma DecodeAmf3_bytes: "amf3_ok v \<Longrightarrow> decodes3 v"
proof (induction v rule: amf3_norm.induct [case_names Int Uint Int64 Uint64 Array Object Typed Bytes Time Nil Bool Str])
  case (Int n)
  then show ?case
    using decodes3_integer [of "VInt n" n] decodes3_number [of "VInt n" "f64_of_int n"]
    by (cases "n \<ge> 0 \<and> n \<le> 536870911") auto
next
  case (Uint n)
  show ?case by (rule decodes3_uint)
next
  case (Array vs)
  then show ?case by (intro decodes3_array) auto
next
  case (Bytes bs)
  have "decodes3 (VArray (byte_vals bs))"
    by (rule decodes3_array) (use Bytes decodes3_uint in \<open>auto simp: byte_vals_def\<close>)
  then show ?case unfolding decodes3_def byte_vals_spec(2,3) .
next
  case (Time t)
  let ?x = "f64_of_int (f64_trunc (f64_of_int t) * 1000)"
  show ?case
  proof (rule decodes3I)
    show "amf3_bytes (VTime t) = 0x08 # 0x01 # be_bytes 8 ?x" by simp
    show "\<exists>d'. amf3Switch g 0x08 d = Some (Ok (amf3_norm (VTime t)), d') \<and> rd d' = rest"
      if "rd d = (0x01 # be_bytes 8 ?x) @ rest" for g and d :: dstate and rest
      using DecodeAmf3Date_bytes [of d ?x rest] that by (auto simp: amf3Switch_simps simp del: be_bytes.simps)
  qed
next
  case (Object m)
  have "decodes3 v" if "(k, v) \<in> set m" for k v using Object that by fastforce
  then show ?case using Object(2) by (intro decodes3_object [of m "[]"]) (auto simp: object_bytes_spec simp del: amf3_bytes.simps)
next
  case (Typed t m)
  have "decodes3 v" if "(k, v) \<in> set m" for k v using Typed that by fastforce
  then show ?case using Typed(2) by (intro decodes3_object [of m t]) (auto simp: object_bytes_spec simp del: amf3_bytes.simps)
next
  case Nil
  show ?case by (rule decodes3I [of _ 1 "[]"]) (simp_all add: amf3Switch_simps DecodeAmf3Null_def pbind_def)
next
  case (Bool b)
  show ?case
  proof (cases b)
    case True
    show ?thesis
      by (rule decodes3I [of _ 3 "[]"]) (simp_all add: True amf3Switch_simps DecodeAmf3True_def pbind_def)
  next
    case False
    show ?thesis
      by (rule decodes3I [of _ 2 "[]"]) (simp_all add: False amf3Switch_simps DecodeAmf3False_def pbind_def)
  qed
next
  case (Str s)
  then show ?case
    by (intro decodes3I [of _ 6 "utf8_bytes s"]) (simp_all add: amf3Switch_simps pbind_def DecodeAmf3String_bytes)
qed (simp_all add: decodes3_number)

section \<open>Properties of AMF3\<close>

text \<open>
  C26: Every AMF3 value of a kind the encoder takes (strings, arrays and byte slices below 2^28 elements, objects below 2^25 distinct keys), when more input
  follows it, is decoded with exactly its bytes consumed, and what comes back is \<open>amf3_norm\<close> of it: strings, booleans, floats, null, arrays and integers below
  2^28 as they were; integers from 2^28 to 2^29-1 smaller by 2^29; all other integers as float64; byte slices as arrays of integers;
  dates through milliseconds in a float64; objects with their keys sorted, typed ones without their type.
  (Without more input a string at the end may be an error: the reader reports the end of its input.)
\<close>

theorem amf3_roundtrip:
  assumes "amf3_ok v" and "rest \<noteq> []"
  shows "\<exists>b d'. EncodeAmf3 v w = (Ok (length b), w @ b) \<and>
    DecodeAmf3 (length (b @ rest) + 1) (NewDecoder (b @ rest)) = Some (Ok (amf3_norm v), d') \<and> rd d' = rest"
proof -
  let ?b = "amf3_bytes v"
  obtain d' where "DecodeAmf3 (length (?b @ rest) + 1) (NewDecoder (?b @ rest)) = Some (Ok (amf3_norm v), d')" "rd d' = rest"
  proof (rule decodes3D [OF DecodeAmf3_bytes [OF assms(1)] _ _ assms(2)])
    show "length (rd (NewDecoder (?b @ rest))) < length (?b @ rest) + 1" "rd (NewDecoder (?b @ rest)) = ?b @ rest"
      by (simp_all add: NewDecoder_def)
  qed
  then show ?thesis using EncodeAmf3_bytes [OF assms(1), of w] by blast
qed

theorem amf3_roundtrip_witness:
  "\<exists>b d'. EncodeAmf3 (VTyped [0x54] [([0x62], VInt 1), ([0x61], VArray [VStr [], VBytes [9]])]) [] = (Ok (length b), b) \<and>
    DecodeAmf3 (length (b @ [7]) + 1) (NewDecoder (b @ [7])) =
      Some (Ok (VObject [([0x61], VArray [VStr [], VArray [VInt 9]]), ([0x62], VInt 1)]), d') \<and> rd d' = [7]"
  using amf3_roundtrip [of "VTyped [0x54] [([0x62], VInt 1), ([0x61], VArray [VStr [], VBytes [9]])]" "[7]" "[]"]
  by (simp add: list_less_def list_le_def int29_def)

text \<open>
  Integers from 2^28 up to \<open>AMF3_INTEGER_MAX\<close> change: the encoder sends them as 29-bit integers,
  the decoder reads this half of the range as negative numbers, 2^29 too small.
\<close>

theorem amf3_large_integers_wrap:
  assumes "2 ^ 28 \<le> n" and "n \<le> 536870911" and "EncodeAmf3 (VInt n) [] = (Ok k, b)"
  shows "\<exists>d'. DecodeAmf3 (length b + 1) (NewDecoder b) = Some (Ok (VInt (n - 2 ^ 29)), d')"
proof -
  have b: "b = 0x04 # u29_bytes (word_of_int n)"
    using assms EncodeAmf3_numbers(2) [OF word_of_int_le29 [of n], of "[]"] by simp
  let ?d = "(NewDecoder b)\<lparr>rd := u29_bytes (word_of_int n)\<rparr>"
  have "DecodeAmf3 (length b + 1) (NewDecoder b) = amf3Switch (length b) 0x04 ?d"
    by (simp add: amf3Switch_def b NewDecoder_def)
  moreover have "DecodeAmf3Integer False ?d = (Ok (VInt (n - 2 ^ 29)), ?d\<lparr>rd := []\<rparr>)"
    using DecodeAmf3Integer_bytes [of n ?d "[]"] assms(1,2) by simp
  ultimately show ?thesis by (simp add: amf3Switch_simps)
qed

theorem amf3_large_integers_wrap_witness:
  "\<exists>d'. DecodeAmf3 (length [0x04 :: u8, 0xC0, 0x80, 0x80, 0x00] + 1) (NewDecoder [0x04, 0xC0, 0x80, 0x80, 0x00]) = Some (Ok (VInt (- (2 ^ 28))), d')"
proof -
  have "EncodeAmf3 (VInt (2 ^ 28)) [] = (Ok 5, [0x04, 0xC0, 0x80, 0x80, 0x00])"
    by (simp add: EncodeAmf3Integer_def encodeAmf3Uint29_def pbind_def)
  then show ?thesis using amf3_large_integers_wrap [of "2 ^ 28" 5 "[0x04, 0xC0, 0x80, 0x80, 0x00]"] by simp
qed

text \<open>
  What goes wrong at the edges of AMF3: a reference into an empty table panics; an empty string
  at the end of the input, as the encoder writes it, is an error because the reader fails at its
  end; and a string that is cut off is padded with zero bytes without an error.
\<close>

theorem amf3_edge_cases:
  "fst (the (DecodeAmf3 3 (NewDecoder [0x06, 0x00]))) = Panic \<and>
   EncodeAmf3 (VStr []) [] = (Ok 2, [0x06, 0x01]) \<and>
   fst (the (DecodeAmf3 3 (NewDecoder [0x06, 0x01]))) = Err (Errorf ''amf3 decode: unable to read string'') \<and>
   fst (the (DecodeAmf3 4 (NewDecoder [0x06, 0x07, 0x61]))) = Ok (VStr [0x61, 0, 0])"
  by code_simp

end
