(* ===== verification/Amf0.thy ===== *)
theory Amf0
  imports Amf3
begin

text \<open>
  AMF0: \<open>protocol/amf/encoder_amf0.go\<close> and \<open>decoder_amf0.go\<close>, the version dispatch and the batches of
  \<open>amf.go\<close>, and the metadata rewriting of \<open>metadata.go\<close>.
\<close>

section \<open>Encoder\<close>

definition EncodeAmf0Number :: "u64 \<Rightarrow> bool \<Rightarrow> (bytes, nat) prog" where
  "EncodeAmf0Number val encodeMarker =
     pbind (markN encodeMarker AMF0_NUMBER_MARKER) (\<lambda>n. pbind (WriteBytes (be_bytes 8 val)) (\<lambda>_. preturn (n + 8)))"

definition EncodeAmf0Boolean :: "bool \<Rightarrow> bool \<Rightarrow> (bytes, nat) prog" where
  "EncodeAmf0Boolean val encodeMarker =
     pbind (markN encodeMarker AMF0_BOOLEAN_MARKER) (\<lambda>n. pbind (WriteBytes [if val then 1 else 0]) (\<lambda>m. preturn (n + m)))"

definition EncodeAmf0String :: "bytes \<Rightarrow> bool \<Rightarrow> (bytes, nat) prog" where
  "EncodeAmf0String val encodeMarker =
     pbind (markN encodeMarker AMF0_STRING_MARKER) (\<lambda>n.
     pbind (WriteBytes (be_bytes 2 (of_nat (length val) :: u16))) (\<lambda>_.
     pbind (WriteBytes val) (\<lambda>m. preturn (n + 2 + m))))"

definition EncodeAmf0LongString :: "bytes \<Rightarrow> bool \<Rightarrow> (bytes, nat) prog" where
  "EncodeAmf0LongString val encodeMarker =
     pbind (markN encodeMarker AMF0_LONG_STRING_MARKER) (\<lambda>n.
     pbind (WriteBytes (be_bytes 4 (of_nat (length val) :: u32))) (\<lambda>_.
     pbind (WriteBytes val) (\<lambda>m. preturn (n + 4 + m))))"

text \<open>The loop over the entries of a map, in its iteration order.\<close>

primrec runEntries :: "(bytes \<times> (bytes, nat) prog) list \<Rightarrow> nat \<Rightarrow> (bytes, nat) prog" where
  "runEntries [] n = preturn n"
| "runEntries (e # es) n =
     pbind (pwrap ''encode amf0: unable to encode object key'' (EncodeAmf0String (fst e) False)) (\<lambda>m.
     pbind (pwrap ''encode amf0: unable to encode object value'' (snd e)) (\<lambda>k.
     runEntries es (n + m + k)))"

definition EncodeAmf0Object :: "(bytes \<times> (bytes, nat) prog) list \<Rightarrow> bool \<Rightarrow> (bytes, nat) prog" where
  "EncodeAmf0Object val encodeMarker =
     pbind (markN encodeMarker AMF0_OBJECT_MARKER) (\<lambda>n.
     pbind (runEntries val n) (\<lambda>n'.
     pbind (pwrap ''encode amf0: unable to encode object empty string'' (EncodeAmf0String [] False)) (\<lambda>m.
     pbind (WriteMarker AMF0_OBJECT_END_MARKER) (\<lambda>_. preturn (n' + m + 1)))))"

definition EncodeAmf0Null :: "bool \<Rightarrow> (bytes, nat) prog" where
  "EncodeAmf0Null encodeMarker = markN encodeMarker AMF0_NULL_MARKER"

definition EncodeAmf0Undefined :: "bool \<Rightarrow> (bytes, nat) prog" where
  "EncodeAmf0Undefined encodeMarker = markN encodeMarker AMF0_UNDEFINED_MARKER"

definition EncodeAmf0EcmaArray :: "(bytes \<times> (bytes, nat) prog) list \<Rightarrow> bool \<Rightarrow> (bytes, nat) prog" where
  "EncodeAmf0EcmaArray val encodeMarker =
     pbind (markN encodeMarker AMF0_ECMA_ARRAY_MARKER) (\<lambda>n.
     pbind (WriteBytes (be_bytes 4 (of_nat (length val) :: u32))) (\<lambda>_.
     pbind (pwrap ''encode amf0: unable to encode ecma array object'' (EncodeAmf0Object val False)) (\<lambda>m.
     preturn (n + 4 + m))))"

definition EncodeAmf0StrictArray :: "(bytes, nat) prog list \<Rightarrow> bool \<Rightarrow> (bytes, nat) prog" where
  "EncodeAmf0StrictArray es encodeMarker =
     pbind (markN encodeMarker AMF0_STRICT_ARRAY_MARKER) (\<lambda>n.
     pbind (WriteBytes (be_bytes 4 (of_nat (length es) :: u32))) (\<lambda>_.
     runElems ''encode amf0: unable to encode strict array element'' es (n + 4)))"

definition EncodeAmf0Unsupported :: "bool \<Rightarrow> (bytes, nat) prog" where
  "EncodeAmf0Unsupported encodeMarker = markN encodeMarker AMF0_UNSUPPORTED_MARKER"

definition EncodeAmf0Amf3Marker :: "(bytes, unit) prog" where
  "EncodeAmf0Amf3Marker = WriteMarker AMF0_ACMPLUS_OBJECT_MARKER"

abbreviation (input) AMF0_STRING_MAX :: nat where "AMF0_STRING_MAX \<equiv> 65535"

fun EncodeAmf0 :: "val \<Rightarrow> (bytes, nat) prog" where
  "EncodeAmf0 VNil = EncodeAmf0Null True"
| "EncodeAmf0 (VStr s) = (if length s \<le> AMF0_STRING_MAX then EncodeAmf0String s True else EncodeAmf0LongString s True)"
| "EncodeAmf0 (VBool b) = EncodeAmf0Boolean b True"
| "EncodeAmf0 (VInt n) = EncodeAmf0Number (f64_of_int n) True"
| "EncodeAmf0 (VInt64 n) = EncodeAmf0Number (f64_of_int n) True"
| "EncodeAmf0 (VUint n) = EncodeAmf0Number (f64_of_int (int n)) True"
| "EncodeAmf0 (VUint64 n) = EncodeAmf0Number (f64_of_int (int n)) True"
| "EncodeAmf0 (VFloat x) = EncodeAmf0Number x True"
| "EncodeAmf0 (VBytes bs) = EncodeAmf0StrictArray (map (\<lambda>b. EncodeAmf0Number (f64_of_int (int (unat b))) True) bs) True"
| "EncodeAmf0 (VArray vs) = EncodeAmf0StrictArray (map EncodeAmf0 vs) True"
| "EncodeAmf0 VMap = perr ''encode amf0: unable to create object from map''"
| "EncodeAmf0 (VObject m) = EncodeAmf0Object (map (\<lambda>(k, v). (k, EncodeAmf0 v)) m) True"
| "EncodeAmf0 (VTyped t m) = perr ''encode amf0: unsupported type typed object''"
| "EncodeAmf0 (VTime t) = perr ''encode amf0: unsupported type''"
| "EncodeAmf0 VOther = perr ''encode amf0: unsupported type''"

section \<open>Decoder\<close>

definition addRefCache :: "(dstate, unit) prog" where
  "addRefCache d = (Ok (), d\<lparr>refCache := refCache d + 1\<rparr>)"

definition DecodeAmf0Number :: "bool \<Rightarrow> (dstate, u64) prog" where
  "DecodeAmf0Number decodeMarker =
     pbind (AssertMarker decodeMarker AMF0_NUMBER_MARKER) (\<lambda>_.
     pbind (pwrap ''amf0 decode: unable to read number'' (binary_Read 8)) (\<lambda>b. preturn (be_word b)))"

definition DecodeAmf0Boolean :: "bool \<Rightarrow> (dstate, bool) prog" where
  "DecodeAmf0Boolean decodeMarker =
     pbind (AssertMarker decodeMarker AMF0_BOOLEAN_MARKER) (\<lambda>_.
     pbind ReadByte (\<lambda>b. if b = 0 then preturn False else if b = 1 then preturn True
       else perr ''decode amf0: unexpected value for boolean''))"

definition DecodeAmf0String :: "bool \<Rightarrow> (dstate, bytes) prog" where
  "DecodeAmf0String decodeMarker =
     pbind (AssertMarker decodeMarker AMF0_STRING_MARKER) (\<lambda>_.
     pbind (pwrap ''decode amf0: unable to decode string length'' (binary_Read 2)) (\<lambda>l.
     let len = unat (be_word l :: u16)
     in if len = 0 then preturn []
        else pwrap ''decode amf0: unable to decode string value'' (ReadBytes len)))"

definition DecodeAmf0Null :: "bool \<Rightarrow> (dstate, val) prog" where
  "DecodeAmf0Null decodeMarker = pbind (AssertMarker decodeMarker AMF0_NULL_MARKER) (\<lambda>_. preturn VNil)"

definition DecodeAmf0Undefined :: "bool \<Rightarrow> (dstate, val) prog" where
  "DecodeAmf0Undefined decodeMarker = pbind (AssertMarker decodeMarker AMF0_UNDEFINED_MARKER) (\<lambda>_. preturn VNil)"

definition DecodeAmf0Unsupported :: "bool \<Rightarrow> (dstate, val) prog" where
  "DecodeAmf0Unsupported decodeMarker = pbind (AssertMarker decodeMarker AMF0_UNSUPPORTED_MARKER) (\<lambda>_. preturn VNil)"

definition DecodeAmf0Date :: "bool \<Rightarrow> (dstate, u64) prog" where
  "DecodeAmf0Date decodeMarker =
     pbind (AssertMarker decodeMarker AMF0_DATE_MARKER) (\<lambda>_.
     pbind (pwrap ''decode amf0: unable to decode float in date'' (DecodeAmf0Number False)) (\<lambda>x.
     pbind (pwrap ''decode amf0: unable to read 2 trail bytes in date'' (ReadBytes 2)) (\<lambda>_. preturn x)))"

definition DecodeAmf0LongString :: "bool \<Rightarrow> (dstate, bytes) prog" where
  "DecodeAmf0LongString decodeMarker =
     pbind (AssertMarker decodeMarker AMF0_LONG_STRING_MARKER) (\<lambda>_.
     pbind (pwrap ''decode amf0: unable to decode long string length'' (binary_Read 4)) (\<lambda>l.
     pwrap ''decode amf0: unable to decode long string value'' (ReadBytes (unat (be_word l :: u32)))))"

definition DecodeAmf0XmlDocument :: "bool \<Rightarrow> (dstate, bytes) prog" where
  "DecodeAmf0XmlDocument decodeMarker = pbind (AssertMarker decodeMarker AMF0_XML_DOCUMENT_MARKER) (\<lambda>_. DecodeAmf0LongString False)"

text \<open>The loops, \<open>entries obj\<close> and \<open>elems n\<close>, call back into the decoder and are arguments.\<close>

definition DecodeAmf0Object :: "(obj \<Rightarrow> (dstate, obj) fprog) \<Rightarrow> bool \<Rightarrow> (dstate, obj) fprog" where
  "DecodeAmf0Object entries decodeMarker =
     fbind (flift (AssertMarker decodeMarker AMF0_OBJECT_MARKER)) (\<lambda>_.
     fbind (flift addRefCache) (\<lambda>_. entries []))"

text \<open>The error of reading the length is dropped.\<close>

definition DecodeAmf0EcmaArray :: "(obj \<Rightarrow> (dstate, obj) fprog) \<Rightarrow> bool \<Rightarrow> (dstate, obj) fprog" where
  "DecodeAmf0EcmaArray entries decodeMarker =
     fbind (flift (AssertMarker decodeMarker AMF0_ECMA_ARRAY_MARKER)) (\<lambda>_ d.
       let d' = snd (binary_Read 4 d)
       in fwrap ''decode amf0: unable to decode ecma array object'' (DecodeAmf0Object entries False) d')"

definition DecodeAmf0StrictArray :: "(nat \<Rightarrow> (dstate, val list) fprog) \<Rightarrow> bool \<Rightarrow> (dstate, val list) fprog" where
  "DecodeAmf0StrictArray elems decodeMarker =
     fbind (flift (AssertMarker decodeMarker AMF0_STRICT_ARRAY_MARKER)) (\<lambda>_.
     fbind (flift (pwrap ''decode amf0: unable to decode strict array length'' (binary_Read 4))) (\<lambda>l.
     fbind (flift addRefCache) (\<lambda>_. elems (unat (be_word l :: u32)))))"

definition DecodeAmf0TypedObject :: "(obj \<Rightarrow> (dstate, obj) fprog) \<Rightarrow> bool \<Rightarrow> (dstate, val) fprog" where
  "DecodeAmf0TypedObject entries decodeMarker =
     fbind (flift (AssertMarker decodeMarker AMF0_TYPED_OBJECT_MARKER)) (\<lambda>_.
     fbind (flift addRefCache) (\<lambda>_.
     fbind (flift (pwrap ''decode amf0: typed object unable to determine type'' (DecodeAmf0String False))) (\<lambda>typ.
     fbind (fwrap ''decode amf0: typed object unable to determine object'' (DecodeAmf0Object entries False)) (\<lambda>obj.
     fret (VTyped typ obj)))))"

definition amf0Switch ::
  "(obj \<Rightarrow> (dstate, obj) fprog) \<Rightarrow> (nat \<Rightarrow> (dstate, val list) fprog) \<Rightarrow> (dstate, val) fprog \<Rightarrow> u8 \<Rightarrow> (dstate, val) fprog" where
  "amf0Switch entries elems amf3 marker =
      (if marker = AMF0_NUMBER_MARKER then flift (pbind (DecodeAmf0Number False) (\<lambda>x. preturn (VFloat x)))
       else if marker = AMF0_BOOLEAN_MARKER then flift (pbind (DecodeAmf0Boolean False) (\<lambda>b. preturn (VBool b)))
       else if marker = AMF0_STRING_MARKER then flift (pbind (DecodeAmf0String False) (\<lambda>s. preturn (VStr s)))
       else if marker = AMF0_OBJECT_MARKER then fbind (DecodeAmf0Object entries False) (\<lambda>o'. fret (VObject o'))
       else if marker = AMF0_MOVIECLIP_MARKER then ferr ''decode amf0: unsupported type movieclip''
       else if marker = AMF0_NULL_MARKER then flift (DecodeAmf0Null False)
       else if marker = AMF0_UNDEFINED_MARKER then flift (DecodeAmf0Undefined False)
       else if marker = AMF0_REFERENCE_MARKER then ferr ''decode amf0: unsupported type reference''
       else if marker = AMF0_ECMA_ARRAY_MARKER then fbind (DecodeAmf0EcmaArray entries False) (\<lambda>o'. fret (VObject o'))
       else if marker = AMF0_STRICT_ARRAY_MARKER then fbind (DecodeAmf0StrictArray elems False) (\<lambda>vs. fret (VArray vs))
       else if marker = AMF0_DATE_MARKER then flift (pbind (DecodeAmf0Date False) (\<lambda>x. preturn (VFloat x)))
       else if marker = AMF0_LONG_STRING_MARKER then flift (pbind (DecodeAmf0LongString False) (\<lambda>s. preturn (VStr s)))
       else if marker = AMF0_UNSUPPORTED_MARKER then flift (DecodeAmf0Unsupported False)
       else if marker = AMF0_RECORDSET_MARKER then ferr ''decode amf0: unsupported type recordset''
       else if marker = AMF0_XML_DOCUMENT_MARKER then flift (pbind (DecodeAmf0XmlDocument False) (\<lambda>s. preturn (VStr s)))
       else if marker = AMF0_TYPED_OBJECT_MARKER then DecodeAmf0TypedObject entries False
       else if marker = AMF0_ACMPLUS_OBJECT_MARKER then amf3
       else ferr ''decode amf0: unsupported type'')"

definition amf0Router ::
  "(obj \<Rightarrow> (dstate, obj) fprog) \<Rightarrow> (nat \<Rightarrow> (dstate, val list) fprog) \<Rightarrow> (dstate, val) fprog \<Rightarrow> (dstate, val) fprog" where
  "amf0Router entries elems amf3 = fbind (flift ReadMarker) (amf0Switch entries elems amf3)"

fun DecodeAmf0 :: "nat \<Rightarrow> (dstate, val) fprog"
  and DecodeAmf0_entries :: "nat \<Rightarrow> obj \<Rightarrow> (dstate, obj) fprog"
  and DecodeAmf0_elems :: "nat \<Rightarrow> nat \<Rightarrow> val list \<Rightarrow> (dstate, val list) fprog"
where
  "DecodeAmf0 0 = fempty"
| "DecodeAmf0 (Suc f) = amf0Router (DecodeAmf0_entries f) (\<lambda>n. DecodeAmf0_elems f n []) (DecodeAmf3 f)"
| "DecodeAmf0_entries 0 obj = fempty"
| "DecodeAmf0_entries (Suc f) obj =
     fbind (flift (DecodeAmf0String False)) (\<lambda>key.
       if key = [] then
         fbind (flift (pwrap ''decode amf0: expected object end marker'' (AssertMarker True AMF0_OBJECT_END_MARKER))) (\<lambda>_. fret obj)
       else
         fbind (fwrap ''decode amf0: unable to decode object value'' (DecodeAmf0 f)) (\<lambda>value.
         DecodeAmf0_entries f (put_key key value obj)))"
| "DecodeAmf0_elems 0 n result = fempty"
| "DecodeAmf0_elems (Suc f) n result =
     (if n = 0 then fret result
      else fbind (fwrap ''decode amf0: unable to decode strict array object'' (DecodeAmf0 f)) (\<lambda>tmp.
        DecodeAmf0_elems f (n - 1) (result @ [tmp])))"

declare DecodeAmf0.simps [simp del] DecodeAmf0_entries.simps [simp del] DecodeAmf0_elems.simps [simp del]

section \<open>Version dispatch and batches (protocol/amf/amf.go)\<close>

definition amf_Decode :: "nat \<Rightarrow> u8 \<Rightarrow> (dstate, val) fprog" where
  "amf_Decode f ver = (if ver = 0 then DecodeAmf0 f else if ver = 3 then DecodeAmf3 f
     else ferr ''decode amf: unsupported version'')"

text \<open>The batch ends with the first error, in the normal case the end of the input; both are returned.\<close>

primrec DecodeBatch_loop :: "nat \<Rightarrow> nat \<Rightarrow> u8 \<Rightarrow> val list \<Rightarrow> dstate \<Rightarrow> ((val list \<times> err) res \<times> dstate) option" where
  "DecodeBatch_loop 0 f ver ret d = None"
| "DecodeBatch_loop (Suc g) f ver ret d =
     (case amf_Decode f ver d of
        None \<Rightarrow> None
      | Some (Ok v, d') \<Rightarrow> DecodeBatch_loop g f ver (ret @ [v]) d'
      | Some (Err e, d') \<Rightarrow> Some (Ok (ret, e), d')
      | Some (Panic, d') \<Rightarrow> Some (Panic, d'))"

text \<open>Fuel beyond the length of the input is enough, so the batch supplies it.\<close>

definition DecodeBatch :: "u8 \<Rightarrow> dstate \<Rightarrow> ((val list \<times> err) res \<times> dstate) option" where
  "DecodeBatch ver d = (let n = length (rd d) in DecodeBatch_loop (n + 1) (n + 1) ver [] d)"

definition amf_Encode :: "val \<Rightarrow> u8 \<Rightarrow> (bytes, nat) prog" where
  "amf_Encode val ver = (if ver = 0 then EncodeAmf0 val else if ver = 3 then EncodeAmf3 val
     else perr ''encode amf: unsupported version'')"

primrec EncodeBatch :: "u8 \<Rightarrow> val list \<Rightarrow> (bytes, nat) prog" where
  "EncodeBatch ver [] = preturn 0"
| "EncodeBatch ver (v # vs) = pbind (amf_Encode v ver) (\<lambda>_. EncodeBatch ver vs)"

section \<open>Metadata (protocol/amf/metadata.go)\<close>

definition SetDataFrame :: bytes where "SetDataFrame = chars ''@setDataFrame''"

definition setFrameFrame :: bytes where "setFrameFrame = snd (amf_Encode (VStr SetDataFrame) 0 [])"

definition MetaDataReform :: "bytes \<Rightarrow> u8 \<Rightarrow> bytes res option" where
  "MetaDataReform p flag =
     (if flag = 0 then
        (case amf_Decode (length p + 1) 0 (NewDecoder p) of
           None \<Rightarrow> None
         | Some (Ok (VStr vv), _) \<Rightarrow> Some (Ok (if vv \<noteq> SetDataFrame then setFrameFrame @ p else p))
         | Some (Ok _, _) \<Rightarrow> Some (Err (Errorf ''setFrameFrame error''))
         | Some (Err e, _) \<Rightarrow> Some (Err e)
         | Some (Panic, _) \<Rightarrow> Some Panic)
      else if flag = 3 then
        (case amf_Decode (length p + 1) 0 (NewDecoder p) of
           None \<Rightarrow> None
         | Some (Ok (VStr vv), _) \<Rightarrow>
             Some (if vv = SetDataFrame then slice (length setFrameFrame) (length p) p else Ok p)
         | Some (Ok _, _) \<Rightarrow> Some (Err (Errorf ''metadata error''))
         | Some (Err e, _) \<Rightarrow> Some (Err e)
         | Some (Panic, _) \<Rightarrow> Some Panic)
      else Some (Err (Errorf ''invalid flag'')))"

section \<open>The AMF0 decoder returns\<close>

lemma pcons_addRefCache: "pcons s 0 addRefCache"
  by (simp add: pcons_def forward_def addRefCache_def)

lemma pcons_DecodeAmf0String: "pcons s 2 (DecodeAmf0String False)"
proof -
  have "AssertMarker False m = preturn ()" for m by (simp add: AssertMarker_def)
  moreover have "pbind (preturn ()) g = g ()" for g :: "unit \<Rightarrow> (dstate, bytes) prog" by (simp add: fun_eq_iff pbind_def)
  ultimately show ?thesis unfolding DecodeAmf0String_def Let_def
    by (simp only:) (intro pcons_bind pcons_wrap pcons_binary_Read pcons_if pcons_return
        pcons_mono [OF pcons_wrap [OF pcons_ReadBytes]] le0)
qed

lemmas weak_amf0 = pcons_mono [OF pcons_DecodeAmf0String, of 0, simplified] pcons_mono [OF pcons_binary_Read, of 0]
  pcons_mono [OF pcons_ReadByte, of 0] pcons_mono [OF pcons_ReadBytes, of 0]

lemma pcons_amf0_scalars:
  "pcons s 0 (DecodeAmf0Number b)" "pcons s 0 (DecodeAmf0Boolean b)" "pcons s 0 (DecodeAmf0Null b)"
  "pcons s 0 (DecodeAmf0Undefined b)" "pcons s 0 (DecodeAmf0Unsupported b)" "pcons s 0 (DecodeAmf0LongString b)"
  unfolding DecodeAmf0Number_def DecodeAmf0Boolean_def DecodeAmf0Null_def DecodeAmf0Undefined_def
    DecodeAmf0Unsupported_def DecodeAmf0LongString_def
  by (intro pcons_bind pcons_AssertMarker pcons_wrap pcons_return pcons_if pcons_err weak_amf0; simp)+

lemma pcons_amf0_more: "pcons s 0 (DecodeAmf0Date b)" "pcons s 0 (DecodeAmf0XmlDocument b)"
  unfolding DecodeAmf0Date_def DecodeAmf0XmlDocument_def
  by (intro pcons_bind pcons_AssertMarker pcons_wrap pcons_return pcons_amf0_scalars weak_amf0; simp)+

lemma consumes_DecodeAmf0Object:
  assumes "\<And>obj. consumes s 0 (entries obj) n"
  shows "consumes s 0 (DecodeAmf0Object entries b) n"
  unfolding DecodeAmf0Object_def by (intro consumes_stay pcons_AssertMarker pcons_addRefCache assms)

lemma consumes_DecodeAmf0EcmaArray:
  assumes "\<And>obj. consumes s 0 (entries obj) n"
  shows "consumes s 0 (DecodeAmf0EcmaArray entries b) n"
  unfolding DecodeAmf0EcmaArray_def
proof (rule consumes_stay [OF pcons_AssertMarker], unfold consumes_def Let_def, intro allI impI)
  fix d :: dstate assume d: "length (rd d) < n"
  let ?d = "snd (binary_Read 4 d)" and ?m = "fwrap ''decode amf0: unable to decode ecma array object'' (DecodeAmf0Object entries False)"
  have s: "suffix (rd ?d) (rd d)" using pcons_binary_Read [of s 4] by (auto simp: pcons_def forward_def)
  have "consumes s 0 ?m n" by (intro consumes_wrap consumes_DecodeAmf0Object assms)
  moreover have "length (rd ?d) < n" using s d by (auto dest: suffix_length_le)
  ultimately obtain r d' where "?m ?d = Some (r, d')" "forward s 0 ?d r d'" unfolding consumes_def by blast
  then show "\<exists>r d'. ?m ?d = Some (r, d') \<and> forward s 0 d r d'"
    using forward_trans [of s 0 d undefined ?d 0 r d'] s
    by (auto simp: forward_def dest: suffix_order.trans set_mono_suffix suffix_length_le)
qed

lemma consumes_DecodeAmf0StrictArray:
  assumes "\<And>k. consumes s 0 (elems k) (n - 1)"
  shows "consumes s 0 (DecodeAmf0StrictArray elems b) n"
  unfolding DecodeAmf0StrictArray_def
  by (rule consumes_stay, rule pcons_AssertMarker, rule consumes_step, rule pcons_wrap,
      rule pcons_mono [OF pcons_binary_Read], simp, intro consumes_stay pcons_addRefCache assms)

lemma consumes_DecodeAmf0TypedObject:
  assumes "\<And>obj. consumes s 0 (entries obj) n"
  shows "consumes s 0 (DecodeAmf0TypedObject entries b) n"
  unfolding DecodeAmf0TypedObject_def
  by (intro consumes_stay pcons_AssertMarker pcons_addRefCache pcons_wrap weak_amf0 consumes_bind [where k = 0]
      consumes_wrap consumes_DecodeAmf0Object assms consumes_ret)

text \<open>The first byte decides; only the marker of AMF3 leads into code that may panic.\<close>

lemma consumes_amf0Router:
  assumes e: "\<And>obj. consumes True 0 (entries obj) f" and v: "\<And>k. consumes True 0 (elems k) (f - 1)"
    and a: "consumes False 0 amf3 f"
  shows "consumes True 1 (amf0Router entries elems amf3) (Suc f)"
proof -
  define g where "g = amf0Switch entries elems amf3"
  have router: "amf0Router entries elems amf3 = fbind (flift ReadMarker) g" by (simp add: amf0Router_def g_def)
  have g: "consumes True 0 (g m) f" if "m \<noteq> 0x11" for m
    unfolding g_def amf0Switch_def
    by (intro consumes_if consumes_lift pcons_bind pcons_return consumes_err pcons_amf0_scalars pcons_amf0_more weak_amf0
        consumes_bind [where k = 0] consumes_ret consumes_DecodeAmf0Object consumes_DecodeAmf0EcmaArray
        consumes_DecodeAmf0StrictArray consumes_DecodeAmf0TypedObject e v) (use that in simp_all)
  have g11: "g 0x11 = amf3" by (simp add: g_def amf0Switch_def)
  show ?thesis
    unfolding consumes_def router
  proof (intro allI impI)
    fix d :: dstate assume d: "length (rd d) < Suc f"
    show "\<exists>r d'. fbind (flift ReadMarker) g d = Some (r, d') \<and> forward True 1 d r d'"
    proof (cases "rd d")
      case Nil
      then show ?thesis
        by (simp add: fbind_def ReadMarker_def ReadByte_def ReadBytes_def r_Read_def pbind_def forward_def)
    next
      case (Cons m bs)
      let ?d = "d\<lparr>rd := bs\<rparr>"
      have "length (rd ?d) < f" using d Cons by simp
      then obtain r d' where r: "g m ?d = Some (r, d')" "forward (m \<noteq> 0x11) 0 ?d r d'"
        using g [of m] a g11 unfolding consumes_def by (cases "m = 0x11") fastforce+
      have "fbind (flift ReadMarker) g d = g m ?d"
        using Cons by (simp add: fbind_def ReadMarker_def ReadByte_def ReadBytes_def r_Read_def pbind_def)
      moreover have "forward True 1 d r d'"
        using r(2) Cons by (auto simp: forward_def suffix_Cons)
      ultimately show ?thesis using r(1) by auto
    qed
  qed
qed

lemma consumes_amf0_fuel:
  "consumes True 1 (DecodeAmf0 f) f \<and> (\<forall>obj. consumes True 0 (DecodeAmf0_entries f obj) f) \<and>
   (\<forall>n acc. consumes True 0 (DecodeAmf0_elems f n acc) (f - 1))"
proof (induction f)
  case 0
  show ?case by (simp add: consumes_zero)
next
  case (Suc f)
  have dec: "consumes True k (DecodeAmf0 f) n" if "k \<le> 1" "n \<le> f" for k n
    using Suc consumes_mono that by blast
  have elems: "consumes True 0 (DecodeAmf0_elems f i acc) n" if "n \<le> f - 1" for i acc n
    using Suc consumes_mono that by blast
  have entries: "consumes True 0 (DecodeAmf0_entries f obj) n" if "n \<le> f" for obj n
    using Suc consumes_mono that by blast
  have "consumes True 1 (DecodeAmf0 (Suc f)) (Suc f)"
    unfolding DecodeAmf0.simps by (intro consumes_amf0Router entries elems consumes_DecodeAmf3) simp_all
  moreover have "consumes True 0 (DecodeAmf0_elems (Suc f) n acc) f" for n acc
    unfolding DecodeAmf0_elems.simps
    by (intro consumes_if consumes_ret consumes_mono [OF consumes_bind [where k = 1 and n = f, OF consumes_wrap [OF dec]]] elems)
      simp_all
  moreover have "consumes True 0 (DecodeAmf0_entries (Suc f) obj) (Suc f)" for obj
    unfolding DecodeAmf0_entries.simps
    by (rule consumes_step, rule pcons_mono [OF pcons_DecodeAmf0String], simp)
      (auto intro!: consumes_ret consumes_stay pcons_wrap pcons_AssertMarker
        consumes_bind [where k = 0, OF consumes_wrap [OF dec]] entries)
  ultimately show ?case by simp
qed

lemma amf_Decode_forward:
  assumes "length (rd d) < f"
  obtains r d' where "amf_Decode f ver d = Some (r, d')" and "forward (ver = 0) 1 d r d'"
proof -
  have "consumes (ver = 0) 1 (amf_Decode f ver) f"
    using consumes_amf0_fuel [of f] consumes_DecodeAmf3 [of f f 1]
    by (auto simp: amf_Decode_def intro: consumes_err)
  then show thesis using assms that unfolding consumes_def by blast
qed

lemma DecodeBatch_loop_returns:
  assumes "length (rd d) < g" and "length (rd d) < f"
  shows "\<exists>r d'. DecodeBatch_loop g f ver ret d = Some (r, d') \<and> (ver = 0 \<and> 0x11 \<notin> set (rd d) \<longrightarrow> r \<noteq> Panic)"
  using assms
proof (induction g arbitrary: d ret)
  case (Suc g)
  obtain r d' where r: "amf_Decode f ver d = Some (r, d')" "forward (ver = 0) 1 d r d'"
    using amf_Decode_forward [OF Suc.prems(2)] by blast
  show ?case
  proof (cases r)
    case (Ok v)
    then have "length (rd d') < g" "length (rd d') < f" "set (rd d') \<subseteq> set (rd d)"
      using r(2) Suc.prems by (auto simp: forward_def dest: set_mono_suffix)
    then show ?thesis using Suc.IH [of d' "ret @ [v]"] r(1) Ok by auto
  qed (use r in \<open>auto simp: forward_def\<close>)
qed simp

section \<open>The AMF0 format and the round trip\<close>

text \<open>
  The bytes of a value as the comments of the encoder describe them, the values that can be sent
  (lengths that fit their fields, distinct non-empty keys), and the value that comes back: numbers
  of every kind are float64, byte slices are arrays of numbers.
\<close>

definition str_bytes :: "bytes \<Rightarrow> bytes" where
  "str_bytes s = be_bytes 2 (of_nat (length s) :: u16) @ s"

fun amf0_bytes :: "val \<Rightarrow> bytes" where
  "amf0_bytes VNil = [0x05]"
| "amf0_bytes (VStr s) = (if length s \<le> 65535 then 0x02 # str_bytes s else 0x0c # be_bytes 4 (of_nat (length s) :: u32) @ s)"
| "amf0_bytes (VBool b) = [0x01, if b then 1 else 0]"
| "amf0_bytes (VInt n) = 0x00 # be_bytes 8 (f64_of_int n)"
| "amf0_bytes (VInt64 n) = 0x00 # be_bytes 8 (f64_of_int n)"
| "amf0_bytes (VUint n) = 0x00 # be_bytes 8 (f64_of_int (int n))"
| "amf0_bytes (VUint64 n) = 0x00 # be_bytes 8 (f64_of_int (int n))"
| "amf0_bytes (VFloat x) = 0x00 # be_bytes 8 x"
| "amf0_bytes (VBytes bs) = 0x0a # be_bytes 4 (of_nat (length bs) :: u32) @ concat (map (\<lambda>b. 0x00 # be_bytes 8 (f64_of_int (int (unat b)))) bs)"
| "amf0_bytes (VArray vs) = 0x0a # be_bytes 4 (of_nat (length vs) :: u32) @ concat (map amf0_bytes vs)"
| "amf0_bytes (VObject m) = 0x03 # concat (map (\<lambda>(k, v). str_bytes k @ amf0_bytes v) m) @ [0, 0, 0x09]"
| "amf0_bytes _ = []"

fun amf0_ok :: "val \<Rightarrow> bool" where
  "amf0_ok (VStr s) \<longleftrightarrow> length s < 2 ^ 32"
| "amf0_ok (VBytes bs) \<longleftrightarrow> length bs < 2 ^ 32"
| "amf0_ok (VArray vs) \<longleftrightarrow> length vs < 2 ^ 32 \<and> (\<forall>v\<in>set vs. amf0_ok v)"
| "amf0_ok (VObject m) \<longleftrightarrow> distinct (map fst m) \<and> (\<forall>(k, v)\<in>set m. k \<noteq> [] \<and> length k \<le> 65535 \<and> amf0_ok v)"
| "amf0_ok (VTyped t m) \<longleftrightarrow> False"
| "amf0_ok (VTime t) \<longleftrightarrow> False"
| "amf0_ok VMap \<longleftrightarrow> False"
| "amf0_ok VOther \<longleftrightarrow> False"
| "amf0_ok _ \<longleftrightarrow> True"

fun amf0_norm :: "val \<Rightarrow> val" where
  "amf0_norm (VInt n) = VFloat (f64_of_int n)"
| "amf0_norm (VInt64 n) = VFloat (f64_of_int n)"
| "amf0_norm (VUint n) = VFloat (f64_of_int (int n))"
| "amf0_norm (VUint64 n) = VFloat (f64_of_int (int n))"
| "amf0_norm (VBytes bs) = VArray (map (\<lambda>b. VFloat (f64_of_int (int (unat b)))) bs)"
| "amf0_norm (VArray vs) = VArray (map amf0_norm vs)"
| "amf0_norm (VObject m) = VObject (map (\<lambda>(k, v). (k, amf0_norm v)) m)"
| "amf0_norm v = v"

lemma EncodeAmf0String_bytes [simp]:
  "EncodeAmf0String s True w = (Ok (Suc (length (str_bytes s))), w @ 0x02 # str_bytes s)"
  "EncodeAmf0String s False w = (Ok (length (str_bytes s)), w @ str_bytes s)"
  by (simp_all add: EncodeAmf0String_def pbind_def str_bytes_def)

lemma EncodeAmf0Number_bytes [simp]:
  "EncodeAmf0Number x True w = (Ok (length (0x00 # be_bytes 8 x)), w @ 0x00 # be_bytes 8 x)"
  by (simp add: EncodeAmf0Number_def pbind_def)

lemma runEntries_bytes:
  assumes "\<And>e w. e \<in> set m \<Longrightarrow> enc (snd e) w = (Ok (length (b (snd e))), w @ b (snd e))"
  shows "runEntries (map (\<lambda>(k, v). (k, enc v)) m) n w = (Ok (n + length (concat (map (\<lambda>(k, v). str_bytes k @ b v) m))),
    w @ concat (map (\<lambda>(k, v). str_bytes k @ b v) m))"
  using assms
proof (induction m arbitrary: n w)
  case (Cons e m)
  obtain k v where e: "e = (k, v)" by force
  have "enc v w = (Ok (length (b v)), w @ b v)" for w using Cons.prems [of e w] e by simp
  moreover have "runEntries (map (\<lambda>(k, v). (k, enc v)) m) n w = (Ok (n + length (concat (map (\<lambda>(k, v). str_bytes k @ b v) m))),
    w @ concat (map (\<lambda>(k, v). str_bytes k @ b v) m))" for n w
    using Cons by simp
  ultimately show ?case by (simp add: pbind_def pwrap_def e)
qed simp

lemma EncodeAmf0_bytes: "amf0_ok v \<Longrightarrow> EncodeAmf0 v w = (Ok (length (amf0_bytes v)), w @ amf0_bytes v)"
proof (induction v arbitrary: w rule: amf0_bytes.induct)
  case (9 bs)
  show ?case
    using runElems_bytes [where enc = "\<lambda>b. EncodeAmf0Number (f64_of_int (int (unat b))) True" and vs = bs
        and b = "\<lambda>b. 0x00 # be_bytes 8 (f64_of_int (int (unat b)))"]
    by (simp add: EncodeAmf0StrictArray_def pbind_def)
next
  case (10 vs)
  show ?case
    using runElems_bytes [where enc = EncodeAmf0 and vs = vs and b = amf0_bytes] 10
    by (simp add: EncodeAmf0StrictArray_def pbind_def)
next
  case (11 m)
  have ih: "EncodeAmf0 (snd e) w = (Ok (length (amf0_bytes (snd e))), w @ amf0_bytes (snd e))" if "e \<in> set m" for e w
    using 11 that by (cases e) fastforce
  have "str_bytes [] = [0, 0]" by (simp add: str_bytes_def numeral_2_eq_2)
  show ?case
    using runEntries_bytes [where enc = EncodeAmf0 and m = m and b = amf0_bytes, OF ih] \<open>str_bytes [] = [0, 0]\<close>
    by (simp add: EncodeAmf0Object_def pbind_def pwrap_def)
qed (simp_all add: EncodeAmf0Null_def EncodeAmf0LongString_def EncodeAmf0Boolean_def pbind_def)

lemma be_len [simp]:
  "n \<le> 65535 \<Longrightarrow> unat (be_word (be_bytes 2 (of_nat n :: u16)) :: u16) = n"
  "n < 2 ^ 32 \<Longrightarrow> unat (be_word (be_bytes 4 (of_nat n :: u32)) :: u32) = n"
  by (simp_all add: be_word_be_bytes unsigned_of_nat take_bit_nat_eq_self)

lemma DecodeAmf0String_bytes:
  assumes "length s \<le> 65535" and "rd d = str_bytes s @ rest"
  shows "DecodeAmf0String False d = (Ok s, d\<lparr>rd := rest\<rparr>)"
proof -
  let ?l = "be_bytes 2 (of_nat (length s) :: u16)"
  have "binary_Read 2 d = (Ok ?l, d\<lparr>rd := s @ rest\<rparr>)"
    using assms(2) by (intro binary_Read_append) (simp_all add: str_bytes_def)
  moreover have "s \<noteq> [] \<Longrightarrow> ReadBytes (length s) (d\<lparr>rd := s @ rest\<rparr>) = (Ok s, d\<lparr>rd := rest\<rparr>)"
    using ReadBytes_append [of s "length s" "d\<lparr>rd := s @ rest\<rparr>"] by simp
  moreover have "unat (be_word (be_bytes 2 (0 :: u16)) :: u16) = 0" using be_len(1) [of 0] by simp
  ultimately show ?thesis
    using assms(1) by (cases "s = []") (simp_all add: DecodeAmf0String_def pbind_def pwrap_def Let_def)
qed

lemma DecodeAmf0LongString_bytes:
  assumes "length s < 2 ^ 32" and "s \<noteq> []" and "rd d = be_bytes 4 (of_nat (length s) :: u32) @ s @ rest"
  shows "DecodeAmf0LongString False d = (Ok s, d\<lparr>rd := rest\<rparr>)"
proof -
  have "binary_Read 4 d = (Ok (be_bytes 4 (of_nat (length s) :: u32)), d\<lparr>rd := s @ rest\<rparr>)"
    using assms(3) by (intro binary_Read_append) simp_all
  moreover have "ReadBytes (length s) (d\<lparr>rd := s @ rest\<rparr>) = (Ok s, d\<lparr>rd := rest\<rparr>)"
    using ReadBytes_append [of s "length s" "d\<lparr>rd := s @ rest\<rparr>"] assms(2) by simp
  ultimately show ?thesis
    using assms(1) by (simp add: DecodeAmf0LongString_def pbind_def pwrap_def)
qed

lemma DecodeAmf0Number_bytes:
  "rd d = be_bytes 8 x @ rest \<Longrightarrow> DecodeAmf0Number False d = (Ok x, d\<lparr>rd := rest\<rparr>)"
  using binary_Read_append [of "be_bytes 8 x" 8 d rest]
  by (simp add: DecodeAmf0Number_def pbind_def pwrap_def be_word_be_bytes)

text \<open>What decoding a value does to the decoder: the bytes are consumed, references may be added.\<close>

definition decodes0 :: "val \<Rightarrow> bool" where
  "decodes0 v \<longleftrightarrow> (\<forall>f d rest. length (rd d) < f \<longrightarrow> rd d = amf0_bytes v @ rest \<longrightarrow>
     (\<exists>k. DecodeAmf0 f d = Some (Ok (amf0_norm v), d\<lparr>rd := rest, refCache := refCache d + k\<rparr>)))"

lemma decodes0D:
  assumes "decodes0 v" and "length (rd d) < f" and "rd d = amf0_bytes v @ rest"
  obtains k where "DecodeAmf0 f d = Some (Ok (amf0_norm v), d\<lparr>rd := rest, refCache := refCache d + k\<rparr>)"
  using assms unfolding decodes0_def by blast

lemma amf0_bytes_nonempty: "amf0_ok v \<Longrightarrow> amf0_bytes v \<noteq> []"
  by (cases v) simp_all

lemma DecodeAmf0_elems_bytes:
  assumes "\<forall>v\<in>set vs. amf0_ok v \<and> decodes0 v" and "length (rd d) + 1 < f"
    and "rd d = concat (map amf0_bytes vs) @ rest"
  shows "\<exists>k. DecodeAmf0_elems f (length vs) acc d =
    Some (Ok (acc @ map amf0_norm vs), d\<lparr>rd := rest, refCache := refCache d + k\<rparr>)"
  using assms
proof (induction vs arbitrary: f d acc)
  case Nil
  then show ?case by (cases f) (auto simp: DecodeAmf0_elems.simps intro!: exI [of _ 0])
next
  case (Cons v vs)
  obtain g where f: "f = Suc g" using Cons.prems(2) by (cases f) simp_all
  let ?r = "concat (map amf0_bytes vs) @ rest"
  obtain k where k: "DecodeAmf0 g d = Some (Ok (amf0_norm v), d\<lparr>rd := ?r, refCache := refCache d + k\<rparr>)"
    using decodes0D [of v d g ?r] Cons.prems f by auto
  let ?d = "d\<lparr>rd := ?r, refCache := refCache d + k\<rparr>"
  obtain x xs where "amf0_bytes v = x # xs" using Cons.prems(1) amf0_bytes_nonempty [of v] by (cases "amf0_bytes v") auto
  then have "length (rd ?d) + 1 < g" using Cons.prems(2,3) f by simp
  then obtain j where j: "DecodeAmf0_elems g (length vs) (acc @ [amf0_norm v]) ?d =
      Some (Ok ((acc @ [amf0_norm v]) @ map amf0_norm vs), ?d\<lparr>rd := rest, refCache := refCache ?d + j\<rparr>)"
    using Cons.IH [of ?d g "acc @ [amf0_norm v]"] Cons.prems(1) by auto
  show ?case
    using k j by (intro exI [of _ "k + j"]) (simp add: f DecodeAmf0_elems.simps fbind_def fwrap_def add.assoc)
qed

lemma DecodeAmf0_entries_bytes:
  assumes "\<forall>(k, v)\<in>set m. k \<noteq> [] \<and> length k \<le> 65535 \<and> decodes0 v" and "length (rd d) < f"
    and "rd d = concat (map (\<lambda>(k, v). str_bytes k @ amf0_bytes v) m) @ [0, 0, 0x09] @ rest"
    and "distinct (map fst (acc @ m))"
  shows "\<exists>k. DecodeAmf0_entries f acc d =
    Some (Ok (acc @ map (\<lambda>(k, v). (k, amf0_norm v)) m), d\<lparr>rd := rest, refCache := refCache d + k\<rparr>)"
  using assms
proof (induction m arbitrary: f d acc)
  case Nil
  obtain g where f: "f = Suc g" using Nil.prems(2) by (cases f) simp_all
  have "rd d = str_bytes [] @ 0x09 # rest" using Nil.prems(3) by (simp add: str_bytes_def numeral_2_eq_2)
  then have "DecodeAmf0String False d = (Ok [], d\<lparr>rd := 0x09 # rest\<rparr>)" by (intro DecodeAmf0String_bytes) simp_all
  then show ?case
    by (intro exI [of _ 0]) (simp add: f DecodeAmf0_entries.simps fbind_def pwrap_def AssertMarker_def pbind_def)
next
  case (Cons e m)
  obtain key v where e: "e = (key, v)" by force
  have kv: "key \<noteq> []" "length key \<le> 65535" "decodes0 v" using Cons.prems(1) e by auto
  obtain g where f: "f = Suc g" using Cons.prems(2) by (cases f) simp_all
  let ?r = "concat (map (\<lambda>(k, v). str_bytes k @ amf0_bytes v) m) @ [0, 0, 0x09] @ rest"
  let ?d1 = "d\<lparr>rd := amf0_bytes v @ ?r\<rparr>"
  have s: "DecodeAmf0String False d = (Ok key, ?d1)"
    using kv(2) Cons.prems(3) e by (intro DecodeAmf0String_bytes) simp_all
  have l1: "length (rd ?d1) < g" using Cons.prems(2,3) e f by (simp add: str_bytes_def)
  obtain k where k: "DecodeAmf0 g ?d1 = Some (Ok (amf0_norm v), ?d1\<lparr>rd := ?r, refCache := refCache ?d1 + k\<rparr>)"
    using decodes0D [OF kv(3) l1] by auto
  let ?d2 = "?d1\<lparr>rd := ?r, refCache := refCache ?d1 + k\<rparr>"
  let ?acc = "acc @ [(key, amf0_norm v)]"
  have put: "put_key key (amf0_norm v) acc = ?acc"
    using Cons.prems(4) e by (intro put_key_fresh) auto
  have "length (rd ?d2) < g" "distinct (map fst (?acc @ m))" using l1 Cons.prems(4) e by auto
  then obtain j where j: "DecodeAmf0_entries g ?acc ?d2 =
      Some (Ok (?acc @ map (\<lambda>(k, v). (k, amf0_norm v)) m), ?d2\<lparr>rd := rest, refCache := refCache ?d2 + j\<rparr>)"
    using Cons.IH [of ?d2 g ?acc] Cons.prems(1) by auto
  show ?case
    using s k j kv(1) put
    by (intro exI [of _ "k + j"]) (simp add: f e DecodeAmf0_entries.simps fbind_def fwrap_def add.assoc)
qed

lemma DecodeAmf0_Cons:
  "rd d = m # bs \<Longrightarrow> DecodeAmf0 (Suc g) d =
     amf0Switch (DecodeAmf0_entries g) (\<lambda>n. DecodeAmf0_elems g n []) (DecodeAmf3 g) m (d\<lparr>rd := bs\<rparr>)"
  by (simp add: DecodeAmf0.simps amf0Router_def fbind_def)

lemma decodes0I:
  assumes "amf0_bytes v = m # b"
    and "\<And>g d rest. length b + length rest < g \<Longrightarrow> rd d = b @ rest \<Longrightarrow>
      \<exists>k. amf0Switch (DecodeAmf0_entries g) (\<lambda>n. DecodeAmf0_elems g n []) (DecodeAmf3 g) m d =
        Some (Ok (amf0_norm v), d\<lparr>rd := rest, refCache := refCache d + k\<rparr>)"
  shows "decodes0 v"
  unfolding decodes0_def
proof (intro allI impI)
  fix f and d :: dstate and rest
  assume f: "length (rd d) < f" and d: "rd d = amf0_bytes v @ rest"
  obtain g where g: "f = Suc g" using f by (cases f) simp_all
  have "length b + length rest < g" using f d g assms(1) by simp
  from assms(2) [OF this, of "d\<lparr>rd := b @ rest\<rparr>"]
  show "\<exists>k. DecodeAmf0 f d = Some (Ok (amf0_norm v), d\<lparr>rd := rest, refCache := refCache d + k\<rparr>)"
    using DecodeAmf0_Cons [of d m "b @ rest" g] d assms(1) g by simp
qed

lemma decodes0_number:
  assumes "amf0_bytes v = 0x00 # be_bytes 8 x" and "amf0_norm v = VFloat x"
  shows "decodes0 v"
  by (rule decodes0I [OF assms(1)], rule exI [of _ 0])
    (simp add: assms(2) amf0Switch_def pbind_def DecodeAmf0Number_bytes)

lemma decodes0_array:
  assumes "length vs < 2 ^ 32" and "\<forall>v\<in>set vs. amf0_ok v \<and> decodes0 v"
  shows "decodes0 (VArray vs)"
proof (rule decodes0I)
  show "amf0_bytes (VArray vs) = 0x0a # (be_bytes 4 (of_nat (length vs) :: u32) @ concat (map amf0_bytes vs))" by simp
  fix g and d :: dstate and rest
  assume g: "length (be_bytes 4 (of_nat (length vs) :: u32) @ concat (map amf0_bytes vs)) + length rest < g"
    and d: "rd d = (be_bytes 4 (of_nat (length vs) :: u32) @ concat (map amf0_bytes vs)) @ rest"
  have r: "binary_Read 4 d = (Ok (be_bytes 4 (of_nat (length vs) :: u32)), d\<lparr>rd := concat (map amf0_bytes vs) @ rest\<rparr>)"
    using d by (intro binary_Read_append) simp_all
  let ?d = "d\<lparr>rd := concat (map amf0_bytes vs) @ rest, refCache := refCache d + 1\<rparr>"
  obtain k where "DecodeAmf0_elems g (length vs) [] ?d =
      Some (Ok ([] @ map amf0_norm vs), ?d\<lparr>rd := rest, refCache := refCache ?d + k\<rparr>)"
    using DecodeAmf0_elems_bytes [OF assms(2), of ?d g rest "[]"] g by auto
  then show "\<exists>k. amf0Switch (DecodeAmf0_entries g) (\<lambda>n. DecodeAmf0_elems g n []) (DecodeAmf3 g) 0x0a d =
      Some (Ok (amf0_norm (VArray vs)), d\<lparr>rd := rest, refCache := refCache d + k\<rparr>)"
    using r assms(1)
    by (intro exI [of _ "Suc k"])
      (simp add: amf0Switch_def DecodeAmf0StrictArray_def fbind_def pwrap_def addRefCache_def)
qed

lemma decodes0_object:
  assumes "distinct (map fst m)" and "\<forall>(k, v)\<in>set m. k \<noteq> [] \<and> length k \<le> 65535 \<and> decodes0 v"
  shows "decodes0 (VObject m)"
proof (rule decodes0I)
  let ?b = "concat (map (\<lambda>(k, v). str_bytes k @ amf0_bytes v) m) @ [0, 0, 0x09]"
  show "amf0_bytes (VObject m) = 0x03 # ?b" by simp
  fix g and d :: dstate and rest
  assume g: "length ?b + length rest < g" and d: "rd d = ?b @ rest"
  let ?d = "d\<lparr>refCache := refCache d + 1\<rparr>"
  obtain k where "DecodeAmf0_entries g [] ?d =
      Some (Ok ([] @ map (\<lambda>(k, v). (k, amf0_norm v)) m), ?d\<lparr>rd := rest, refCache := refCache ?d + k\<rparr>)"
    using DecodeAmf0_entries_bytes [OF assms(2), of ?d g rest "[]"] g d assms(1) by auto
  then show "\<exists>k. amf0Switch (DecodeAmf0_entries g) (\<lambda>n. DecodeAmf0_elems g n []) (DecodeAmf3 g) 0x03 d =
      Some (Ok (amf0_norm (VObject m)), d\<lparr>rd := rest, refCache := refCache d + k\<rparr>)"
    by (intro exI [of _ "Suc k"])
      (simp add: amf0Switch_def DecodeAmf0Object_def fbind_def addRefCache_def)
qed

lemma DecodeAmf0_bytes: "amf0_ok v \<Longrightarrow> decodes0 v"
proof (induction v rule: amf0_bytes.induct)
  case 1
  show ?case by (rule decodes0I [of _ 5 "[]"]) (auto simp: amf0Switch_def DecodeAmf0Null_def pbind_def intro!: exI [of _ 0])
next
  case (2 s)
  show ?case
  proof (cases "length s \<le> 65535")
    case True
    then show ?thesis
      by (intro decodes0I [of _ 2 "str_bytes s"])
        (auto simp: amf0Switch_def pbind_def DecodeAmf0String_bytes intro!: exI [of _ 0])
  next
    case False
    then have "s \<noteq> []" by auto
    then show ?thesis
      using 2 False DecodeAmf0LongString_bytes [of s]
      by (intro decodes0I [of _ 12 "be_bytes 4 (of_nat (length s) :: u32) @ s"])
        (auto simp: amf0Switch_def pbind_def intro!: exI [of _ 0])
  qed
next
  case (3 b)
  show ?case
    by (rule decodes0I [of _ 1 "[if b then 1 else 0]"])
      (auto simp: amf0Switch_def DecodeAmf0Boolean_def pbind_def ReadMarker_Cons [unfolded ReadMarker_def] intro!: exI [of _ 0])
next
  case (9 bs)
  have "decodes0 (VArray (map (\<lambda>b. VUint (unat b)) bs))"
    using 9 by (intro decodes0_array) (auto intro: decodes0_number)
  then show ?case by (simp add: decodes0_def comp_def)
next
  case (10 vs)
  then show ?case by (intro decodes0_array) auto
next
  case (11 m)
  have "decodes0 v" if "(k, v) \<in> set m" for k v using 11 that by fastforce
  then show ?case using 11(2) by (intro decodes0_object) auto
qed (simp_all add: decodes0_number)

section \<open>Properties of AMF0\<close>

lemma DecodeAmf0_new:
  assumes "amf0_ok v" and "length (amf0_bytes v @ rest) < f"
  shows "\<exists>d'. DecodeAmf0 f (NewDecoder (amf0_bytes v @ rest)) = Some (Ok (amf0_norm v), d')"
proof (rule decodes0D [OF DecodeAmf0_bytes [OF assms(1)]])
  show "length (rd (NewDecoder (amf0_bytes v @ rest))) < f" "rd (NewDecoder (amf0_bytes v @ rest)) = amf0_bytes v @ rest"
    using assms(2) by (simp_all add: NewDecoder_def)
qed auto

lemma EncodeBatch_bytes:
  "\<forall>v\<in>set vs. amf0_ok v \<Longrightarrow> EncodeBatch 0 vs w = (Ok 0, w @ concat (map amf0_bytes vs))"
  by (induction vs arbitrary: w) (simp_all add: amf_Encode_def pbind_def EncodeAmf0_bytes)

lemma DecodeBatch_loop_bytes:
  assumes "\<forall>v\<in>set vs. amf0_ok v" and "rd d = concat (map amf0_bytes vs)" and "length (rd d) < f" and "length vs < g"
  shows "\<exists>d'. DecodeBatch_loop g f 0 ret d = Some (Ok (ret @ map amf0_norm vs, EOF), d')"
  using assms
proof (induction vs arbitrary: g d ret)
  case Nil
  obtain h where "g = Suc h" using Nil.prems by (cases g) simp_all
  moreover obtain h' where "f = Suc h'" using Nil.prems by (cases f) simp_all
  moreover have "ReadMarker d = (Err EOF, d)"
    using Nil.prems by (simp add: ReadMarker_def ReadByte_def ReadBytes_def r_Read_def pbind_def)
  ultimately show ?case by (simp add: amf_Decode_def DecodeAmf0.simps amf0Router_def fbind_def)
next
  case (Cons v vs)
  obtain h where g: "g = Suc h" using Cons.prems by (cases g) simp_all
  let ?r = "concat (map amf0_bytes vs)"
  obtain k where k: "DecodeAmf0 f d = Some (Ok (amf0_norm v), d\<lparr>rd := ?r, refCache := refCache d + k\<rparr>)"
    using decodes0D [OF DecodeAmf0_bytes, of v d f ?r] Cons.prems by auto
  let ?d = "d\<lparr>rd := ?r, refCache := refCache d + k\<rparr>"
  obtain d' where "DecodeBatch_loop h f 0 (ret @ [amf0_norm v]) ?d = Some (Ok ((ret @ [amf0_norm v]) @ map amf0_norm vs, EOF), d')"
    using Cons.IH [of ?d h "ret @ [amf0_norm v]"] Cons.prems g by auto
  then show ?case using k by (simp add: g amf_Decode_def)
qed

lemma length_concat_nonempty: "\<forall>v\<in>set vs. b v \<noteq> [] \<Longrightarrow> length vs \<le> length (concat (map b vs))"
proof (induction vs)
  case (Cons v vs)
  then show ?case by (cases "b v") auto
qed simp

text \<open>
  C11: A command message: any list of values with lengths that fit, encoded with \<open>EncodeBatch\<close> and
  decoded with \<open>DecodeBatch\<close>, comes back complete and in order, numbers as float64, and the batch
  ends with the end of the input.
\<close>

theorem amf0_batch_roundtrip:
  assumes "\<forall>v\<in>set vs. amf0_ok v"
  shows "\<exists>b d'. EncodeBatch 0 vs w = (Ok 0, w @ b) \<and> DecodeBatch 0 (NewDecoder b) = Some (Ok (map amf0_norm vs, EOF), d')"
proof -
  let ?b = "concat (map amf0_bytes vs)"
  have "length vs \<le> length ?b" using assms amf0_bytes_nonempty by (intro length_concat_nonempty) auto
  then have "\<exists>d'. DecodeBatch_loop (length ?b + 1) (length ?b + 1) 0 [] (NewDecoder ?b) = Some (Ok ([] @ map amf0_norm vs, EOF), d')"
    using assms by (intro DecodeBatch_loop_bytes) (simp_all add: NewDecoder_def)
  then show ?thesis
    using EncodeBatch_bytes [OF assms, of w] by (auto simp: DecodeBatch_def NewDecoder_def Let_def)
qed

theorem amf0_batch_roundtrip_witness:
  "\<exists>b d'. EncodeBatch 0 [VStr (chars ''connect''), VInt 1, VObject [(chars ''app'', VStr (chars ''live'')), (chars ''x'', VArray [VNil, VBool True])]] [] = (Ok 0, b) \<and>
    DecodeBatch 0 (NewDecoder b) = Some (Ok ([VStr (chars ''connect''), VFloat (f64_of_int 1),
      VObject [(chars ''app'', VStr (chars ''live'')), (chars ''x'', VArray [VNil, VBool True])]], EOF), d')"
  using amf0_batch_roundtrip [of "[VStr (chars ''connect''), VInt 1,
    VObject [(chars ''app'', VStr (chars ''live'')), (chars ''x'', VArray [VNil, VBool True])]]" "[]"]
  by (simp add: chars_def)

text \<open>
  C25: Decoding ends for every input of every version, whatever bytes a peer sends; and AMF0 input
  that contains no AMF3 marker byte never panics.
\<close>

theorem amf_decode_terminates:
  "(\<exists>r d'. DecodeBatch ver d = Some (r, d') \<and> (ver = 0 \<and> 0x11 \<notin> set (rd d) \<longrightarrow> r \<noteq> Panic)) \<and>
   (\<exists>r. MetaDataReform p flag = Some r)"
proof
  show "\<exists>r d'. DecodeBatch ver d = Some (r, d') \<and> (ver = 0 \<and> 0x11 \<notin> set (rd d) \<longrightarrow> r \<noteq> Panic)"
    unfolding DecodeBatch_def Let_def by (rule DecodeBatch_loop_returns) simp_all
  obtain r d' where "amf_Decode (length p + 1) 0 (NewDecoder p) = Some (r, d')"
  proof (rule amf_Decode_forward [of "NewDecoder p" "length p + 1" 0])
    show "length (rd (NewDecoder p)) < length p + 1" by (simp add: NewDecoder_def)
  qed
  then show "\<exists>r. MetaDataReform p flag = Some r"
    by (auto simp: MetaDataReform_def split: res.splits val.splits)
qed

theorem amf_decode_terminates_witness:
  "\<exists>r d'. DecodeBatch 0 (NewDecoder [0x03, 0x00]) = Some (r, d') \<and> r \<noteq> Panic"
  using amf_decode_terminates [of 0 "NewDecoder [0x03, 0x00]" "[]" 0] by (auto simp: NewDecoder_def)

text \<open>
  Integers below 2^53 in absolute value survive: what the encoder sends as a float64, read back
  and converted to an integer as the command handlers do, is the integer.
\<close>

theorem amf0_integers_exact:
  assumes "\<bar>n\<bar> < 2 ^ 53" and "EncodeAmf0 (VInt n) [] = (Ok k, b)" and "length b < f"
  shows "\<exists>x d'. DecodeAmf0 f (NewDecoder b) = Some (Ok (VFloat x), d') \<and> f64_trunc x = n"
proof -
  have "b = amf0_bytes (VInt n) @ []" using assms(2) by simp
  then have "\<exists>d'. DecodeAmf0 f (NewDecoder b) = Some (Ok (amf0_norm (VInt n)), d')"
    using DecodeAmf0_new [of "VInt n" "[]" f] assms(3) by simp
  then show ?thesis using f64_roundtrip [OF assms(1)] by auto
qed

theorem amf0_integers_exact_witness:
  "\<exists>x d'. DecodeAmf0 10 (NewDecoder (0x00 # be_bytes 8 (f64_of_int 5))) = Some (Ok (VFloat x), d') \<and> f64_trunc x = 5"
  using amf0_integers_exact [of 5 9 "0x00 # be_bytes 8 (f64_of_int 5)" 10] by simp

text \<open>
  C40: \<open>MetaDataReform\<close> prepends the encoded \<open>@setDataFrame\<close> command when publishing, and only once: metadata that already
  starts with it stays as it is. For players it is stripped again, so that metadata that starts with another string is restored exactly.
\<close>

theorem metadata_reform_roundtrip:
  assumes "amf_Decode (length p + 1) 0 (NewDecoder p) = Some (Ok (VStr s), d)" and "s \<noteq> SetDataFrame"
  shows "MetaDataReform p 0 = Some (Ok (setFrameFrame @ p)) \<and> MetaDataReform (setFrameFrame @ p) 3 = Some (Ok p) \<and>
    MetaDataReform (setFrameFrame @ p) 0 = Some (Ok (setFrameFrame @ p)) \<and> setFrameFrame = [0x02, 0x00, 0x0d] @ chars ''@setDataFrame''"
proof -
  let ?q = "setFrameFrame @ p"
  have l: "length SetDataFrame \<le> 65535" by (simp add: SetDataFrame_def chars_def)
  then have s: "setFrameFrame = amf0_bytes (VStr SetDataFrame)" by (simp add: setFrameFrame_def amf_Encode_def)
  have "\<exists>d'. DecodeAmf0 (length ?q + 1) (NewDecoder ?q) = Some (Ok (VStr SetDataFrame), d')"
    using DecodeAmf0_new [of "VStr SetDataFrame" p "length ?q + 1"] l by (simp add: s)
  then have "MetaDataReform ?q 3 = Some (Ok p)" "MetaDataReform ?q 0 = Some (Ok ?q)"
    by (auto simp: MetaDataReform_def amf_Decode_def slice_def)
  moreover have "setFrameFrame = [0x02, 0x00, 0x0d] @ chars ''@setDataFrame''"
  proof -
    have n: "length SetDataFrame = 13" by (simp add: SetDataFrame_def chars_def)
    have "be_bytes 2 (13 :: u16) = [0x00, 0x0d]" unfolding numeral_2_eq_2 by simp
    then have "setFrameFrame = [0x02, 0x00, 0x0d] @ SetDataFrame" unfolding s by (simp add: str_bytes_def n)
    then show ?thesis by (simp only: SetDataFrame_def)
  qed
  ultimately show ?thesis using assms by (simp add: MetaDataReform_def)
qed

theorem metadata_reform_roundtrip_witness:
  "MetaDataReform [0x02, 0x00, 0x01, 0x61] 0 = Some (Ok (setFrameFrame @ [0x02, 0x00, 0x01, 0x61])) \<and>
   MetaDataReform (setFrameFrame @ [0x02, 0x00, 0x01, 0x61]) 3 = Some (Ok [0x02, 0x00, 0x01, 0x61])"
proof -
  have l: "length (SetDataFrame) \<noteq> length [0x61 :: u8]" by (simp add: SetDataFrame_def chars_def)
  have "amf0_bytes (VStr [0x61]) @ [] = [0x02, 0x00, 0x01, 0x61]" by (simp add: str_bytes_def numeral_2_eq_2)
  then have "\<exists>d. amf_Decode (length [0x02, 0x00, 0x01, 0x61 :: u8] + 1) 0 (NewDecoder [0x02, 0x00, 0x01, 0x61]) = Some (Ok (VStr [0x61]), d)"
    using DecodeAmf0_new [of "VStr [0x61]" "[]" "length [0x02, 0x00, 0x01, 0x61 :: u8] + 1"] by (simp add: amf_Decode_def)
  then show ?thesis using l by (metis metadata_reform_roundtrip)
qed

end
