(* ===== verification/Loops.thy ===== *)
theory Loops
  imports Amf
begin

text \<open>
  Loops that run until a turn produces a result: the \<open>for\<close> loops over messages of a connection. A
  loop that does not end is \<open>None\<close>. The locale \<open>progress\<close> says that every turn that goes on makes
  something smaller, and gives that the loop returns; the invariant rule is for what it returns.
\<close>

section \<open>The loop\<close>

partial_function (option) run_loop :: "('s \<Rightarrow> 'r option res \<times> 's) \<Rightarrow> 's \<Rightarrow> ('r res \<times> 's) option" where
  "run_loop turn s =
     (case turn s of (r, s') \<Rightarrow>
       (case r of
          Ok x \<Rightarrow> (case x of None \<Rightarrow> run_loop turn s' | Some y \<Rightarrow> Some (Ok y, s'))
        | Err e \<Rightarrow> Some (Err e, s')
        | Panic \<Rightarrow> Some (Panic, s')))"

lemma run_loop_simps:
  "turn s = (Ok (Some y), s') \<Longrightarrow> run_loop turn s = Some (Ok y, s')"
  "turn s = (Ok None, s') \<Longrightarrow> run_loop turn s = run_loop turn s'"
  "turn s = (Err e, s') \<Longrightarrow> run_loop turn s = Some (Err e, s')"
  "turn s = (Panic, s') \<Longrightarrow> run_loop turn s = Some (Panic, s')"
  by (simp_all add: run_loop.simps)

locale progress =
  fixes turn :: "'s \<Rightarrow> 'r option res \<times> 's" and meas :: "'s \<Rightarrow> nat"
  assumes goes_on: "turn s = (Ok None, s') \<Longrightarrow> meas s' < meas s"
begin

lemma returns: "\<exists>r s'. run_loop turn s = Some (r, s')"
proof (induction "meas s" arbitrary: s rule: less_induct)
  case less
  obtain r s' where t: "turn s = (r, s')" by fastforce
  show ?case
  proof (cases r)
    case (Ok x)
    show ?thesis
    proof (cases x)
      case None
      then show ?thesis using less goes_on t Ok by (simp add: run_loop_simps(2))
    next
      case (Some y)
      then show ?thesis using t Ok by (simp add: run_loop_simps(1))
    qed
  qed (use t in \<open>simp_all add: run_loop_simps\<close>)
qed

text \<open>Partial-correctness rule: \<open>I\<close> holds at the head of the loop, \<open>Q\<close> of the last turn.\<close>

lemma run_loop_rule:
  assumes "run_loop turn s = Some (r, t)" and "I s"
    and "\<And>s s'. I s \<Longrightarrow> turn s = (Ok None, s') \<Longrightarrow> I s'"
    and "\<And>s s' x. I s \<Longrightarrow> turn s = (Ok (Some x), s') \<Longrightarrow> Q (Ok x) s'"
    and "\<And>s s' e. I s \<Longrightarrow> turn s = (Err e, s') \<Longrightarrow> Q (Err e) s'"
    and "\<And>s s'. I s \<Longrightarrow> turn s = (Panic, s') \<Longrightarrow> Q Panic s'"
  shows "Q r t"
  using assms(1,2)
proof (induction "meas s" arbitrary: s rule: less_induct)
  case less
  obtain q s' where t: "turn s = (q, s')" by fastforce
  show ?case
  proof (cases q)
    case (Ok x)
    show ?thesis
    proof (cases x)
      case None
      then have "run_loop turn s' = Some (r, t)" "I s'" "meas s' < meas s"
        using less.prems t Ok goes_on assms(3) by (simp_all add: run_loop_simps(2))
      then show ?thesis using less.hyps by blast
    next
      case (Some y)
      then show ?thesis using less.prems t Ok assms(4) by (auto simp: run_loop_simps(1))
    qed
  next
    case (Err e)
    then show ?thesis using less.prems t assms(5) by (auto simp: run_loop_simps(3))
  next
    case Panic
    then show ?thesis using less.prems t assms(6) by (auto simp: run_loop_simps(4))
  qed
qed

end

section \<open>Frames\<close>

text \<open>\<open>keeps g m\<close>: the operation \<open>m\<close> leaves the part \<open>g\<close> of the state as it is, whatever its result.\<close>

definition keeps :: "('s \<Rightarrow> 'v) \<Rightarrow> ('s, 'a) prog \<Rightarrow> bool" where
  "keeps g m \<longleftrightarrow> (\<forall>s. g (snd (m s)) = g s)"

named_theorems keeps_rules "operations that leave a part of the state alone"

lemma keepsI: "(\<And>s. g (snd (m s)) = g s) \<Longrightarrow> keeps g m"
  by (simp add: keeps_def)

lemma keepsD: "keeps g m \<Longrightarrow> m s = (r, s') \<Longrightarrow> g s' = g s"
  unfolding keeps_def by (metis snd_conv)

lemma keeps_pbind [keeps_rules]: "keeps g m \<Longrightarrow> (\<And>x. keeps g (f x)) \<Longrightarrow> keeps g (pbind m f)"
  unfolding keeps_def pbind_def by (auto split: prod.splits res.splits) (metis snd_conv)+

lemma keeps_pwrap [keeps_rules]: "keeps g m \<Longrightarrow> keeps g (pwrap s m)"
  unfolding keeps_def pwrap_def by (auto split: prod.splits res.splits) (metis snd_conv)+

lemma keeps_pure [keeps_rules]: "keeps g (preturn x)" "keeps g (perr s)" "keeps g (\<lambda>s. (f s, s))"
  by (simp_all add: keeps_def preturn_def perr_def)

lemma keeps_if [keeps_rules]: "(b \<Longrightarrow> keeps g m) \<Longrightarrow> (\<not> b \<Longrightarrow> keeps g m') \<Longrightarrow> keeps g (if b then m else m')"
  by simp

lemma keeps_pairs [keeps_rules]: "(\<And>x y. keeps g (f x y)) \<Longrightarrow> keeps g (case p of (x, y) \<Rightarrow> f x y)"
  by (cases p) simp

lemma keeps_VStr [keeps_rules]:
  "(\<And>s. keeps g (f s)) \<Longrightarrow> keeps g m \<Longrightarrow> keeps g (case v of VStr s \<Rightarrow> f s | _ \<Rightarrow> m)"
  by (cases v) simp_all

end
