(* ===== verification/ForwardConn.thy ===== *)
theory ForwardConn
  imports Conversation Amf0 Loops "HOL-Library.Multiset"
begin

text \<open>
  The server side of a connection, \<open>protocol/core/forward_conn.go\<close>: the commands a client sends to
  set up a stream, the responses, and the forwarding of messages. Go maps have no fixed iteration
  order, so the order in which the entries of a response object are written is an argument
  (\<open>order\<close>); logging is left out.
\<close>

section \<open>State\<close>

record ConnectInfo =
  App :: bytes
  Flashver :: bytes
  SwfURL :: bytes
  TcURL :: bytes
  Fpad :: bool
  AudioCodecs :: int
  VideoCodecs :: int
  VideoFunction :: int
  PageURL :: bytes
  ObjectEncoding :: int

record PublishInfo =
  PName :: bytes
  PType :: bytes

record ForwardConnect =
  fdone :: bool
  fstreamID :: int
  isPublisher :: bool
  fconn :: RtmpConn
  transactionID :: int
  ConnInfo :: ConnectInfo
  PubInfo :: PublishInfo
  decoder :: Decoder

definition NewForwardConnect :: "RtmpConn \<Rightarrow> ForwardConnect" where
  "NewForwardConnect conn = \<lparr>fdone = False, fstreamID = 1, isPublisher = False, fconn = conn, transactionID = 0,
     ConnInfo = \<lparr>App = [], Flashver = [], SwfURL = [], TcURL = [], Fpad = False, AudioCodecs = 0, VideoCodecs = 0,
       VideoFunction = 0, PageURL = [], ObjectEncoding = 0\<rparr>,
     PubInfo = \<lparr>PName = [], PType = []\<rparr>,
     decoder = \<lparr>refCache = 0, stringRefs = [], objectRefs = [], traitRefs = []\<rparr>\<rparr>"

type_synonym order = "(bytes \<times> val) list \<Rightarrow> (bytes \<times> val) list"

section \<open>Responses\<close>

text \<open>The result of \<open>Write\<close> is dropped; only a panic comes through.\<close>

definition fcWrite_ignored :: "ChunkStream \<Rightarrow> ForwardConnect \<Rightarrow> unit res \<times> ForwardConnect" where
  "fcWrite_ignored c fc =
     (case Write c (fconn fc) of (r, _, conn) \<Rightarrow> (if r = Panic then Panic else Ok (), fc\<lparr>fconn := conn\<rparr>))"

definition fc_Flush :: "ForwardConnect \<Rightarrow> unit res \<times> ForwardConnect" where
  "fc_Flush fc = (case conn_Flush (fconn fc) of (r, conn) \<Rightarrow> (r, fc\<lparr>fconn := conn\<rparr>))"

definition writeMsg :: "u32 \<Rightarrow> u32 \<Rightarrow> val list \<Rightarrow> (ForwardConnect, unit) prog" where
  "writeMsg csid sid args fc =
     (case EncodeBatch 0 args [] of
        (Ok _, msg) \<Rightarrow>
          pbind (fcWrite_ignored (zeroChunkStream\<lparr>Format := 0, CSID := csid, Timestamp := 0, TypeID := 20,
              StreamID := sid, Length := of_nat (length msg), Data := msg\<rparr>)) (\<lambda>_. fc_Flush) fc
      | (Err e, _) \<Rightarrow> (Err e, fc)
      | (Panic, _) \<Rightarrow> (Panic, fc))"

definition sendControl :: "ChunkStream res \<Rightarrow> (ForwardConnect, unit) prog" where
  "sendControl c fc = (case c of Ok c' \<Rightarrow> fcWrite_ignored c' fc | Err e \<Rightarrow> (Err e, fc) | Panic \<Rightarrow> (Panic, fc))"

definition connectResp :: "order \<Rightarrow> ChunkStream \<Rightarrow> (ForwardConnect, unit) prog" where
  "connectResp order cur =
     pbind (sendControl (NewWindowAckSize 2500000)) (\<lambda>_.
     pbind (sendControl (NewSetPeerBandwidth 2500000)) (\<lambda>_.
     pbind (sendControl (NewSetChunkSize 1024)) (\<lambda>_ fc.
     writeMsg (CSID cur) (StreamID cur)
       [VStr (chars ''_result''), VInt (transactionID fc),
        VObject (order [(chars ''fmsVer'', VStr (chars ''FMS/3,0,1,123'')), (chars ''capabilities'', VInt 31)]),
        VObject (order [(chars ''level'', VStr (chars ''status'')), (chars ''code'', VStr (chars ''NetConnection.Connect.Success'')),
          (chars ''description'', VStr (chars ''Connection succeeded.'')),
          (chars ''objectEncoding'', VInt (ObjectEncoding (ConnInfo fc)))])] fc)))"

definition createStreamResp :: "ChunkStream \<Rightarrow> (ForwardConnect, unit) prog" where
  "createStreamResp cur fc =
     writeMsg (CSID cur) (StreamID cur) [VStr (chars ''_result''), VInt (transactionID fc), VNil, VInt (fstreamID fc)] fc"

definition status :: "order \<Rightarrow> string \<Rightarrow> string \<Rightarrow> val list" where
  "status order code description =
     [VStr (chars ''onStatus''), VInt 0, VNil,
      VObject (order [(chars ''level'', VStr (chars ''status'')), (chars ''code'', VStr (chars code)),
        (chars ''description'', VStr (chars description))])]"

definition publishResp :: "order \<Rightarrow> ChunkStream \<Rightarrow> (ForwardConnect, unit) prog" where
  "publishResp order cur =
     writeMsg (CSID cur) (StreamID cur) (status order ''NetStream.Publish.Start'' ''Start publising.'')"

definition onConn :: "(RtmpConn \<Rightarrow> unit res \<times> RtmpConn) \<Rightarrow> (ForwardConnect, unit) prog" where
  "onConn f fc = (case f (fconn fc) of (r, conn) \<Rightarrow> (r, fc\<lparr>fconn := conn\<rparr>))"

definition playResp :: "order \<Rightarrow> ChunkStream \<Rightarrow> (ForwardConnect, unit) prog" where
  "playResp order cur =
     (let send = (\<lambda>code description. writeMsg (CSID cur) (StreamID cur) (status order code description)) in
      pbind (onConn SetRecorded) (\<lambda>_.
      pbind (onConn SetBegin) (\<lambda>_.
      pbind (send ''NetStream.Play.Reset'' ''Playing and resetting stream.'') (\<lambda>_.
      pbind (send ''NetStream.Play.Start'' ''Started playing stream.'') (\<lambda>_.
      pbind (send ''NetStream.Data.Start'' ''Started playing stream.'') (\<lambda>_.
      pbind (send ''NetStream.Play.PublishNotify'' ''Started playing notify.'') (\<lambda>_.
      fc_Flush)))))))"

section \<open>Commands\<close>

text \<open>A failed type assertion panics.\<close>

definition asString :: "val \<Rightarrow> bytes res" where
  "asString v = (case v of VStr s \<Rightarrow> Ok s | _ \<Rightarrow> Panic)"

definition asFloat :: "val \<Rightarrow> u64 res" where
  "asFloat v = (case v of VFloat x \<Rightarrow> Ok x | _ \<Rightarrow> Panic)"

definition ifPresent :: "string \<Rightarrow> obj \<Rightarrow> (val \<Rightarrow> 'a res) \<Rightarrow> ('a \<Rightarrow> ConnectInfo \<Rightarrow> ConnectInfo) \<Rightarrow> ConnectInfo \<Rightarrow> ConnectInfo res" where
  "ifPresent key m cast upd info =
     (case map_of m (chars key) of None \<Rightarrow> Ok info | Some v \<Rightarrow> res_bind (cast v) (\<lambda>a. Ok (upd a info)))"

definition connectObject :: "obj \<Rightarrow> ConnectInfo \<Rightarrow> ConnectInfo res" where
  "connectObject m info =
     res_bind (ifPresent ''app'' m asString (\<lambda>s i. i\<lparr>App := s\<rparr>) info) (\<lambda>info1.
     res_bind (ifPresent ''flashVer'' m asString (\<lambda>s i. i\<lparr>Flashver := s\<rparr>) info1) (\<lambda>info2.
     res_bind (ifPresent ''tcUrl'' m asString (\<lambda>s i. i\<lparr>TcURL := s\<rparr>) info2) (\<lambda>info3.
     ifPresent ''objectEncoding'' m asFloat (\<lambda>x i. i\<lparr>ObjectEncoding := f64_trunc x\<rparr>) info3)))"

fun fc_connect :: "val list \<Rightarrow> (ForwardConnect, unit) prog" where
  "fc_connect [] fc = (Ok (), fc)"
| "fc_connect (v # vs) fc =
     (case v of
        VFloat x \<Rightarrow>
          (if f64_trunc x \<noteq> 1 then (Err (Errorf ''req error''), fc)
           else fc_connect vs (fc\<lparr>transactionID := f64_trunc x\<rparr>))
      | VObject m \<Rightarrow>
          (case connectObject m (ConnInfo fc) of
             Ok info \<Rightarrow> fc_connect vs (fc\<lparr>ConnInfo := info\<rparr>)
           | Err e \<Rightarrow> (Err e, fc)
           | Panic \<Rightarrow> (Panic, fc))
      | _ \<Rightarrow> fc_connect vs fc)"

fun createStream :: "val list \<Rightarrow> (ForwardConnect, unit) prog" where
  "createStream [] fc = (Ok (), fc)"
| "createStream (v # vs) fc =
     (case v of VFloat x \<Rightarrow> createStream vs (fc\<lparr>transactionID := f64_trunc x\<rparr>) | _ \<Rightarrow> createStream vs fc)"

fun publishOrPlay_loop :: "nat \<Rightarrow> val list \<Rightarrow> (ForwardConnect, unit) prog" where
  "publishOrPlay_loop k [] fc = (Ok (), fc)"
| "publishOrPlay_loop k (v # vs) fc =
     publishOrPlay_loop (Suc k) vs
       (case v of
          VStr s \<Rightarrow> (if k = 2 then fc\<lparr>PubInfo := (PubInfo fc)\<lparr>PName := s\<rparr>\<rparr>
            else if k = 3 then fc\<lparr>PubInfo := (PubInfo fc)\<lparr>PType := s\<rparr>\<rparr> else fc)
        | VFloat x \<Rightarrow> fc\<lparr>transactionID := f64_trunc x\<rparr>
        | _ \<Rightarrow> fc)"

definition publishOrPlay :: "val list \<Rightarrow> (ForwardConnect, unit) prog" where
  "publishOrPlay vs = publishOrPlay_loop 0 vs"

definition releaseStream :: "val list \<Rightarrow> (ForwardConnect, unit) prog" where
  "releaseStream vs = preturn ()"

definition fcPublish :: "val list \<Rightarrow> (ForwardConnect, unit) prog" where
  "fcPublish vs = preturn ()"

section \<open>The command loop\<close>

text \<open>
  The values of a command message. A message of type 17 has a leading byte that is cut off (slicing
  an empty message panics). \<open>DecodeBatch\<close> always returns, so its \<open>None\<close> is never taken.
\<close>

definition commandBytes :: "ChunkStream \<Rightarrow> bytes res" where
  "commandBytes c = (if TypeID c = 17 then slice 1 (length (Data c)) (Data c) else Ok (Data c))"

definition decodeCommand :: "bytes \<Rightarrow> (ForwardConnect, val list \<times> err) prog" where
  "decodeCommand b fc =
     (case DecodeBatch 0 (Decoder.extend (decoder fc) \<lparr>rd = b\<rparr>) of
        Some (r, d) \<Rightarrow> (r, fc\<lparr>decoder := Decoder.truncate d\<rparr>)
      | None \<Rightarrow> (Panic, fc))"

definition setPublisher :: "bool \<Rightarrow> (ForwardConnect, unit) prog" where
  "setPublisher b fc = (Ok (), fc\<lparr>isPublisher := b\<rparr>)"

text \<open>What \<open>SetUpPlayOrPublish\<close> does with one command; \<open>Some ()\<close> ends the loop.\<close>

definition SetUp_command :: "order \<Rightarrow> ChunkStream \<Rightarrow> val list \<Rightarrow> bytes \<Rightarrow> (ForwardConnect, unit option) prog" where
  "SetUp_command order chunk vs cmd =
     (let args = drop 1 vs in
      if cmd = chars ''connect'' then
        pbind (pwrap ''handle connect cmd failed'' (fc_connect args)) (\<lambda>_.
        pbind (pwrap ''connect response failed'' (connectResp order chunk)) (\<lambda>_. preturn None))
      else if cmd = chars ''createStream'' then
        pbind (pwrap ''handle create stream cmd failed'' (createStream args)) (\<lambda>_.
        pbind (pwrap ''create stream response failed'' (createStreamResp chunk)) (\<lambda>_. preturn None))
      else if cmd = chars ''publish'' then
        pbind (pwrap ''handle publish command failed'' (publishOrPlay args)) (\<lambda>_.
        pbind (pwrap ''publish response failed'' (publishResp order chunk)) (\<lambda>_.
        pbind (setPublisher True) (\<lambda>_. preturn (Some ()))))
      else if cmd = chars ''play'' then
        pbind (pwrap ''handle play command failed'' (publishOrPlay args)) (\<lambda>_.
        pbind (pwrap ''play response failed'' (playResp order chunk)) (\<lambda>_.
        pbind (setPublisher False) (\<lambda>_. preturn (Some ()))))
      else if cmd = chars ''FCPublish'' then pbind (fcPublish vs) (\<lambda>_. preturn None)
      else if cmd = chars ''releaseStream'' then pbind (releaseStream vs) (\<lambda>_. preturn None)
      else preturn None)"

definition SetUp_message :: "order \<Rightarrow> ChunkStream \<Rightarrow> (ForwardConnect, unit option) prog" where
  "SetUp_message order chunk =
     (if TypeID chunk \<noteq> 17 \<and> TypeID chunk \<noteq> 20 then preturn None
      else
        pbind (\<lambda>fc. (commandBytes chunk, fc)) (\<lambda>b.
        pbind (decodeCommand b) (\<lambda>(vs, e).
        if e \<noteq> EOF then perr ''Amf DecodeBatch failed''
        else
          pbind (\<lambda>fc. (index vs 0, fc)) (\<lambda>v.
          case v of VStr cmd \<Rightarrow> SetUp_command order chunk vs cmd | _ \<Rightarrow> preturn None))))"

definition fc_Read :: "(ForwardConnect, ChunkStream) prog" where
  "fc_Read fc = (case Read (fconn fc) of (r, conn) \<Rightarrow> (r, fc\<lparr>fconn := conn\<rparr>))"

definition SetUp_turn :: "order \<Rightarrow> (ForwardConnect, unit option) prog" where
  "SetUp_turn order = pbind (pwrap ''Read chunk stream failed'' fc_Read) (SetUp_message order)"

definition SetUpPlayOrPublish :: "order \<Rightarrow> ForwardConnect \<Rightarrow> (unit res \<times> ForwardConnect) option" where
  "SetUpPlayOrPublish order = run_loop (SetUp_turn order)"

text \<open>\<open>ReadMsg\<close> and \<open>handleCmdMsg\<close>: the same commands with \<open>done\<close> as the end of the loop.\<close>

definition setDone :: "bool \<Rightarrow> (ForwardConnect, unit) prog" where
  "setDone publisher fc = (Ok (), fc\<lparr>fdone := True, isPublisher := publisher\<rparr>)"

definition handleCommand :: "order \<Rightarrow> ChunkStream \<Rightarrow> val list \<Rightarrow> bytes \<Rightarrow> (ForwardConnect, unit) prog" where
  "handleCommand order c vs cmd =
     (let args = drop 1 vs in
      if cmd = chars ''connect'' then pbind (fc_connect args) (\<lambda>_. connectResp order c)
      else if cmd = chars ''createStream'' then pbind (createStream args) (\<lambda>_. createStreamResp c)
      else if cmd = chars ''publish'' then
        pbind (publishOrPlay args) (\<lambda>_. pbind (publishResp order c) (\<lambda>_. setDone True))
      else if cmd = chars ''play'' then
        pbind (publishOrPlay args) (\<lambda>_. pbind (playResp order c) (\<lambda>_. setDone False))
      else if cmd = chars ''FCPublish'' then fcPublish vs
      else if cmd = chars ''releaseStream'' then releaseStream vs
      else preturn ())"

definition handleCmdMsg :: "order \<Rightarrow> ChunkStream \<Rightarrow> (ForwardConnect, unit) prog" where
  "handleCmdMsg order c =
     pbind (\<lambda>fc. (commandBytes c, fc)) (\<lambda>b.
     pbind (decodeCommand b) (\<lambda>(vs, e).
     if e \<noteq> EOF then (\<lambda>fc. (Err e, fc))
     else pbind (\<lambda>fc. (index vs 0, fc)) (\<lambda>v.
       case v of VStr cmd \<Rightarrow> handleCommand order c vs cmd | _ \<Rightarrow> preturn ())))"

definition ReadMsg_turn :: "order \<Rightarrow> (ForwardConnect, unit option) prog" where
  "ReadMsg_turn order =
     pbind fc_Read (\<lambda>c.
     pbind (if TypeID c = 20 \<or> TypeID c = 17 then handleCmdMsg order c else preturn ()) (\<lambda>_ fc.
     (Ok (if fdone fc then Some () else None), fc)))"

definition ReadMsg :: "order \<Rightarrow> ForwardConnect \<Rightarrow> (unit res \<times> ForwardConnect) option" where
  "ReadMsg order = run_loop (ReadMsg_turn order)"

section \<open>Forwarding\<close>

definition fc_Write :: "ChunkStream \<Rightarrow> (ForwardConnect, unit) prog" where
  "fc_Write c fc =
     (let send = (\<lambda>c'. case Write c' (fconn fc) of (r, _, conn) \<Rightarrow> (r, fc\<lparr>fconn := conn\<rparr>)) in
      if TypeID c = TAG_SCRIPTDATAAMF0 \<or> TypeID c = TAG_SCRIPTDATAAMF3 then
        (case MetaDataReform (Data c) 3 of
           Some (Ok d) \<Rightarrow> send (c\<lparr>Data := d, Length := of_nat (length d)\<rparr>)
         | Some (Err e) \<Rightarrow> (Err e, fc)
         | Some Panic \<Rightarrow> (Panic, fc)
         | None \<Rightarrow> (Panic, fc))
      else send c)"

definition IsPublisher :: "ForwardConnect \<Rightarrow> bool" where
  "IsPublisher fc = isPublisher fc"

definition GetStreamInfo :: "ForwardConnect \<Rightarrow> bytes \<times> bytes \<times> bytes" where
  "GetStreamInfo fc = (App (ConnInfo fc), PName (PubInfo fc), TcURL (ConnInfo fc) @ chars ''/'' @ PName (PubInfo fc))"

section \<open>The loops return\<close>

text \<open>Nothing but \<open>Read\<close> touches the input of the connection.\<close>

abbreviation pending :: "ForwardConnect \<Rightarrow> nat" where
  "pending fc \<equiv> length (rin (rw (fconn fc)))"

section \<open>Writing leaves the input alone\<close>

text \<open>
  No write touches the reading half of the connection, whatever the message and whatever goes wrong.
\<close>

lemma rin_writes [simp]:
  "rin (skip_err (WriteUintBE v n) w) = rin w" "rin (skip_err (WriteUintLE v n) w) = rin w"
  "rin (snd (rw_Write p w)) = rin w"
  using emitted_BE [of w n v] emitted_LE [of w n v] rw_write.emit_frame [of w p]
  unfolding emitted_def rd_same_def by blast+

lemma rin_rw_Flush [simp]: "rin (snd (rw_Flush w)) = rin w"
  using bufio_Flush_spec(2) [of w, OF surjective_pairing]
  by (simp add: rw_Flush_def rd_same_def split: option.split)

lemma rin_writeHeader [simp]: "rin (snd (writeHeader cs w)) = rin w"
  by (simp add: writeHeader_def writeExtended_def writeBasicHeader_def Let_def)

lemma rin_writeHeader_eq: "writeHeader cs w = (r, w') \<Longrightarrow> rin w' = rin w"
  using rin_writeHeader [of cs w] by simp

lemma rin_rw_Write_eq: "rw_Write p w = (r, w') \<Longrightarrow> rin w' = rin w"
  using rin_writes(3) [of p w] by simp

lemma rin_writeChunk_loop [simp]: "rin (snd (snd (writeChunk_loop n k i t cs w))) = rin w"
proof (induction n k i t cs w rule: writeChunk_loop.induct)
  case (1 n k i t cs w)
  define c where "c = cs\<lparr>Format := (if i = 0 then 0 else 3 :: u32)\<rparr>"
  obtain h w1 where h: "writeHeader c w = (h, w1)" by fastforce
  define inc where "inc = (if of_nat (length (Data c)) - of_nat i * k \<le> k
      then of_nat (length (Data c)) - of_nat i * k else k)"
  define sl where "sl = slice (unat (of_nat i * k)) (unat (of_nat i * k + inc)) (Data c)"
  obtain x w2 where x: "rw_Write (case sl of Ok b \<Rightarrow> b | _ \<Rightarrow> []) w1 = (x, w2)" by fastforce
  note IH = "1.IH" [OF _ _ c_def h [symmetric] _ refl refl inc_def, folded sl_def]
  note defs = writeChunk_loop.simps [of n k i t cs w] Let_def c_def [symmetric] inc_def [symmetric] sl_def [symmetric]
  show ?case
  proof (cases "n < i \<or> t = Length cs")
    case False
    then show ?thesis
      using IH h x rin_writeHeader_eq [OF h] rin_rw_Write_eq [OF x]
      by (cases h; cases sl; cases x) (simp_all add: defs)
  next
    case True
    then show ?thesis by (elim disjE) (simp_all add: writeChunk_loop.simps [of n k i _ cs w])
  qed
qed

lemma rin_writeChunk [simp]: "rin (snd (snd (writeChunk c k w))) = rin w"
  by (simp add: writeChunk_def Let_def)

text \<open>An operation is \<open>quiet\<close> when it leaves the input of the connection as it is.\<close>

abbreviation quiet :: "(ForwardConnect, 'a) prog \<Rightarrow> bool" where
  "quiet m \<equiv> keeps (\<lambda>fc. rin (rw (fconn fc))) m"

lemma quiet_flags [keeps_rules]: "quiet (setPublisher b)" "quiet (setDone b)"
  by (simp_all add: keeps_def setPublisher_def setDone_def)

lemma rin_Write [simp]: "rin (rw (snd (snd (Write c conn)))) = rin (rw conn)"
proof -
  have "rin (rw (snd (snd (conn_writeChunk c conn)))) = rin (rw conn)" for conn
    using rin_writeChunk [of c "chunkSize conn" "rw conn"]
    by (auto simp: conn_writeChunk_def simp del: rin_writeChunk split: prod.splits)
  then show ?thesis by (auto simp: Write_def split: res.splits)
qed

lemma rin_sendUserControl: "rin (rw (snd (sendUserControl e conn))) = rin (rw conn)"
  using rin_Write [of _ conn]
  by (auto simp: sendUserControl_def simp del: rin_Write split: res.splits prod.splits) (metis snd_conv)+

lemma quiet_sends [keeps_rules]:
  "quiet (fcWrite_ignored c)" "quiet fc_Flush" "quiet (onConn SetRecorded)" "quiet (onConn SetBegin)"
  by (rule keepsI, simp add: split_beta fcWrite_ignored_def fc_Flush_def conn_Flush_def onConn_def
      SetRecorded_def SetBegin_def rin_sendUserControl)+

lemma quiet_writeMsg [keeps_rules]: "quiet (writeMsg csid sid args)"
proof (rule keepsI)
  fix fc
  let ?c = "zeroChunkStream\<lparr>Format := 0, CSID := csid, Timestamp := 0, TypeID := 20, StreamID := sid,
      Length := of_nat (length (snd (EncodeBatch 0 args []))), Data := snd (EncodeBatch 0 args [])\<rparr>"
  have "quiet (pbind (fcWrite_ignored ?c) (\<lambda>_. fc_Flush))" by (intro keeps_rules)
  then show "rin (rw (fconn (snd (writeMsg csid sid args fc)))) = rin (rw (fconn fc))"
    by (auto simp: writeMsg_def keeps_def split: prod.splits res.splits)
qed

lemma quiet_sendControl [keeps_rules]: "quiet (sendControl c)"
  using quiet_sends(1) by (auto simp: sendControl_def keeps_def split: res.splits)

lemma quiet_writeMsg_at [keeps_rules]: "quiet (\<lambda>fc. writeMsg csid sid (args fc) fc)"
  using quiet_writeMsg by (simp add: keeps_def)

lemma quiet_responses [keeps_rules]:
  "quiet (connectResp order c)" "quiet (createStreamResp c)" "quiet (publishResp order c)" "quiet (playResp order c)"
  unfolding connectResp_def createStreamResp_def [abs_def] publishResp_def playResp_def Let_def
  by (intro keeps_rules)+

lemma conn_fc_connect: "fconn (snd (fc_connect vs fc)) = fconn fc"
  by (induction vs fc rule: fc_connect.induct) (auto split: val.splits res.splits)

lemma conn_createStream: "fconn (snd (createStream vs fc)) = fconn fc"
  by (induction vs fc rule: createStream.induct) (auto split: val.splits)

lemma conn_publishOrPlay_loop: "fconn (snd (publishOrPlay_loop k vs fc)) = fconn fc"
  by (induction k vs fc rule: publishOrPlay_loop.induct) (auto split: val.splits)

lemma quiet_commands [keeps_rules]:
  "quiet (fc_connect vs)" "quiet (createStream vs)" "quiet (publishOrPlay vs)" "quiet (releaseStream vs)"
  "quiet (fcPublish vs)" "quiet (decodeCommand b)"
  by (auto simp: keeps_def conn_fc_connect conn_createStream publishOrPlay_def conn_publishOrPlay_loop
      releaseStream_def fcPublish_def preturn_def decodeCommand_def split: option.splits prod.splits)

lemma quiet_SetUp_command [keeps_rules]: "quiet (SetUp_command order chunk vs cmd)"
  unfolding SetUp_command_def Let_def by (intro keeps_rules)

lemma quiet_handleCommand [keeps_rules]: "quiet (handleCommand order c vs cmd)"
  unfolding handleCommand_def Let_def by (intro keeps_rules)

lemma quiet_handleCmdMsg: "quiet (handleCmdMsg order c)"
  unfolding handleCmdMsg_def by (intro keeps_rules)

lemma quiet_SetUp_message: "quiet (SetUp_message order c)"
  unfolding SetUp_message_def by (intro keeps_rules)

section \<open>The loops return\<close>

lemma Read_shrinks:
  assumes "Read conn = (Ok c, conn')"
  shows "length (rin (rw conn')) < length (rin (rw conn))"
  using assms
proof (induction conn rule: Read.induct)
  case (1 conn)
  obtain t conn1 where t: "Read_turn conn = (t, conn1)" by fastforce
  show ?case
  proof (cases t)
    case (Ok o1)
    show ?thesis
    proof (cases o1)
      case None
      then have "Read conn1 = (Ok c, conn')" using "1.prems" t Ok by (simp add: Read.simps [of conn])
      then show ?thesis using "1.IH" t Ok None Read_turn_shrinks [of conn o1 conn1] by fastforce
    next
      case (Some y)
      then show ?thesis using "1.prems" t Ok Read_turn_shrinks [of conn o1 conn1] by (simp add: Read.simps [of conn])
    qed
  qed (use "1.prems" t in \<open>simp_all add: Read.simps [of conn]\<close>)
qed

lemma fc_Read_shrinks: "fc_Read fc = (Ok c, fc') \<Longrightarrow> pending fc' < pending fc"
  by (auto simp: fc_Read_def split: prod.splits dest: Read_shrinks)

interpretation setup_loop: progress "SetUp_turn order" pending for order
proof
  fix s s' assume "SetUp_turn order s = (Ok None, s')"
  then obtain c s1 where r: "pwrap ''Read chunk stream failed'' fc_Read s = (Ok c, s1)"
    and m: "SetUp_message order c s1 = (Ok None, s')"
    unfolding SetUp_turn_def by (rule pbind_OkE)
  from r have "fc_Read s = (Ok c, s1)" by (cases "fst (fc_Read s)") (auto simp: pwrap_def split: prod.splits)
  then show "pending s' < pending s"
    using fc_Read_shrinks [of s c s1] keepsD [OF quiet_SetUp_message m] by simp
qed

interpretation readmsg_loop: progress "ReadMsg_turn order" pending for order
proof
  fix s s' assume turn: "ReadMsg_turn order s = (Ok None, s')"
  define rest where "rest c = pbind (if TypeID c = 20 \<or> TypeID c = 17 then handleCmdMsg order c else preturn ())
      (\<lambda>_ fc. (Ok (if fdone fc then Some () else None), fc))" for c
  from turn obtain c s1 where r: "fc_Read s = (Ok c, s1)" and m: "rest c s1 = (Ok None, s')"
    unfolding ReadMsg_turn_def rest_def by (rule pbind_OkE)
  have "quiet (rest c)" unfolding rest_def by (intro keeps_rules quiet_handleCmdMsg)
  from fc_Read_shrinks [OF r] keepsD [OF this m] show "pending s' < pending s" by simp
qed

section \<open>What a response puts on the wire\<close>

abbreviation command_msg :: "u32 \<Rightarrow> u32 \<Rightarrow> val list \<Rightarrow> ChunkStream" where
  "command_msg csid sid args \<equiv> zeroChunkStream\<lparr>Format := 0, CSID := csid, Timestamp := 0, TypeID := 20, StreamID := sid,
     Length := of_nat (length (concat (map amf0_bytes args))), Data := concat (map amf0_bytes args)\<rparr>"

text \<open>\<open>sends bs w w'\<close>: the writer has taken the bytes \<open>bs\<close>, still works, and the reading half is as before.\<close>

definition sends :: "bytes \<Rightarrow> ReadWriter \<Rightarrow> ReadWriter \<Rightarrow> bool" where
  "sends bs w w' \<longleftrightarrow> wok w' \<and> rd_same w w' \<and> sent w' = sent w @ bs \<and> room w' = room w - length bs"

lemma sends_trans: "sends a u v \<Longrightarrow> sends b v w \<Longrightarrow> sends (a @ b) u w"
  by (auto simp: sends_def intro: rd_same_trans)

lemma Write_fits:
  assumes "Length c = of_nat (length (Data c))" and "length (Data c) \<le> 0xffffff" and "TypeID c \<noteq> 1"
    and "chunkSize conn \<noteq> 0" and "wok (rw conn)"
    and "length (message_bytes (unat (chunkSize conn)) (on_wire c)) \<le> room (rw conn)"
  shows "\<exists>c' w. Write c conn = (Ok (), c', conn\<lparr>rw := w\<rparr>) \<and>
    sends (message_bytes (unat (chunkSize conn)) (on_wire c)) (rw conn) w"
proof -
  obtain r c' w where run: "writeChunk c (chunkSize conn) (rw conn) = (r, c', w)" by (metis surj_pair)
  have "writes (message_bytes (unat (chunkSize conn)) (on_wire c)) (rw conn) (r, w)"
    using writeChunk_writes [OF assms(4,1,2) run] by (simp add: on_wire_def)
  then show ?thesis using assms(3,5,6) run by (auto simp: writes_def sends_def Write_def conn_writeChunk_def)
qed

lemma rw_Flush_ok:
  assumes "wok w"
  shows "\<exists>w'. rw_Flush w = (Ok (), w') \<and> sends [] w w' \<and> wire w' = sent w'"
proof (cases "wbuf w = []")
  case True
  then show ?thesis using assms by (auto simp: rw_Flush_def sent_def wok_def sends_def)
next
  case False
  obtain r w' where "bufio_Flush w = (r, w')" by fastforce
  note f = this bufio_Flush_spec [OF this]
  have "r = Ok ()" "wok w'" using f(7) assms by simp_all
  moreover have "wire w' = sent w'" using f(6) \<open>r = Ok ()\<close> by (auto simp: sent_def)
  ultimately show ?thesis using f(1-3,8) False assms by (simp add: rw_Flush_def wok_def sends_def)
qed

text \<open>A command message is written and flushed.\<close>

lemma send_command:
  assumes "length (concat (map amf0_bytes args)) \<le> 0xffffff" and "chunkSize conn \<noteq> 0" and "wok (rw conn)"
    and "length (message_bytes (unat (chunkSize conn)) (command_msg csid sid args)) \<le> room (rw conn)"
  shows "\<exists>c' w1 w. Write (command_msg csid sid args) conn = (Ok (), c', conn\<lparr>rw := w1\<rparr>) \<and>
    rw_Flush w1 = (Ok (), w) \<and> wire w = sent w \<and>
    sends (message_bytes (unat (chunkSize conn)) (command_msg csid sid args)) (rw conn) w"
proof -
  let ?c = "command_msg csid sid args"
  have c: "on_wire ?c = ?c" "Length ?c = of_nat (length (Data ?c))" "length (Data ?c) \<le> 0xffffff" "TypeID ?c \<noteq> 1"
    using assms(1) by (simp_all add: on_wire_def chunkCSID_def)
  from Write_fits [OF c(2-4) assms(2,3)] assms(4) c(1)
  obtain c' w where w: "Write ?c conn = (Ok (), c', conn\<lparr>rw := w\<rparr>)"
    "sends (message_bytes (unat (chunkSize conn)) ?c) (rw conn) w" by auto
  moreover from this obtain w' where "rw_Flush w = (Ok (), w')" "sends [] w w'" "wire w' = sent w'"
    using rw_Flush_ok [of w] by (auto simp: sends_def)
  ultimately show ?thesis using sends_trans [OF w(2), of "[]"] by auto
qed

lemma writeMsg_sends:
  assumes "\<forall>v\<in>set args. amf0_ok v" and "length (concat (map amf0_bytes args)) \<le> 0xffffff"
    and "chunkSize (fconn fc) \<noteq> 0" and "wok (rw (fconn fc))"
    and "length (message_bytes (unat (chunkSize (fconn fc))) (command_msg csid sid args)) \<le> room (rw (fconn fc))"
  shows "\<exists>w. writeMsg csid sid args fc = (Ok (), fc\<lparr>fconn := (fconn fc)\<lparr>rw := w\<rparr>\<rparr>) \<and> wire w = sent w \<and>
    sends (message_bytes (unat (chunkSize (fconn fc))) (command_msg csid sid args)) (rw (fconn fc)) w"
proof -
  from send_command [OF assms(2-5)] obtain c' w1 w where
    "Write (command_msg csid sid args) (fconn fc) = (Ok (), c', (fconn fc)\<lparr>rw := w1\<rparr>)" "rw_Flush w1 = (Ok (), w)"
    "wire w = sent w" "sends (message_bytes (unat (chunkSize (fconn fc))) (command_msg csid sid args)) (rw (fconn fc)) w"
    by blast
  then show ?thesis using EncodeBatch_bytes [OF assms(1), of "[]"]
    by (intro exI [of _ w]) (simp add: writeMsg_def fcWrite_ignored_def fc_Flush_def conn_Flush_def pbind_def)
qed

text \<open>The objects in the responses are small, in whatever order their entries go out.\<close>

lemma order_object:
  assumes "mset (order m) = mset m" and "amf0_ok (VObject m)"
  shows "amf0_ok (VObject (order m))" and "length (amf0_bytes (VObject (order m))) = length (amf0_bytes (VObject m))"
proof -
  have s: "set (order m) = set m" using assms(1) by (rule mset_eq_setD)
  have "mset (map fst (order m)) = mset (map fst m)" using assms(1) by (simp only: mset_map)
  then have "distinct (map fst (order m)) = distinct (map fst m)" by (rule mset_eq_imp_distinct_iff)
  then show "amf0_ok (VObject (order m))" using assms(2) by (simp add: s)
  have "mset (map (\<lambda>(k, v). length (str_bytes k @ amf0_bytes v)) (order m)) =
      mset (map (\<lambda>(k, v). length (str_bytes k @ amf0_bytes v)) m)" using assms(1) by (simp only: mset_map)
  then have "sum_list (map (\<lambda>(k, v). length (str_bytes k @ amf0_bytes v)) (order m)) =
      sum_list (map (\<lambda>(k, v). length (str_bytes k @ amf0_bytes v)) m)" by (metis sum_mset_sum_list)
  then show "length (amf0_bytes (VObject (order m))) = length (amf0_bytes (VObject m))"
    by (simp add: length_concat comp_def case_prod_unfold)
qed

lemma status_ok:
  assumes "\<forall>m. mset (order m) = mset m" and "length code \<le> 1000" and "length description \<le> 1000"
  shows "\<forall>v\<in>set (status order code description). amf0_ok v"
    and "length (concat (map amf0_bytes (status order code description))) \<le> 0xffffff"
proof -
  let ?m = "[(chars ''level'', VStr (chars ''status'')), (chars ''code'', VStr (chars code)),
        (chars ''description'', VStr (chars description))]"
  have "amf0_ok (VObject ?m)" using assms(2,3) by (simp add: chars_def)
  note o = order_object [of order ?m, OF spec [OF assms(1)] this]
  show "\<forall>v\<in>set (status order code description). amf0_ok v" using o(1) by (simp add: status_def chars_def del: amf0_ok.simps(4))
  have "length (amf0_bytes (VObject ?m)) \<le> 3000" using assms(2,3) by (simp add: chars_def str_bytes_def)
  then show "length (concat (map amf0_bytes (status order code description))) \<le> 0xffffff"
    using o(2) by (simp add: status_def chars_def str_bytes_def del: amf0_bytes.simps(11))
qed

section \<open>Commands that are decoded\<close>

lemma DecodeBatch_bytes:
  assumes "\<forall>v\<in>set vs. amf0_ok v"
  shows "\<exists>d'. DecodeBatch 0 (Decoder.extend d \<lparr>rd = concat (map amf0_bytes vs)\<rparr>) = Some (Ok (map amf0_norm vs, EOF), d')"
proof -
  let ?b = "concat (map amf0_bytes vs)" and ?d = "Decoder.extend d \<lparr>rd = concat (map amf0_bytes vs)\<rparr>"
  have rd: "rd ?d = ?b" by (simp add: Decoder.defs)
  have "length vs \<le> length ?b" using assms amf0_bytes_nonempty by (intro length_concat_nonempty) auto
  then have "\<exists>d'. DecodeBatch_loop (length ?b + 1) (length ?b + 1) 0 [] ?d = Some (Ok ([] @ map amf0_norm vs, EOF), d')"
    by (intro DecodeBatch_loop_bytes [OF assms rd]) (simp_all add: rd del: length_concat)
  then show ?thesis by (auto simp: DecodeBatch_def Let_def rd)
qed

lemma decodeCommand_bytes:
  assumes "\<forall>v\<in>set vs. amf0_ok v"
  shows "\<exists>d. decodeCommand (concat (map amf0_bytes vs)) fc = (Ok (map amf0_norm vs, EOF), fc\<lparr>decoder := d\<rparr>)"
  using DecodeBatch_bytes [OF assms, of "decoder fc"] by (auto simp: decodeCommand_def)

lemma decodeCommand_empty: "\<exists>d. decodeCommand [] fc = (Ok ([], EOF), fc\<lparr>decoder := d\<rparr>)"
  using decodeCommand_bytes [of "[]"] by simp

lemma SetUp_turn_read:
  assumes "Read (fconn fc) = (Ok c, conn)"
  shows "SetUp_turn order fc = SetUp_message order c (fc\<lparr>fconn := conn\<rparr>)"
  using assms by (simp add: SetUp_turn_def pbind_def pwrap_def fc_Read_def)

lemma SetUp_message_command:
  assumes "TypeID c = 20" and "Data c = concat (map amf0_bytes (VStr cmd # args))" and "\<forall>v\<in>set (VStr cmd # args). amf0_ok v"
  shows "\<exists>d. SetUp_message order c fc = SetUp_command order c (map amf0_norm (VStr cmd # args)) cmd (fc\<lparr>decoder := d\<rparr>)"
proof -
  obtain d where "decodeCommand (Data c) fc = (Ok (map amf0_norm (VStr cmd # args), EOF), fc\<lparr>decoder := d\<rparr>)"
    using decodeCommand_bytes [OF assms(3)] assms(2) by metis
  then show ?thesis
    using assms(1) by (auto simp: SetUp_message_def commandBytes_def pbind_def)
qed

section \<open>Properties\<close>

text \<open>
  C12: A publisher is accepted: when the message that arrives next is the command \<open>publish\<close> with a
  transaction id, a stream name and a type, and the connection takes the response, then
  \<open>SetUpPlayOrPublish\<close> returns without error, the connection is a publisher's, the name of the stream is the one
  in the command, and everything written before and exactly the \<open>onStatus\<close> response
  \<open>NetStream.Publish.Start\<close> are on the wire, in whatever order the map of the response is iterated.
\<close>

theorem publish_accepted:
  assumes order: "\<forall>m. mset (order m) = mset m"
    and read: "Read (fconn fc) = (Ok c, conn)" "TypeID c = 20"
    and cmd: "EncodeBatch 0 [VStr (chars ''publish''), VInt n, VNil, VStr name, VStr typ] [] = (Ok k, Data c)"
    and len: "length name < 2 ^ 32" "length typ < 2 ^ 32"
    and conn: "chunkSize conn \<noteq> 0" "wok (rw conn)"
    and reply: "reply = message_bytes (unat (chunkSize conn)) (command_msg (CSID c) (StreamID c)
          (status order ''NetStream.Publish.Start'' ''Start publising.''))" "length reply \<le> room (rw conn)"
  shows "\<exists>fc'. SetUpPlayOrPublish order fc = Some (Ok (), fc') \<and> IsPublisher fc' \<and>
    PubInfo fc' = \<lparr>PName = name, PType = typ\<rparr> \<and> transactionID fc' = f64_trunc (f64_of_int n) \<and>
    GetStreamInfo fc' = (App (ConnInfo fc), name, TcURL (ConnInfo fc) @ chars ''/'' @ name) \<and>
    wire (rw (fconn fc')) = sent (rw conn) @ reply"
proof -
  let ?args = "[VInt n, VNil, VStr name, VStr typ]" and ?st = "status order ''NetStream.Publish.Start'' ''Start publising.''"
  have ok: "\<forall>v\<in>set (VStr (chars ''publish'') # ?args). amf0_ok v" using len by (simp add: chars_def)
  have data: "Data c = concat (map amf0_bytes (VStr (chars ''publish'') # ?args))"
    using EncodeBatch_bytes [OF ok, of "[]"] cmd by simp
  from SetUp_message_command [OF read(2) data ok] obtain d where d: "SetUp_message order c (fc\<lparr>fconn := conn\<rparr>) =
      SetUp_command order c (map amf0_norm (VStr (chars ''publish'') # ?args)) (chars ''publish'') (fc\<lparr>fconn := conn, decoder := d\<rparr>)"
    by fastforce
  define fc1 where "fc1 = fc\<lparr>fconn := conn, decoder := d, transactionID := f64_trunc (f64_of_int n),
      PubInfo := \<lparr>PName = name, PType = typ\<rparr>\<rparr>"
  have pp: "publishOrPlay (map amf0_norm ?args) (fc\<lparr>fconn := conn, decoder := d\<rparr>) = (Ok (), fc1)"
    by (simp add: publishOrPlay_def fc1_def)
  have fc1: "fconn fc1 = conn" by (simp add: fc1_def)
  have st: "\<forall>v\<in>set ?st. amf0_ok v" "length (concat (map amf0_bytes ?st)) \<le> 0xffffff"
    by (rule status_ok [OF order]; simp)+
  obtain w where w: "publishResp order c fc1 = (Ok (), fc1\<lparr>fconn := conn\<lparr>rw := w\<rparr>\<rparr>)" "wire w = sent (rw conn) @ reply"
    using writeMsg_sends [OF st, where fc = fc1 and csid = "CSID c" and sid = "StreamID c", unfolded fc1, OF conn, folded reply(1), OF reply(2)]
    unfolding publishResp_def sends_def by auto
  have "SetUp_turn order fc = (Ok (Some ()), fc1\<lparr>fconn := conn\<lparr>rw := w\<rparr>, isPublisher := True\<rparr>)"
    unfolding SetUp_turn_read [OF read(1)] d
    using pp w(1) by (simp add: SetUp_command_def pbind_def pwrap_def setPublisher_def preturn_def chars_def)
  then show ?thesis
    unfolding SetUpPlayOrPublish_def using w(2) by (simp add: run_loop_simps(1) IsPublisher_def GetStreamInfo_def fc1_def)
qed

definition server_conn :: "bytes \<Rightarrow> RtmpConn" where
  "server_conn inp = (NewRtmpConn (NewReadWriter inp EOF 400 EOF 16))\<lparr>chunkSize := 1024\<rparr>"

text \<open>The command \<open>publish\<close>, transaction 0, stream \<open>a\<close> of type \<open>b\<close>, as it arrives in one chunk of chunk stream 3.\<close>

definition publish_data :: bytes where
  "publish_data = [2, 0, 7, 0x70, 0x75, 0x62, 0x6c, 0x69, 0x73, 0x68, 0, 0, 0, 0, 0, 0, 0, 0, 0, 5, 2, 0, 1, 0x61, 2, 0, 1, 0x62]"

lemma publish_data_encoded:
  "EncodeBatch 0 [VStr (chars ''publish''), VInt 0, VNil, VStr (chars ''a''), VStr (chars ''b'')] [] = (Ok 0, publish_data)"
proof -
  have n: "be_bytes 8 (f64_of_int 0) = [0, 0, 0, 0, 0, 0, 0, 0]"
    by (simp add: f64_of_int_def f64_mag_def eval_nat_numeral)
  have s: "str_bytes (chars ''publish'') = [0, 7, 0x70, 0x75, 0x62, 0x6c, 0x69, 0x73, 0x68]"
    "str_bytes (chars ''a'') = [0, 1, 0x61]" "str_bytes (chars ''b'') = [0, 1, 0x62]"
    by code_simp+
  have l: "length (chars x) = length x" for x by (simp add: chars_def)
  show ?thesis by (subst EncodeBatch_bytes) (simp_all add: l s n publish_data_def)
qed

lemma publish_read:
  "case Read (server_conn ([3, 0, 0, 0, 0, 0, 28, 20, 1, 0, 0, 0] @ publish_data)) of
     (Ok c, conn) \<Rightarrow> TypeID c = 20 \<and> CSID c = 3 \<and> StreamID c = 1 \<and> Data c = publish_data \<and>
       chunkSize conn = 1024 \<and> rw conn = (rw (server_conn []))
   | _ \<Rightarrow> False"
  by code_simp

lemma length_message_bytes_1:
  assumes "length (Data cs) \<le> c"
  shows "length (message_bytes c cs) \<le> 18 + length (Data cs)"
  using assms by (simp add: message_bytes_def header_bytes_def basic_header_def ext_bytes_def chunk_body.simps)

theorem publish_accepted_witness:
  "\<exists>fc'. SetUpPlayOrPublish (\<lambda>m. m) (NewForwardConnect (server_conn ([3, 0, 0, 0, 0, 0, 28, 20, 1, 0, 0, 0] @ publish_data))) = Some (Ok (), fc') \<and>
    IsPublisher fc' \<and> PubInfo fc' = \<lparr>PName = chars ''a'', PType = chars ''b''\<rparr>"
proof -
  let ?conn = "server_conn ([3, 0, 0, 0, 0, 0, 28, 20, 1, 0, 0, 0] @ publish_data)"
  let ?st = "status (\<lambda>m. m) ''NetStream.Publish.Start'' ''Start publising.''"
  obtain c conn where r: "Read ?conn = (Ok c, conn)" "TypeID c = 20" "CSID c = 3" "StreamID c = 1" "Data c = publish_data"
    "chunkSize conn = 1024" "rw conn = rw (server_conn [])"
    using publish_read by (cases "Read ?conn"; cases "fst (Read ?conn)") auto
  have w: "wok (rw conn)" "room (rw conn) = 400" "chunkSize conn \<noteq> 0" "unat (chunkSize conn) = 1024"
    using r(6,7) by (simp_all add: wok_def room_def sent_def server_conn_def NewRtmpConn_def NewReadWriter_def)
  have "length (concat (map amf0_bytes ?st)) \<le> 300" by (simp add: status_def chars_def str_bytes_def)
  then have fits: "length (message_bytes (unat (chunkSize conn)) (command_msg (CSID c) (StreamID c) ?st)) \<le> room (rw conn)"
    using length_message_bytes_1 [of "command_msg (CSID c) (StreamID c) ?st" 1024] w by simp
  have "fconn (NewForwardConnect ?conn) = ?conn" by (simp add: NewForwardConnect_def)
  with publish_accepted [of "\<lambda>m. m" "NewForwardConnect ?conn" c conn 0 "chars ''a''" "chars ''b''" 0, OF _ _ r(2) _ _ _ w(3,1) refl fits]
    r(1,5) publish_data_encoded show ?thesis by (simp add: chars_def) blast
qed

text \<open>
  C16: Setting a connection up comes to an end on every finite input: whatever a peer has sent when it closes the connection or its
  connection fails, both loops over its messages return. (A peer that keeps the connection open and sends nothing is not finite input: there
  is no timeout, as the comment above \<open>SetUpPlayOrPublish\<close> says, and the read blocks.)
\<close>

theorem setup_returns:
  "(\<exists>r fc'. SetUpPlayOrPublish order fc = Some (r, fc')) \<and> (\<exists>r fc'. ReadMsg order fc = Some (r, fc'))"
  unfolding SetUpPlayOrPublish_def ReadMsg_def using setup_loop.returns readmsg_loop.returns by blast

text \<open>Messages of a peer that the handlers do not expect.\<close>

definition crashing :: "ChunkStream \<Rightarrow> bool" where
  "crashing c \<longleftrightarrow> TypeID c = 20 \<and> Data c = [] \<or> TypeID c = 17 \<and> length (Data c) \<le> 1 \<or>
     TypeID c = 20 \<and> (\<exists>x. Data c = concat (map amf0_bytes [VStr (chars ''connect''), VObject [(chars ''app'', VFloat x)]]))"

text \<open>
  A peer can crash the set-up: a command message without any value (of type 20 with no data, of
  type 17 with at most one byte) or a \<open>connect\<close> whose \<open>app\<close> is not a string makes it panic.
\<close>

theorem peer_crashes_setup:
  assumes "Read (fconn fc) = (Ok c, conn)" and "crashing c"
  shows "\<exists>fc'. SetUpPlayOrPublish order fc = Some (Panic, fc')"
proof -
  let ?fc = "fc\<lparr>fconn := conn\<rparr>"
  have "fst (SetUp_message order c ?fc) = Panic"
  proof -
    consider (empty) b where "commandBytes c = b" "b = Ok [] \<or> b = Panic" "TypeID c = 17 \<or> TypeID c = 20"
      | (app) x where "TypeID c = 20" "Data c = concat (map amf0_bytes [VStr (chars ''connect''), VObject [(chars ''app'', VFloat x)]])"
      using assms(2) by (cases "Data c") (auto simp: crashing_def commandBytes_def slice_def)
    then show ?thesis
    proof cases
      case empty
      then show ?thesis using decodeCommand_empty [of ?fc]
        by (auto simp: SetUp_message_def pbind_def index_def)
    next
      case (app x)
      let ?o = "VObject [(chars ''app'', VFloat x)]"
      have ok: "\<forall>v\<in>set (VStr (chars ''connect'') # [?o]). amf0_ok v" by (simp add: chars_def)
      obtain d where "SetUp_message order c ?fc =
          SetUp_command order c (map amf0_norm (VStr (chars ''connect'') # [?o])) (chars ''connect'') (?fc\<lparr>decoder := d\<rparr>)"
        using SetUp_message_command [OF app(1) app(2) ok] by blast
      then show ?thesis
        by (simp add: SetUp_command_def pbind_def pwrap_def connectObject_def ifPresent_def asString_def chars_def)
    qed
  qed
  then have "\<exists>fc'. SetUp_turn order fc = (Panic, fc')"
    using SetUp_turn_read [OF assms(1)] by (metis prod.collapse)
  then show ?thesis unfolding SetUpPlayOrPublish_def using run_loop_simps(4) by fast
qed

theorem peer_crashes_setup_witness:
  "\<exists>fc'. SetUpPlayOrPublish (\<lambda>m. m) (NewForwardConnect (server_conn [3, 0, 0, 0, 0, 0, 0, 20, 1, 0, 0, 0])) = Some (Panic, fc')"
proof -
  let ?conn = "server_conn [3, 0, 0, 0, 0, 0, 0, 20, 1, 0, 0, 0]"
  have "case Read ?conn of (Ok c, conn) \<Rightarrow> TypeID c = 20 \<and> Data c = [] | _ \<Rightarrow> False" by code_simp
  then obtain c conn where "Read ?conn = (Ok c, conn)" "TypeID c = 20" "Data c = []"
    by (cases "Read ?conn"; cases "fst (Read ?conn)") auto
  then show ?thesis using peer_crashes_setup [of "NewForwardConnect ?conn" c conn] by (simp add: NewForwardConnect_def crashing_def)
qed

end
