(* ===== verification/Sha256.thy ===== *)
theory Sha256
  imports Prelude
begin

text \<open>
  SHA-256 and HMAC of the Go standard library (\<open>crypto/sha256\<close>, \<open>crypto/hmac\<close>), as the
  handshake uses them: a message authentication code of 32 bytes.
\<close>

text \<open>The round constants and the initial hash value, in decimal.\<close>

definition sha_K :: "u32 list" where
  "sha_K =
    [1116352408, 1899447441, 3049323471, 3921009573, 961987163, 1508970993, 2453635748, 2870763221,
     3624381080, 310598401, 607225278, 1426881987, 1925078388, 2162078206, 2614888103, 3248222580,
     3835390401, 4022224774, 264347078, 604807628, 770255983, 1249150122, 1555081692, 1996064986,
     2554220882, 2821834349, 2952996808, 3210313671, 3336571891, 3584528711, 113926993, 338241895,
     666307205, 773529912, 1294757372, 1396182291, 1695183700, 1986661051, 2177026350, 2456956037,
     2730485921, 2820302411, 3259730800, 3345764771, 3516065817, 3600352804, 4094571909, 275423344,
     430227734, 506948616, 659060556, 883997877, 958139571, 1322822218, 1537002063, 1747873779,
     1955562222, 2024104815, 2227730452, 2361852424, 2428436474, 2756734187, 3204031479, 3329325298]"

definition sha_H0 :: "u32 list" where
  "sha_H0 =
    [1779033703, 3144134277, 1013904242, 2773480762, 1359893119, 2600822924, 528734635, 1541459225]"

definition rotr :: "nat \<Rightarrow> u32 \<Rightarrow> u32" where
  "rotr n x = drop_bit n x OR push_bit (32 - n) x"

definition sha_pad :: "bytes \<Rightarrow> bytes" where
  "sha_pad msg = msg @ [0x80] @ replicate ((119 - length msg mod 64) mod 64) 0 @
     be_bytes 8 (of_nat (8 * length msg) :: u64)"

fun sha_words :: "nat \<Rightarrow> bytes \<Rightarrow> u32 list" where
  "sha_words 0 b = []"
| "sha_words (Suc n) b = be_word (take 4 b) # sha_words n (drop 4 b)"

text \<open>The message schedule, newest word first: \<open>n\<close> more words from the last sixteen.\<close>

fun sha_expand :: "nat \<Rightarrow> u32 list \<Rightarrow> u32 list" where
  "sha_expand 0 ws = ws"
| "sha_expand (Suc n) ws =
     (let v1 = ws ! 1; v2 = ws ! 14;
          t1 = rotr 17 v1 XOR rotr 19 v1 XOR drop_bit 10 v1;
          t2 = rotr 7 v2 XOR rotr 18 v2 XOR drop_bit 3 v2
      in sha_expand n ((t1 + ws ! 6 + t2 + ws ! 15) # ws))"

definition sha_round :: "u32 \<times> u32 \<Rightarrow> u32 list \<Rightarrow> u32 list" where
  "sha_round kw hs =
     (let a = hs ! 0; b = hs ! 1; c = hs ! 2; d = hs ! 3; e = hs ! 4; f = hs ! 5; g = hs ! 6; h = hs ! 7;
          t1 = h + (rotr 6 e XOR rotr 11 e XOR rotr 25 e) + ((e AND f) XOR (NOT e AND g)) +
            fst kw + snd kw;
          t2 = (rotr 2 a XOR rotr 13 a XOR rotr 22 a) + ((a AND b) XOR (a AND c) XOR (b AND c))
      in [t1 + t2, a, b, c, d + t1, e, f, g])"

definition sha_block :: "u32 list \<Rightarrow> bytes \<Rightarrow> u32 list" where
  "sha_block hs b =
     (let ws = rev (sha_expand 48 (rev (sha_words 16 b)))
      in map2 (+) hs (fold sha_round (zip sha_K ws) hs))"

fun sha_blocks :: "nat \<Rightarrow> bytes \<Rightarrow> u32 list \<Rightarrow> u32 list" where
  "sha_blocks 0 b hs = hs"
| "sha_blocks (Suc n) b hs = sha_blocks n (drop 64 b) (sha_block hs (take 64 b))"

definition sha256 :: "bytes \<Rightarrow> bytes" where
  "sha256 msg = (let p = sha_pad msg
     in concat (map (be_bytes 4) (sha_blocks (length p div 64) p sha_H0)))"

definition hmac_sha256 :: "bytes \<Rightarrow> bytes \<Rightarrow> bytes" where
  "hmac_sha256 key msg =
     (let k0 = (if 64 < length key then sha256 key else key);
          k = k0 @ replicate (64 - length k0) 0
      in sha256 (map (\<lambda>b. b XOR 0x5c) k @ sha256 (map (\<lambda>b. b XOR 0x36) k @ msg)))"

lemma sha_rounds_length: "length hs = 8 \<Longrightarrow> length (fold sha_round kws hs) = 8"
  by (induction kws arbitrary: hs) (simp_all add: sha_round_def Let_def)

lemma sha_blocks_length: "length hs = 8 \<Longrightarrow> length (sha_blocks n b hs) = 8"
  by (induction n arbitrary: b hs) (simp_all add: sha_block_def Let_def sha_rounds_length)

lemma length_sha256: "length (sha256 msg) = 32"
proof -
  have "length (concat (map (be_bytes 4) (ws :: u32 list))) = 4 * length ws" for ws
    by (induction ws) simp_all
  then show ?thesis by (simp add: sha256_def Let_def sha_blocks_length sha_H0_def)
qed

lemma length_hmac [simp]: "length (hmac_sha256 key msg) = 32"
  by (simp add: hmac_sha256_def Let_def length_sha256)

end
