(* ===== verification/Handshake.thy ===== *)
theory Handshake
  imports RtmpConn Sha256
begin

text \<open>
  The handshake of \<open>protocol/core/handshake.go\<close>: the client and the server side over the
  buffered connection, with the digests of the complex handshake. The random bytes that
  \<open>crypto/rand\<close> delivers are arguments. Deadlines have no effect on the data and are left out.
\<close>

section \<open>Keys and digests\<close>

definition hsTail :: bytes where
  "hsTail = [0xF0, 0xEE, 0xC2, 0x4A, 0x80, 0x68, 0xBE, 0xE8, 0x2E, 0x00, 0xD0, 0xD1,
     0x02, 0x9E, 0x7E, 0x57, 0x6E, 0xEC, 0x5D, 0x2D, 0x29, 0x80, 0x6F, 0xAB,
     0x93, 0xB8, 0xE6, 0x36, 0xCF, 0xEB, 0x31, 0xAE]"

definition ascii :: "string \<Rightarrow> bytes" where
  "ascii s = map (\<lambda>c. of_nat (of_char c)) s"

definition hsClientFullKey :: bytes where
  "hsClientFullKey = ascii ''Genuine Adobe Flash Player 001'' @ hsTail"

definition hsServerFullKey :: bytes where
  "hsServerFullKey = ascii ''Genuine Adobe Flash Media Server 001'' @ hsTail"

definition hsClientPartialKey :: bytes where
  "hsClientPartialKey = take 30 hsClientFullKey"

definition hsServerPartialKey :: bytes where
  "hsServerPartialKey = take 36 hsServerFullKey"

definition hsMakeDigest :: "bytes \<Rightarrow> bytes \<Rightarrow> int \<Rightarrow> bytes res" where
  "hsMakeDigest key src gap =
     (if gap \<le> 0 then Ok (hmac_sha256 key src)
      else res_bind (slice 0 (nat gap) src) (\<lambda>a.
           res_bind (slice (nat gap + 32) (length src) src) (\<lambda>b.
             Ok (hmac_sha256 key (a @ b)))))"

definition hsCalcDigestPos :: "bytes \<Rightarrow> nat \<Rightarrow> nat res" where
  "hsCalcDigestPos p base =
     res_bind (foldl (\<lambda>acc i. res_bind acc (\<lambda>pos.
         res_bind (index p (base + i)) (\<lambda>b. Ok (pos + unat b)))) (Ok 0) [0..<4])
       (\<lambda>pos. Ok (pos mod 728 + base + 4))"

text \<open>\<open>None\<close> stands for the result -1.\<close>

definition hsFindDigest :: "bytes \<Rightarrow> bytes \<Rightarrow> nat \<Rightarrow> nat option res" where
  "hsFindDigest p key base =
     res_bind (hsCalcDigestPos p base) (\<lambda>gap.
     res_bind (hsMakeDigest key p (int gap)) (\<lambda>digest.
     res_bind (slice gap (gap + 32) p) (\<lambda>d.
       Ok (if d \<noteq> digest then None else Some gap))))"

definition hsParse1 :: "bytes \<Rightarrow> bytes \<Rightarrow> bytes \<Rightarrow> (bool \<times> bytes) res" where
  "hsParse1 p peerkey key =
     res_bind (hsFindDigest p peerkey 772) (\<lambda>r1.
     res_bind (case r1 of Some pos \<Rightarrow> Ok (Some pos) | None \<Rightarrow> hsFindDigest p peerkey 8) (\<lambda>r2.
       case r2 of
         None \<Rightarrow> Ok (False, [])
       | Some pos \<Rightarrow>
           res_bind (slice pos (pos + 32) p) (\<lambda>d.
           res_bind (hsMakeDigest key d (-1)) (\<lambda>digest. Ok (True, digest)))))"

text \<open>\<open>rnd\<close> are the bytes \<open>rand.Read\<close> fills its argument with, as many as it asks for.\<close>

definition hsCreate01 :: "bytes \<Rightarrow> u32 \<Rightarrow> u32 \<Rightarrow> bytes \<Rightarrow> bytes \<Rightarrow> bytes res" where
  "hsCreate01 p time ver key rnd =
     res_bind (set_index p 0 3) (\<lambda>p0.
     let p1 = drop 1 p0 in
     res_bind (slice 8 (length p1) p1) (\<lambda>_.
     let p2 = put_at 8 rnd p1 in
     res_bind (PutU32BE p2 time) (\<lambda>p3.
     res_bind (PutU32BE (drop 4 p3) ver) (\<lambda>p4.
     let p5 = take 4 p3 @ p4 in
     res_bind (hsCalcDigestPos p5 8) (\<lambda>gap.
     res_bind (hsMakeDigest key p5 (int gap)) (\<lambda>digest.
       Ok (take 1 p0 @ put_at gap digest p5)))))))"

definition hsCreate2 :: "bytes \<Rightarrow> bytes \<Rightarrow> bytes \<Rightarrow> bytes res" where
  "hsCreate2 p key rnd =
     (let p1 = put_at 0 rnd p; gap = int (length p1) - 32 in
      res_bind (hsMakeDigest key p1 gap) (\<lambda>digest.
        if gap < 0 then Panic else Ok (put_at (nat gap) digest p1)))"

section \<open>The two sides\<close>

definition liftR :: "(ReadWriter \<Rightarrow> 'a res \<times> ReadWriter) \<Rightarrow> (RtmpConn, 'a) prog" where
  "liftR m conn = (case m (rw conn) of (r, w) \<Rightarrow> (r, conn\<lparr>rw := w\<rparr>))"

text \<open>
  \<open>io.ReadFull\<close> on a \<open>ReadWriter\<close>, whose own \<open>Read\<close> already reads the whole slice or fails.
\<close>

definition io_ReadFull :: "nat \<Rightarrow> (RtmpConn, bytes) prog" where
  "io_ReadFull n = liftR (\<lambda>w. case rw_Read n w of
      ((got, None), w') \<Rightarrow> (Ok got, w')
    | ((got, Some e), w') \<Rightarrow> (Err e, w'))"

definition HandshakeClient :: "(RtmpConn, unit) prog" where
  "HandshakeClient =
     (let c0c1 = 3 # replicate 1536 0 in
      pseq (liftR (rw_Write c0c1))
     (pseq (liftR rw_Flush)
     (pbind (io_ReadFull 3073) (\<lambda>s0s1s2.
        let s1 = take 1536 (drop 1 s0s1s2) in
        liftR (rw_Write s1)))))"

text \<open>
  The server. The zero bytes come from the freshly declared array: in the simple handshake
  \<open>copy(S1, C2)\<close> copies the part of it that nothing has been read into yet.
\<close>

definition serverReply :: "bytes \<Rightarrow> bytes \<Rightarrow> bytes \<Rightarrow> bytes res" where
  "serverReply c1 rnd1 rnd2 =
     res_bind (U32BE c1) (\<lambda>clitime.
     res_bind (U32BE (drop 4 c1)) (\<lambda>cliver.
       if cliver \<noteq> 0 then
         res_bind (hsParse1 c1 hsClientPartialKey hsServerFullKey) (\<lambda>(ok, digest).
           if \<not> ok then Err (Errorf ''rtmp: handshake server: C1 invalid'')
           else
             res_bind (hsCreate01 (3 # replicate 1536 0) clitime 0x0d0e0a0d hsServerPartialKey rnd1) (\<lambda>s0s1.
             res_bind (hsCreate2 (replicate 1536 0) digest rnd2) (\<lambda>s2.
               Ok (s0s1 @ s2))))
       else Ok (3 # replicate 1536 0 @ c1)))"

definition HandshakeServer :: "bytes \<Rightarrow> bytes \<Rightarrow> (RtmpConn, unit) prog" where
  "HandshakeServer rnd1 rnd2 =
     pbind (io_ReadFull 1537) (\<lambda>c0c1.
       if hd c0c1 \<noteq> 3 then (\<lambda>conn. (Err (Errorf ''rtmp: handshake version invalid''), conn))
       else
         pbind (\<lambda>conn. (serverReply (drop 1 c0c1) rnd1 rnd2, conn)) (\<lambda>s0s1s2.
         pseq (liftR (rw_Write s0s1s2))
        (pseq (liftR rw_Flush)
        (pbind (io_ReadFull 1536) (\<lambda>_. preturn ())))))"

section \<open>Digests are found where they are put\<close>

lemma index_fold4:
  assumes "base + 4 \<le> length p"
  shows "hsCalcDigestPos p base =
    Ok ((unat (p ! base) + unat (p ! (base + 1)) + unat (p ! (base + 2)) + unat (p ! (base + 3))) mod 728
        + base + 4)"
proof -
  have "[0..<4] = [0, 1, 2, 3 :: nat]" by (simp add: upt_rec)
  then show ?thesis using assms by (simp add: hsCalcDigestPos_def)
qed

lemma hsCalcDigestPos_bounds:
  assumes "base + 4 \<le> length p"
  obtains pos where "hsCalcDigestPos p base = Ok pos" and "base + 4 \<le> pos" and "pos < base + 732"
  using index_fold4 [OF assms] by simp

lemma hsCalcDigestPos_cong:
  assumes "take (base + 4) p = take (base + 4) q" and "base + 4 \<le> length p"
  shows "hsCalcDigestPos q base = hsCalcDigestPos p base"
proof -
  have lq: "base + 4 \<le> length q" using arg_cong [OF assms(1), of length] assms(2) by simp
  have "p ! i = q ! i" if "i < base + 4" for i
    using that arg_cong [OF assms(1), of "\<lambda>l. l ! i"] by simp
  then show ?thesis using index_fold4 [OF assms(2)] index_fold4 [OF lq] by simp
qed

lemma hsMakeDigest_ok:
  assumes "0 < gap" and "gap + 32 \<le> length p"
  shows "hsMakeDigest key p (int gap) = Ok (hmac_sha256 key (take gap p @ drop (gap + 32) p))"
  using assms by (simp add: hsMakeDigest_def slice_def)

lemma hsFindDigest_ok:
  assumes "length p = 1536" and "base = 8 \<or> base = 772"
  obtains r where "hsFindDigest p key base = Ok r"
    and "\<And>pos. r = Some pos \<Longrightarrow> 0 < pos \<and> pos + 32 \<le> 1536"
proof -
  have b: "base + 4 \<le> length p" using assms by auto
  obtain pos where pos: "hsCalcDigestPos p base = Ok pos" "base + 4 \<le> pos" "pos < base + 732"
    by (rule hsCalcDigestPos_bounds [OF b])
  have fit: "0 < pos" "pos + 32 \<le> length p" using pos assms by auto
  show thesis
    by (rule that [of "if take 32 (drop pos p) \<noteq> hmac_sha256 key (take pos p @ drop (pos + 32) p)
        then None else Some pos"])
      (use fit pos assms(1) in \<open>auto simp: hsFindDigest_def hsMakeDigest_ok slice_def split: if_splits\<close>)
qed

lemma hsParse1_ok:
  assumes "length p = 1536"
  obtains ok digest where "hsParse1 p peerkey key = Ok (ok, digest)"
    and "hsFindDigest p peerkey 8 \<noteq> Ok None \<Longrightarrow> ok" and "ok \<Longrightarrow> length digest = 32"
proof -
  obtain r1 where r1: "hsFindDigest p peerkey 772 = Ok r1"
    "\<And>pos. r1 = Some pos \<Longrightarrow> 0 < pos \<and> pos + 32 \<le> 1536"
    using hsFindDigest_ok [OF assms, of 772 peerkey] by auto
  obtain r2 where r2: "hsFindDigest p peerkey 8 = Ok r2"
    "\<And>pos. r2 = Some pos \<Longrightarrow> 0 < pos \<and> pos + 32 \<le> 1536"
    using hsFindDigest_ok [OF assms, of 8 peerkey] by auto
  let ?r = "case r1 of Some pos \<Rightarrow> Some pos | None \<Rightarrow> r2"
  have eq: "hsParse1 p peerkey key = (case ?r of None \<Rightarrow> Ok (False, [])
      | Some pos \<Rightarrow> Ok (True, hmac_sha256 key (take 32 (drop pos p))))"
    using r1 r2 assms
    by (auto simp: hsParse1_def hsMakeDigest_def slice_def split: option.splits)
  show thesis
  proof (cases ?r)
    case None
    with eq have "hsParse1 p peerkey key = Ok (False, [])" by simp
    moreover have "r2 = None" using None by (auto split: option.splits)
    ultimately show thesis using r2(1) by (intro that) auto
  next
    case (Some pos)
    then show thesis using eq by (intro that) auto
  qed
qed

lemma hsCreate01_found:
  assumes "length p = 1537" and "length rnd = 1528"
  obtains q pos where "hsCreate01 p time ver key rnd = Ok (3 # q)" and "length q = 1536"
    and "take 4 q = be_bytes 4 time" and "take 4 (drop 4 q) = be_bytes 4 ver"
    and "hsFindDigest q key 8 = Ok (Some pos)"
proof -
  obtain x p1 where p: "p = x # p1" and l1: "length p1 = 1536" using assms(1) by (cases p) auto
  define p5 where "p5 = be_bytes 4 time @ be_bytes 4 ver @ rnd"
  have l5: "length p5 = 1536" using assms(2) by (simp add: p5_def)
  obtain gap where gap: "hsCalcDigestPos p5 8 = Ok gap" "12 \<le> gap" "gap < 740"
    using hsCalcDigestPos_bounds [of 8 p5] l5 by auto
  define digest where "digest = hmac_sha256 key (take gap p5 @ drop (gap + 32) p5)"
  define q where "q = take gap p5 @ digest @ drop (gap + 32) p5"
  have dl: "length digest = 32" by (simp add: digest_def)
  have md: "hsMakeDigest key p5 (int gap) = Ok digest"
    using gap l5 by (simp add: hsMakeDigest_ok digest_def)
  have "put_at 8 rnd p1 = take 8 p1 @ rnd" using l1 assms(2) by (simp add: put_at_fit)
  then have run: "hsCreate01 p time ver key rnd = Ok (3 # put_at gap digest p5)"
    using l1 assms(2) gap md
    by (simp add: hsCreate01_def p slice_def Let_def byte_simps p5_def [symmetric]
        del: be_bytes.simps)
  have pq: "put_at gap digest p5 = q" using dl gap l5 by (simp add: put_at_fit q_def)
  have lq: "length q = 1536" using dl gap l5 by (simp add: q_def)
  have tq: "take gap q = take gap p5" "drop (gap + 32) q = drop (gap + 32) p5" "take 32 (drop gap q) = digest"
    using dl gap l5 by (simp_all add: q_def)
  have "take 12 q = take 12 p5" using tq(1) gap(2) by (metis min.absorb1 take_take)
  then have "hsCalcDigestPos q 8 = Ok gap" using hsCalcDigestPos_cong [of 8 p5 q] l5 gap(1) by simp
  moreover have "hsMakeDigest key q (int gap) = Ok digest"
    using gap lq tq by (simp add: hsMakeDigest_ok digest_def)
  ultimately have "hsFindDigest q key 8 = Ok (Some gap)"
    using gap lq tq by (simp add: hsFindDigest_def slice_def)
  moreover have "take n q = take n p5" if "n \<le> 12" for n
    using that \<open>take 12 q = take 12 p5\<close> by (metis min.absorb1 take_take)
  then have "take 4 q = take 4 p5" "take 4 (drop 4 q) = take 4 (drop 4 p5)"
    by (simp_all add: take_drop)
  then have "take 4 q = be_bytes 4 time" "take 4 (drop 4 q) = be_bytes 4 ver"
    by (simp_all add: p5_def del: be_bytes.simps)
  ultimately show thesis using run pq lq that by blast
qed

lemma serverReply_digest:
  assumes "length c1 = 1536" and "U32BE (drop 4 c1) = Ok v" and "v \<noteq> 0"
    and "length rnd1 = 1528" and "length rnd2 = 1536"
    and "hsFindDigest c1 hsClientPartialKey 8 \<noteq> Ok None"
  obtains s1 s2 pos where "serverReply c1 rnd1 rnd2 = Ok (3 # s1 @ s2)" and "length s1 = 1536"
    and "length s2 = 1536" and "take 4 s1 = take 4 c1"
    and "hsFindDigest s1 hsServerPartialKey 8 = Ok (Some pos)"
proof -
  obtain ok digest where pr: "hsParse1 c1 hsClientPartialKey hsServerFullKey = Ok (ok, digest)"
    and ok: "ok"
    using hsParse1_ok [OF assms(1), of hsClientPartialKey hsServerFullKey] assms(6) by metis
  obtain t where t: "U32BE c1 = Ok t" "be_bytes 4 t = take 4 c1"
    using assms(1) be_bytes_be_word [of "take 4 c1", where ?'a = 32]
    by (simp add: U32BE_cases del: be_bytes.simps)
  obtain s1 pos where c01: "hsCreate01 (3 # replicate 1536 0) t 0x0d0e0a0d hsServerPartialKey rnd1 = Ok (3 # s1)"
    "length s1 = 1536" "take 4 s1 = be_bytes 4 t" "hsFindDigest s1 hsServerPartialKey 8 = Ok (Some pos)"
    by (rule hsCreate01_found [where p = "3 # replicate 1536 0" and rnd = rnd1 and time = t and ver = "0x0d0e0a0d"
        and key = hsServerPartialKey])
      (simp_all add: assms(4))
  obtain s2 where c2: "hsCreate2 (replicate 1536 0) digest rnd2 = Ok s2" "length s2 = 1536"
    using assms(5) hsMakeDigest_ok [of 1504 rnd2 digest]
    by (simp add: hsCreate2_def Let_def)
  have "serverReply c1 rnd1 rnd2 = Ok (3 # s1 @ s2)"
    using t assms(2,3) pr ok c01 c2 by (simp add: serverReply_def)
  then show thesis using that c01 c2 t by metis
qed

section \<open>Both sides complete\<close>

lemma rw_Flush_spec:
  assumes "rw_Flush w = (r, w')"
  shows "sent w' = sent w" and "rd_same w w'" and "wok w \<Longrightarrow> r = Ok () \<and> wok w'" and "room w' = room w"
proof -
  consider (flush) "bufio_Flush w = (r, w')" | (none) "w' = w" "wok w \<longrightarrow> r = Ok ()"
    using assms by (cases "writeError w"; cases "wbuf w = []") (auto simp: rw_Flush_def wok_def)
  then have "sent w' = sent w \<and> rd_same w w' \<and> (wok w \<longrightarrow> r = Ok () \<and> wok w') \<and> room w' = room w"
    by cases (simp_all add: bufio_Flush_spec)
  then show "sent w' = sent w" and "rd_same w w'" and "wok w \<Longrightarrow> r = Ok () \<and> wok w'" and "room w' = room w"
    by simp_all
qed

lemma liftR_write:
  assumes "wok (rw conn)" and "length p \<le> room (rw conn)"
  obtains conn' where "liftR (rw_Write p) conn = (Ok (), conn')" and "wok (rw conn')"
    and "room (rw conn') = room (rw conn) - length p" and "sent (rw conn') = sent (rw conn) @ p"
    and "rd_same (rw conn) (rw conn')" and "conn' = conn\<lparr>rw := rw conn'\<rparr>"
proof -
  obtain w' where "rw_Write p (rw conn) = (Ok (), w')" "wok w'" "room w' = room (rw conn) - length p"
    "sent w' = sent (rw conn) @ p" "rd_same (rw conn) w'"
    using rw_write.emit_ok [OF assms] by metis
  then show thesis by (intro that [of "conn\<lparr>rw := w'\<rparr>"]) (simp_all add: liftR_def)
qed

lemma liftR_flush:
  assumes "wok (rw conn)"
  obtains conn' where "liftR rw_Flush conn = (Ok (), conn')" and "wok (rw conn')"
    and "room (rw conn') = room (rw conn)" and "sent (rw conn') = sent (rw conn)"
    and "rd_same (rw conn) (rw conn')" and "conn' = conn\<lparr>rw := rw conn'\<rparr>"
proof -
  obtain r w' where f: "rw_Flush (rw conn) = (r, w')" by fastforce
  note s = rw_Flush_spec [OF f]
  show thesis
    by (rule that [of "conn\<lparr>rw := w'\<rparr>"]) (use s assms f in \<open>simp_all add: liftR_def\<close>)
qed

lemma io_ReadFull_append:
  assumes "rin (rw conn) = p @ rest" and "length p = n" and "readError (rw conn) = None"
  shows "io_ReadFull n conn = (Ok p, conn\<lparr>rw := (rw conn)\<lparr>rin := rest\<rparr>\<rparr>)"
  using rw_Read_append [OF assms] by (simp add: io_ReadFull_def liftR_def)

lemma wok_rin [simp]: "wok (w\<lparr>rin := b\<rparr>) = wok w" "room (w\<lparr>rin := b\<rparr>) = room w" "sent (w\<lparr>rin := b\<rparr>) = sent w"
  by (simp_all add: wok_def room_def sent_def)

lemma HandshakeServer_runs:
  assumes rin: "rin (rw conn) = 3 # c1 @ c2 @ rest" "length c1 = 1536" "length c2 = 1536"
    and ok: "readError (rw conn) = None" "wok (rw conn)" "length reply \<le> room (rw conn)"
    and reply: "serverReply c1 rnd1 rnd2 = Ok reply"
  obtains conn' where "HandshakeServer rnd1 rnd2 conn = (Ok (), conn')"
    and "rin (rw conn') = rest" and "sent (rw conn') = sent (rw conn) @ reply"
    and "conn' = conn\<lparr>rw := rw conn'\<rparr>" and "readError (rw conn') = None"
    and "wok (rw conn')" and "room (rw conn') = room (rw conn) - length reply"
proof -
  let ?c = "conn\<lparr>rw := (rw conn)\<lparr>rin := c2 @ rest\<rparr>\<rparr>"
  have r1: "io_ReadFull 1537 conn = (Ok (3 # c1), ?c)"
    using rin ok by (intro io_ReadFull_append) simp_all
  have "wok (rw ?c)" "length reply \<le> room (rw ?c)" using ok by simp_all
  then obtain ca where wa: "liftR (rw_Write reply) ?c = (Ok (), ca)" "wok (rw ca)"
    "sent (rw ca) = sent (rw ?c) @ reply" "rd_same (rw ?c) (rw ca)" "ca = ?c\<lparr>rw := rw ca\<rparr>"
    "room (rw ca) = room (rw ?c) - length reply"
    by (rule liftR_write)
  obtain cb where fb: "liftR rw_Flush ca = (Ok (), cb)" "sent (rw cb) = sent (rw ca)"
    "rd_same (rw ca) (rw cb)" "cb = ca\<lparr>rw := rw cb\<rparr>" "wok (rw cb)" "room (rw cb) = room (rw ca)"
    by (rule liftR_flush [OF wa(2)])
  have cb: "rin (rw cb) = c2 @ rest" "readError (rw cb) = None"
    using wa(4) fb(3) ok(1) by (simp_all add: rd_same_def)
  have r2: "io_ReadFull 1536 cb = (Ok c2, cb\<lparr>rw := (rw cb)\<lparr>rin := rest\<rparr>\<rparr>)"
    using cb rin(3) by (intro io_ReadFull_append) simp_all
  have "HandshakeServer rnd1 rnd2 conn = (Ok (), cb\<lparr>rw := (rw cb)\<lparr>rin := rest\<rparr>\<rparr>)"
    using r1 wa(1) fb(1) r2 reply by (simp add: HandshakeServer_def go_simps)
  moreover have "cb\<lparr>rw := w\<rparr> = conn\<lparr>rw := w\<rparr>" for w
    by (subst fb(4), subst wa(5)) simp
  ultimately show thesis
    using wa(3,6) fb(2,5,6) cb(2) by (intro that [of "conn\<lparr>rw := (rw cb)\<lparr>rin := rest\<rparr>\<rparr>"]) simp_all
qed

lemma HandshakeClient_runs:
  assumes rin: "rin (rw conn) = s0 # s1 @ s2 @ rest" "length s1 = 1536" "length s2 = 1536"
    and ok: "readError (rw conn) = None" "wok (rw conn)" "3073 \<le> room (rw conn)"
  obtains conn' where "HandshakeClient conn = (Ok (), conn')"
    and "rin (rw conn') = rest" and "sent (rw conn') = sent (rw conn) @ 3 # replicate 1536 0 @ s1"
    and "conn' = conn\<lparr>rw := rw conn'\<rparr>" and "readError (rw conn') = None"
    and "wok (rw conn')" and "room (rw conn') = room (rw conn) - 3073"
proof -
  let ?p = "3 # replicate 1536 (0 :: u8)"
  obtain ca where wa: "liftR (rw_Write ?p) conn = (Ok (), ca)" "wok (rw ca)"
    "room (rw ca) = room (rw conn) - length ?p"
    "sent (rw ca) = sent (rw conn) @ ?p" "rd_same (rw conn) (rw ca)" "ca = conn\<lparr>rw := rw ca\<rparr>"
    by (rule liftR_write [of conn ?p]) (use ok in \<open>auto\<close>)
  obtain cb where fb: "liftR rw_Flush ca = (Ok (), cb)" "wok (rw cb)" "room (rw cb) = room (rw ca)"
    "sent (rw cb) = sent (rw ca)" "rd_same (rw ca) (rw cb)" "cb = ca\<lparr>rw := rw cb\<rparr>"
    by (rule liftR_flush [OF wa(2)])
  have cb: "rin (rw cb) = (s0 # s1 @ s2) @ rest" "readError (rw cb) = None"
    using wa(5) fb(5) rin ok(1) by (simp_all add: rd_same_def)
  let ?cc = "cb\<lparr>rw := (rw cb)\<lparr>rin := rest\<rparr>\<rparr>"
  have rd: "io_ReadFull 3073 cb = (Ok (s0 # s1 @ s2), ?cc)"
    using cb rin by (intro io_ReadFull_append) simp_all
  have "wok (rw ?cc)" "length s1 \<le> room (rw ?cc)" using fb wa(3) ok(3) rin(2) by simp_all
  then obtain cd where wd: "liftR (rw_Write s1) ?cc = (Ok (), cd)" "sent (rw cd) = sent (rw ?cc) @ s1"
    "rd_same (rw ?cc) (rw cd)" "wok (rw cd)" "room (rw cd) = room (rw ?cc) - length s1" "cd = ?cc\<lparr>rw := rw cd\<rparr>"
    by (rule liftR_write)
  have "HandshakeClient conn = (Ok (), cd)"
    using wa(1) fb(1) rd wd(1) rin(2) by (simp add: HandshakeClient_def go_simps)
  moreover have "rin (rw cd) = rest" "sent (rw cd) = sent (rw conn) @ 3 # replicate 1536 0 @ s1"
    using wd(2,3) fb(4) wa(4) by (simp_all add: rd_same_def)
  moreover have "cd = conn\<lparr>rw := rw cd\<rparr>" by (subst wd(6), subst fb(6), subst wa(6)) simp
  moreover have "readError (rw cd) = None" "room (rw cd) = room (rw conn) - 3073"
    using wd(3,5) cb(2) fb(3) wa(3) rin(2) by (simp_all add: rd_same_def)
  ultimately show thesis using wd(4) by (intro that)
qed

lemma serverReply_simple:
  assumes "length c1 = 1536" and "U32BE (drop 4 c1) = Ok 0"
  shows "serverReply c1 rnd1 rnd2 = Ok (3 # replicate 1536 0 @ c1)"
  using assms by (simp add: serverReply_def U32BE_cases)

lemma serverReply_no_panic:
  assumes "length c1 = 1536" and "length rnd1 = 1528" and "length rnd2 = 1536"
  shows "serverReply c1 rnd1 rnd2 \<noteq> Panic"
proof -
  obtain ok digest where pr: "hsParse1 c1 hsClientPartialKey hsServerFullKey = Ok (ok, digest)"
    by (rule hsParse1_ok [OF assms(1)])
  have c01: "\<exists>q. hsCreate01 (3 # replicate 1536 0) t 0x0d0e0a0d hsServerPartialKey rnd1 = Ok q" for t
    by (rule hsCreate01_found [where p = "3 # replicate 1536 0" and rnd = rnd1 and time = t
          and ver = "0x0d0e0a0d" and key = hsServerPartialKey]) (use assms(2) in auto)
  have c2: "\<exists>q. hsCreate2 (replicate 1536 0) digest rnd2 = Ok q"
    using assms(3) hsMakeDigest_ok [of 1504 rnd2 digest] by (simp add: hsCreate2_def Let_def)
  show ?thesis
    using assms(1) pr c01 [of "be_word (take 4 c1)"] c2 by (auto simp: serverReply_def U32BE_cases)
qed

section \<open>Properties\<close>

text \<open>
  The simple handshake: a client and a server whose connections work, and which see each
  other's bytes, both complete; each has sent exactly what the other one has to read.
\<close>

theorem simple_handshake_completes:
  assumes "rin (rw a) = 3 # replicate 1536 0 @ replicate 1536 0 @ resta"
    and "rin (rw b) = 3 # replicate 1536 0 @ replicate 1536 0 @ restb"
    and "readError (rw a) = None" and "wok (rw a)" and "3073 \<le> room (rw a)"
    and "readError (rw b) = None" and "wok (rw b)" and "3073 \<le> room (rw b)"
  shows "\<exists>a' b'. HandshakeClient a = (Ok (), a') \<and> HandshakeServer rnd1 rnd2 b = (Ok (), b') \<and>
    rin (rw b) = drop (length (sent (rw a))) (sent (rw a')) @ restb \<and>
    rin (rw a) = drop (length (sent (rw b))) (sent (rw b')) @ resta \<and>
    rin (rw a') = resta \<and> rin (rw b') = restb"
proof -
  let ?z = "replicate 1536 (0 :: u8)"
  obtain a' where a': "HandshakeClient a = (Ok (), a')" "rin (rw a') = resta"
    "sent (rw a') = sent (rw a) @ 3 # ?z @ ?z"
    by (rule HandshakeClient_runs [OF assms(1) _ _ assms(3-5)]) simp_all
  have "drop 4 ?z = replicate 1532 0" by simp
  moreover have "be_word (replicate 4 0) = (0 :: u32)" by (simp add: be_word_def numeral_eq_Suc)
  ultimately have reply: "serverReply ?z rnd1 rnd2 = Ok (3 # ?z @ ?z)"
    by (intro serverReply_simple) (simp_all add: U32BE_cases)
  obtain b' where b': "HandshakeServer rnd1 rnd2 b = (Ok (), b')" "rin (rw b') = restb"
    "sent (rw b') = sent (rw b) @ 3 # ?z @ ?z"
    by (rule HandshakeServer_runs [OF assms(2) _ _ assms(6,7) _ reply]) (use assms(8) in simp_all)
  from a' b' assms(1,2) show ?thesis by simp
qed

theorem simple_handshake_completes_witness:
  "\<exists>a' b'. HandshakeClient (NewRtmpConn (NewReadWriter (3 # replicate 3072 0) EOF 4000 EOF 4096)) = (Ok (), a') \<and>
     HandshakeServer [] [] (NewRtmpConn (NewReadWriter (3 # replicate 3072 0) EOF 4000 EOF 4096)) = (Ok (), b')"
proof -
  let ?c = "NewRtmpConn (NewReadWriter (3 # replicate 3072 0) EOF 4000 EOF 4096)"
  have "rin (rw ?c) = 3 # replicate 1536 0 @ replicate 1536 0 @ []"
    by (simp add: NewRtmpConn_def NewReadWriter_def flip: replicate_add)
  moreover have "readError (rw ?c) = None" "wok (rw ?c)" "3073 \<le> room (rw ?c)"
    by (simp_all add: NewRtmpConn_def NewReadWriter_def wok_def room_def sent_def)
  ultimately show ?thesis using simple_handshake_completes [of ?c "[]" ?c "[]" "[]" "[]"] by blast
qed

text \<open>
  C30: The complex handshake: a C1 made by \<open>hsCreate01\<close> with the client key is accepted, and the
  server's S1 carries a digest that \<open>hsFindDigest\<close> finds under the server key.
\<close>

theorem complex_handshake_accepted:
  assumes "length rnd = 1528" and "length rnd1 = 1528" and "length rnd2 = 1536" and "v \<noteq> 0"
    and "hsCreate01 (replicate 1537 0) t v hsClientPartialKey rnd = Ok c0c1"
    and "rin (rw b) = c0c1 @ c2 @ rest" and "length c2 = 1536"
    and "readError (rw b) = None" and "wok (rw b)" and "3073 \<le> room (rw b)"
  shows "\<exists>b' s1 s2 pos. HandshakeServer rnd1 rnd2 b = (Ok (), b') \<and> rin (rw b') = rest \<and>
    sent (rw b') = sent (rw b) @ 3 # s1 @ s2 \<and> length s1 = 1536 \<and> length s2 = 1536 \<and>
    take 4 s1 = be_bytes 4 t \<and> hsFindDigest s1 hsServerPartialKey 8 = Ok (Some pos)"
proof -
  obtain q pos where q: "c0c1 = 3 # q" "length q = 1536" "take 4 q = be_bytes 4 t"
    "take 4 (drop 4 q) = be_bytes 4 v" "hsFindDigest q hsClientPartialKey 8 = Ok (Some pos)"
    using hsCreate01_found [of "replicate 1537 0" rnd t v hsClientPartialKey] assms(1,5) by auto
  have "U32BE (drop 4 q) = Ok (be_word (take 4 (drop 4 q)))" using q(2) by (simp add: U32BE_cases)
  then have v: "U32BE (drop 4 q) = Ok v"
    unfolding q(4) by (simp add: be_word_be_bytes del: be_bytes.simps)
  obtain s1 s2 p where r: "serverReply q rnd1 rnd2 = Ok (3 # s1 @ s2)" "length s1 = 1536"
    "length s2 = 1536" "take 4 s1 = take 4 q" "hsFindDigest s1 hsServerPartialKey 8 = Ok (Some p)"
    by (rule serverReply_digest [OF q(2) v assms(4,2,3)]) (simp_all add: q(5))
  obtain b' where "HandshakeServer rnd1 rnd2 b = (Ok (), b')" "rin (rw b') = rest"
    "sent (rw b') = sent (rw b) @ 3 # s1 @ s2"
    by (rule HandshakeServer_runs [OF _ q(2) assms(7-9) _ r(1)]) (use assms(6,10) q(1) r in simp_all)
  with r q(3) show ?thesis by auto
qed

theorem complex_handshake_accepted_witness:
  "\<exists>c0c1 b'. hsCreate01 (replicate 1537 0) 7 1 hsClientPartialKey (replicate 1528 0) = Ok c0c1 \<and>
     HandshakeServer (replicate 1528 0) (replicate 1536 0)
       (NewRtmpConn (NewReadWriter (c0c1 @ replicate 1536 0) EOF 4000 EOF 4096)) = (Ok (), b')"
proof -
  obtain q where q: "hsCreate01 (replicate 1537 0) 7 1 hsClientPartialKey (replicate 1528 0) = Ok (3 # q)"
    by (rule hsCreate01_found [where p = "replicate 1537 0" and rnd = "replicate 1528 0" and time = 7
          and ver = 1 and key = hsClientPartialKey]) simp_all
  let ?c = "NewRtmpConn (NewReadWriter ((3 # q) @ replicate 1536 0) EOF 4000 EOF 4096)"
  have "rin (rw ?c) = (3 # q) @ replicate 1536 0 @ []" "readError (rw ?c) = None" "wok (rw ?c)"
    "3073 \<le> room (rw ?c)"
    by (simp_all add: NewRtmpConn_def NewReadWriter_def wok_def room_def sent_def)
  from complex_handshake_accepted [OF _ _ _ _ q this(1) _ this(2-4), of "replicate 1528 0" "replicate 1536 0"] q
  show ?thesis by auto
qed

text \<open>
  C31: Whatever a client sends, \<open>HandshakeServer\<close> does not panic: the digest positions a peer can
  choose stay inside the 1536 bytes of C1.
\<close>

theorem HandshakeServer_no_panic:
  assumes "length rnd1 = 1528" and "length rnd2 = 1536"
  shows "fst (HandshakeServer rnd1 rnd2 conn) \<noteq> Panic"
proof -
  have rd: "fst (io_ReadFull n c) \<noteq> Panic" for n c
    by (auto simp: io_ReadFull_def liftR_def split: prod.splits option.splits)
  have len: "length got = n" if "io_ReadFull n c = (Ok got, c')" for n c got c'
    using that by (auto simp: io_ReadFull_def liftR_def split: prod.splits option.splits dest: rw_Read_length)
  have wr: "fst (liftR (rw_Write p) c) \<noteq> Panic" for p c
    using rw_write.emit_no_panic [of p "rw c"] by (auto simp: liftR_def split: prod.splits)
  have fl: "fst (liftR rw_Flush c) \<noteq> Panic" for c
    using bufio_Flush_spec(4) [of "rw c"] by (auto simp: liftR_def rw_Flush_def split: prod.splits option.splits if_splits)
  have reply: "serverReply (drop 1 got) rnd1 rnd2 \<noteq> Panic" if "io_ReadFull 1537 c = (Ok got, c')" for c got c'
    using serverReply_no_panic [OF _ assms, of "drop 1 got"] len [OF that] by simp
  have tail: "fst (pseq (liftR (rw_Write p)) (pseq (liftR rw_Flush) (pbind (io_ReadFull 1536) (\<lambda>_. preturn ()))) c)
      \<noteq> Panic" for p c
    unfolding pseq_def by (intro pbind_no_panic rd wr fl) simp
  show ?thesis
    unfolding HandshakeServer_def
  proof (rule pbind_no_panic [OF rd])
    fix got c
    assume "io_ReadFull 1537 conn = (Ok got, c)"
    from reply [OF this] tail
    show "fst ((if hd got \<noteq> 3 then (\<lambda>conn. (Err (Errorf ''rtmp: handshake version invalid''), conn))
        else pbind (Pair (serverReply (drop 1 got) rnd1 rnd2)) (\<lambda>s0s1s2.
          pseq (liftR (rw_Write s0s1s2))
            (pseq (liftR rw_Flush) (pbind (io_ReadFull 1536) (\<lambda>_. preturn ()))))) c) \<noteq> Panic"
      by (simp add: pbind_no_panic)
  qed
qed

theorem HandshakeServer_no_panic_witness:
  "fst (HandshakeServer (replicate 1528 0) (replicate 1536 0)
     (NewRtmpConn (NewReadWriter (3 # replicate 1536 255) EOF 4000 EOF 4096))) \<noteq> Panic"
  by (rule HandshakeServer_no_panic) simp_all

end
