(* ===== verification/ConnClient.thy ===== *)
theory ConnClient
  imports ForwardConn Handshake
begin

text \<open>
  The client side of a connection, \<open>protocol/core/conn_client.go\<close>: the commands a client sends to
  publish or play a stream and how it checks the answers. Parsing the URL, the name lookup and the TCP
  connection are arguments (\<open>network\<close>); the iteration order of a map is the argument \<open>order\<close>; logging is left out.
\<close>

section \<open>State and sending\<close>

record ConnClient =
  cdone :: bool
  transID :: int
  url :: bytes
  tcurl :: bytes
  app :: bytes
  title :: bytes
  query :: bytes
  curcmdName :: bytes
  streamid :: u32
  cconn :: RtmpConn
  cdecoder :: Decoder

definition zeroDecoder :: Decoder where
  "zeroDecoder = \<lparr>refCache = 0, stringRefs = [], objectRefs = [], traitRefs = []\<rparr>"

text \<open>The connection is \<open>nil\<close> until \<open>connectServer\<close> sets it; \<open>conn\<close> is what it is before.\<close>

definition NewConnClient :: "RtmpConn \<Rightarrow> ConnClient" where
  "NewConnClient conn = \<lparr>cdone = False, transID = 1, url = [], tcurl = [], app = [], title = [], query = [],
     curcmdName = [], streamid = 0, cconn = conn, cdecoder = zeroDecoder\<rparr>"

definition cc_DecodeBatch :: "u8 \<Rightarrow> bytes \<Rightarrow> (ConnClient, val list \<times> err) prog" where
  "cc_DecodeBatch ver b cc =
     (case DecodeBatch ver (Decoder.extend (cdecoder cc) \<lparr>rd = b\<rparr>) of
        Some (r, d) \<Rightarrow> (r, cc\<lparr>cdecoder := Decoder.truncate d\<rparr>)
      | None \<Rightarrow> (Panic, cc))"

definition cc_Read :: "(ConnClient, ChunkStream) prog" where
  "cc_Read cc = (case Read (cconn cc) of (r, conn) \<Rightarrow> (r, cc\<lparr>cconn := conn\<rparr>))"

definition cc_Flush :: "(ConnClient, unit) prog" where
  "cc_Flush cc = (case conn_Flush (cconn cc) of (r, conn) \<Rightarrow> (r, cc\<lparr>cconn := conn\<rparr>))"

definition ccWrite_ignored :: "ChunkStream \<Rightarrow> (ConnClient, unit) prog" where
  "ccWrite_ignored c cc =
     (case Write c (cconn cc) of (r, _, conn) \<Rightarrow> (if r = Panic then Panic else Ok (), cc\<lparr>cconn := conn\<rparr>))"

definition cc_writeMsg :: "val list \<Rightarrow> (ConnClient, unit) prog" where
  "cc_writeMsg args cc =
     (case EncodeBatch 0 args [] of
        (Ok _, msg) \<Rightarrow>
          pbind (ccWrite_ignored (zeroChunkStream\<lparr>Format := 0, CSID := 3, Timestamp := 0, TypeID := 20,
              StreamID := streamid cc, Length := of_nat (length msg), Data := msg\<rparr>)) (\<lambda>_. cc_Flush) cc
      | (Err e, _) \<Rightarrow> (Err e, cc)
      | (Panic, _) \<Rightarrow> (Panic, cc))"

definition writeConnectMsg :: "order \<Rightarrow> (ConnClient, unit) prog" where
  "writeConnectMsg order cc =
     (let event = VObject (order [(chars ''app'', VStr (app cc)), (chars ''type'', VStr (chars ''nonprivate'')),
            (chars ''flashVer'', VStr (chars ''FMS.3.1'')), (chars ''tcUrl'', VStr (tcurl cc))]);
          cc1 = cc\<lparr>curcmdName := chars ''connect''\<rparr>
      in cc_writeMsg [VStr (chars ''connect''), VInt (transID cc1), event] cc1)"

definition writeCreateStreamMsg :: "(ConnClient, unit) prog" where
  "writeCreateStreamMsg cc =
     (let cc1 = cc\<lparr>transID := transID cc + 1, curcmdName := chars ''createStream''\<rparr>
      in cc_writeMsg [VStr (chars ''createStream''), VInt (transID cc1), VNil] cc1)"

definition writePublishMsg :: "(ConnClient, unit) prog" where
  "writePublishMsg cc =
     (let cc1 = cc\<lparr>transID := transID cc + 1, curcmdName := chars ''publish''\<rparr>
      in cc_writeMsg [VStr (chars ''publish''), VInt (transID cc1), VNil, VStr (title cc1), VStr (chars ''live'')] cc1)"

definition writePlayMsg :: "(ConnClient, unit) prog" where
  "writePlayMsg cc =
     (let cc1 = cc\<lparr>transID := transID cc + 1, curcmdName := chars ''play''\<rparr>
      in cc_writeMsg [VStr (chars ''play''), VInt 0, VNil, VStr (title cc1)] cc1)"

section \<open>waitForResponse\<close>

text \<open>The string under the key \<open>code\<close> of an object.\<close>

definition codeOf :: "val \<Rightarrow> bytes option" where
  "codeOf v = (case v of VObject m \<Rightarrow> (case map_of m (chars ''code'') of Some (VStr s) \<Rightarrow> Some s | _ \<Rightarrow> None) | _ \<Rightarrow> None)"

fun connectFlags :: "int \<Rightarrow> nat \<Rightarrow> val list \<Rightarrow> bool \<times> bool \<times> bool \<Rightarrow> bool \<times> bool \<times> bool" where
  "connectFlags tid k [] f = f"
| "connectFlags tid k (v # vs) (bResult, bTransID, bCode) =
     connectFlags tid (Suc k) vs
       (case v of
          VStr s \<Rightarrow> (bResult \<or> s = chars ''_result'', bTransID, bCode)
        | VFloat x \<Rightarrow> (bResult, bTransID \<or> k = 1 \<and> f64_trunc x = tid, bCode)
        | _ \<Rightarrow> (bResult, bTransID, bCode \<or> codeOf v = Some (chars ''NetConnection.Connect.Success'')))"

fun createFlags :: "nat \<Rightarrow> val list \<Rightarrow> bool \<times> bool \<Rightarrow> ConnClient \<Rightarrow> (bool \<times> bool) \<times> ConnClient" where
  "createFlags k [] f cc = (f, cc)"
| "createFlags k (v # vs) (bResult, bTransID) cc =
     (case v of
        VStr s \<Rightarrow> createFlags (Suc k) vs (bResult \<or> s = chars ''_result'', bTransID) cc
      | VFloat x \<Rightarrow> createFlags (Suc k) vs (bResult, bTransID \<or> k = 1 \<and> f64_trunc x = transID cc)
          (if k = 3 then cc\<lparr>streamid := of_int (f64_trunc x)\<rparr> else cc)
      | _ \<Rightarrow> createFlags (Suc k) vs (bResult, bTransID) cc)"

text \<open>The answers to \<open>play\<close> and \<open>publish\<close>: a status, and an object with one of the codes.\<close>

definition statusFlags :: "string list \<Rightarrow> val list \<Rightarrow> bool \<times> bool" where
  "statusFlags codes vs =
     (VStr (chars ''onStatus'') \<in> set vs, \<exists>v\<in>set vs. \<exists>code\<in>set codes. codeOf v = Some (chars code))"

definition checkAnswer :: "bytes \<Rightarrow> val list \<Rightarrow> (ConnClient, unit) prog" where
  "checkAnswer commandName vs cc =
     (if commandName = chars ''connect'' then
        (case connectFlags (transID cc) 0 vs (False, False, False) of (bResult, bTransID, bCode) \<Rightarrow>
          (if \<not> bResult \<or> \<not> bTransID \<or> \<not> bCode then Err (Errorf ''result transID code'') else Ok (), cc))
      else if commandName = chars ''createStream'' then
        (case createFlags 0 vs (False, False) cc of ((bResult, bTransID), cc') \<Rightarrow>
          (if \<not> bResult \<or> \<not> bTransID then Err (Errorf ''result transID'') else Ok (), cc'))
      else if commandName = chars ''play'' then
        (case statusFlags [''NetStream.Play.Reset'', ''NetStream.Play.Start''] vs of (bResult, bCode) \<Rightarrow>
          (if \<not> bResult \<or> \<not> bCode then Err (Errorf ''result start reset'') else Ok (), cc))
      else if commandName = chars ''publish'' then
        (case statusFlags [''NetStream.Publish.Start''] vs of (bResult, bStart) \<Rightarrow>
          (if \<not> bResult \<or> \<not> bStart then Err (Errorf ''result code'') else Ok (), cc))
      else (Err (Errorf ''unknow command''), cc))"

text \<open>
  One turn of the loop. Messages of the types 16, 19 and 4 are skipped; every type that the switch
  does not name, and the aggregate message 22, leave it and return \<open>nil\<close>.
\<close>

definition wait_message :: "bytes \<Rightarrow> ChunkStream \<Rightarrow> (ConnClient, unit option) prog" where
  "wait_message commandName cs =
     (let t = TypeID cs in
      if t = 18 \<or> t = 15 then perr ''metadata message should not received''
      else if t = 19 \<or> t = 16 then preturn None
      else if t = 8 \<or> t = 9 then perr ''video and audio message should not received''
      else if t = 22 then preturn (Some ())
      else if t = 4 then preturn None
      else if t = 20 \<or> t = 17 then
        pbind (cc_DecodeBatch (if t = 20 then 0 else 3) (Data cs)) (\<lambda>(vs, e).
          if e \<noteq> EOF then perr ''decode chunk stream failed''
          else pbind (checkAnswer commandName vs) (\<lambda>_. preturn (Some ())))
      else preturn (Some ()))"

definition wait_turn :: "bytes \<Rightarrow> (ConnClient, unit option) prog" where
  "wait_turn commandName = pbind (pwrap ''read chunk stream failed'' cc_Read) (wait_message commandName)"

definition waitForResponse :: "bytes \<Rightarrow> ConnClient \<Rightarrow> (unit res \<times> ConnClient) option" where
  "waitForResponse commandName = run_loop (wait_turn commandName)"

section \<open>The other response loops\<close>

text \<open>\<open>checkResponse\<close>: a failed type assertion panics, \<open>k\<close> is the index of the value.\<close>

definition checkCode :: "string \<Rightarrow> obj \<Rightarrow> unit res" where
  "checkCode code m =
     (case map_of m (chars ''code'') of
        None \<Rightarrow> Ok ()
      | Some v \<Rightarrow> res_bind (asString v) (\<lambda>s. if s \<noteq> chars code then Err (Errorf ''respone err'') else Ok ()))"

fun checkResponse_loop :: "bytes \<Rightarrow> nat \<Rightarrow> val list \<Rightarrow> bool \<Rightarrow> (ConnClient, bool) prog" where
  "checkResponse_loop cmd k [] resultOK cc = (Ok resultOK, cc)"
| "checkResponse_loop cmd k (v # vs) resultOK cc =
     (let isConn = (cmd = chars ''connect'' \<or> cmd = chars ''createStream'') in
      case v of
        VStr s \<Rightarrow>
          if isConn then
            (if s \<noteq> chars ''_result'' then (Err (Errorf ''response text''), cc) else checkResponse_loop cmd (Suc k) vs True cc)
          else if cmd = chars ''publish'' then
            (if s \<noteq> chars ''onStatus'' then (Err (Errorf ''respone err''), cc) else checkResponse_loop cmd (Suc k) vs True cc)
          else checkResponse_loop cmd (Suc k) vs resultOK cc
      | VFloat x \<Rightarrow>
          if isConn then
            (if k = 1 \<and> f64_trunc x \<noteq> transID cc then (Err (Errorf ''respone err''), cc)
             else checkResponse_loop cmd (Suc k) vs resultOK (if k = 3 then cc\<lparr>streamid := of_int (f64_trunc x)\<rparr> else cc))
          else if cmd = chars ''publish'' \<and> f64_trunc x \<noteq> 0 then (Err (Errorf ''respone err''), cc)
          else checkResponse_loop cmd (Suc k) vs resultOK cc
      | VObject m \<Rightarrow>
          (case (if cmd = chars ''connect'' then checkCode ''NetConnection.Connect.Success'' m
                 else if cmd = chars ''publish'' then checkCode ''NetStream.Publish.Start'' m else Ok ()) of
             Ok _ \<Rightarrow> checkResponse_loop cmd (Suc k) vs resultOK cc
           | Err e \<Rightarrow> (Err e, cc)
           | Panic \<Rightarrow> (Panic, cc))
      | _ \<Rightarrow> checkResponse_loop cmd (Suc k) vs resultOK cc)"

definition checkResponse :: "bytes \<Rightarrow> val list \<Rightarrow> (ConnClient, unit) prog" where
  "checkResponse cmd vs =
     pbind (checkResponse_loop cmd 0 vs False) (\<lambda>resultOK.
       if \<not> resultOK then perr ''check result failed'' else preturn ())"

text \<open>The loop that \<open>netConnection\<close>, \<open>streamConnection\<close> and \<open>setupPlayOrPublish\<close> have in common.\<close>

definition await_message :: "bytes \<Rightarrow> ChunkStream \<Rightarrow> (ConnClient, unit option) prog" where
  "await_message cmd cs =
     (let t = TypeID cs in
      if t = 20 \<or> t = 17 then
        pbind (cc_DecodeBatch (if t = 20 then 0 else 3) (Data cs)) (\<lambda>(vs, e).
          if e \<noteq> EOF then perr ''decode chunk stream failed''
          else pbind (pwrap ''check response failed'' (checkResponse cmd vs)) (\<lambda>_. preturn (Some ())))
      else if t = 18 \<or> t = 15 then perr ''metadata message should not received''
      else if t = 8 \<or> t = 9 then perr ''video and audio message should not received''
      else preturn None)"

definition await_turn :: "bytes \<Rightarrow> (ConnClient, unit option) prog" where
  "await_turn cmd = pbind (pwrap ''read chunk stream failed'' cc_Read) (await_message cmd)"

definition then_loop :: "unit res \<times> 's \<Rightarrow> ('s, unit option) prog \<Rightarrow> (unit res \<times> 's) option" where
  "then_loop x turn =
     (case x of (Ok _, s) \<Rightarrow> run_loop turn s | (Err e, s) \<Rightarrow> Some (Err e, s) | (Panic, s) \<Rightarrow> Some (Panic, s))"

definition netConnection :: "order \<Rightarrow> ConnClient \<Rightarrow> (unit res \<times> ConnClient) option" where
  "netConnection order cc =
     then_loop (pwrap ''write connect message failed'' (writeConnectMsg order) cc) (await_turn (chars ''connect''))"

definition streamConnection :: "ConnClient \<Rightarrow> (unit res \<times> ConnClient) option" where
  "streamConnection cc =
     then_loop (pwrap ''write create stream failed'' writeCreateStreamMsg cc) (await_turn (chars ''createStream''))"

text \<open>The error of the write is overwritten by that of the first read; the response is checked as one to \<open>play\<close>.\<close>

definition setupPlayOrPublish :: "bytes \<Rightarrow> ConnClient \<Rightarrow> (unit res \<times> ConnClient) option" where
  "setupPlayOrPublish meth cc =
     (if meth = chars ''play'' \<or> meth = chars ''publish'' then
        (case (if meth = chars ''play'' then writePlayMsg else writePublishMsg) cc of
           (Panic, cc1) \<Rightarrow> Some (Panic, cc1)
         | (_, cc1) \<Rightarrow> run_loop (await_turn (chars ''play'')) cc1)
      else Some (Err (Errorf ''unsupport method''), cc))"

text \<open>
  \<open>readRespMsg\<close>: the end of the input leaves the message \<open>nil\<close>, and \<open>rc.TypeID\<close> panics. Errors of
  the decoder are ignored.
\<close>

fun readResp_values :: "nat \<Rightarrow> val list \<Rightarrow> (ConnClient, unit) prog" where
  "readResp_values k [] cc = (Ok (), cc)"
| "readResp_values k (v # vs) cc =
     (let cmd = curcmdName cc; isConn = (cmd = chars ''connect'' \<or> cmd = chars ''createStream'') in
      case v of
        VStr s \<Rightarrow>
          if isConn \<and> s \<noteq> chars ''_result'' then (Err (Errorf ''response text''), cc)
          else if cmd = chars ''publish'' \<and> s \<noteq> chars ''onStatus'' then (Err (Errorf ''respone err''), cc)
          else readResp_values (Suc k) vs cc
      | VFloat x \<Rightarrow>
          if isConn then
            (if k = 1 \<and> f64_trunc x \<noteq> transID cc then (Err (Errorf ''respone err''), cc)
             else readResp_values (Suc k) vs (if k = 3 then cc\<lparr>streamid := of_int (f64_trunc x)\<rparr> else cc))
          else if cmd = chars ''publish'' \<and> f64_trunc x \<noteq> 0 then (Err (Errorf ''respone err''), cc)
          else readResp_values (Suc k) vs cc
      | VObject m \<Rightarrow>
          (case (if cmd = chars ''connect'' then checkCode ''NetConnection.Connect.Success'' m
                 else if cmd = chars ''publish'' then checkCode ''NetStream.Publish.Start'' m else Ok ()) of
             Ok _ \<Rightarrow> readResp_values (Suc k) vs cc
           | Err e \<Rightarrow> (Err e, cc)
           | Panic \<Rightarrow> (Panic, cc))
      | _ \<Rightarrow> readResp_values (Suc k) vs cc)"

definition readResp_turn :: "(ConnClient, unit option) prog" where
  "readResp_turn cc =
     (case cc_Read cc of
        (Ok rc, cc1) \<Rightarrow>
          (if TypeID rc = 20 \<or> TypeID rc = 17 then
             pbind (cc_DecodeBatch 0 (Data rc)) (\<lambda>(vs, e). pbind (readResp_values 0 vs) (\<lambda>_. preturn (Some ()))) cc1
           else (Ok None, cc1))
      | (Err e, cc1) \<Rightarrow> (if e \<noteq> EOF then Err e else Panic, cc1)
      | (Panic, cc1) \<Rightarrow> (Panic, cc1))"

definition readRespMsg :: "ConnClient \<Rightarrow> (unit res \<times> ConnClient) option" where
  "readRespMsg = run_loop readResp_turn"

section \<open>Connecting\<close>

record url_parts =
  Path :: bytes
  RawQuery :: bytes
  Host :: bytes

text \<open>
  The network as the client sees it: parsing of a URL, the addresses of a host in text form, the
  random choice among \<open>n\<close> of them, and the connection to an address (resolved and dialled).
\<close>

record network =
  urlParse :: "bytes \<Rightarrow> url_parts res"
  lookupIP :: "bytes \<Rightarrow> bytes list res"
  randIntn :: "nat \<Rightarrow> nat"
  dial :: "bytes \<Rightarrow> bytes \<Rightarrow> RtmpConn res"

abbreviation (input) slash :: u8 where "slash \<equiv> 0x2f"
abbreviation (input) colon :: u8 where "colon \<equiv> 0x3a"

text \<open>\<open>strings.SplitN(path, "/", 2)\<close> when it gives two parts.\<close>

definition splitSlash :: "bytes \<Rightarrow> (bytes \<times> bytes) option" where
  "splitSlash path =
     (if slash \<in> set path then Some (takeWhile (\<lambda>b. b \<noteq> slash) path, tl (dropWhile (\<lambda>b. b \<noteq> slash) path)) else None)"

definition beforeLast :: "u8 \<Rightarrow> bytes \<Rightarrow> bytes" where
  "beforeLast c s = rev (tl (dropWhile (\<lambda>b. b \<noteq> c) (rev s)))"

definition afterLast :: "u8 \<Rightarrow> bytes \<Rightarrow> bytes" where
  "afterLast c s = rev (takeWhile (\<lambda>b. b \<noteq> c) (rev s))"

text \<open>\<open>net.SplitHostPort\<close>, with the bracketed form of IPv6 addresses.\<close>

definition SplitHostPort :: "bytes \<Rightarrow> (bytes \<times> bytes) res" where
  "SplitHostPort hp =
     (if colon \<notin> set hp then Err (Errorf ''missing port in address'')
      else if hp \<noteq> [] \<and> hd hp = 0x5b then
        (if 0x5d \<notin> set hp then Err (Errorf ''missing bracket in address'')
         else
           (let host = tl (takeWhile (\<lambda>b. b \<noteq> 0x5d) hp); rest = tl (dropWhile (\<lambda>b. b \<noteq> 0x5d) hp) in
            if rest = [] then Err (Errorf ''missing port in address'')
            else if length rest \<noteq> Suc (length (afterLast colon hp)) then
              Err (Errorf (if hd rest = colon then ''too many colons in address'' else ''missing port in address''))
            else if 0x5b \<in> set (tl hp) then Err (Errorf ''unexpected [ in address'')
            else if 0x5d \<in> set rest then Err (Errorf ''unexpected ] in address'')
            else Ok (host, afterLast colon hp)))
      else
        (let host = beforeLast colon hp in
         if colon \<in> set host then Err (Errorf ''too many colons in address'')
         else if 0x5b \<in> set hp then Err (Errorf ''unexpected [ in address'')
         else if 0x5d \<in> set hp then Err (Errorf ''unexpected ] in address'')
         else Ok (host, afterLast colon hp)))"

definition hostPort :: "bytes \<Rightarrow> (bytes \<times> bytes) res" where
  "hostPort host =
     (if colon \<in> set host
      then res_bind (SplitHostPort host) (\<lambda>(h, p). Ok (h, colon # p))
      else Ok (host, chars '':1935''))"

definition parseURL :: "network \<Rightarrow> bytes \<Rightarrow> (ConnClient, bytes \<times> bytes) prog" where
  "parseURL net u cc =
     (case rewrap ''parse url failed'' (urlParse net u) of
        Ok parsed \<Rightarrow>
          (let cc1 = cc\<lparr>url := u\<rparr>; path = dropWhile (\<lambda>b. b = slash) (Path parsed) in
           case splitSlash path of
             None \<Rightarrow> (Err (Errorf ''path err''), cc1)
           | Some (a, t) \<Rightarrow>
               (let cc2 = cc1\<lparr>app := a, title := t, query := RawQuery parsed,
                      tcurl := chars ''rtmp://'' @ Host parsed @ [slash] @ a\<rparr> in
                (res_bind (hostPort (Host parsed)) (\<lambda>(host, port).
                 res_bind (rewrap ''net.LookupIP failed'' (lookupIP net host)) (\<lambda>ips.
                 res_bind (index ips (randIntn net (length ips))) (\<lambda>remote.
                   Ok (chars '':0'', if colon \<in> set remote then remote else remote @ port)))), cc2)))
      | Err e \<Rightarrow> (Err e, cc)
      | Panic \<Rightarrow> (Panic, cc))"

definition connectServer :: "network \<Rightarrow> bytes \<Rightarrow> (ConnClient, unit) prog" where
  "connectServer net u =
     pbind (pwrap ''parse url faile'' (parseURL net u)) (\<lambda>(local, remote) cc.
       case rewrap ''net.DialTCP failed'' (dial net local remote) of
         Ok conn \<Rightarrow>
           (case HandshakeClient conn of
              (Ok _, conn') \<Rightarrow> (Ok (), cc\<lparr>cconn := conn'\<rparr>)
            | (Err e, _) \<Rightarrow> (Err (Errorf ''HandshakeClient failed''), cc)
            | (Panic, _) \<Rightarrow> (Panic, cc))
       | Err e \<Rightarrow> (Err e, cc)
       | Panic \<Rightarrow> (Panic, cc))"

text \<open>One turn of the loop of \<open>Start\<close>: send the command, wait for its answer, go on to the next.\<close>

definition sendCommand :: "order \<Rightarrow> bytes \<Rightarrow> (ConnClient, unit) prog" where
  "sendCommand order cmd =
     (if cmd = chars ''connect'' then pwrap ''write connect msg failed'' (writeConnectMsg order)
      else if cmd = chars ''createStream'' then pwrap ''write create stream failed'' writeCreateStreamMsg
      else if cmd = chars ''play'' then pwrap ''write play msg failed'' writePlayMsg
      else if cmd = chars ''publish'' then pwrap ''write publish msg failed'' writePublishMsg
      else preturn ())"

definition nextCommand :: "bytes \<Rightarrow> bytes \<Rightarrow> bytes option res" where
  "nextCommand meth cmd =
     (if cmd = chars ''connect'' then Ok (Some (chars ''createStream''))
      else if cmd = chars ''createStream'' then
        (if meth = chars ''publish'' then Ok (Some (chars ''publish''))
         else if meth = chars ''play'' then Ok (Some (chars ''play''))
         else Err (Errorf ''unsupport method''))
      else if cmd = chars ''play'' \<or> cmd = chars ''publish'' then Ok None
      else Ok (Some cmd))"

definition Start_turn :: "order \<Rightarrow> bytes \<Rightarrow> (bytes \<times> ConnClient, unit option) prog" where
  "Start_turn order meth s =
     (case s of (cmd, cc) \<Rightarrow>
       (case sendCommand order cmd cc of
          (Ok _, cc1) \<Rightarrow>
            (case waitForResponse cmd cc1 of
               Some (Ok _, cc2) \<Rightarrow>
                 (case nextCommand meth cmd of
                    Ok None \<Rightarrow> (Ok (Some ()), (cmd, cc2))
                  | Ok (Some cmd') \<Rightarrow> (Ok None, (cmd', cc2))
                  | Err e \<Rightarrow> (Err e, (cmd, cc2))
                  | Panic \<Rightarrow> (Panic, (cmd, cc2)))
             | Some (Err e, cc2) \<Rightarrow> (Err (Errorf ''wait for response failed''), (cmd, cc2))
             | Some (Panic, cc2) \<Rightarrow> (Panic, (cmd, cc2))
             | None \<Rightarrow> (Panic, (cmd, cc1)))
        | (Err e, cc1) \<Rightarrow> (Err e, (cmd, cc1))
        | (Panic, cc1) \<Rightarrow> (Panic, (cmd, cc1))))"

definition Start :: "network \<Rightarrow> order \<Rightarrow> bytes \<Rightarrow> bytes \<Rightarrow> ConnClient \<Rightarrow> (unit res \<times> ConnClient) option" where
  "Start net order u meth cc =
     (case pwrap ''connect to server failed'' (connectServer net u) cc of
        (Ok _, cc1) \<Rightarrow> map_option (\<lambda>(r, _, cc2). (r, cc2)) (run_loop (Start_turn order meth) (chars ''connect'', cc1))
      | (Err e, cc1) \<Rightarrow> Some (Err e, cc1)
      | (Panic, cc1) \<Rightarrow> Some (Panic, cc1))"

section \<open>Media messages\<close>

text \<open>The message is passed by reference.\<close>

definition cc_Write :: "ChunkStream \<Rightarrow> ConnClient \<Rightarrow> unit res \<times> ChunkStream \<times> ConnClient" where
  "cc_Write c cc =
     (let send = (\<lambda>c'. case Write c' (cconn cc) of (r, c'', conn) \<Rightarrow> (r, c'', cc\<lparr>cconn := conn\<rparr>)) in
      if TypeID c = TAG_SCRIPTDATAAMF0 \<or> TypeID c = TAG_SCRIPTDATAAMF3 then
        (case MetaDataReform (Data c) 0 of
           Some (Ok d) \<Rightarrow> send (c\<lparr>Data := d, Length := of_nat (length d)\<rparr>)
         | Some (Err e) \<Rightarrow> (Err e, c\<lparr>Data := []\<rparr>, cc)
         | Some Panic \<Rightarrow> (Panic, c, cc)
         | None \<Rightarrow> (Panic, c, cc))
      else send c)"

definition cc_GetStreamInfo :: "ConnClient \<Rightarrow> bytes \<times> bytes \<times> bytes" where
  "cc_GetStreamInfo cc = (app cc, title cc, url cc)"

definition GetStreamID :: "ConnClient \<Rightarrow> u32" where
  "GetStreamID cc = streamid cc"

text \<open>\<open>Decode\<close> of one value; the fuel is enough for every input (\<open>Amf0\<close>).\<close>

definition cc_Decode :: "u8 \<Rightarrow> bytes \<Rightarrow> (ConnClient, val) prog" where
  "cc_Decode ver b cc =
     (case amf_Decode (length b + 1) ver (Decoder.extend (cdecoder cc) \<lparr>rd = b\<rparr>) of
        Some (r, d) \<Rightarrow> (r, cc\<lparr>cdecoder := Decoder.truncate d\<rparr>)
      | None \<Rightarrow> (Panic, cc))"

section \<open>The loops return\<close>

abbreviation cquiet :: "(ConnClient, 'a) prog \<Rightarrow> bool" where
  "cquiet m \<equiv> keeps (\<lambda>cc. rin (rw (cconn cc))) m"

abbreviation cpending :: "ConnClient \<Rightarrow> nat" where
  "cpending cc \<equiv> length (rin (rw (cconn cc)))"

lemma cquiet_sends [keeps_rules]: "cquiet (ccWrite_ignored c)" "cquiet cc_Flush"
  by (rule keepsI, simp add: split_beta ccWrite_ignored_def cc_Flush_def conn_Flush_def)+

lemma cquiet_decode [keeps_rules]: "cquiet (cc_DecodeBatch ver b)"
  by (auto simp: keeps_def cc_DecodeBatch_def split: option.splits prod.splits)

lemma cquiet_writeMsg [keeps_rules]: "cquiet (cc_writeMsg args)"
proof (rule keepsI)
  fix cc :: ConnClient
  let ?c = "zeroChunkStream\<lparr>Format := 0, CSID := 3, Timestamp := 0, TypeID := 20, StreamID := streamid cc,
      Length := of_nat (length (snd (EncodeBatch 0 args []))), Data := snd (EncodeBatch 0 args [])\<rparr>"
  have "cquiet (pbind (ccWrite_ignored ?c) (\<lambda>_. cc_Flush))" by (intro keeps_rules)
  then show "rin (rw (cconn (snd (cc_writeMsg args cc)))) = rin (rw (cconn cc))"
    by (auto simp: cc_writeMsg_def keeps_def split: prod.splits res.splits)
qed

lemma cquiet_commands [keeps_rules]:
  "cquiet (writeConnectMsg order)" "cquiet writeCreateStreamMsg" "cquiet writePublishMsg" "cquiet writePlayMsg"
  using cquiet_writeMsg
  by (simp_all add: keeps_def writeConnectMsg_def writeCreateStreamMsg_def writePublishMsg_def writePlayMsg_def Let_def)

lemma cquiet_sendCommand: "cquiet (sendCommand order cmd)"
  unfolding sendCommand_def by (intro keeps_rules)

lemma createFlags_conn: "cconn (snd (createFlags k vs f cc)) = cconn cc"
proof (induction vs arbitrary: k f cc)
  case (Cons v vs)
  then show ?case by (cases v; cases f) simp_all
qed simp

lemma cquiet_checkAnswer [keeps_rules]: "cquiet (checkAnswer cmd vs)"
  by (simp add: keeps_def checkAnswer_def split_beta createFlags_conn)

lemma checkResponse_loop_conn: "cconn (snd (checkResponse_loop cmd k vs b cc)) = cconn cc"
proof (induction vs arbitrary: cmd k b cc)
  case (Cons v vs)
  then show ?case by (cases v) (simp_all add: Let_def split: res.split)
qed simp

lemma readResp_values_conn: "cconn (snd (readResp_values k vs cc)) = cconn cc"
proof (induction vs arbitrary: k cc)
  case (Cons v vs)
  then show ?case by (cases v) (simp_all add: Let_def split: res.split)
qed simp

lemma cquiet_checks [keeps_rules]: "cquiet (checkResponse cmd vs)" "cquiet (readResp_values k vs)"
proof -
  have "cquiet (checkResponse_loop cmd 0 vs False)" by (rule keepsI) (simp add: checkResponse_loop_conn)
  then show "cquiet (checkResponse cmd vs)" unfolding checkResponse_def by (intro keeps_rules)
  show "cquiet (readResp_values k vs)" by (rule keepsI) (simp add: readResp_values_conn)
qed

lemma cquiet_messages: "cquiet (wait_message cmd cs)" "cquiet (await_message cmd cs)"
  unfolding wait_message_def await_message_def Let_def by (intro keeps_rules)+

lemma cc_Read_shrinks: "cc_Read cc = (Ok c, cc') \<Longrightarrow> cpending cc' < cpending cc"
  by (auto simp: cc_Read_def split: prod.splits dest: Read_shrinks)

text \<open>A turn that reads a message and then does something quiet makes the input shorter, whether it goes on or not.\<close>

lemma read_then_quiet:
  assumes "pbind (pwrap t cc_Read) f cc = (Ok x, cc')" and "\<And>c. cquiet (f c)"
  shows "cpending cc' < cpending cc"
proof -
  obtain c cc1 where r: "pwrap t cc_Read cc = (Ok c, cc1)" and f: "f c cc1 = (Ok x, cc')"
    using assms(1) by (rule pbind_OkE)
  from r have "cc_Read cc = (Ok c, cc1)" by (cases "fst (cc_Read cc)") (auto simp: pwrap_def split: prod.splits)
  then show ?thesis using cc_Read_shrinks keepsD [OF assms(2) f] by metis
qed

interpretation wait_loop: progress "wait_turn cmd" cpending for cmd
  unfolding wait_turn_def by unfold_locales (rule read_then_quiet, assumption, rule cquiet_messages)

interpretation await_loop: progress "await_turn cmd" cpending for cmd
  unfolding await_turn_def by unfold_locales (rule read_then_quiet, assumption, rule cquiet_messages)

interpretation resp_loop: progress readResp_turn cpending
proof
  fix cc cc' assume turn: "readResp_turn cc = (Ok None, cc')"
  have no: "pbind (cc_DecodeBatch 0 b) (\<lambda>(vs, e). pbind (readResp_values 0 vs) (\<lambda>_. preturn (Some ()))) s \<noteq> (Ok None, s')" for b s s'
    by (auto simp: pbind_def preturn_def split: prod.splits res.splits)
  obtain c where "cc_Read cc = (Ok c, cc')"
    using turn no by (auto simp: readResp_turn_def split: prod.splits res.splits if_splits)
  then show "cpending cc' < cpending cc" by (rule cc_Read_shrinks)
qed

lemma waitForResponse_shrinks:
  assumes "waitForResponse cmd cc = Some (Ok (), cc')"
  shows "cpending cc' < cpending cc"
proof -
  have "case Ok () of Ok _ \<Rightarrow> cpending cc' < cpending cc | _ \<Rightarrow> True"
  proof (rule wait_loop.run_loop_rule [of cmd cc "Ok ()" cc' "\<lambda>s. cpending s \<le> cpending cc"
        "\<lambda>r s. case r of Ok _ \<Rightarrow> cpending s < cpending cc | _ \<Rightarrow> True"])
    show "run_loop (wait_turn cmd) cc = Some (Ok (), cc')" using assms by (simp add: waitForResponse_def)
    show "\<And>s s'. cpending s \<le> cpending cc \<Longrightarrow> wait_turn cmd s = (Ok None, s') \<Longrightarrow> cpending s' \<le> cpending cc"
      using wait_loop.goes_on by fastforce
    show "\<And>s s' x. cpending s \<le> cpending cc \<Longrightarrow> wait_turn cmd s = (Ok (Some x), s') \<Longrightarrow>
        (case Ok x of Ok _ \<Rightarrow> cpending s' < cpending cc | _ \<Rightarrow> True)"
      unfolding wait_turn_def using read_then_quiet cquiet_messages(1) by fastforce
  qed simp_all
  then show ?thesis by simp
qed

interpretation start_loop: progress "Start_turn order meth" "\<lambda>(cmd, cc). cpending cc" for order meth
proof
  fix s s' assume turn: "Start_turn order meth s = (Ok None, s')"
  obtain cmd cc where s: "s = (cmd, cc)" by fastforce
  obtain cc1 cc2 cmd' where "sendCommand order cmd cc = (Ok (), cc1)" "waitForResponse cmd cc1 = Some (Ok (), cc2)" "s' = (cmd', cc2)"
    using turn s by (auto simp: Start_turn_def split: prod.splits res.splits option.splits)
  then have "cpending cc2 < cpending cc"
    using waitForResponse_shrinks keepsD [OF cquiet_sendCommand] by metis
  then show "(case s' of (cmd, cc) \<Rightarrow> cpending cc) < (case s of (cmd, cc) \<Rightarrow> cpending cc)"
    using s \<open>s' = (cmd', cc2)\<close> by simp
qed

section \<open>Properties\<close>

text \<open>
  C17: Every loop of the client over the messages of a server returns, whatever the server sends:
  waiting for one answer, the whole of \<open>Start\<close>, and the older set-up functions.
\<close>

theorem client_loops_return:
  "(\<exists>r cc'. waitForResponse cmd cc = Some (r, cc')) \<and> (\<exists>r cc'. Start net order u meth cc = Some (r, cc')) \<and>
   (\<exists>r cc'. netConnection order cc = Some (r, cc')) \<and> (\<exists>r cc'. streamConnection cc = Some (r, cc')) \<and>
   (\<exists>r cc'. setupPlayOrPublish meth cc = Some (r, cc')) \<and> (\<exists>r cc'. readRespMsg cc = Some (r, cc'))"
proof -
  have await: "\<exists>r s'. run_loop (await_turn c) s = Some (r, s')" for c s by (rule await_loop.returns)
  have "\<exists>r s'. then_loop x (await_turn c) = Some (r, s')" for x c
    using await by (auto simp: then_loop_def split: prod.splits res.splits)
  moreover have "\<exists>r cc'. Start net order u meth cc = Some (r, cc')"
  proof -
    obtain x cc1 where x: "pwrap ''connect to server failed'' (connectServer net u) cc = (x, cc1)" by fastforce
    obtain r s where "run_loop (Start_turn order meth) (chars ''connect'', cc1) = Some (r, s)"
      using start_loop.returns by blast
    then show ?thesis using x by (cases x; cases s) (simp_all add: Start_def)
  qed
  moreover have "\<exists>r cc'. setupPlayOrPublish meth cc = Some (r, cc')"
    using await by (auto simp: setupPlayOrPublish_def split: prod.splits res.splits)
  ultimately show ?thesis
    using wait_loop.returns resp_loop.returns
    by (simp add: netConnection_def streamConnection_def waitForResponse_def readRespMsg_def)
qed

lemma checkResponse_loop_play:
  "checkResponse_loop (chars ''play'') k vs False cc = (Ok False, cc)"
proof (induction vs arbitrary: k)
  case (Cons v vs)
  have "chars ''play'' \<noteq> chars ''connect''" "chars ''play'' \<noteq> chars ''createStream''" "chars ''play'' \<noteq> chars ''publish''"
    by (simp_all add: chars_def)
  then show ?case using Cons by (cases v) (simp_all add: Let_def)
qed simp

lemma await_play_fails: "run_loop (await_turn (chars ''play'')) cc = Some (r, cc') \<Longrightarrow> r \<noteq> Ok ()"
proof (rule await_loop.run_loop_rule [of "chars ''play''" cc r cc' "\<lambda>_. True" "\<lambda>r _. r \<noteq> Ok ()"])
  fix s s' x assume "await_turn (chars ''play'') s = (Ok (Some x), s')"
  then obtain c s1 where "await_message (chars ''play'') c s1 = (Ok (Some x), s')"
    unfolding await_turn_def by (rule pbind_OkE)
  moreover have "checkResponse (chars ''play'') vs s2 = (Err (Errorf ''check result failed''), s2)" for vs s2
    by (simp add: checkResponse_def pbind_def checkResponse_loop_play)
  ultimately show "Ok x \<noteq> Ok ()"
    by (auto simp: await_message_def Let_def pbind_def pwrap_def preturn_def perr_def split: if_splits prod.splits res.splits)
qed simp_all

text \<open>
  The client takes messages for an answer that are none: an aggregate message, or any message of a
  type its switch does not name, makes \<open>waitForResponse\<close> succeed for every command. And
  \<open>setupPlayOrPublish\<close> never succeeds, because the check it calls knows no command \<open>play\<close>.
\<close>

theorem stray_messages_accepted:
  assumes "Read (cconn cc) = (Ok c, conn)" and "TypeID c \<notin> {4, 8, 9, 15, 16, 17, 18, 19, 20}"
  shows "waitForResponse cmd cc = Some (Ok (), cc\<lparr>cconn := conn\<rparr>) \<and>
    (\<forall>meth s s'. setupPlayOrPublish meth s \<noteq> Some (Ok (), s'))"
proof (intro conjI allI)
  have "wait_turn cmd cc = (Ok (Some ()), cc\<lparr>cconn := conn\<rparr>)"
    using assms by (simp add: wait_turn_def wait_message_def cc_Read_def pbind_def pwrap_def Let_def)
  then show "waitForResponse cmd cc = Some (Ok (), cc\<lparr>cconn := conn\<rparr>)"
    by (simp add: waitForResponse_def run_loop_simps(1))
  show "setupPlayOrPublish meth s \<noteq> Some (Ok (), s')" for meth s s'
    using await_play_fails by (auto simp: setupPlayOrPublish_def split: prod.splits res.splits if_splits)
qed

theorem stray_messages_accepted_witness:
  "\<exists>cc'. waitForResponse (chars ''connect'') (NewConnClient (fresh_conn [6, 0, 0, 0, 0, 0, 1, 22, 1, 0, 0, 0, 7])) = Some (Ok (), cc')"
proof -
  let ?conn = "fresh_conn [6, 0, 0, 0, 0, 0, 1, 22, 1, 0, 0, 0, 7]"
  have "case Read ?conn of (Ok c, conn) \<Rightarrow> TypeID c = 22 | _ \<Rightarrow> False" by code_simp
  then obtain c conn where "Read ?conn = (Ok c, conn)" "TypeID c = 22"
    by (cases "Read ?conn"; cases "fst (Read ?conn)") auto
  then show ?thesis
    using stray_messages_accepted [of "NewConnClient ?conn" c conn "chars ''connect''"] by (simp add: NewConnClient_def)
qed

lemma rewrap_eq_Ok: "rewrap t x = Ok y \<longleftrightarrow> x = Ok y"
  by (cases x) simp_all

lemma pwrap_eq_Ok: "pwrap t m s = (Ok x, s') \<longleftrightarrow> m s = (Ok x, s')"
  by (cases "m s") (simp add: pwrap_def rewrap_eq_Ok)

lemma splitSlash_Some:
  assumes "splitSlash p = Some (a, t)"
  shows "p = a @ [slash] @ t \<and> slash \<notin> set a"
proof -
  let ?r = "dropWhile (\<lambda>b. b \<noteq> slash) p"
  from assms have m: "slash \<in> set p" and at: "a = takeWhile (\<lambda>b. b \<noteq> slash) p" "t = tl ?r"
    by (auto simp: splitSlash_def split: if_splits)
  from m have "?r \<noteq> []" by auto
  then have "?r = slash # t" using hd_dropWhile [of "\<lambda>b. b \<noteq> slash" p] at by (cases ?r) auto
  then show ?thesis using at takeWhile_dropWhile_id [of "\<lambda>b. b \<noteq> slash" p] by (auto dest: set_takeWhileD)
qed

lemma parseURL_Ok:
  assumes "parseURL net u cc = (Ok (l, r), cc1)"
  obtains parsed host port ips where "urlParse net u = Ok parsed"
    and "splitSlash (dropWhile (\<lambda>b. b = slash) (Path parsed)) = Some (app cc1, title cc1)"
    and "tcurl cc1 = chars ''rtmp://'' @ Host parsed @ [slash] @ app cc1"
    and "hostPort (Host parsed) = Ok (host, port)" and "lookupIP net host = Ok ips"
    and "randIntn net (length ips) < length ips" and "l = chars '':0''"
    and "r = (let ip = ips ! randIntn net (length ips) in if colon \<in> set ip then ip else ip @ port)"
proof -
  from assms obtain parsed a t where u: "urlParse net u = Ok parsed"
    and sp: "splitSlash (dropWhile (\<lambda>b. b = slash) (Path parsed)) = Some (a, t)"
    by (cases "urlParse net u") (auto simp: parseURL_def Let_def split: option.splits)
  let ?cc = "cc\<lparr>url := u, app := a, title := t, query := RawQuery parsed,
    tcurl := chars ''rtmp://'' @ Host parsed @ [slash] @ a\<rparr>"
  from assms u sp have cc1: "cc1 = ?cc" by (simp add: parseURL_def Let_def)
  from assms u sp obtain host port ips ip where h: "hostPort (Host parsed) = Ok (host, port)" "lookupIP net host = Ok ips"
    "index ips (randIntn net (length ips)) = Ok ip" "l = chars '':0''" "r = (if colon \<in> set ip then ip else ip @ port)"
    by (auto simp: parseURL_def Let_def res_bind_eq_Ok rewrap_eq_Ok split: if_splits)
  from h(3) have "randIntn net (length ips) < length ips" "ip = ips ! randIntn net (length ips)"
    by (simp_all add: index_def split: if_splits)
  then show thesis using u sp h cc1 by (intro that [of parsed host port ips]) (simp_all add: Let_def)
qed

text \<open>
  C33: What the client asks for is what the URL names: when \<open>connectServer\<close> succeeds, the path of the URL
  without leading slashes was the application, a slash and the stream name, the application has no slash
  and the stream name may have more, and the address it dialled is the chosen one of the host's, with
  the port of the URL or 1935 unless the address has a colon.
\<close>

theorem connect_follows_url:
  assumes "connectServer net u cc = (Ok (), cc')"
  shows "\<exists>parsed host port ips. urlParse net u = Ok parsed \<and>
    dropWhile (\<lambda>b. b = slash) (Path parsed) = app cc' @ [slash] @ title cc' \<and> slash \<notin> set (app cc') \<and>
    tcurl cc' = chars ''rtmp://'' @ Host parsed @ [slash] @ app cc' \<and>
    hostPort (Host parsed) = Ok (host, port) \<and> lookupIP net host = Ok ips \<and> randIntn net (length ips) < length ips \<and>
    (\<exists>conn. dial net (chars '':0'') (let ip = ips ! randIntn net (length ips) in if colon \<in> set ip then ip else ip @ port) = Ok conn \<and>
      fst (HandshakeClient conn) = Ok () \<and> cconn cc' = snd (HandshakeClient conn))"
proof -
  from assms obtain l r cc1 where p: "parseURL net u cc = (Ok (l, r), cc1)"
    and d: "(case rewrap ''net.DialTCP failed'' (dial net l r) of
         Ok conn \<Rightarrow>
           (case HandshakeClient conn of
              (Ok _, conn') \<Rightarrow> (Ok (), cc1\<lparr>cconn := conn'\<rparr>)
            | (Err e, _) \<Rightarrow> (Err (Errorf ''HandshakeClient failed''), cc1)
            | (Panic, _) \<Rightarrow> (Panic, cc1))
       | Err e \<Rightarrow> (Err e, cc1)
       | Panic \<Rightarrow> (Panic, cc1)) = (Ok (), cc')"
    unfolding connectServer_def by (auto elim!: pbind_OkE simp: pwrap_eq_Ok)
  from d obtain conn conn' where c: "dial net l r = Ok conn" "HandshakeClient conn = (Ok (), conn')" "cc' = cc1\<lparr>cconn := conn'\<rparr>"
    by (cases "dial net l r") (auto split: prod.splits res.splits)
  from p show ?thesis
  proof (rule parseURL_Ok)
    fix parsed host port ips
    assume h: "urlParse net u = Ok parsed" "splitSlash (dropWhile (\<lambda>b. b = slash) (Path parsed)) = Some (app cc1, title cc1)"
      "tcurl cc1 = chars ''rtmp://'' @ Host parsed @ [slash] @ app cc1"
      "hostPort (Host parsed) = Ok (host, port)" "lookupIP net host = Ok ips"
      "randIntn net (length ips) < length ips" "l = chars '':0''"
      "r = (let ip = ips ! randIntn net (length ips) in if colon \<in> set ip then ip else ip @ port)"
    then show ?thesis using splitSlash_Some [OF h(2)] c
      by (intro exI [of _ parsed] exI [of _ host] exI [of _ port] exI [of _ ips]) simp
  qed
qed

text \<open>A host with two addresses, of which the second is chosen, and a server that does the simple handshake.\<close>

definition sample_network :: network where
  "sample_network = \<lparr>urlParse = (\<lambda>u. Ok \<lparr>Path = chars ''/live/room/1'', RawQuery = [], Host = chars ''h.tv:80''\<rparr>),
     lookupIP = (\<lambda>h. Ok [chars ''10.0.0.1'', chars ''10.0.0.2'']), randIntn = (\<lambda>n. n - 1),
     dial = (\<lambda>l r. Ok (NewRtmpConn (NewReadWriter (3 # replicate 3072 0) EOF 4000 EOF 4096)))\<rparr>"

theorem connect_follows_url_witness:
  "\<exists>cc'. connectServer sample_network (chars ''rtmp://h.tv:80/live/room/1'') (NewConnClient (fresh_conn [])) = (Ok (), cc') \<and>
     app cc' @ [slash] @ title cc' = chars ''live/room/1'' \<and> slash \<notin> set (app cc')"
proof -
  let ?c = "NewRtmpConn (NewReadWriter (3 # replicate 3072 0) EOF 4000 EOF 4096)"
  let ?p = "\<lparr>Path = chars ''/live/room/1'', RawQuery = [], Host = chars ''h.tv:80''\<rparr>"
  have "rin (rw ?c) = 3 # replicate 1536 0 @ replicate 1536 0 @ []"
    by (simp add: NewRtmpConn_def NewReadWriter_def flip: replicate_add)
  moreover have "length (replicate 1536 (0 :: u8)) = 1536" "length (replicate 1536 (0 :: u8)) = 1536"
    "readError (rw ?c) = None" "wok (rw ?c)" "3073 \<le> room (rw ?c)"
    by (simp_all add: NewRtmpConn_def NewReadWriter_def wok_def room_def sent_def)
  ultimately obtain conn where hs: "HandshakeClient ?c = (Ok (), conn)"
    by (rule HandshakeClient_runs)
  have hp: "hostPort (chars ''h.tv:80'') = Ok (chars ''h.tv'', chars '':80'')" by code_simp
  have sp: "splitSlash (dropWhile (\<lambda>b. b = slash) (chars ''/live/room/1'')) = Some (chars ''live'', chars ''room/1'')"
    by code_simp
  have dw: "dropWhile (\<lambda>b. b = slash) (chars ''/live/room/1'') = chars ''live/room/1''" by code_simp
  obtain cc' where c: "connectServer sample_network (chars ''rtmp://h.tv:80/live/room/1'') (NewConnClient (fresh_conn [])) = (Ok (), cc')"
    using hp sp hs
    by (simp add: connectServer_def parseURL_def sample_network_def pbind_def pwrap_def Let_def)
  from connect_follows_url [OF c] dw c show ?thesis by (auto simp: sample_network_def)
qed

end
