(* ===== verification/StreamCache.thy ===== *)
theory StreamCache
  imports AvTypes
begin

text \<open>
  The cache of a stream, \<open>protocol/cache/cache.go\<close> and \<open>gop.go\<close>: what a player that joins gets before
  the live packets. The buffered channels of Go are modelled here too, as far as the streams use
  them: a send that does not block (\<open>select\<close> with a \<open>default\<close>), and closing. A packet is a pointer in
  the code; the packets of the model are what was read, so the properties say which packets are
  sent, not that nobody changed their bytes in the meantime. (\<open>PArr\<close> names the array they share; theory \<open>Broadcast\<close> has what a packet shows
  later.)
\<close>

section \<open>Channels\<close>

record 'a chan =
  cbuf :: "'a list"
  ccap :: nat
  cclosed :: bool

definition make_chan :: "nat \<Rightarrow> 'a chan" where
  "make_chan n = \<lparr>cbuf = [], ccap = n, cclosed = False\<rparr>"

text \<open>
  \<open>select { case ch <- p: ... default: ... }\<close>: whether the packet went in. Sending on a closed channel
  panics.
\<close>

definition try_send :: "'a \<Rightarrow> 'a chan \<Rightarrow> bool res \<times> 'a chan" where
  "try_send p ch =
     (if cclosed ch then (Panic, ch)
      else if length (cbuf ch) < ccap ch then (Ok True, ch\<lparr>cbuf := cbuf ch @ [p]\<rparr>)
      else (Ok False, ch))"

text \<open>Closing a closed channel panics.\<close>

definition close_chan :: "'a chan \<Rightarrow> unit res \<times> 'a chan" where
  "close_chan ch = (if cclosed ch then (Panic, ch) else (Ok (), ch\<lparr>cclosed := True\<rparr>))"

abbreviation chan_ok :: "'a chan \<Rightarrow> bool" where
  "chan_ok ch \<equiv> length (cbuf ch) \<le> ccap ch"

section \<open>State and operations\<close>

record GopCache =
  maxNumber :: int
  gcount :: int
  gops :: "Packet list"

text \<open>The argument is not stored: \<open>maxNumber\<close> keeps its zero value.\<close>

definition NewGopCache :: "int \<Rightarrow> GopCache" where
  "NewGopCache n = \<lparr>maxNumber = 0, gcount = 0, gops = []\<rparr>"

definition gop_Write :: "Packet \<Rightarrow> bool \<Rightarrow> GopCache \<Rightarrow> GopCache" where
  "gop_Write p bKeyFrame gc =
     (let gc1 = (if bKeyFrame then gc\<lparr>gops := [], gcount := 0\<rparr> else gc) in
      if gcount gc1 < maxNumber gc1 then gc1\<lparr>gops := gops gc1 @ [p], gcount := gcount gc1 + 1\<rparr> else gc1)"

record Cache =
  gop :: GopCache
  videoSeq :: "Packet option"
  audioSeq :: "Packet option"
  metadata :: "Packet option"

definition NewCache :: "int \<Rightarrow> Cache" where
  "NewCache gopNum = \<lparr>gop = NewGopCache gopNum, videoSeq = None, audioSeq = None, metadata = None\<rparr>"

definition cache_Write :: "Packet \<Rightarrow> Cache \<Rightarrow> Cache" where
  "cache_Write p c =
     (if PacketType p = PacketTypeAudio then
        (if SoundFormat (AHeader p) = SOUND_AAC \<and> AACPacketType (AHeader p) = AAC_SEQHDR
         then c\<lparr>audioSeq := Some p\<rparr> else c)
      else if PacketType p = PacketTypeVideo then
        (if CodecID (VHeader p) = VIDEO_H264 then
           (let c1 = (if FrameType (VHeader p) = FRAME_KEY then
                (if AVCPacketType (VHeader p) = AVC_SEQHDR then c\<lparr>videoSeq := Some p\<rparr>
                 else c\<lparr>gop := gop_Write p True (gop c)\<rparr>) else c)
            in c1\<lparr>gop := gop_Write p False (gop c1)\<rparr>)
         else c)
      else if PacketType p = PacketTypeMetadata then c\<lparr>metadata := Some p\<rparr>
      else c)"

text \<open>The two loops of \<open>Send\<close>: a header that does not fit is an error, a frame that does not fit is dropped.\<close>

definition cachePkts :: "Cache \<Rightarrow> Packet list" where
  "cachePkts c =
     (case metadata c of Some p \<Rightarrow> [p] | None \<Rightarrow> []) @
     (case videoSeq c of Some p \<Rightarrow> [p] | None \<Rightarrow> []) @
     (case audioSeq c of Some p \<Rightarrow> [p] | None \<Rightarrow> [])"

fun sendHeaders :: "Packet list \<Rightarrow> (Packet chan, unit) prog" where
  "sendHeaders [] ch = (Ok (), ch)"
| "sendHeaders (p # ps) ch =
     (case try_send p ch of
        (Ok True, ch') \<Rightarrow> sendHeaders ps ch'
      | (Ok False, ch') \<Rightarrow> (Err (Errorf ''send sequence failed''), ch')
      | (Err e, ch') \<Rightarrow> (Err e, ch')
      | (Panic, ch') \<Rightarrow> (Panic, ch'))"

fun sendFrames :: "Packet list \<Rightarrow> (Packet chan, unit) prog" where
  "sendFrames [] ch = (Ok (), ch)"
| "sendFrames (p # ps) ch =
     (case try_send p ch of
        (Ok _, ch') \<Rightarrow> sendFrames ps ch'
      | (Err e, ch') \<Rightarrow> (Err e, ch')
      | (Panic, ch') \<Rightarrow> (Panic, ch'))"

definition cache_Send :: "Cache \<Rightarrow> (Packet chan, unit) prog" where
  "cache_Send c = pbind (sendHeaders (cachePkts c)) (\<lambda>_. sendFrames (gops (gop c)))"

section \<open>What the cache holds\<close>

text \<open>The abstract cache: the packets published so far, of which the last of each kind counts.\<close>

definition is_metadata :: "Packet \<Rightarrow> bool" where
  "is_metadata p \<longleftrightarrow> PacketType p = PacketTypeMetadata"

definition is_videoSeq :: "Packet \<Rightarrow> bool" where
  "is_videoSeq p \<longleftrightarrow> PacketType p = PacketTypeVideo \<and> CodecID (VHeader p) = VIDEO_H264 \<and>
     FrameType (VHeader p) = FRAME_KEY \<and> AVCPacketType (VHeader p) = AVC_SEQHDR"

definition is_audioSeq :: "Packet \<Rightarrow> bool" where
  "is_audioSeq p \<longleftrightarrow> PacketType p = PacketTypeAudio \<and> SoundFormat (AHeader p) = SOUND_AAC \<and>
     AACPacketType (AHeader p) = AAC_SEQHDR"

definition last_of :: "(Packet \<Rightarrow> bool) \<Rightarrow> Packet list \<Rightarrow> Packet list" where
  "last_of P ps = (case filter P ps of [] \<Rightarrow> [] | qs \<Rightarrow> [last qs])"

definition replay :: "Packet list \<Rightarrow> Packet list" where
  "replay ps = last_of is_metadata ps @ last_of is_videoSeq ps @ last_of is_audioSeq ps"

lemma last_of_snoc: "last_of P (ps @ [p]) = (if P p then [p] else last_of P ps)"
  by (cases "filter P ps") (auto simp: last_of_def)

text \<open>The frames are never kept, because the limit of the group of pictures is zero.\<close>

definition cache_holds :: "Packet list \<Rightarrow> Cache \<Rightarrow> bool" where
  "cache_holds ps c \<longleftrightarrow> maxNumber (gop c) = 0 \<and> gcount (gop c) = 0 \<and> gops (gop c) = [] \<and>
     set_option (metadata c) = set (last_of is_metadata ps) \<and> set_option (videoSeq c) = set (last_of is_videoSeq ps) \<and>
     set_option (audioSeq c) = set (last_of is_audioSeq ps)"

lemma cache_holds_New: "cache_holds [] (NewCache n)"
  by (simp add: cache_holds_def NewCache_def NewGopCache_def last_of_def)

lemma cache_holds_Write: "cache_holds ps c \<Longrightarrow> cache_holds (ps @ [p]) (cache_Write p c)"
  by (auto simp: cache_holds_def cache_Write_def gop_Write_def last_of_snoc is_metadata_def is_videoSeq_def is_audioSeq_def Let_def)

lemma last_of_cases: "last_of P ps = [] \<or> (\<exists>p. last_of P ps = [p])"
  by (auto simp: last_of_def split: list.splits)

lemma cachePkts_replay: "cache_holds ps c \<Longrightarrow> cachePkts c = replay ps"
  using last_of_cases [of is_metadata ps] last_of_cases [of is_videoSeq ps] last_of_cases [of is_audioSeq ps]
  by (auto simp: cache_holds_def cachePkts_def replay_def split: option.splits)

lemma cache_holds_fold: "cache_holds ps (fold cache_Write ps (NewCache n))"
proof (induction ps rule: rev_induct)
  case (snoc p ps)
  then show ?case by (simp add: cache_holds_Write)
qed (simp add: cache_holds_New)

lemma sendHeaders_spec:
  "\<not> cclosed ch \<Longrightarrow> chan_ok ch \<Longrightarrow>
   sendHeaders ps ch =
     (if length (cbuf ch) + length ps \<le> ccap ch then (Ok (), ch\<lparr>cbuf := cbuf ch @ ps\<rparr>)
      else (Err (Errorf ''send sequence failed''), ch\<lparr>cbuf := cbuf ch @ take (ccap ch - length (cbuf ch)) ps\<rparr>))"
  by (induction ps arbitrary: ch) (auto simp: try_send_def take_Cons')

text \<open>
  C20: A player that joins a stream gets exactly the last metadata, the last video sequence header
  and the last audio sequence header published so far, in this order, behind what is already in
  its queue; or an error when they do not fit. No frame is ever replayed.
\<close>

theorem cache_replays_headers:
  assumes "\<not> cclosed ch" and "chan_ok ch"
  shows "cache_Send (fold cache_Write ps (NewCache n)) ch =
    (if length (cbuf ch) + length (replay ps) \<le> ccap ch then (Ok (), ch\<lparr>cbuf := cbuf ch @ replay ps\<rparr>)
     else (Err (Errorf ''send sequence failed''), ch\<lparr>cbuf := cbuf ch @ take (ccap ch - length (cbuf ch)) (replay ps)\<rparr>))"
  using cache_holds_fold [of ps n] cachePkts_replay [OF cache_holds_fold, of ps n] sendHeaders_spec [OF assms]
  by (simp add: cache_Send_def pbind_def cache_holds_def)

theorem cache_replays_headers_witness:
  "let p = zeroPacket\<lparr>PacketType := 3, PData := [1]\<rparr>; q = zeroPacket\<lparr>PacketType := 3, PData := [2]\<rparr> in
   cache_Send (fold cache_Write [p, zeroPacket, q] (NewCache 1)) (make_chan 8) = (Ok (), (make_chan 8)\<lparr>cbuf := [q]\<rparr>)"
proof -
  let ?p = "zeroPacket\<lparr>PacketType := 3, PData := [1]\<rparr>" and ?q = "zeroPacket\<lparr>PacketType := 3, PData := [2]\<rparr>"
  have "replay [?p, zeroPacket, ?q] = [?q]"
    by (simp add: replay_def last_of_def is_metadata_def is_videoSeq_def is_audioSeq_def zeroPacket_def)
  moreover have "\<not> cclosed (make_chan 8)" "chan_ok (make_chan 8)" by (simp_all add: make_chan_def)
  ultimately show ?thesis
    using cache_replays_headers [of "make_chan 8" "[?p, zeroPacket, ?q]" 1] by (simp add: Let_def make_chan_def)
qed

text \<open>
  Replaying into a channel that was closed panics as soon as one header is cached: a player that
  disconnects before its stream takes it up closes the channel.
\<close>

theorem replay_to_closed_panics:
  assumes "cclosed ch"
  shows "fst (cache_Send (fold cache_Write ps (NewCache n)) ch) = Panic \<longleftrightarrow> replay ps \<noteq> []"
  using assms cache_holds_fold [of ps n] cachePkts_replay [OF cache_holds_fold, of ps n]
  by (cases "replay ps") (auto simp: cache_Send_def pbind_def try_send_def cache_holds_def)

theorem replay_to_closed_panics_witness:
  "fst (cache_Send (fold cache_Write [zeroPacket\<lparr>PacketType := 3\<rparr>] (NewCache 1)) \<lparr>cbuf = [], ccap = 1024, cclosed = True\<rparr>) = Panic"
  using replay_to_closed_panics [of "\<lparr>cbuf = [], ccap = 1024, cclosed = True\<rparr>" "[zeroPacket\<lparr>PacketType := 3\<rparr>]" 1]
  by (simp add: replay_def last_of_def is_metadata_def)

end
