(* ===== verification/Relays.thy ===== *)
theory Relays
  imports ConnClient StreamCache
begin

text \<open>
  Relaying a stream to another server: \<open>protocol/rtmprelay.go\<close> (play one URL, publish to another),
  \<open>protocol/staticrelay.go\<close> (push a stream to a configured URL) and \<open>configure/liveconfig.go\<close>. The goroutines are
  rules of a step relation; an unbuffered channel is a flag that says that the sender waits. A logger that was
  never set is a nil interface, whose methods panic, so it matters here whether there is one.
\<close>

section \<open>Configuration\<close>

record Application =
  Appname :: bytes
  Liveon :: bytes
  Hlson :: bytes
  Static_push :: "bytes list"

text \<open>
  \<open>LoadConfig\<close> changes the global configuration (the list of applications). \<open>ioutil.ReadFile\<close> and \<open>json.Unmarshal\<close> are arguments; the
  latter may change the configuration also when it fails.
\<close>

definition LoadConfig ::
  "(bytes \<Rightarrow> bytes res) \<Rightarrow> (bytes \<Rightarrow> (Application list, unit) prog) \<Rightarrow> bytes \<Rightarrow> (Application list, unit) prog" where
  "LoadConfig readFile unmarshal configfilename cfg =
     (case readFile configfilename of
        Ok data \<Rightarrow> unmarshal data cfg
      | Err e \<Rightarrow> (Err e, cfg)
      | Panic \<Rightarrow> (Panic, cfg))"

definition isLive :: "bytes \<Rightarrow> Application \<Rightarrow> bool" where
  "isLive appname a \<longleftrightarrow> Appname a = appname \<and> Liveon a = chars ''on''"

fun CheckAppName :: "Application list \<Rightarrow> bytes \<Rightarrow> bool" where
  "CheckAppName [] appname = False"
| "CheckAppName (a # as) appname = (if isLive appname a then True else CheckAppName as appname)"

fun GetStaticPushUrlList :: "Application list \<Rightarrow> bytes \<Rightarrow> bytes list option" where
  "GetStaticPushUrlList [] appname = None"
| "GetStaticPushUrlList (a # as) appname =
     (if isLive appname a then (if 0 < length (Static_push a) then Some (Static_push a) else None)
      else GetStaticPushUrlList as appname)"

definition GetStaticPushList :: "Application list \<Rightarrow> bytes \<Rightarrow> bytes list res" where
  "GetStaticPushList cfg appname =
     (case GetStaticPushUrlList cfg appname of Some urls \<Rightarrow> Ok urls | None \<Rightarrow> Err (Errorf ''no static push url''))"

section \<open>The relay\<close>

text \<open>\<open>held\<close> is the message with which \<open>rcvPlayChunkStream\<close> waits for room in the channel.\<close>

record RtmpRelay =
  PlayUrl :: bytes
  PublishUrl :: bytes
  cs_chan :: "ChunkStream chan"
  relayStopping :: bool
  connectPlayClient :: "ConnClient option"
  connectPublishClient :: "ConnClient option"
  rstartflag :: bool
  relayLogger :: bool
  held :: "ChunkStream option"
  rcvEnded :: bool
  publishClosed :: bool

definition NewRtmpRelay :: "bytes \<Rightarrow> bytes \<Rightarrow> RtmpRelay" where
  "NewRtmpRelay playurl publishurl = \<lparr>PlayUrl = playurl, PublishUrl = publishurl, cs_chan = make_chan 500, relayStopping = False,
     connectPlayClient = None, connectPublishClient = None, rstartflag = False, relayLogger = False,
     held = None, rcvEnded = False, publishClosed = False\<rparr>"

text \<open>
  \<open>ConnClient.Start\<close> returns for every server, so the result \<open>None\<close>, a loop that does not end, is never there.
\<close>

definition relay_Start :: "network \<Rightarrow> order \<Rightarrow> RtmpConn \<Rightarrow> (RtmpRelay, unit) prog" where
  "relay_Start net order conn r =
     (if rstartflag r then (Err (Errorf ''The rtmprelay already started''), r)
      else
        (let r1 = r\<lparr>connectPlayClient := Some (NewConnClient conn), connectPublishClient := Some (NewConnClient conn)\<rparr> in
         if \<not> relayLogger r then (Panic, r1)
         else
           (case Start net order (PlayUrl r) (chars ''play'') (NewConnClient conn) of
              Some (Ok _, p) \<Rightarrow>
                (let r2 = r1\<lparr>connectPlayClient := Some p\<rparr> in
                 case Start net order (PublishUrl r) (chars ''publish'') (NewConnClient conn) of
                   Some (Ok _, q) \<Rightarrow> (Ok (), r2\<lparr>connectPublishClient := Some q, rstartflag := True\<rparr>)
                 | Some (Err e, q) \<Rightarrow> (Err e, r2\<lparr>connectPublishClient := Some q\<rparr>)
                 | Some (Panic, q) \<Rightarrow> (Panic, r2\<lparr>connectPublishClient := Some q\<rparr>)
                 | None \<Rightarrow> (Panic, r2))
            | Some (Err e, p) \<Rightarrow> (Err e, r1\<lparr>connectPlayClient := Some p\<rparr>)
            | Some (Panic, p) \<Rightarrow> (Panic, r1\<lparr>connectPlayClient := Some p\<rparr>)
            | None \<Rightarrow> (Panic, r1))))"

text \<open>
  One turn of \<open>rcvPlayChunkStream\<close>. After an error other than the end of the input \<open>rc\<close> is nil and
  \<open>rc.TypeID\<close> panics. Commands are decoded as AMF0 and the result is only printed.
\<close>

definition rcv_turn :: "(RtmpRelay, unit option) prog" where
  "rcv_turn r =
     (if \<not> rstartflag r then (Ok (Some ()), r)
      else
        (case connectPlayClient r of
           None \<Rightarrow> (Panic, r)
         | Some cc \<Rightarrow>
             (case cc_Read cc of
                (Ok rc, cc1) \<Rightarrow>
                  (let r1 = r\<lparr>connectPlayClient := Some cc1\<rparr> in
                   if TypeID rc = 20 \<or> TypeID rc = 17 then
                     (case cc_DecodeBatch 0 (Data rc) cc1 of
                        (Panic, cc2) \<Rightarrow> (Panic, r\<lparr>connectPlayClient := Some cc2\<rparr>)
                      | (_, cc2) \<Rightarrow> (Ok None, r\<lparr>connectPlayClient := Some cc2\<rparr>))
                   else if TypeID rc = 8 \<or> TypeID rc = 9 then (Ok None, r1\<lparr>held := Some rc\<rparr>)
                   else (Ok None, r1))
              | (Err e, cc1) \<Rightarrow> (if e = EOF then Ok (Some ()) else Panic, r\<lparr>connectPlayClient := Some cc1\<rparr>)
              | (Panic, cc1) \<Rightarrow> (Panic, r\<lparr>connectPlayClient := Some cc1\<rparr>))))"

text \<open>\<open>self.cs_chan <- rc\<close> goes through when there is room.\<close>

definition rcv_push :: "RtmpRelay \<Rightarrow> RtmpRelay option" where
  "rcv_push r =
     (case held r of
        Some m \<Rightarrow> (if length (cbuf (cs_chan r)) < ccap (cs_chan r)
          then Some (r\<lparr>cs_chan := (cs_chan r)\<lparr>cbuf := cbuf (cs_chan r) @ [m]\<rparr>, held := None\<rparr>) else None)
      | None \<Rightarrow> None)"

text \<open>
  The two cases of the \<open>select\<close> in \<open>sendPublishChunkStream\<close>. The result of \<open>Write\<close> is dropped, and nothing is flushed. The
  \<open>break\<close> after the stop command leaves the \<open>select\<close> only: the loop goes on.
\<close>

definition snd_packet :: "RtmpRelay \<Rightarrow> (ChunkStream res \<times> RtmpRelay) option" where
  "snd_packet r =
     (case cbuf (cs_chan r) of
        [] \<Rightarrow> None
      | rc # rcs \<Rightarrow>
          (let r1 = r\<lparr>cs_chan := (cs_chan r)\<lparr>cbuf := rcs\<rparr>\<rparr> in
           case connectPublishClient r of
             None \<Rightarrow> Some (Panic, r1)
           | Some cc \<Rightarrow> (case cc_Write rc cc of
               (x, _, cc') \<Rightarrow> Some (if x = Panic then Panic else Ok rc, r1\<lparr>connectPublishClient := Some cc'\<rparr>))))"

definition snd_stop :: "RtmpRelay \<Rightarrow> RtmpRelay option" where
  "snd_stop r = (if relayStopping r then Some (r\<lparr>relayStopping := False, publishClosed := True\<rparr>) else None)"

definition relay_Stop :: "RtmpRelay \<Rightarrow> RtmpRelay" where
  "relay_Stop r = (if \<not> rstartflag r then r else r\<lparr>rstartflag := False, relayStopping := True\<rparr>)"

text \<open>Runs of the two goroutines and calls of \<open>Stop\<close>, with all messages that \<open>Read\<close> of the play side returned and those given to \<open>Write\<close>.\<close>

abbreviation held_list :: "RtmpRelay \<Rightarrow> ChunkStream list" where
  "held_list r \<equiv> (case held r of None \<Rightarrow> [] | Some m \<Rightarrow> [m])"

inductive relay_run :: "RtmpRelay \<Rightarrow> ChunkStream list \<Rightarrow> ChunkStream list \<Rightarrow> RtmpRelay \<Rightarrow> bool" for start where
  relay_begin: "relay_run start [] [] start"
| relay_rcv: "relay_run start got out r \<Longrightarrow> held r = None \<Longrightarrow> \<not> rcvEnded r \<Longrightarrow> rcv_turn r = (Ok None, r') \<Longrightarrow>
    connectPlayClient r = Some cc \<Longrightarrow> cc_Read cc = (Ok rc, cc') \<Longrightarrow> relay_run start (got @ [rc]) out r'"
| relay_rcv_end: "relay_run start got out r \<Longrightarrow> held r = None \<Longrightarrow> \<not> rcvEnded r \<Longrightarrow> rcv_turn r = (Ok (Some ()), r') \<Longrightarrow>
    relay_run start got out (r'\<lparr>rcvEnded := True\<rparr>)"
| relay_push: "relay_run start got out r \<Longrightarrow> rcv_push r = Some r' \<Longrightarrow> relay_run start got out r'"
| relay_snd: "relay_run start got out r \<Longrightarrow> snd_packet r = Some (Ok m, r') \<Longrightarrow> relay_run start got (out @ [m]) r'"
| relay_ctrl: "relay_run start got out r \<Longrightarrow> snd_stop r = Some r' \<Longrightarrow> relay_run start got out r'"
| relay_halt: "relay_run start got out r \<Longrightarrow> relay_run start got out (relay_Stop r)"

section \<open>The static push\<close>

datatype handler_state = NotRunning | Starting | Running | Ended

record StaticPush =
  PushUrl :: bytes
  packet_chan :: "Packet chan"
  pushStopping :: bool
  connectClient :: "ConnClient option"
  pstartflag :: bool
  pushLogger :: bool
  handlerState :: handler_state
  flagPending :: bool

definition NewStaticPush :: "bytes \<Rightarrow> StaticPush" where
  "NewStaticPush rtmpurl = \<lparr>PushUrl = rtmpurl, packet_chan = make_chan 500, pushStopping = False, connectClient = None,
     pstartflag = False, pushLogger = False, handlerState = NotRunning, flagPending = False\<rparr>"

text \<open>\<open>ConnClient.Start\<close> of a client without a logger: the first call of the logger follows the connection.\<close>

definition Start_without_logger :: "network \<Rightarrow> bytes \<Rightarrow> ConnClient \<Rightarrow> unit res \<times> ConnClient" where
  "Start_without_logger net u cc =
     (case parseURL net u cc of
        (Ok (local, remote), cc1) \<Rightarrow>
          (case dial net local remote of
             Ok _ \<Rightarrow> (Panic, cc1) | Err e \<Rightarrow> (Err (Errorf ''connect to server failed''), cc1) | Panic \<Rightarrow> (Panic, cc1))
      | (Err e, cc1) \<Rightarrow> (Err (Errorf ''connect to server failed''), cc1)
      | (Panic, cc1) \<Rightarrow> (Panic, cc1))"

text \<open>\<open>Start\<close> up to the \<open>go\<close> statement; \<open>push_setFlag\<close> is its last assignment, still pending then.\<close>

definition push_Start :: "network \<Rightarrow> order \<Rightarrow> RtmpConn \<Rightarrow> (StaticPush, unit) prog" where
  "push_Start net order conn s =
     (if pstartflag s then (Err (Errorf ''StaticPush already start''), s)
      else
        (let run = (if pushLogger s then
               (case Start net order (PushUrl s) (chars ''publish'') (NewConnClient conn) of Some x \<Rightarrow> x | None \<Rightarrow> (Panic, NewConnClient conn))
             else Start_without_logger net (PushUrl s) (NewConnClient conn)) in
         case run of
           (Ok _, cc) \<Rightarrow> (Ok (), s\<lparr>connectClient := Some cc, handlerState := Starting, flagPending := True\<rparr>)
         | (Err e, cc) \<Rightarrow> (Err e, s\<lparr>connectClient := Some cc\<rparr>)
         | (Panic, cc) \<Rightarrow> (Panic, s\<lparr>connectClient := Some cc\<rparr>)))"

definition push_setFlag :: "StaticPush \<Rightarrow> StaticPush option" where
  "push_setFlag s = (if flagPending s then Some (s\<lparr>pstartflag := True, flagPending := False\<rparr>) else None)"

definition IsStart :: "StaticPush \<Rightarrow> bool" where
  "IsStart s = pstartflag s"

text \<open>\<open>Stop\<close> waits for the handler to take the command; the flag is cleared then (\<open>handle_stop\<close>).\<close>

definition push_Stop :: "StaticPush \<Rightarrow> StaticPush" where
  "push_Stop s = (if \<not> pstartflag s then s else s\<lparr>pushStopping := True\<rparr>)"

text \<open>\<open>None\<close>: the caller waits, there is no room in the channel.\<close>

definition WriteAvPacket :: "Packet \<Rightarrow> StaticPush \<Rightarrow> StaticPush option" where
  "WriteAvPacket p s =
     (if \<not> pstartflag s then Some s
      else if length (cbuf (packet_chan s)) < ccap (packet_chan s)
      then Some (s\<lparr>packet_chan := (packet_chan s)\<lparr>cbuf := cbuf (packet_chan s) @ [p]\<rparr>\<rparr>) else None)"

definition push_sendPacket :: "Packet \<Rightarrow> (StaticPush, unit) prog" where
  "push_sendPacket p s =
     (if \<not> pstartflag s then (Ok (), s)
      else
        (case connectClient s of
           None \<Rightarrow> (Panic, s)
         | Some cc \<Rightarrow>
             (let cs = zeroChunkStream\<lparr>Data := PData p, Length := of_nat (length (PData p)), StreamID := GetStreamID cc, Timestamp := TimeStamp p,
                    TypeID := (if PacketType p = PacketTypeVideo then TAG_VIDEO else if PacketType p = PacketTypeAudio then TAG_AUDIO
                      else if PacketType p = PacketTypeMetadata then TAG_SCRIPTDATAAMF0 else 0)\<rparr> in
              case cc_Write cs cc of (x, _, cc') \<Rightarrow> (if x = Panic then Panic else Ok (), s\<lparr>connectClient := Some cc'\<rparr>))))"

text \<open>\<open>HandleAvPacket\<close>: the check at its beginning, and the two cases of its \<open>select\<close>. Its loop has no end.\<close>

definition handle_begin :: "StaticPush \<Rightarrow> StaticPush option" where
  "handle_begin s = (if handlerState s = Starting then Some (s\<lparr>handlerState := (if IsStart s then Running else Ended)\<rparr>) else None)"

definition handle_packet :: "StaticPush \<Rightarrow> (unit res \<times> StaticPush) option" where
  "handle_packet s =
     (case cbuf (packet_chan s) of
        p # ps \<Rightarrow> (if handlerState s = Running then Some (push_sendPacket p (s\<lparr>packet_chan := (packet_chan s)\<lparr>cbuf := ps\<rparr>\<rparr>)) else None)
      | [] \<Rightarrow> None)"

definition handle_stop :: "StaticPush \<Rightarrow> StaticPush option" where
  "handle_stop s = (if handlerState s = Running \<and> pushStopping s then Some (s\<lparr>pushStopping := False, pstartflag := False\<rparr>) else None)"

inductive push_step :: "StaticPush \<Rightarrow> StaticPush \<Rightarrow> bool" where
  step_begin: "handle_begin s = Some s' \<Longrightarrow> push_step s s'"
| step_packet: "handle_packet s = Some (Ok (), s') \<Longrightarrow> push_step s s'"
| step_stop: "handle_stop s = Some s' \<Longrightarrow> push_step s s'"
| step_write: "WriteAvPacket p s = Some s' \<Longrightarrow> push_step s s'"
| step_halt: "push_step s (push_Stop s)"
| step_flag: "push_setFlag s = Some s' \<Longrightarrow> push_step s s'"

section \<open>The registry of pushes\<close>

text \<open>
  Pushes are pointers: positions in the list of those created. \<open>GetAndCreateStaticPushObject\<close> gives up its
  read lock between the lookup and the store, so that the two are separate steps.
\<close>

record PushRegistry =
  pushObjects :: "StaticPush list"
  G_StaticPushMap :: "bytes \<rightharpoonup> nat"

definition push_store :: "bytes \<Rightarrow> PushRegistry \<Rightarrow> nat \<times> PushRegistry" where
  "push_store u reg = (let p = length (pushObjects reg) in
     (p, reg\<lparr>pushObjects := pushObjects reg @ [NewStaticPush u], G_StaticPushMap := (G_StaticPushMap reg)(u \<mapsto> p)\<rparr>))"

definition GetAndCreateStaticPushObject :: "bytes \<Rightarrow> PushRegistry \<Rightarrow> nat \<times> PushRegistry" where
  "GetAndCreateStaticPushObject u reg = (case G_StaticPushMap reg u of Some p \<Rightarrow> (p, reg) | None \<Rightarrow> push_store u reg)"

definition GetStaticPushObject :: "bytes \<Rightarrow> PushRegistry \<Rightarrow> nat res" where
  "GetStaticPushObject u reg =
     (case G_StaticPushMap reg u of Some p \<Rightarrow> Ok p | None \<Rightarrow> Err (Errorf ''G_StaticPushMap not exist''))"

definition ReleaseStaticPushObject :: "bytes \<Rightarrow> PushRegistry \<Rightarrow> PushRegistry" where
  "ReleaseStaticPushObject u reg =
     (if G_StaticPushMap reg u \<noteq> None then reg\<lparr>G_StaticPushMap := (G_StaticPushMap reg)(u := None)\<rparr> else reg)"

section \<open>Properties\<close>

inductive_cases push_stepE: "push_step s s'"

lemma rcv_turn_frame:
  assumes "rcv_turn r = (x, r')" and "held r = None"
  shows "cs_chan r' = cs_chan r" and "x = Ok (Some ()) \<Longrightarrow> held r' = None"
    and "x = Ok None \<Longrightarrow> connectPlayClient r = Some cc \<Longrightarrow> cc_Read cc = (Ok rc, cc') \<Longrightarrow>
      held r' = (if TypeID rc = TAG_AUDIO \<or> TypeID rc = TAG_VIDEO then Some rc else None)"
  using assms by (auto simp: rcv_turn_def Let_def split: if_splits option.splits prod.splits res.splits)

lemma snd_packet_takes:
  assumes "snd_packet r = Some (Ok m, r')"
  shows "cbuf (cs_chan r) = m # cbuf (cs_chan r') \<and> ccap (cs_chan r') = ccap (cs_chan r) \<and> held r' = held r"
  using assms by (auto simp: snd_packet_def Let_def split: list.splits option.splits prod.splits if_splits)

text \<open>
  The relay keeps the order: in every run of its two goroutines, whatever the two servers do and whenever it is
  stopped, the messages given to \<open>Write\<close> of the publish side followed by those in the channel and the one that waits for room are
  exactly the audio and video messages among those that \<open>Read\<close> of the play side returned, in the same order; none is lost, doubled or overtaken,
  and at most 501 are on the way. (The messages are pointers here: their data may be overwritten while they wait. And the goroutines only run in a relay
  that could be started, which needs its logger to be set.)
\<close>

theorem relay_in_order:
  assumes "relay_run start got out r" and "cs_chan start = make_chan 500" and "held start = None"
  shows "filter (\<lambda>m. TypeID m = TAG_AUDIO \<or> TypeID m = TAG_VIDEO) got = out @ cbuf (cs_chan r) @ held_list r \<and> length (cbuf (cs_chan r)) \<le> 500"
proof -
  let ?av = "filter (\<lambda>m. TypeID m = TAG_AUDIO \<or> TypeID m = TAG_VIDEO)"
  have "?av got = out @ cbuf (cs_chan r) @ held_list r \<and> length (cbuf (cs_chan r)) \<le> 500 \<and> ccap (cs_chan r) = 500"
    using assms(1)
  proof (induction rule: relay_run.induct)
    case relay_begin
    then show ?case using assms(2,3) by (simp add: make_chan_def)
  next
    case (relay_rcv got out r r' cc rc cc')
    then show ?case using rcv_turn_frame(1,3) [OF relay_rcv(4,2)] by simp
  next
    case (relay_rcv_end got out r r')
    then show ?case using rcv_turn_frame [OF relay_rcv_end(4,2)] by simp
  next
    case (relay_push got out r r')
    then show ?case by (auto simp: rcv_push_def split: option.splits if_splits)
  next
    case (relay_snd got out r m r')
    then show ?case using snd_packet_takes [OF relay_snd(2)] by simp
  next
    case (relay_ctrl got out r r')
    then show ?case by (auto simp: snd_stop_def split: if_splits)
  next
    case (relay_halt got out r)
    then show ?case by (simp add: relay_Stop_def)
  qed
  then show ?thesis by blast
qed

text \<open>A relay that runs, and a message of its play side.\<close>

definition sample_relay :: RtmpRelay where
  "sample_relay = (NewRtmpRelay [] [])\<lparr>rstartflag := True, relayLogger := True,
     connectPlayClient := Some (NewConnClient (fresh_conn [4, 0, 0, 0, 0, 0, 1, 8, 1, 0, 0, 0, 7])),
     connectPublishClient := Some (NewConnClient (fresh_conn []))\<rparr>"

theorem relay_in_order_witness:
  "\<exists>m r. relay_run sample_relay [m] [] r \<and> TypeID m = 8 \<and> Data m = [7] \<and> cbuf (cs_chan r) @ held_list r = [m]"
proof -
  let ?cc = "NewConnClient (fresh_conn [4, 0, 0, 0, 0, 0, 1, 8, 1, 0, 0, 0, 7])"
  have "case cc_Read ?cc of (Ok rc, _) \<Rightarrow> TypeID rc = 8 \<and> Data rc = [7] | _ \<Rightarrow> False" by code_simp
  then obtain m cc' where m: "cc_Read ?cc = (Ok m, cc')" "TypeID m = 8" "Data m = [7]" by (auto split: prod.splits res.splits)
  have s: "held sample_relay = None" "\<not> rcvEnded sample_relay" "cs_chan sample_relay = make_chan 500" "connectPlayClient sample_relay = Some ?cc"
    "rstartflag sample_relay"
    by (simp_all add: sample_relay_def NewRtmpRelay_def)
  define r where "r = sample_relay\<lparr>connectPlayClient := Some cc', held := Some m\<rparr>"
  have t: "rcv_turn sample_relay = (Ok None, r)" using s(4,5) m by (simp add: rcv_turn_def Let_def r_def)
  have run: "relay_run sample_relay ([] @ [m]) [] r"
    by (rule relay_rcv [OF relay_begin s(1,2) t s(4) m(1)])
  have "cbuf (cs_chan r) @ held_list r = [m]" using relay_in_order [OF run s(3,1)] m(2) by simp
  moreover have "relay_run sample_relay [m] [] r" using run by simp
  ultimately show ?thesis using m(2,3) by blast
qed

text \<open>
  Neither relay can be started as it is constructed: the logger is never set, so \<open>RtmpRelay.Start\<close> panics at once, and
  \<open>StaticPush.Start\<close> panics as soon as the server has accepted the connection; it never succeeds.
\<close>

theorem relays_cannot_start:
  "fst (relay_Start net order conn (NewRtmpRelay p q)) = Panic \<and> fst (push_Start net order conn (NewStaticPush u)) \<noteq> Ok () \<and>
   (\<forall>l a cc. parseURL net u (NewConnClient conn) = (Ok (l, a), cc) \<longrightarrow> dial net l a = Ok c \<longrightarrow>
     fst (push_Start net order conn (NewStaticPush u)) = Panic)"
proof (intro conjI)
  show "fst (relay_Start net order conn (NewRtmpRelay p q)) = Panic"
    by (simp add: relay_Start_def NewRtmpRelay_def Let_def)
  have no: "fst (Start_without_logger net u cc) \<noteq> Ok ()" for cc
    by (auto simp: Start_without_logger_def split: prod.split res.split)
  show "fst (push_Start net order conn (NewStaticPush u)) \<noteq> Ok ()"
    using no [of "NewConnClient conn"] by (auto simp: push_Start_def NewStaticPush_def Let_def split: prod.split res.split)
  show "\<forall>l a cc. parseURL net u (NewConnClient conn) = (Ok (l, a), cc) \<longrightarrow> dial net l a = Ok c \<longrightarrow>
     fst (push_Start net order conn (NewStaticPush u)) = Panic"
    by (simp add: push_Start_def NewStaticPush_def Let_def Start_without_logger_def)
qed

theorem relays_cannot_start_witness:
  "fst (relay_Start sample_network (\<lambda>m. m) (fresh_conn []) (NewRtmpRelay [] [])) = Panic \<and>
   fst (push_Start sample_network (\<lambda>m. m) (fresh_conn []) (NewStaticPush (chars ''rtmp://h.tv:80/live/room/1''))) = Panic"
proof -
  let ?u = "chars ''rtmp://h.tv:80/live/room/1''"
  have hp: "hostPort (chars ''h.tv:80'') = Ok (chars ''h.tv'', chars '':80'')"
    "splitSlash (dropWhile (\<lambda>b. b = slash) (chars ''/live/room/1'')) = Some (chars ''live'', chars ''room/1'')" by code_simp+
  obtain l a cc where url: "parseURL sample_network ?u (NewConnClient (fresh_conn [])) = (Ok (l, a), cc)"
    using hp by (simp add: parseURL_def sample_network_def Let_def)
  obtain c where "dial sample_network l a = Ok c" by (simp add: sample_network_def)
  with relays_cannot_start [of sample_network "\<lambda>m. m" "fresh_conn []" "[]" "[]" ?u c] url show ?thesis by blast
qed

lemma push_stuck_step:
  assumes "push_step s s'" and "handlerState s = Ended" "pstartflag s" "length (cbuf (packet_chan s)) = ccap (packet_chan s)"
  shows "handlerState s' = Ended \<and> pstartflag s' \<and> length (cbuf (packet_chan s')) = ccap (packet_chan s')"
  using assms
  by (cases rule: push_step.cases)
    (auto simp: handle_begin_def handle_packet_def handle_stop_def WriteAvPacket_def push_Stop_def push_setFlag_def split: if_splits list.splits)

text \<open>
  A static push that was started can be dead: \<open>Start\<close> launches the handler before it sets the flag that the handler checks,
  so in one order of the two the push counts as started while its handler has ended; and from every such state whose channel
  is full, in every continuation, a caller of \<open>WriteAvPacket\<close> waits.
\<close>

theorem push_start_race:
  "(handlerState s = Starting \<and> flagPending s \<and> \<not> pstartflag s \<longrightarrow> (\<exists>s'. push_step\<^sup>*\<^sup>* s s' \<and> IsStart s' \<and> handlerState s' = Ended)) \<and>
   (handlerState t = Ended \<and> IsStart t \<and> length (cbuf (packet_chan t)) = ccap (packet_chan t) \<and> push_step\<^sup>*\<^sup>* t t' \<longrightarrow> WriteAvPacket p t' = None)"
proof (intro conjI impI)
  assume s: "handlerState s = Starting \<and> flagPending s \<and> \<not> pstartflag s"
  let ?a = "s\<lparr>handlerState := Ended\<rparr>" and ?b = "s\<lparr>handlerState := Ended, pstartflag := True, flagPending := False\<rparr>"
  have "push_step s ?a" using s by (intro step_begin) (simp add: handle_begin_def IsStart_def)
  moreover have "push_step ?a ?b" using s by (intro step_flag) (simp add: push_setFlag_def)
  ultimately have "push_step\<^sup>*\<^sup>* s ?b" by (meson converse_rtranclp_into_rtranclp rtranclp.rtrancl_refl)
  then show "\<exists>s'. push_step\<^sup>*\<^sup>* s s' \<and> IsStart s' \<and> handlerState s' = Ended" by (intro exI [of _ ?b]) (simp add: IsStart_def)
next
  assume t: "handlerState t = Ended \<and> IsStart t \<and> length (cbuf (packet_chan t)) = ccap (packet_chan t) \<and> push_step\<^sup>*\<^sup>* t t'"
  then have "push_step\<^sup>*\<^sup>* t t'" by simp
  then have "handlerState t' = Ended \<and> pstartflag t' \<and> length (cbuf (packet_chan t')) = ccap (packet_chan t')"
  proof (induction rule: rtranclp_induct)
    case base
    then show ?case using t by (simp add: IsStart_def)
  next
    case (step y z)
    then show ?case using push_stuck_step by blast
  qed
  then show "WriteAvPacket p t' = None" by (simp add: WriteAvPacket_def)
qed

theorem push_start_race_witness:
  "\<exists>s'. push_step\<^sup>*\<^sup>* ((NewStaticPush [])\<lparr>handlerState := Starting, flagPending := True\<rparr>) s' \<and> IsStart s' \<and> handlerState s' = Ended"
  using push_start_race [of "(NewStaticPush [])\<lparr>handlerState := Starting, flagPending := True\<rparr>"] by (simp add: NewStaticPush_def)

text \<open>
  The registry of pushes holds one push per URL as long as its operations follow one another: a push that was created is found,
  asking again returns the same one, releasing removes it, other URLs are untouched. But two calls that both look a
  URL up before either stores get different pushes, and the first is lost.
\<close>

theorem push_registry:
  "(let (p, reg1) = GetAndCreateStaticPushObject u reg in
      GetStaticPushObject u reg1 = Ok p \<and> GetAndCreateStaticPushObject u reg1 = (p, reg1) \<and>
      (\<forall>v. v = u \<or> GetStaticPushObject v reg1 = GetStaticPushObject v reg) \<and>
      (\<exists>e. GetStaticPushObject u (ReleaseStaticPushObject u reg1) = Err e)) \<and>
   (let (p, reg1) = push_store u reg; (p', reg2) = push_store u reg1 in p \<noteq> p' \<and> GetStaticPushObject u reg2 = Ok p')"
  by (auto simp: GetAndCreateStaticPushObject_def GetStaticPushObject_def ReleaseStaticPushObject_def push_store_def Let_def split: option.splits)

text \<open>A push list is only given out for an application that is live, and it is one of the configuration's.\<close>

lemma static_push_configured:
  "GetStaticPushList cfg appname = Ok urls \<Longrightarrow> urls \<noteq> [] \<and> CheckAppName cfg appname \<and> (\<exists>a\<in>set cfg. isLive appname a \<and> Static_push a = urls)"
proof (induction cfg)
  case (Cons a cfg)
  then show ?case by (auto simp: GetStaticPushList_def split: if_splits option.splits)
qed (simp add: GetStaticPushList_def)

end
