(* ===== verification/H264.thy ===== *)
theory H264
  imports Utils AvTypes
begin

text \<open>
  The H.264 parser of \<open>media/h264/parser.go\<close>: the decoder configuration record, splitting a byte
  stream at start codes, and the conversion of length-prefixed NAL units to the Annex B format.
  The lemmas relate the three formats: what is packed is found again.
\<close>

section \<open>Constants and state\<close>

definition StartCode3 :: bytes where "StartCode3 = [0, 0, 1]"
definition StartCode4 :: bytes where "StartCode4 = [0, 0, 0, 1]"
definition naluAud :: bytes where "naluAud = [0, 0, 0, 1, 9, 0xf0]"

abbreviation (input) naluBytesLen :: nat where "naluBytesLen \<equiv> 4"
abbreviation (input) maxSpsPpsLen :: nat where "maxSpsPpsLen \<equiv> 2048"
abbreviation (input) nalu_type_slice :: u8 where "nalu_type_slice \<equiv> 1"
abbreviation (input) nalu_type_idr :: u8 where "nalu_type_idr \<equiv> 5"
abbreviation (input) nalu_type_sei :: u8 where "nalu_type_sei \<equiv> 6"
abbreviation (input) nalu_type_sps :: u8 where "nalu_type_sps \<equiv> 7"
abbreviation (input) nalu_type_pps :: u8 where "nalu_type_pps \<equiv> 8"
abbreviation (input) nalu_type_aud :: u8 where "nalu_type_aud \<equiv> 9"

record H264Parser =
  frameType :: u8
  specificInfo :: bytes
  ppsBuf :: bytes

definition NewH264Parser :: H264Parser where
  "NewH264Parser = \<lparr>frameType = 0, specificInfo = [], ppsBuf = replicate maxSpsPpsLen 0\<rparr>"

section \<open>The decoder configuration record\<close>

text \<open>\<open>parseSpecificInfo\<close>: the first parameter set of each kind, with start codes.\<close>

definition parseSpecificInfo :: "bytes \<Rightarrow> H264Parser \<Rightarrow> unit res \<times> H264Parser" where
  "parseSpecificInfo src parser =
     (if length src < 9 then (Err (Errorf ''dec buf is nil''), parser)
      else
        let spsLen = unat (be_word (take 2 (drop 6 src)) :: u32) in
        if length (drop 8 src) < spsLen \<or> spsLen = 0 then (Err (Errorf ''sps data error''), parser)
        else
          let sps = StartCode4 @ take spsLen (drop 8 src);
              tmpBuf = drop (8 + spsLen) src in
          if length tmpBuf < 4 then (Err (Errorf ''pps header error''), parser)
          else
            let ppsLen = unat (be_word (take 2 (drop 1 tmpBuf)) :: u32) in
            if length (drop 3 tmpBuf) < ppsLen \<or> ppsLen = 0 then (Err (Errorf ''pps data error''), parser)
            else
              let pps = StartCode4 @ drop 3 tmpBuf in
              (Ok (), parser\<lparr>specificInfo := specificInfo parser @ sps @ pps\<rparr>))"

definition AVCDecoderConfigurationRecord :: "bytes \<Rightarrow> bytes \<Rightarrow> bytes" where
  "AVCDecoderConfigurationRecord sps0 pps0 =
     (let sps = (if sps0 = StartCode4 then drop 4 sps0 else sps0);
          pps = (if pps0 = StartCode4 then drop 4 pps0 else pps0) in
      [1, 66, 0, 40, push_bit 2 0x3f OR (3 AND 0x03), push_bit 5 0x07 OR (1 AND 0x1f)] @
      be_bytes 2 (of_nat (length sps) :: u16) @ sps @
      [1] @ be_bytes 2 (of_nat (length pps) :: u16) @ pps)"

section \<open>Length-prefixed units to Annex B (getAnnexbH264)\<close>

definition isNaluHeader :: "bytes \<Rightarrow> bool" where
  "isNaluHeader src \<longleftrightarrow> \<not> length src < naluBytesLen \<and>
     src ! 0 = 0 \<and> src ! 1 = 0 \<and> src ! 2 = 0 \<and> src ! 3 = 1"

text \<open>A Go \<open>int\<close> holds the four-byte length without overflow.\<close>

definition naluSize :: "bytes \<Rightarrow> nat res" where
  "naluSize src = (if length src < naluBytesLen then Err (Errorf ''nalusizedata invalid'')
     else Ok (foldl (\<lambda>size b. size * 256 + unat b) 0 (take naluBytesLen src)))"

text \<open>
  What one NAL unit of the given type does (the \<open>switch\<close> of the loop). The flags are
  \<open>hasSpsPps\<close> and \<open>hasWriteSpsPps\<close>.
\<close>

definition annexb_unit ::
  "'w writer \<Rightarrow> bytes \<Rightarrow> bool \<Rightarrow> bool \<Rightarrow> H264Parser \<Rightarrow> 'w \<Rightarrow> (bool \<times> bool) res \<times> H264Parser \<times> 'w" where
  "annexb_unit write unit hasSpsPps hasWriteSpsPps parser w =
     (let nalType = hd unit AND 0x1f in
      if nalType = nalu_type_aud then (Ok (hasSpsPps, hasWriteSpsPps), parser, w)
      else if nalType = nalu_type_idr \<or> nalType = nalu_type_slice \<or> nalType = nalu_type_sei then
        (case pseq (if nalType = nalu_type_idr \<and> \<not> hasWriteSpsPps
                    then write (if \<not> hasSpsPps then specificInfo parser else ppsBuf parser)
                    else preturn ())
             (pseq (write StartCode4) (write unit)) w of
          (Ok _, w') \<Rightarrow> (Ok (hasSpsPps, hasWriteSpsPps \<or> nalType = nalu_type_idr), parser, w')
        | (Err e, w') \<Rightarrow> (Err e, parser, w')
        | (Panic, w') \<Rightarrow> (Panic, parser, w'))
      else if nalType = nalu_type_sps \<or> nalType = nalu_type_pps then
        (Ok (True, hasWriteSpsPps), parser\<lparr>ppsBuf := ppsBuf parser @ StartCode4 @ unit\<rparr>, w)
      else (Ok (hasSpsPps, hasWriteSpsPps), parser, w))"

text \<open>
  The loop. Its state is what is left of the data, \<open>src[index:]\<close>, whose length is \<open>dataSize\<close>
  throughout: both shrink by the same amounts.
\<close>

function annexb_loop ::
  "'w writer \<Rightarrow> bytes \<Rightarrow> bool \<Rightarrow> bool \<Rightarrow> H264Parser \<Rightarrow> 'w \<Rightarrow> unit res \<times> H264Parser \<times> 'w" where
  "annexb_loop write rest hasSpsPps hasWriteSpsPps parser w =
     (if rest = [] then (Ok (), parser, w)
      else case naluSize rest of
        Ok nalLen \<Rightarrow>
          (let body = drop naluBytesLen rest in
           if nalLen \<le> length body \<and> 0 < nalLen then
             (case annexb_unit write (take nalLen body) hasSpsPps hasWriteSpsPps parser w of
               (Ok (h1, h2), parser', w') \<Rightarrow> annexb_loop write (drop nalLen body) h1 h2 parser' w'
             | (Err e, parser', w') \<Rightarrow> (Err e, parser', w')
             | (Panic, parser', w') \<Rightarrow> (Panic, parser', w'))
           else (Err (Errorf ''nalu body len error''), parser, w))
      | Err e \<Rightarrow> (Err (Errorf ''data size not match''), parser, w)
      | Panic \<Rightarrow> (Panic, parser, w))"
  by pat_completeness auto
termination
  by (relation "measure (\<lambda>(write, rest, h1, h2, parser, w). length rest)") auto

declare annexb_loop.simps [simp del]

definition getAnnexbH264 ::
  "'w writer \<Rightarrow> bytes \<Rightarrow> H264Parser \<Rightarrow> 'w \<Rightarrow> unit res \<times> H264Parser \<times> 'w" where
  "getAnnexbH264 write src parser w =
     (if length src < naluBytesLen then (Err (Errorf ''video data not match''), parser, w)
      else
        let parser' = parser\<lparr>ppsBuf := []\<rparr> in
        case write naluAud w of
          (Ok _, w') \<Rightarrow> annexb_loop write src False False parser' w'
        | (Err e, w') \<Rightarrow> (Err e, parser', w')
        | (Panic, w') \<Rightarrow> (Panic, parser', w'))"

definition h264_Parse ::
  "'w writer \<Rightarrow> bytes \<Rightarrow> bool \<Rightarrow> H264Parser \<Rightarrow> 'w \<Rightarrow> unit res \<times> H264Parser \<times> 'w" where
  "h264_Parse write b isSeq parser w =
     (if isSeq then (case parseSpecificInfo b parser of (r, parser') \<Rightarrow> (r, parser', w))
      else if isNaluHeader b then (case write b w of (r, w') \<Rightarrow> (r, parser, w'))
      else getAnnexbH264 write b parser w)"

section \<open>Splitting at start codes (ParseNalusN)\<close>

text \<open>
  The test for a start code at \<open>index\<close>: its length, or 0; slicing out of range panics. Go bounds a slice by the capacity of the array, the
  model by its length: it is the code on a slice without spare capacity.
\<close>

definition startCodeAt :: "bytes \<Rightarrow> nat \<Rightarrow> nat res" where
  "startCodeAt src idx =
     res_bind (slice idx (idx + 3) src) (\<lambda>a.
       if a = StartCode3 then Ok 3
       else res_bind (slice idx (idx + 4) src) (\<lambda>b.
         Ok (if b = StartCode4 then 4 else 0)))"

lemma startCodeAt_range:
  assumes "startCodeAt src idx = Ok k" and "0 < k"
  shows "idx + 3 \<le> length src"
  using assms by (auto simp: startCodeAt_def slice_def split: if_splits)

function ParseNalusN_loop :: "bytes \<Rightarrow> int \<Rightarrow> nat \<Rightarrow> nat \<Rightarrow> bytes list \<Rightarrow> (nat \<times> nat \<times> bytes list) res" where
  "ParseNalusN_loop src n pre idx nalus =
     (if n = 1 then Ok (pre, length src, nalus)
      else case startCodeAt src idx of
        Ok startCodeLength \<Rightarrow>
          (if 0 < startCodeLength then
             (if idx > pre
              then ParseNalusN_loop src (if n > 0 then n - 1 else n) (idx + startCodeLength)
                (idx + startCodeLength) (nalus @ [take (idx - pre) (drop pre src)])
              else ParseNalusN_loop src n (idx + startCodeLength) (idx + startCodeLength) nalus)
           else if idx + 1 + 4 > length src then Ok (pre, idx + 1, nalus)
           else ParseNalusN_loop src n pre (idx + 1) nalus)
      | Err e \<Rightarrow> Err e
      | Panic \<Rightarrow> Panic)"
  by pat_completeness auto
termination
  by (relation "measure (\<lambda>(src, n, pre, idx, nalus). length src - idx)")
    (auto dest: startCodeAt_range)

declare ParseNalusN_loop.simps [simp del]

definition ParseNalusN :: "bytes \<Rightarrow> int \<Rightarrow> bytes list res" where
  "ParseNalusN src n =
     (if length src < naluBytesLen then Ok []
      else if n = 0 then Ok []
      else res_bind (ParseNalusN_loop src n 0 0 []) (\<lambda>(pre, idx, nalus).
        Ok (if idx > pre \<and> pre < length src then nalus @ [drop pre src] else nalus)))"

definition ParseNalus :: "bytes \<Rightarrow> bytes list res" where
  "ParseNalus src = ParseNalusN src (-1)"

section \<open>Round trips of the configuration record\<close>

lemma be_word_be2: "(be_word (be_bytes 2 (v :: u16)) :: u32) = ucast v"
proof -
  have "be_bytes 2 v = [ucast (drop_bit 8 v), ucast v]" by (simp add: numeral_eq_Suc)
  then show ?thesis
    by simp (rule bit_word_eqI, auto simp: be_word_def bit_simps dest: bit_imp_le_length)
qed

lemma be2_length: "n < 65536 \<Longrightarrow> unat (be_word (be_bytes 2 (of_nat n :: u16)) :: u32) = n"
  by (simp add: be_word_be2 unat_ucast_u16 unsigned_of_nat take_bit_nat_eq_self)

lemma record_shape:
  assumes "sps \<noteq> StartCode4" and "pps \<noteq> StartCode4"
  shows "AVCDecoderConfigurationRecord sps pps =
    [1, 66, 0, 40, 0xff, 0xe1] @ be_bytes 2 (of_nat (length sps) :: u16) @ sps @
    [1] @ be_bytes 2 (of_nat (length pps) :: u16) @ pps"
  using assms by (simp add: AVCDecoderConfigurationRecord_def Let_def del: be_bytes.simps)
  
lemma parseSpecificInfo_record:
  assumes "sps \<noteq> StartCode4" "pps \<noteq> StartCode4" "sps \<noteq> []" "pps \<noteq> []"
    and "length sps < 65536" and "length pps < 65536"
  shows "parseSpecificInfo (AVCDecoderConfigurationRecord sps pps) parser =
    (Ok (), parser\<lparr>specificInfo := specificInfo parser @ (StartCode4 @ sps) @ (StartCode4 @ pps)\<rparr>)"
proof -
  let ?src = "AVCDecoderConfigurationRecord sps pps"
  note shape = record_shape [OF assms(1,2)]
  have s8: "drop 8 ?src = sps @ [1] @ be_bytes 2 (of_nat (length pps) :: u16) @ pps"
    and s6: "take 2 (drop 6 ?src) = be_bytes 2 (of_nat (length sps) :: u16)"
    unfolding shape by (simp_all del: be_bytes.simps)
  have "drop (8 + length sps) ?src = drop (length sps) (drop 8 ?src)" by (simp add: add.commute)
  then have tmp: "drop (8 + length sps) ?src = [1] @ be_bytes 2 (of_nat (length pps) :: u16) @ pps"
    unfolding s8 by simp
  have "0 < length sps" "0 < length pps" using assms by auto
  moreover have "length ?src = 11 + length sps + length pps" unfolding shape by simp
  ultimately show ?thesis
    using assms(5,6) unfolding parseSpecificInfo_def Let_def s6 be2_length [OF assms(5)] tmp s8
    by (simp add: Let_def be2_length [OF assms(6)] del: be_bytes.simps)
qed

section \<open>Annex B conversion\<close>

definition avcc :: "bytes list \<Rightarrow> bytes" where
  "avcc us = concat (map (\<lambda>u. be_bytes 4 (of_nat (length u) :: u32) @ u) us)"

definition annexb :: "bytes list \<Rightarrow> bytes" where
  "annexb us = concat (map (\<lambda>u. StartCode4 @ u) us)"

definition nal_type :: "bytes \<Rightarrow> u8" where
  "nal_type u = hd u AND 0x1f"

lemma foldl256_be_word:
  assumes "length bs \<le> 4"
  shows "foldl (\<lambda>size b. size * 256 + unat b) 0 bs = unat (be_word bs :: u32)"
  using assms
proof (induction bs rule: rev_induct)
  case (snoc b bs)
  have lt: "unat (be_word bs :: u32) < 2 ^ 24"
  proof -
    have "take_bit 24 (be_word bs :: u32) = be_word bs"
      by (rule bit_word_eqI) (use snoc.prems in \<open>auto simp: bit_simps dest: bit_be_word_bound\<close>)
    then have "unat (be_word bs :: u32) = unat (take_bit 24 (be_word bs :: u32))" by simp
    also have "\<dots> < 2 ^ 24" by (simp only: unsigned_take_bit_eq take_bit_nat_less_exp)
    finally show ?thesis .
  qed
  have "be_word (bs @ [b]) = push_bit 8 (be_word bs :: u32) + ucast b"
    by (simp add: be_word_snoc push_bit_add_ucast)
  also have "unat \<dots> = unat (be_word bs :: u32) * 256 + unat b"
    using lt unat_lt_u8 [of b] by (simp add: push_bit_eq_mult unat_word_ariths unat_ucast_u8)
  finally show ?case using snoc by simp
qed simp

lemma naluSize_prefix:
  assumes "length u < 2 ^ 32"
  shows "naluSize (be_bytes 4 (of_nat (length u) :: u32) @ rest) = Ok (length u)"
  using assms
  by (simp add: naluSize_def foldl256_be_word be_word_be_bytes unsigned_of_nat take_bit_nat_eq_self
      del: be_bytes.simps)

lemma annexb_loop_step:
  assumes "u \<noteq> []" and "length u < 2 ^ 32"
  shows "annexb_loop write (be_bytes 4 (of_nat (length u) :: u32) @ u @ rest) h1 h2 parser w =
    (case annexb_unit write u h1 h2 parser w of
      (Ok (h1', h2'), parser', w') \<Rightarrow> annexb_loop write rest h1' h2' parser' w'
    | (Err e, parser', w') \<Rightarrow> (Err e, parser', w')
    | (Panic, parser', w') \<Rightarrow> (Panic, parser', w'))"
proof -
  let ?src = "be_bytes 4 (of_nat (length u) :: u32) @ u @ rest"
  have body: "drop 4 ?src = u @ rest" "drop (length u) (u @ rest) = rest" "take (length u) (u @ rest) = u"
    by (simp_all del: be_bytes.simps)
  have ne: "?src \<noteq> []" and fits: "length u \<le> length (u @ rest) \<and> 0 < length u"
    using assms(1) by (simp_all del: be_bytes.simps) 
  show ?thesis
    by (subst annexb_loop.simps)
      (simp only: ne if_False naluSize_prefix [OF assms(2)] res.case Let_def body fits if_True simp_thms)
qed

definition is_frame :: "bytes \<Rightarrow> bool" where
  "is_frame u \<longleftrightarrow> u \<noteq> [] \<and> length u < 2 ^ 32 \<and> nal_type u \<in> {1, 5, 6}"

definition is_param :: "bytes \<Rightarrow> bool" where
  "is_param u \<longleftrightarrow> u \<noteq> [] \<and> length u < 2 ^ 32 \<and> nal_type u \<in> {7, 8}"

definition is_idr :: "bytes \<Rightarrow> bool" where
  "is_idr u \<longleftrightarrow> nal_type u = 5"

lemma annexb_simps [simp]: "annexb [] = []" "annexb (u # us) = StartCode4 @ u @ annexb us"
  by (simp_all add: annexb_def)

lemma avcc_simps [simp]: "avcc [] = []"
  "avcc (u # us) = be_bytes 4 (of_nat (length u) :: u32) @ u @ avcc us"
  by (simp_all add: avcc_def)

lemma annexb_unit_frame:
  assumes "is_frame u"
  shows "annexb_unit buf_write u h1 h2 parser w = (Ok (h1, h2 \<or> is_idr u), parser,
    w @ (if is_idr u \<and> \<not> h2 then (if h1 then ppsBuf parser else specificInfo parser) else []) @
    StartCode4 @ u)"
  using assms
  by (auto simp: annexb_unit_def is_frame_def is_idr_def nal_type_def buf_write_def Let_def go_simps
      pseq_def pbind_def)

lemma annexb_unit_param:
  assumes "is_param u"
  shows "annexb_unit write u h1 h2 parser w =
    (Ok (True, h2), parser\<lparr>ppsBuf := ppsBuf parser @ StartCode4 @ u\<rparr>, w)"
  using assms by (auto simp: annexb_unit_def is_param_def nal_type_def Let_def)

lemma annexb_loop_Nil: "annexb_loop write [] h1 h2 parser w = (Ok (), parser, w)"
  by (simp add: annexb_loop.simps)

lemma annexb_loop_frames:
  assumes "\<forall>u\<in>set us. is_frame u"
  shows "annexb_loop buf_write (avcc us) h1 True parser w = (Ok (), parser, w @ annexb us)"
  using assms
proof (induction us arbitrary: w)
  case (Cons u us)
  then have "u \<noteq> []" "length u < 2 ^ 32" by (simp_all add: is_frame_def)
  with Cons show ?case by (simp add: annexb_loop_step annexb_unit_frame del: be_bytes.simps)
qed (simp add: annexb_loop_Nil)

lemma annexb_loop_until_idr:
  assumes "\<forall>u\<in>set us. is_frame u"
  shows "annexb_loop buf_write (avcc us) h1 False parser w = (Ok (), parser,
    w @ annexb (takeWhile (\<lambda>u. \<not> is_idr u) us) @
    (if \<exists>u\<in>set us. is_idr u then (if h1 then ppsBuf parser else specificInfo parser) else []) @
    annexb (dropWhile (\<lambda>u. \<not> is_idr u) us))"
  using assms
proof (induction us arbitrary: w)
  case (Cons u us)
  then have "u \<noteq> []" "length u < 2 ^ 32" by (simp_all add: is_frame_def)
  with Cons show ?case
    by (cases "is_idr u") (simp_all add: annexb_loop_step annexb_unit_frame annexb_loop_frames del: be_bytes.simps)
qed (simp add: annexb_loop_Nil)

lemma annexb_loop_params:
  assumes "\<forall>u\<in>set ps. is_param u"
  shows "annexb_loop write (avcc ps @ rest) h1 h2 parser w =
    annexb_loop write rest (h1 \<or> ps \<noteq> []) h2 (parser\<lparr>ppsBuf := ppsBuf parser @ annexb ps\<rparr>) w"
  using assms
proof (induction ps arbitrary: h1 parser)
  case (Cons u ps)
  then have "u \<noteq> []" "length u < 2 ^ 32" by (simp_all add: is_param_def)
  with Cons show ?case by (simp add: annexb_loop_step annexb_unit_param del: be_bytes.simps)
qed simp

lemma avcc_append: "avcc (xs @ ys) = avcc xs @ avcc ys"
  by (simp add: avcc_def)

section \<open>Splitting at start codes\<close>

definition start_at :: "bytes \<Rightarrow> nat \<Rightarrow> bool" where
  "start_at src i \<longleftrightarrow> take 3 (drop i src) = StartCode3 \<or> take 4 (drop i src) = StartCode4"

text \<open>A unit in which no start code begins, not even one that runs into the next start code.\<close>

definition clean :: "bytes \<Rightarrow> bool" where
  "clean u \<longleftrightarrow> (\<forall>i<length u. \<not> start_at (u @ StartCode4) i)"

lemma startCodeAt_none:
  assumes "i + 4 \<le> length src" and "\<not> start_at src i"
  shows "startCodeAt src i = Ok 0"
  using assms by (simp add: startCodeAt_def slice_def start_at_def)

lemma startCodeAt_four: "startCodeAt (a @ StartCode4 @ r) (length a) = Ok 4"
  by (simp add: startCodeAt_def slice_def StartCode3_def StartCode4_def)

lemma clean_start:
  assumes "clean u" and "i < length u" and "i + 4 \<le> length (u @ r)" and "r = [] \<or> take 4 r = StartCode4"
  shows "\<not> start_at (a @ u @ r) (length a + i)"
proof -
  have "take n (drop (length a + i) (a @ u @ r)) = take n (drop i (u @ StartCode4))" if "n \<le> 4" for n
  proof (cases "r = []")
    case True
    with assms(3) that show ?thesis by (simp add: min_def)
  next
    case False
    then have r: "r = StartCode4 @ drop 4 r" using assms(4) by (metis append_take_drop_id)
    have "take n (drop i (u @ StartCode4 @ drop 4 r)) = take n (drop i (u @ StartCode4))"
      using that assms(2) by (simp add: StartCode4_def take_Cons' min_def)
    then show ?thesis using r by (metis add.commute append.assoc append_eq_conv_conj drop_drop)
  qed
  from this [of 3] this [of 4] assms(1,2) show ?thesis by (simp add: clean_def start_at_def)
qed

lemma ParseNalusN_loop_to_code:
  assumes src: "src = a @ u @ StartCode4 @ r" and "clean u" and "u \<noteq> []" and "i \<le> length u"
    and n: "n \<noteq> 1"
  shows "ParseNalusN_loop src n (length a) (length a + i) nalus =
    ParseNalusN_loop src (if n > 0 then n - 1 else n) (length (a @ u @ StartCode4)) (length (a @ u @ StartCode4)) (nalus @ [u])"
  using assms(4)
proof (induction "length u - i" arbitrary: i)
  case 0
  then have i: "i = length u" by simp
  have "startCodeAt src (length a + i) = Ok 4"
    using startCodeAt_four [of "a @ u" r] by (simp add: src i)
  moreover have "take (length a + i - length a) (drop (length a) src) = u" by (simp add: src i)
  moreover have "length (a @ u @ StartCode4) = length a + i + 4" by (simp add: i StartCode4_def)
  ultimately show ?case
    using \<open>u \<noteq> []\<close> by (subst ParseNalusN_loop.simps) (simp add: i add.assoc n)
next
  case (Suc k)
  then have i: "i < length u" by simp
  have "\<not> start_at src (length a + i)"
    unfolding src using assms(2) i by (intro clean_start) (simp_all add: StartCode4_def)
  then have "startCodeAt src (length a + i) = Ok 0"
    using i by (intro startCodeAt_none) (simp_all add: src StartCode4_def)
  moreover have "\<not> length a + i + 1 + 4 > length src" using i by (simp add: src StartCode4_def)
  ultimately have "ParseNalusN_loop src n (length a) (length a + i) nalus =
      ParseNalusN_loop src n (length a) (length a + Suc i) nalus"
    using n by (subst ParseNalusN_loop.simps) simp
  also have "\<dots> = ParseNalusN_loop src (if n > 0 then n - 1 else n) (length (a @ u @ StartCode4)) (length (a @ u @ StartCode4)) (nalus @ [u])"
    using Suc by (intro Suc.hyps(1)) simp_all
  finally show ?case .
qed

lemma ParseNalusN_loop_last:
  assumes src: "src = a @ u" and "clean u" and "i + 4 \<le> length u"
  shows "ParseNalusN_loop src (-1) (length a) (length a + i) nalus =
    Ok (length a, length a + length u - 3, nalus)"
  using assms(3)
proof (induction "length u - 4 - i" arbitrary: i)
  case 0
  have "\<not> start_at src (length a + i)"
    unfolding src using clean_start [of u i "[]" a] assms(2) 0 by simp
  then have "startCodeAt src (length a + i) = Ok 0"
    using 0 by (intro startCodeAt_none) (simp_all add: src)
  moreover have "length a + i + 1 + 4 > length src" using 0 by (simp add: src)
  ultimately have "ParseNalusN_loop src (-1) (length a) (length a + i) nalus =
      Ok (length a, length a + i + 1, nalus)"
    by (subst ParseNalusN_loop.simps) simp
  moreover have "length a + i + 1 = length a + length u - 3" using 0 by simp
  ultimately show ?case by simp
next
  case (Suc k)
  have "\<not> start_at src (length a + i)"
    unfolding src using clean_start [of u i "[]" a] assms(2) Suc.prems by simp
  then have "startCodeAt src (length a + i) = Ok 0"
    using Suc.prems by (intro startCodeAt_none) (simp_all add: src)
  moreover have "\<not> length a + i + 1 + 4 > length src" using Suc by (simp add: src)
  ultimately have "ParseNalusN_loop src (-1) (length a) (length a + i) nalus =
      ParseNalusN_loop src (-1) (length a) (length a + Suc i) nalus"
    by (subst ParseNalusN_loop.simps) simp
  also have "\<dots> = Ok (length a, length a + length u - 3, nalus)"
    using Suc by (intro Suc.hyps(1)) simp_all
  finally show ?case .
qed

lemma ParseNalusN_loop_units:
  assumes "src = a @ u @ annexb us" and "\<forall>v\<in>set (u # us). clean v \<and> v \<noteq> []"
    and "4 \<le> length (last (u # us))"
  shows "\<exists>pre idx nl. ParseNalusN_loop src (-1) (length a) (length a) nalus = Ok (pre, idx, nl) \<and>
    pre < idx \<and> pre < length src \<and> nl @ [drop pre src] = nalus @ u # us"
  using assms
proof (induction us arbitrary: a u nalus)
  case Nil
  then have "ParseNalusN_loop src (-1) (length a) (length a) nalus =
      Ok (length a, length a + length u - 3, nalus)"
    using ParseNalusN_loop_last [of src a u 0 nalus] by simp
  with Nil show ?case by auto
next
  case (Cons v us)
  have "ParseNalusN_loop src (-1) (length a) (length a) nalus =
      ParseNalusN_loop src (-1) (length (a @ u @ StartCode4)) (length (a @ u @ StartCode4)) (nalus @ [u])"
    using ParseNalusN_loop_to_code [of src a u "v @ annexb us" 0 "-1" nalus] Cons.prems by simp
  moreover have "\<exists>pre idx nl. ParseNalusN_loop src (-1) (length (a @ u @ StartCode4)) (length (a @ u @ StartCode4))
      (nalus @ [u]) = Ok (pre, idx, nl) \<and> pre < idx \<and> pre < length src \<and>
      nl @ [drop pre src] = (nalus @ [u]) @ v # us"
    using Cons.prems by (intro Cons.IH) (simp_all split: if_splits)
  ultimately show ?case by simp
qed

lemma ParseNalus_units:
  assumes "us \<noteq> []" and "\<forall>u\<in>set us. clean u \<and> u \<noteq> []" and "4 \<le> length (last us)"
  shows "ParseNalus (annexb us) = Ok us"
proof -
  obtain u vs where us: "us = u # vs" using assms(1) by (cases us) auto
  let ?src = "annexb us"
  have sc: "?src = StartCode4 @ u @ annexb vs" by (simp add: us)
  have "startCodeAt ?src 0 = Ok 4" using startCodeAt_four [of "[]"] by (simp add: sc)
  then have first: "ParseNalusN_loop ?src (-1) 0 0 [] = ParseNalusN_loop ?src (-1) 4 4 []"
    by (subst ParseNalusN_loop.simps) simp
  have l4: "length StartCode4 = 4" by (simp add: StartCode4_def)
  obtain pre idx nl where "ParseNalusN_loop ?src (-1) 4 4 [] = Ok (pre, idx, nl)" "pre < idx"
    "pre < length ?src" "nl @ [drop pre ?src] = us"
    using ParseNalusN_loop_units [of ?src StartCode4 u vs "[]"] assms us sc l4 by auto
  then show ?thesis
    using first sc l4 by (auto simp: ParseNalus_def ParseNalusN_def)
qed

lemma getAnnexb_units:
  assumes "\<forall>u\<in>set ps. is_param u" and "\<forall>u\<in>set us. is_frame u" and "ps @ us \<noteq> []"
  shows "getAnnexbH264 buf_write (avcc (ps @ us)) parser w =
    (Ok (), parser\<lparr>ppsBuf := annexb ps\<rparr>,
     w @ naluAud @ annexb (takeWhile (\<lambda>u. \<not> is_idr u) us) @
     (if \<exists>u\<in>set us. is_idr u then (if ps = [] then specificInfo parser else annexb ps) else []) @
     annexb (dropWhile (\<lambda>u. \<not> is_idr u) us))"
proof -
  have "4 \<le> length (avcc (ps @ us))"
    using assms(3) by (cases "ps @ us") simp_all
  then have "getAnnexbH264 buf_write (avcc (ps @ us)) parser w =
      annexb_loop buf_write (avcc ps @ avcc us) False False (parser\<lparr>ppsBuf := []\<rparr>) (w @ naluAud)"
    by (simp add: getAnnexbH264_def buf_write_def avcc_append)
  also have "\<dots> = annexb_loop buf_write (avcc us) (ps \<noteq> []) False (parser\<lparr>ppsBuf := annexb ps\<rparr>) (w @ naluAud)"
    using annexb_loop_params [OF assms(1), of buf_write "avcc us" False False "parser\<lparr>ppsBuf := []\<rparr>"] by simp
  finally show ?thesis using annexb_loop_until_idr [OF assms(2), of "ps \<noteq> []"] by simp
qed

section \<open>Properties\<close>

text \<open>
  C37: Splitting at start codes is the inverse of putting them in front: a stream of non-empty units
  in which no start code begins, the last one at least four bytes long, is split into exactly
  these units.
\<close>

theorem ParseNalus_roundtrip:
  assumes "us \<noteq> []" and "\<forall>u\<in>set us. clean u \<and> u \<noteq> []" and "4 \<le> length (last us)"
  shows "ParseNalus (annexb us) = Ok us"
  using assms by (rule ParseNalus_units)

theorem ParseNalus_roundtrip_witness:
  "ParseNalus (annexb [[0x67, 1], [0x68, 2, 3], [0x65, 0, 0, 3, 7]]) = Ok [[0x67, 1], [0x68, 2, 3], [0x65, 0, 0, 3, 7]]"
proof (rule ParseNalus_roundtrip)
  show "\<forall>u\<in>set [[0x67, 1], [0x68, 2, 3], [0x65, 0, 0, 3, 7]]. clean u \<and> u \<noteq> []" by code_simp
qed simp_all

text \<open>
  A start code close to the end makes the splitter slice out of range: it panics on a buffer that
  ends in a unit of fewer than four bytes (here, right after the start code).
\<close>

theorem ParseNalus_short_tail_panics:
  "ParseNalus [0, 0, 0, 1] = Panic \<and> ParseNalus [0, 0, 0, 1, 0x65, 1, 2] = Panic"
  by code_simp

text \<open>
  C38: \<open>getAnnexbH264\<close> turns length-prefixed units into Annex B: after an access unit delimiter, every
  slice, IDR slice and SEI gets a start code, and the parameter sets (those of the stream itself
  if it brought any, otherwise the stored ones) are put in once, before the first IDR slice.
\<close>

theorem annexb_conversion:
  assumes "\<forall>u\<in>set ps. is_param u" and "\<forall>u\<in>set us. is_frame u" and "ps @ us \<noteq> []"
  shows "getAnnexbH264 buf_write (avcc (ps @ us)) parser w =
    (Ok (), parser\<lparr>ppsBuf := annexb ps\<rparr>,
     w @ naluAud @ annexb (takeWhile (\<lambda>u. \<not> is_idr u) us) @
     (if \<exists>u\<in>set us. is_idr u then (if ps = [] then specificInfo parser else annexb ps) else []) @
     annexb (dropWhile (\<lambda>u. \<not> is_idr u) us))"
  using assms by (rule getAnnexb_units)

theorem annexb_conversion_witness:
  "getAnnexbH264 buf_write (avcc [[0x65, 1], [0x41, 2]]) (NewH264Parser\<lparr>specificInfo := [9, 9]\<rparr>) [] =
    (Ok (), NewH264Parser\<lparr>specificInfo := [9, 9], ppsBuf := []\<rparr>,
     naluAud @ [9, 9] @ [0, 0, 0, 1, 0x65, 1] @ [0, 0, 0, 1, 0x41, 2])"
  using annexb_conversion [of "[]" "[[0x65, 1], [0x41, 2]]" "NewH264Parser\<lparr>specificInfo := [9, 9]\<rparr>" "[]"]
  by (simp add: is_frame_def is_idr_def nal_type_def StartCode4_def)

text \<open>
  The decoder configuration record of a sequence and a picture parameter set, parsed by
  \<open>parseSpecificInfo\<close>, adds exactly the two sets, each behind a start code.
\<close>

theorem config_record_parsed:
  assumes "sps \<noteq> StartCode4" and "pps \<noteq> StartCode4" and "sps \<noteq> []" and "pps \<noteq> []"
    and "length sps < 65536" and "length pps < 65536"
  shows "h264_Parse write (AVCDecoderConfigurationRecord sps pps) True parser w =
    (Ok (), parser\<lparr>specificInfo := specificInfo parser @ annexb [sps, pps]\<rparr>, w)"
  using parseSpecificInfo_record [OF assms, of parser] by (simp add: h264_Parse_def)

theorem config_record_parsed_witness:
  "h264_Parse buf_write (AVCDecoderConfigurationRecord [0x67, 66] [0x68, 1]) True NewH264Parser [] =
    (Ok (), NewH264Parser\<lparr>specificInfo := annexb [[0x67, 66], [0x68, 1]]\<rparr>, [])"
  using config_record_parsed [of "[0x67, 66]" "[0x68, 1]" buf_write NewH264Parser "[]"]
  by (simp add: StartCode4_def NewH264Parser_def)

text \<open>
  A parameter set that still carries its start code keeps it in the configuration record: the
  code compares the whole set with the start code instead of its first four bytes.
\<close>

theorem config_record_keeps_start_code:
  assumes "sps \<noteq> []" and "pps \<noteq> []"
  shows "AVCDecoderConfigurationRecord (StartCode4 @ sps) (StartCode4 @ pps) =
    [1, 66, 0, 40, 0xff, 0xe1] @ be_bytes 2 (of_nat (4 + length sps) :: u16) @ StartCode4 @ sps @
    [1] @ be_bytes 2 (of_nat (4 + length pps) :: u16) @ StartCode4 @ pps"
proof -
  have "length StartCode4 = 4" by (simp add: StartCode4_def)
  with record_shape [of "StartCode4 @ sps" "StartCode4 @ pps"] assms show ?thesis by simp
qed

theorem config_record_keeps_start_code_witness:
  "take 4 (drop 8 (AVCDecoderConfigurationRecord (StartCode4 @ [0x67]) (StartCode4 @ [0x68]))) = StartCode4"
  using config_record_keeps_start_code [of "[0x67]" "[0x68]"] by (simp add: StartCode4_def)

end
