(* ===== verification/Media.thy ===== *)
theory Media
  imports H264
begin

text \<open>
  The audio parsers of \<open>media/aac/parser.go\<close> and \<open>media/mp3/parser.go\<close> and the dispatch of
  \<open>media/coder_parser.go\<close>. The lemmas show that the AAC configuration and the ADTS header
  decode to what was encoded.
\<close>

section \<open>AAC (media/aac/parser.go)\<close>

record mpegCfgInfo =
  objectType :: u8
  sampleRate :: u8
  channel :: u8

text \<open>
  The fields \<open>sbr\<close>, \<open>ps\<close>, \<open>frameLen\<close>, \<open>exceptionLogTs\<close> and \<open>extension\<close> of the source are
  never read or written.
\<close>

record AacParser =
  gettedSpecific :: bool
  adtsHeader :: bytes
  cfgInfo :: mpegCfgInfo

definition aacRates :: "nat list" where
  "aacRates = [96000, 88200, 64000, 48000, 44100, 32000, 24000, 22050, 16000, 12000, 11025, 8000, 7350]"

definition NewAacParser :: AacParser where
  "NewAacParser = \<lparr>gettedSpecific = False, adtsHeader = replicate 7 0,
     cfgInfo = \<lparr>objectType = 0, sampleRate = 0, channel = 0\<rparr>\<rparr>"

definition aac_specificInfo :: "bytes \<Rightarrow> AacParser \<Rightarrow> unit res \<times> AacParser" where
  "aac_specificInfo src parser =
     (if length src < 2 then (Err (Errorf ''audio mpegspecific error''), parser)
      else (Ok (), parser\<lparr>gettedSpecific := True, cfgInfo := \<lparr>
          objectType = drop_bit 3 (src ! 0) AND 0xff,
          sampleRate = push_bit 1 (src ! 0 AND 0x07) OR drop_bit 7 (src ! 1),
          channel = drop_bit 3 (src ! 1) AND 0x0f\<rparr>\<rparr>))"

definition adts_bytes :: "mpegCfgInfo \<Rightarrow> u16 \<Rightarrow> bytes" where
  "adts_bytes cfg frameLen =
     [0xff, 0xf1,
      push_bit 6 (objectType cfg - 1) OR push_bit 2 (sampleRate cfg),
      push_bit 4 (push_bit 2 (channel cfg)) OR ucast (drop_bit 14 (push_bit 3 frameLen)),
      ucast (drop_bit 8 (push_bit 5 frameLen)),
      ucast (push_bit 5 (drop_bit 13 (push_bit 13 frameLen))) OR drop_bit 3 (push_bit 1 0x7C),
      0xfc]"

definition adts :: "'w writer \<Rightarrow> bytes \<Rightarrow> AacParser \<Rightarrow> 'w \<Rightarrow> unit res \<times> AacParser \<times> 'w" where
  "adts write src parser w =
     (if length src = 0 \<or> \<not> gettedSpecific parser then (Err (Errorf ''audiodata  invalid''), parser, w)
      else
        let parser' = parser\<lparr>adtsHeader := adts_bytes (cfgInfo parser) (of_nat (length src) + 7)\<rparr> in
        case pseq (write (adtsHeader parser')) (write src) w of (r, w') \<Rightarrow> (r, parser', w'))"

definition aac_SampleRate :: "AacParser \<Rightarrow> nat" where
  "aac_SampleRate parser =
     (if sampleRate (cfgInfo parser) \<le> of_nat (length aacRates - 1)
      then aacRates ! unat (sampleRate (cfgInfo parser)) else 44100)"

definition aac_Parse :: "'w writer \<Rightarrow> bytes \<Rightarrow> u8 \<Rightarrow> AacParser \<Rightarrow> 'w \<Rightarrow> unit res \<times> AacParser \<times> 'w" where
  "aac_Parse write b packetType parser w =
     (if packetType = AAC_SEQHDR then (case aac_specificInfo b parser of (r, parser') \<Rightarrow> (r, parser', w))
      else if packetType = AAC_RAW then adts write b parser w
      else (Ok (), parser, w))"

definition SpecificConfig :: "u8 \<Rightarrow> u8 \<Rightarrow> u8 \<Rightarrow> bytes" where
  "SpecificConfig objType samplingFrequencyIndex channelConfig =
     [0 OR push_bit 3 objType OR drop_bit 1 samplingFrequencyIndex,
      0 OR push_bit 7 samplingFrequencyIndex OR push_bit 3 channelConfig]"

section \<open>MP3 (media/mp3/parser.go)\<close>

record Mp3Parser =
  samplingFrequency :: nat

definition mp3Rates :: "nat list" where
  "mp3Rates = [44100, 48000, 32000]"

definition NewMp3Parser :: Mp3Parser where
  "NewMp3Parser = \<lparr>samplingFrequency = 0\<rparr>"

definition mp3_Parse :: "bytes \<Rightarrow> Mp3Parser \<Rightarrow> unit res \<times> Mp3Parser" where
  "mp3_Parse src parser =
     (if length src < 3 then (Err (Errorf ''mp3data  invalid''), parser)
      else
        let i = drop_bit 2 (src ! 2) AND 0x3 in
        if i \<le> of_nat (length mp3Rates - 1)
        then (Ok (), parser\<lparr>samplingFrequency := mp3Rates ! unat i\<rparr>)
        else (Err (Errorf ''invalid rate index''), parser))"

definition mp3_SampleRate :: "Mp3Parser \<Rightarrow> nat \<times> Mp3Parser" where
  "mp3_SampleRate parser =
     (let parser' = (if samplingFrequency parser = 0 then parser\<lparr>samplingFrequency := 44100\<rparr> else parser)
      in (samplingFrequency parser', parser'))"

section \<open>Dispatch (media/coder_parser.go)\<close>

text \<open>The parsers are made on first use: \<open>None\<close> is the nil pointer.\<close>

record CodecParser =
  cp_aac :: "AacParser option"
  cp_mp3 :: "Mp3Parser option"
  cp_h264 :: "H264Parser option"

definition NewCodecParser :: CodecParser where
  "NewCodecParser = \<lparr>cp_aac = None, cp_mp3 = None, cp_h264 = None\<rparr>"

definition cp_SampleRate :: "CodecParser \<Rightarrow> nat res \<times> CodecParser" where
  "cp_SampleRate cp = (case cp_aac cp of
      Some a \<Rightarrow> (Ok (aac_SampleRate a), cp)
    | None \<Rightarrow> (case cp_mp3 cp of
        Some m \<Rightarrow> (case mp3_SampleRate m of (r, m') \<Rightarrow> (Ok r, cp\<lparr>cp_mp3 := Some m'\<rparr>))
      | None \<Rightarrow> (Err (Errorf ''demuxer no audio''), cp)))"

definition cp_Parse :: "'w writer \<Rightarrow> Packet \<Rightarrow> CodecParser \<Rightarrow> 'w \<Rightarrow> unit res \<times> CodecParser \<times> 'w" where
  "cp_Parse write p cp w =
     (if PacketType p = PacketTypeVideo then
        (if CodecID (VHeader p) = VIDEO_H264 then
           (let parser = (case cp_h264 cp of Some h \<Rightarrow> h | None \<Rightarrow> NewH264Parser);
                isSeq = (FrameType (VHeader p) = FRAME_KEY \<and> AVCPacketType (VHeader p) = AVC_SEQHDR) in
            case h264_Parse write (PData p) isSeq parser w of
              (r, parser', w') \<Rightarrow> (r, cp\<lparr>cp_h264 := Some parser'\<rparr>, w'))
         else (Ok (), cp, w))
      else if PacketType p = PacketTypeAudio then
        (if SoundFormat (AHeader p) = SOUND_AAC then
           (let parser = (case cp_aac cp of Some a \<Rightarrow> a | None \<Rightarrow> NewAacParser) in
            case aac_Parse write (PData p) (AACPacketType (AHeader p)) parser w of
              (r, parser', w') \<Rightarrow> (r, cp\<lparr>cp_aac := Some parser'\<rparr>, w'))
         else if SoundFormat (AHeader p) = SOUND_MP3 then
           (let parser = (case cp_mp3 cp of Some m \<Rightarrow> m | None \<Rightarrow> NewMp3Parser) in
            case mp3_Parse (PData p) parser of
              (r, parser') \<Rightarrow> (r, cp\<lparr>cp_mp3 := Some parser'\<rparr>, w))
         else (Ok (), cp, w))
      else (Err (Errorf ''Unknow packet type''), cp, w))"

section \<open>Decoding what was encoded\<close>

lemma specific_config_fields:
  assumes "take_bit 5 ot = ot" and "take_bit 4 sr = sr" and "take_bit 4 ch = ch"
  shows "drop_bit 3 (SpecificConfig ot sr ch ! 0) AND 0xff = ot"
    and "push_bit 1 (SpecificConfig ot sr ch ! 0 AND 0x07) OR drop_bit 7 (SpecificConfig ot sr ch ! 1) = sr"
    and "drop_bit 3 (SpecificConfig ot sr ch ! 1) AND 0x0f = ch"
proof -
  have ot: "bit ot n \<Longrightarrow> n < 5" and sr: "bit sr n \<Longrightarrow> n < 4" and ch: "bit ch n \<Longrightarrow> n < 4" for n
    using assms by (metis bit_take_bit_iff)+
  have m: "(0x07 :: u8) = mask 3" "(0x0f :: u8) = mask 4" "(0xff :: u8) = mask 8"
    by (simp_all add: mask_eq_exp_minus_1)
  show "drop_bit 3 (SpecificConfig ot sr ch ! 0) AND 0xff = ot"
    unfolding m SpecificConfig_def by (rule bit_word_eqI) (auto simp: bit_simps dest: ot sr ch)
  show "push_bit 1 (SpecificConfig ot sr ch ! 0 AND 0x07) OR drop_bit 7 (SpecificConfig ot sr ch ! 1) = sr"
  proof (rule bit_word_eqI)
    fix n
    assume "n < LENGTH(8)"
    have nth: "SpecificConfig ot sr ch ! 0 = push_bit 3 ot OR drop_bit 1 sr"
      "SpecificConfig ot sr ch ! 1 = push_bit 7 sr OR push_bit 3 ch"
      by (simp_all add: SpecificConfig_def)
    show "bit (push_bit 1 (SpecificConfig ot sr ch ! 0 AND 0x07) OR drop_bit 7 (SpecificConfig ot sr ch ! 1)) n =
        bit sr n"
      unfolding nth m bit_or_iff bit_push_bit_iff bit_and_iff bit_mask_iff bit_drop_bit_eq o_apply
      using \<open>n < LENGTH(8)\<close> by (auto dest: ot sr ch)
  qed
  show "drop_bit 3 (SpecificConfig ot sr ch ! 1) AND 0x0f = ch"
    unfolding m SpecificConfig_def by (rule bit_word_eqI) (auto simp: bit_simps dest: ot sr ch)
qed

text \<open>The fields a decoder reads from an ADTS header.\<close>

definition adts_frame_length :: "bytes \<Rightarrow> u16" where
  "adts_frame_length h = push_bit 11 (ucast (h ! 3 AND 0x03)) OR push_bit 3 (ucast (h ! 4)) OR
     drop_bit 5 (ucast (h ! 5))"

definition adts_profile :: "bytes \<Rightarrow> u8" where
  "adts_profile h = drop_bit 6 (h ! 2)"

definition adts_rate :: "bytes \<Rightarrow> u8" where
  "adts_rate h = drop_bit 2 (h ! 2) AND 0x0f"

definition adts_channel :: "bytes \<Rightarrow> u8" where
  "adts_channel h = push_bit 2 (h ! 2 AND 0x01) OR drop_bit 6 (h ! 3)"

lemma adts_length_decodes:
  assumes "take_bit 13 n = n"
  shows "adts_frame_length (adts_bytes cfg n) = n"
proof (rule bit_word_eqI)
  fix k
  assume k: "k < LENGTH(16)"
  have b: "bit n j \<Longrightarrow> j < 13" for j using assms by (metis bit_take_bit_iff)
  have m: "(0x03 :: u8) = mask 2" "drop_bit 3 (push_bit 1 0x7C) = (mask 5 :: u8)"
    by (simp_all add: mask_eq_exp_minus_1)
  have nth: "adts_bytes cfg n ! 3 = push_bit 4 (push_bit 2 (channel cfg)) OR ucast (drop_bit 14 (push_bit 3 n))"
    "adts_bytes cfg n ! 4 = ucast (drop_bit 8 (push_bit 5 n))"
    "adts_bytes cfg n ! 5 = ucast (push_bit 5 (drop_bit 13 (push_bit 13 n))) OR drop_bit 3 (push_bit 1 0x7C)"
    by (simp_all add: adts_bytes_def)
  show "bit (adts_frame_length (adts_bytes cfg n)) k = bit n k"
    unfolding adts_frame_length_def nth m
      bit_or_iff bit_push_bit_iff bit_and_iff bit_mask_iff bit_drop_bit_eq o_apply bit_ucast_iff
    using k by (cases "k < 3"; cases "k < 11") (auto dest: b simp: bit_simps)
qed

lemma adts_config_decodes:
  assumes "take_bit 2 (objectType cfg - 1) = objectType cfg - 1" and "take_bit 4 (sampleRate cfg) = sampleRate cfg"
    and "take_bit 2 (channel cfg) = channel cfg" and "take_bit 13 n = n"
  shows "adts_profile (adts_bytes cfg n) = objectType cfg - 1"
    and "adts_rate (adts_bytes cfg n) = sampleRate cfg"
    and "adts_channel (adts_bytes cfg n) = channel cfg"
proof -
  define ot where "ot = objectType cfg - 1"
  have bot: "bit ot k \<Longrightarrow> k < 2" and br: "bit (sampleRate cfg) k \<Longrightarrow> k < 4" and bc: "bit (channel cfg) k \<Longrightarrow> k < 2"
    and bn: "bit n k \<Longrightarrow> k < 13" for k
    using assms unfolding ot_def by (metis bit_take_bit_iff)+
  have m: "(0x0f :: u8) = mask 4" "(0x01 :: u8) = mask 1" by (simp_all add: mask_eq_exp_minus_1)
  have nth: "adts_bytes cfg n ! 2 = push_bit 6 ot OR push_bit 2 (sampleRate cfg)"
    "adts_bytes cfg n ! 3 = push_bit 4 (push_bit 2 (channel cfg)) OR ucast (drop_bit 14 (push_bit 3 n))"
    by (simp_all add: adts_bytes_def ot_def)
  note bits = bit_or_iff bit_push_bit_iff bit_and_iff bit_mask_iff bit_drop_bit_eq o_apply bit_ucast_iff
  show "adts_profile (adts_bytes cfg n) = objectType cfg - 1"
    unfolding adts_profile_def nth ot_def [symmetric]
    by (rule bit_word_eqI) (auto simp: bit_simps dest: bot br bc bn)
  show "adts_rate (adts_bytes cfg n) = sampleRate cfg"
    unfolding adts_rate_def nth m by (rule bit_word_eqI) (auto simp: bit_simps dest: bot br bc bn)
  show "adts_channel (adts_bytes cfg n) = channel cfg"
  proof (rule bit_word_eqI)
    fix k
    assume "k < LENGTH(8)"
    then show "bit (adts_channel (adts_bytes cfg n)) k = bit (channel cfg) k"
      unfolding adts_channel_def nth m bits by (auto dest: bot br bc bn simp: bit_simps)
  qed
qed

section \<open>Properties\<close>

text \<open>
  An AAC frame is written behind a seven byte ADTS header whose fields decode to the stream's
  configuration and to the frame length, header included. The frame is shorter than 8185 bytes
  and has at most three channels.
\<close>

theorem adts_header_decodes:
  assumes "src \<noteq> []" and "length src + 7 < 8192" and "gettedSpecific parser"
    and "take_bit 2 (objectType (cfgInfo parser) - 1) = objectType (cfgInfo parser) - 1"
    and "take_bit 4 (sampleRate (cfgInfo parser)) = sampleRate (cfgInfo parser)"
    and "take_bit 2 (channel (cfgInfo parser)) = channel (cfgInfo parser)"
  shows "\<exists>h. adts buf_write src parser w = (Ok (), parser\<lparr>adtsHeader := h\<rparr>, w @ h @ src) \<and> length h = 7 \<and>
    take 2 h = [0xff, 0xf1] \<and> adts_frame_length h = of_nat (length src + 7) \<and>
    adts_profile h = objectType (cfgInfo parser) - 1 \<and> adts_rate h = sampleRate (cfgInfo parser) \<and>
    adts_channel h = channel (cfgInfo parser)"
proof -
  let ?n = "of_nat (length src) + 7 :: u16"
  have n: "?n = of_nat (length src + 7)" by simp
  have "unat ?n < 2 ^ 13" unfolding n using assms(2) by (simp add: unsigned_of_nat take_bit_nat_eq_self del: of_nat_add)
  then have t: "take_bit 13 ?n = ?n" by (rule take_bit_fits)
  have "adts buf_write src parser w =
      (Ok (), parser\<lparr>adtsHeader := adts_bytes (cfgInfo parser) ?n\<rparr>, w @ adts_bytes (cfgInfo parser) ?n @ src)"
    using assms(1,3) by (simp add: adts_def buf_write_def pseq_def pbind_def Let_def)
  moreover have "length (adts_bytes (cfgInfo parser) ?n) = 7 \<and> take 2 (adts_bytes (cfgInfo parser) ?n) = [0xff, 0xf1]"
    by (simp add: adts_bytes_def)
  moreover have "adts_frame_length (adts_bytes (cfgInfo parser) ?n) = of_nat (length src + 7)"
    using adts_length_decodes [OF t] n by (rule trans)
  ultimately show ?thesis
    using adts_config_decodes [OF assms(4-6) t] by blast
qed

theorem adts_header_decodes_witness:
  "let parser = NewAacParser\<lparr>gettedSpecific := True, cfgInfo := \<lparr>objectType = 2, sampleRate = 4, channel = 2\<rparr>\<rparr> in
   \<exists>h. adts buf_write [1, 2, 3] parser [] = (Ok (), parser\<lparr>adtsHeader := h\<rparr>, h @ [1, 2, 3]) \<and>
     adts_frame_length h = 10 \<and> adts_channel h = 2"
proof -
  let ?p = "NewAacParser\<lparr>gettedSpecific := True, cfgInfo := \<lparr>objectType = 2, sampleRate = 4, channel = 2\<rparr>\<rparr>"
  have "\<exists>h. adts buf_write [1, 2, 3] ?p [] = (Ok (), ?p\<lparr>adtsHeader := h\<rparr>, [] @ h @ [1, 2, 3]) \<and> length h = 7 \<and>
      take 2 h = [0xff, 0xf1] \<and> adts_frame_length h = of_nat (length [1, 2, 3 :: u8] + 7) \<and>
      adts_profile h = objectType (cfgInfo ?p) - 1 \<and> adts_rate h = sampleRate (cfgInfo ?p) \<and>
      adts_channel h = channel (cfgInfo ?p)"
    by (rule adts_header_decodes) simp_all
  then show ?thesis unfolding Let_def by simp blast
qed

text \<open>
  The third bit of the channel configuration is dropped: a 5.1 stream (configuration 6) gets
  an ADTS header that says two channels.
\<close>

theorem adts_drops_channel_bit:
  "adts_channel (adts_bytes \<lparr>objectType = 2, sampleRate = 4, channel = 6\<rparr> 100) = 2"
  by code_simp

text \<open>
  The audio configuration made by \<open>SpecificConfig\<close> is what \<open>specificInfo\<close> reads back.
\<close>

theorem specific_config_roundtrip:
  assumes "take_bit 5 ot = ot" and "take_bit 4 sr = sr" and "take_bit 4 ch = ch"
  shows "aac_Parse write (SpecificConfig ot sr ch) 0 parser w =
    (Ok (), parser\<lparr>gettedSpecific := True, cfgInfo := \<lparr>objectType = ot, sampleRate = sr, channel = ch\<rparr>\<rparr>, w)"
proof -
  have "\<not> length (SpecificConfig ot sr ch) < 2" by (simp add: SpecificConfig_def)
  then show ?thesis
    using specific_config_fields [OF assms] unfolding aac_Parse_def aac_specificInfo_def by simp
qed

theorem specific_config_roundtrip_witness:
  "aac_Parse buf_write (SpecificConfig 2 4 2) 0 NewAacParser [] =
    (Ok (), NewAacParser\<lparr>gettedSpecific := True, cfgInfo := \<lparr>objectType = 2, sampleRate = 4, channel = 2\<rparr>\<rparr>, [])"
  by (rule specific_config_roundtrip) simp_all

end
