(* ===== verification/FlvTag.thy ===== *)
theory FlvTag
  imports Media
begin

text \<open>
  FLV tags of \<open>container/flv/tag.go\<close> and the demuxer of \<open>container/flv/demuxer.go\<close>: the tag
  headers in front of audio and video data, the sequence headers, and packing of NAL units. The
  lemmas show that what is packed is parsed back.
\<close>

section \<open>Data\<close>

record flvTag =
  fType :: u8
  dataSize :: u32
  timeStamp :: u32
  timeStampExtend :: u8
  tagStreamID :: u32

record mediaTag =
  m_soundFormat :: u8
  m_soundRate :: u8
  m_soundSize :: u8
  m_soundType :: u8
  m_aacPacketType :: u8
  m_frameType :: u8
  m_codecID :: u8
  m_avcPacketType :: u8
  m_compositionTime :: u32 \<comment> \<open>int32, two's complement\<close>

record Tag =
  flvt :: flvTag
  mediat :: mediaTag

definition zeroFlvTag :: flvTag where
  "zeroFlvTag = \<lparr>fType = 0, dataSize = 0, timeStamp = 0, timeStampExtend = 0, tagStreamID = 0\<rparr>"

definition zeroMediaTag :: mediaTag where
  "zeroMediaTag = \<lparr>m_soundFormat = 0, m_soundRate = 0, m_soundSize = 0, m_soundType = 0,
     m_aacPacketType = 0, m_frameType = 0, m_codecID = 0, m_avcPacketType = 0, m_compositionTime = 0\<rparr>"

definition zeroTag :: Tag where
  "zeroTag = \<lparr>flvt = zeroFlvTag, mediat = zeroMediaTag\<rparr>"

section \<open>Parsing headers\<close>

text \<open>The results are the number of bytes consumed and the tag with its new fields.\<close>

definition ParseAudioHeader :: "bytes \<Rightarrow> Tag \<Rightarrow> nat res \<times> Tag" where
  "ParseAudioHeader b tag =
     (if length b < 1 then (Err (Errorf ''invalid audiodata len''), tag)
      else
        let flags = b ! 0;
            m = (mediat tag)\<lparr>m_soundFormat := drop_bit 4 flags, m_soundRate := drop_bit 2 flags AND 0x3,
              m_soundSize := drop_bit 1 flags AND 0x1, m_soundType := flags AND 0x1\<rparr> in
        if m_soundFormat m = SOUND_AAC then
          (case index b 1 of
            Ok pt \<Rightarrow> (Ok 2, tag\<lparr>mediat := m\<lparr>m_aacPacketType := pt\<rparr>\<rparr>)
          | Err e \<Rightarrow> (Err e, tag\<lparr>mediat := m\<rparr>)
          | Panic \<Rightarrow> (Panic, tag\<lparr>mediat := m\<rparr>))
        else (Ok 1, tag\<lparr>mediat := m\<rparr>))"

definition ParseVideoHeader :: "bytes \<Rightarrow> Tag \<Rightarrow> nat res \<times> Tag" where
  "ParseVideoHeader b tag =
     (if length b < 5 then (Err (Errorf ''invalid videodata len''), tag)
      else
        let flags = b ! 0;
            m = (mediat tag)\<lparr>m_frameType := drop_bit 4 flags, m_codecID := flags AND 0xf\<rparr> in
        if m_codecID m = VIDEO_H264 then
          (Ok 5, tag\<lparr>mediat := m\<lparr>m_avcPacketType := b ! 1,
             m_compositionTime := foldl (\<lambda>ct i. push_bit 8 ct + ucast (b ! i)) (m_compositionTime m) [2..<5]\<rparr>\<rparr>)
        else (Ok 1, tag\<lparr>mediat := m\<rparr>))"

section \<open>Writing headers\<close>

definition muxerTagData :: "Tag \<Rightarrow> bytes" where
  "muxerTagData tag =
     (let m = mediat tag in
      if fType (flvt tag) = TAG_VIDEO then
        [push_bit 4 (m_frameType m) OR (m_codecID m AND 0x0F)] @
        (if m_codecID m = VIDEO_H264 then m_avcPacketType m # be_bytes 3 (m_compositionTime m) else [])
      else if fType (flvt tag) = TAG_AUDIO then
        [push_bit 4 (m_soundFormat m) OR (push_bit 2 (m_soundRate m) AND 0x0C) OR
           (push_bit 1 (m_soundSize m) AND 0x02) OR (m_soundType m AND 0x01)] @
        (if m_soundFormat m = SOUND_AAC then [m_aacPacketType m] else [])
      else [])"

definition NewAVCSequenceHeader :: "bytes \<Rightarrow> bytes \<Rightarrow> u32 \<Rightarrow> bytes" where
  "NewAVCSequenceHeader sps pps ts =
     (let avcConfigRecord = AVCDecoderConfigurationRecord sps pps;
          tag = \<lparr>flvt = \<lparr>fType = TAG_VIDEO, dataSize = of_nat (length avcConfigRecord), timeStamp = ts,
              timeStampExtend = 0, tagStreamID = 0\<rparr>,
            mediat = zeroMediaTag\<lparr>m_frameType := FRAME_KEY, m_codecID := VIDEO_H264,
              m_avcPacketType := AVC_SEQHDR, m_compositionTime := 0\<rparr>\<rparr>
      in muxerTagData tag @ avcConfigRecord)"

definition samplingFrequenceIndex :: "u8 \<Rightarrow> u8" where
  "samplingFrequenceIndex rate =
     (if rate = SOUND_RATE_5_5Khz \<or> rate = SOUND_RATE_7Khz then 4
      else if rate = SOUND_RATE_8Khz then 11
      else if rate = SOUND_RATE_11Khz then 10
      else if rate = SOUND_RATE_12Khz then 9
      else if rate = SOUND_RATE_16Khz then 8
      else if rate = SOUND_RATE_22Khz then 7
      else if rate = SOUND_RATE_24Khz then 6
      else if rate = SOUND_RATE_32Khz then 5
      else if rate = SOUND_RATE_44Khz then 4
      else if rate = SOUND_RATE_48Khz then 3
      else if rate = SOUND_RATE_64Khz then 2
      else if rate = SOUND_RATE_88Khz then 1
      else if rate = SOUND_RATE_96Khz then 0
      else 4)"

definition channelConfiguration :: "u8 \<Rightarrow> u8" where
  "channelConfiguration soundType =
     (if soundType = SOUND_MONO then 1 else if soundType = SOUND_STEREO then 2 else 2)"

definition audioTag :: "AudioPacketHeader \<Rightarrow> flvTag \<Rightarrow> u8 \<Rightarrow> Tag" where
  "audioTag ah fl packetType = \<lparr>flvt = fl, mediat = zeroMediaTag\<lparr>m_soundFormat := SoundFormat ah,
     m_soundRate := SoundRate ah, m_soundSize := SoundSize ah, m_soundType := SoundType ah,
     m_aacPacketType := packetType\<rparr>\<rparr>"

definition NewAACSequenceHeader :: "AudioPacketHeader \<Rightarrow> bytes" where
  "NewAACSequenceHeader ah =
     (let specificConfig = SpecificConfig 2 (samplingFrequenceIndex (SoundRate ah))
            (channelConfiguration (SoundType ah));
          tag = audioTag ah (zeroFlvTag\<lparr>fType := TAG_AUDIO\<rparr>) AAC_SEQHDR
      in muxerTagData tag @ specificConfig)"

definition PackAudioData :: "AudioPacketHeader \<Rightarrow> u32 \<Rightarrow> bytes \<Rightarrow> u32 \<Rightarrow> bytes res" where
  "PackAudioData ah streamID src ts =
     (if SoundFormat ah \<noteq> SOUND_AAC then Err (Errorf ''code not support'')
      else
        let tag = audioTag ah \<lparr>fType = TAG_AUDIO, dataSize = of_nat (length src), timeStamp = ts,
              timeStampExtend = 0, tagStreamID = streamID\<rparr> AAC_RAW
        in Ok (muxerTagData tag @ src))"

definition NewAACData :: "AudioPacketHeader \<Rightarrow> bytes \<Rightarrow> u32 \<Rightarrow> bytes" where
  "NewAACData ah src ts =
     (let tag = audioTag ah \<lparr>fType = TAG_AUDIO, dataSize = of_nat (length src), timeStamp = ts,
            timeStampExtend = 0, tagStreamID = 0\<rparr> AAC_RAW
      in muxerTagData tag @ src)"

section \<open>Packing video (PackVideoData)\<close>

text \<open>
  The loop that copies the NAL units of a key frame into the buffer: each is preceded by its
  four-byte length. The length is written into \<open>buffer[index:]\<close>, and \<open>copy\<close> stops at the end
  of the buffer.
\<close>

fun packNalus :: "bytes list \<Rightarrow> nat \<Rightarrow> bytes \<Rightarrow> (nat \<times> bytes) res" where
  "packNalus [] idx buffer = Ok (idx, buffer)"
| "packNalus (nalu # nalus) idx buffer =
     (if 0 < length nalu then
        res_bind (slice idx (length buffer) buffer) (\<lambda>tail.
        res_bind (PutU32BE tail (of_nat (length nalu))) (\<lambda>tail'.
        let buffer1 = take idx buffer @ tail';
            buffer2 = put_at (idx + 4) nalu buffer1
        in packNalus nalus (idx + 4 + length nalu) buffer2))
      else packNalus nalus idx buffer)"

definition videoTag :: "VideoPacketHeader \<Rightarrow> u8 \<Rightarrow> u8 \<Rightarrow> bytes \<Rightarrow> u32 \<Rightarrow> Tag" where
  "videoTag header frame packetType src ts =
     \<lparr>flvt = \<lparr>fType = TAG_VIDEO, dataSize = of_nat (length src), timeStamp = ts, timeStampExtend = 0,
        tagStreamID = 0\<rparr>,
      mediat = zeroMediaTag\<lparr>m_frameType := frame, m_codecID := CodecID header,
        m_avcPacketType := packetType, m_compositionTime := 0\<rparr>\<rparr>"

text \<open>Everything that is not a parameter set is packed as one unit behind its length.\<close>

definition packWhole :: "bytes \<Rightarrow> bytes \<Rightarrow> bytes res" where
  "packWhole tagBuffer src =
     (if length src = 0 then Err (Errorf ''invalid data'')
      else Ok (tagBuffer @ be_bytes 4 (of_nat (length src) :: u32) @ src))"

definition PackVideoData :: "VideoPacketHeader \<Rightarrow> u32 \<Rightarrow> bytes \<Rightarrow> u32 \<Rightarrow> bytes res" where
  "PackVideoData header streamID src0 ts =
     (if CodecID header = VIDEO_H264 then
        (let src = (if 4 \<le> length src0 \<and> take 4 src0 = StartCode4 then drop 4 src0 else src0) in
         if length src = 0 then Err (Errorf ''invalid data'')
         else
           let naluType = src ! 0 AND 0x1F;
               frame = (if naluType = 7 \<or> naluType = 8 \<or> naluType = 5 then FRAME_KEY else FRAME_INTER);
               tagBuffer = muxerTagData (videoTag header frame (AVCPacketType header) src ts) in
           if naluType = 7 \<or> naluType = 8 then
             res_bind (ParseNalusN src 3) (\<lambda>nalus.
               let buffer = replicate (length tagBuffer + length src + length nalus * 4) 0;
                   buffer1 = put_at 0 tagBuffer buffer in
               res_bind (packNalus nalus (length tagBuffer) buffer1) (\<lambda>(idx, buffer2).
                 slice 0 idx buffer2))
           else packWhole tagBuffer src)
      else if CodecID header = VIDEO_JPEG \<or> CodecID header = VideoH263 then
        packWhole (muxerTagData (videoTag header FRAME_KEY 0 src0 ts)) src0
      else Err (Errorf ''unsupport code id''))"

section \<open>Parsing the AVC sequence header\<close>

text \<open>
  \<open>bytes.Reader\<close> on what is left of the data: \<open>Read\<close> fails at the end only and otherwise fills
  as much of the buffer as there is data; \<open>Seek\<close> may go past the end.
\<close>

definition br_ReadByte :: "bytes \<Rightarrow> u8 res \<times> bytes" where
  "br_ReadByte r = (case r of [] \<Rightarrow> (Err EOF, r) | b # bs \<Rightarrow> (Ok b, bs))"

definition br_Read :: "nat \<Rightarrow> bytes \<Rightarrow> bytes res \<times> bytes" where
  "br_Read n r = (if r = [] then (Err EOF, r)
     else (Ok (take n r @ replicate (n - length r) 0), drop n r))"

fun readSets :: "nat \<Rightarrow> bytes list \<Rightarrow> bytes \<Rightarrow> bytes list res \<times> bytes" where
  "readSets 0 acc r = (Ok acc, r)"
| "readSets (Suc k) acc r =
     (case br_Read 2 r of
       (Ok lengthBytes, r1) \<Rightarrow>
         (case br_Read (unat (be_word lengthBytes :: u16)) r1 of
           (Ok ps, r2) \<Rightarrow> readSets k (acc @ [ps]) r2
         | (Err e, r2) \<Rightarrow> (Err (Errorf ''read sps failed''), r2)
         | (Panic, r2) \<Rightarrow> (Panic, r2))
     | (Err e, r1) \<Rightarrow> (Err (Errorf ''read sps length failed''), r1)
     | (Panic, r1) \<Rightarrow> (Panic, r1))"

definition br_err :: "string \<Rightarrow> 'a res \<times> bytes \<Rightarrow> 'a res \<times> bytes" where
  "br_err s x = (case x of (Err e, r) \<Rightarrow> (Err (Errorf s), r) | _ \<Rightarrow> x)"

definition ParseAVCSequenceHeader :: "bytes \<Rightarrow> (bytes list \<times> bytes list) res" where
  "ParseAVCSequenceHeader data = fst (
     pbind (\<lambda>r. br_err ''read version failed'' (br_ReadByte r)) (\<lambda>rb.
       if rb \<noteq> 0x01 then (\<lambda>r. (Err (Errorf ''version should be 0x01''), r))
       else
         pbind (\<lambda>r. br_err ''read apa failed'' (br_Read 3 r)) (\<lambda>_.
         pbind (\<lambda>r. (Ok (), drop 1 r)) (\<lambda>_.
         pbind (\<lambda>r. br_err ''read number of sps failed'' (br_ReadByte r)) (\<lambda>nsps.
         pbind (readSets (unat (nsps AND 0x1f)) []) (\<lambda>spss.
         pbind (\<lambda>r. br_err ''read number of sps failed'' (br_ReadByte r)) (\<lambda>npps.
         pbind (readSets (unat npps) []) (\<lambda>ppss.
           preturn (spss, ppss)))))))) data)"

section \<open>Demuxing (demuxer.go)\<close>

definition audioHeaderOf :: "mediaTag \<Rightarrow> AudioPacketHeader" where
  "audioHeaderOf m = \<lparr>SoundFormat = m_soundFormat m, SoundRate = m_soundRate m,
     SoundSize = m_soundSize m, SoundType = m_soundType m, AACPacketType = m_aacPacketType m\<rparr>"

definition videoHeaderOf :: "mediaTag \<Rightarrow> VideoPacketHeader" where
  "videoHeaderOf m = \<lparr>FrameType = m_frameType m, AVCPacketType = m_avcPacketType m,
     CodecID = m_codecID m, CompositionTime = m_compositionTime m\<rparr>"

text \<open>\<open>DemuxH\<close> fills in the header only; \<open>Demux\<close> also cuts it off the data. \<open>strip\<close> tells them apart.\<close>

definition demux_gen :: "bool \<Rightarrow> Packet \<Rightarrow> unit res \<times> Packet" where
  "demux_gen strip p =
     (if PacketType p = PacketTypeAudio then
        (case ParseAudioHeader (PData p) zeroTag of
          (Ok n, tag) \<Rightarrow>
            (let p' = p\<lparr>AHeader := audioHeaderOf (mediat tag)\<rparr>
             in (Ok (), if strip then p'\<lparr>PData := drop n (PData p')\<rparr> else p'))
        | (Err e, _) \<Rightarrow> (Err e, p)
        | (Panic, _) \<Rightarrow> (Panic, p))
      else if PacketType p = PacketTypeVideo then
        (case ParseVideoHeader (PData p) zeroTag of
          (Ok n, tag) \<Rightarrow>
            (let p' = p\<lparr>VHeader := videoHeaderOf (mediat tag)\<rparr>
             in (Ok (), if strip then p'\<lparr>PData := drop n (PData p')\<rparr> else p'))
        | (Err e, _) \<Rightarrow> (Err e, p)
        | (Panic, _) \<Rightarrow> (Panic, p))
      else (Err (Errorf ''Unsupport type''), p))"

definition DemuxH :: "Packet \<Rightarrow> unit res \<times> Packet" where
  "DemuxH p = demux_gen False p"

definition Demux :: "Packet \<Rightarrow> unit res \<times> Packet" where
  "Demux p = demux_gen True p"

section \<open>Packing and splitting key frames\<close>

lemma ParseNalusN_three:
  assumes "clean a" and "clean b" and "a \<noteq> []" and "b \<noteq> []" and "c \<noteq> []"
  shows "ParseNalusN (a @ StartCode4 @ b @ StartCode4 @ c) 3 = Ok [a, b, c]"
proof -
  let ?src = "a @ StartCode4 @ b @ StartCode4 @ c"
  let ?p = "length (a @ StartCode4)" and ?q = "length ((a @ StartCode4) @ b @ StartCode4)"
  have "ParseNalusN_loop ?src 3 0 0 [] = ParseNalusN_loop ?src 2 ?p ?p [a]"
    using ParseNalusN_loop_to_code [of ?src "[]" a "b @ StartCode4 @ c" 0 3 "[]"] assms by simp
  also have "\<dots> = ParseNalusN_loop ?src 1 ?q ?q [a, b]"
    using ParseNalusN_loop_to_code [of ?src "a @ StartCode4" b c 0 2 "[a]"] assms by simp
  also have "\<dots> = Ok (?q, length ?src, [a, b])"
    by (simp add: ParseNalusN_loop.simps)
  finally have run: "ParseNalusN_loop ?src 3 0 0 [] = Ok (?q, length ?src, [a, b])" .
  have "length StartCode4 = 4" by (simp add: StartCode4_def)
  moreover have "0 < length a" "0 < length b" "0 < length c" using assms by auto
  moreover have "drop ?q ?src = c" by simp
  ultimately show ?thesis using run by (simp add: ParseNalusN_def)
qed

lemma packNalus_room:
  assumes "length buffer = length pre + length (avcc us) + k" and "take (length pre) buffer = pre"
    and "\<forall>u\<in>set us. u \<noteq> []"
  shows "\<exists>buffer'. packNalus us (length pre) buffer = Ok (length (pre @ avcc us), buffer') \<and>
    take (length (pre @ avcc us)) buffer' = pre @ avcc us \<and> length buffer' = length buffer"
  using assms
proof (induction us arbitrary: pre buffer)
  case (Cons u us)
  let ?h = "be_bytes 4 (of_nat (length u) :: u32)"
  let ?b1 = "take (length pre) buffer @ ?h @ drop (length pre + 4) buffer"
  let ?b2 = "put_at (length pre + 4) u ?b1"
  have len: "length buffer = length pre + 4 + length u + length (avcc us) + k"
    using Cons.prems(1) by (simp del: be_bytes.simps)
  have put: "PutU32BE (drop (length pre) buffer) (of_nat (length u)) = Ok (?h @ drop (length pre + 4) buffer)"
    using len by (simp add: byte_simps add.commute del: be_bytes.simps)
  have l1: "length ?b1 = length buffer" using len by simp
  have b2: "?b2 = pre @ ?h @ u @ drop (length pre + 4 + length u) ?b1"
    using len Cons.prems(2) by (simp add: put_at_fit del: be_bytes.simps)
  have "0 < length u" using Cons.prems(3) by auto
  then have "packNalus (u # us) (length pre) buffer = packNalus us (length (pre @ ?h @ u)) ?b2"
    using len put by (simp add: slice_def Let_def add.assoc del: be_bytes.simps)
  moreover have "\<exists>buffer'. packNalus us (length (pre @ ?h @ u)) ?b2 = Ok (length ((pre @ ?h @ u) @ avcc us), buffer') \<and>
      take (length ((pre @ ?h @ u) @ avcc us)) buffer' = (pre @ ?h @ u) @ avcc us \<and> length buffer' = length ?b2"
  proof (rule Cons.IH)
    show "length ?b2 = length (pre @ ?h @ u) + length (avcc us) + k"
      unfolding b2 using len l1 by (simp del: be_bytes.simps)
    show "take (length (pre @ ?h @ u)) ?b2 = pre @ ?h @ u" unfolding b2 by (simp del: be_bytes.simps)
  qed (use Cons.prems(3) in simp)
  moreover have "length ?b2 = length buffer" using l1 len by simp
  ultimately show ?case by (simp del: be_bytes.simps)
qed simp

lemma PackVideoData_keyframe:
  assumes "CodecID h = 7" and "clean sps" "clean pps" and "is_param sps" and "pps \<noteq> []" and "idr \<noteq> []"
  shows "PackVideoData h sid (annexb [sps, pps, idr]) ts =
    Ok ([0x17, AVCPacketType h, 0, 0, 0] @ avcc [sps, pps, idr])"
proof -
  let ?src = "sps @ StartCode4 @ pps @ StartCode4 @ idr"
  let ?tag = "muxerTagData (videoTag h FRAME_KEY (AVCPacketType h) ?src ts)"
  have l4: "length StartCode4 = 4" by (simp add: StartCode4_def)
  have sps: "sps \<noteq> []" "hd sps AND 0x1f = 7 \<or> hd sps AND 0x1f = 8"
    using assms(4) by (auto simp: is_param_def nal_type_def)
  then have ty: "?src ! 0 AND 0x1f = 7 \<or> ?src ! 0 AND 0x1f = 8" by (cases sps) simp_all
  have tag: "?tag = [0x17, AVCPacketType h, 0, 0, 0]"
    using assms(1) by (simp add: muxerTagData_def videoTag_def zeroMediaTag_def Let_def numeral_eq_Suc)
  have nal: "ParseNalusN ?src 3 = Ok [sps, pps, idr]"
    using ParseNalusN_three [of sps pps idr] assms sps by simp
  let ?buf = "put_at 0 ?tag (replicate (length ?tag + length ?src + 3 * 4) 0)"
  have lb: "length ?buf = length ?tag + length (avcc [sps, pps, idr]) + 8"
    using l4 by (simp add: tag)
  have tb: "take (length ?tag) ?buf = ?tag" by (simp add: put_at_fit)
  obtain buffer' where pk: "packNalus [sps, pps, idr] (length ?tag) ?buf =
      Ok (length (?tag @ avcc [sps, pps, idr]), buffer')"
    "take (length (?tag @ avcc [sps, pps, idr])) buffer' = ?tag @ avcc [sps, pps, idr]"
    "length buffer' = length ?buf"
    using packNalus_room [OF lb tb] assms sps by auto
  have "slice 0 (length (?tag @ avcc [sps, pps, idr])) buffer' = Ok (?tag @ avcc [sps, pps, idr])"
    using pk(2,3) lb by (simp add: slice_def)
  moreover have "PackVideoData h sid (StartCode4 @ ?src) ts =
      res_bind (ParseNalusN ?src 3) (\<lambda>nalus.
        res_bind (packNalus nalus (length ?tag)
          (put_at 0 ?tag (replicate (length ?tag + length ?src + length nalus * 4) 0)))
          (\<lambda>(idx, buffer2). slice 0 idx buffer2))"
    using assms(1) sps(1) ty l4 unfolding PackVideoData_def Let_def by auto
  moreover have "length [sps, pps, idr] * 4 = 3 * 4" by simp
  ultimately have "PackVideoData h sid (StartCode4 @ ?src) ts = Ok (?tag @ avcc [sps, pps, idr])"
    unfolding nal res_bind_simps using pk(1) by (simp del: packNalus.simps avcc_simps)
  then show ?thesis unfolding tag by simp
qed

section \<open>Headers\<close>

lemma small_u8: "(r :: u8) < 4 \<Longrightarrow> r = 0 \<or> r = 1 \<or> r = 2 \<or> r = 3"
  "(s :: u8) < 2 \<Longrightarrow> s = 0 \<or> s = 1"
  by (simp_all add: word_less_nat_alt word_unat_eq_iff) linarith+

lemma audio_flags:
  fixes rate sz ty :: u8
  assumes "rate < 4" and "sz < 2" and "ty < 2"
    and f: "f = push_bit 4 10 OR (push_bit 2 rate AND 0x0C) OR (push_bit 1 sz AND 0x02) OR (ty AND 0x01)"
  shows "drop_bit 4 f = 10 \<and> drop_bit 2 f AND 0x3 = rate \<and> drop_bit 1 f AND 0x1 = sz \<and> f AND 0x1 = ty"
  using small_u8(1) [OF assms(1)] small_u8(2) [OF assms(2)] small_u8(2) [OF assms(3)] unfolding f
  by (elim disjE) simp_all

lemma ParseAudioHeader_muxed:
  assumes "SoundFormat ah = 10" and "SoundRate ah < 4" and "SoundSize ah < 2" and "SoundType ah < 2"
    and "fType fl = 8"
  shows "ParseAudioHeader (muxerTagData (audioTag ah fl pt) @ src) tag =
    (Ok 2, tag\<lparr>mediat := (mediat tag)\<lparr>m_soundFormat := 10, m_soundRate := SoundRate ah,
       m_soundSize := SoundSize ah, m_soundType := SoundType ah, m_aacPacketType := pt\<rparr>\<rparr>)"
    and "drop 2 (muxerTagData (audioTag ah fl pt) @ src) = src"
proof -
  define f where "f = push_bit 4 10 OR (push_bit 2 (SoundRate ah) AND 0x0C) OR
    (push_bit 1 (SoundSize ah) AND 0x02) OR (SoundType ah AND 0x01)"
  have mux: "muxerTagData (audioTag ah fl pt) = [f, pt]"
    using assms(1,5) by (simp add: muxerTagData_def audioTag_def zeroMediaTag_def Let_def f_def)
  show "drop 2 (muxerTagData (audioTag ah fl pt) @ src) = src" by (simp add: mux)
  note fl = audio_flags [OF assms(2-4) f_def]
  have "\<not> length ([f, pt] @ src) < 1" "([f, pt] @ src) ! 0 = f" "index ([f, pt] @ src) 1 = Ok pt" by simp_all
  then show "ParseAudioHeader (muxerTagData (audioTag ah fl pt) @ src) tag =
    (Ok 2, tag\<lparr>mediat := (mediat tag)\<lparr>m_soundFormat := 10, m_soundRate := SoundRate ah,
       m_soundSize := SoundSize ah, m_soundType := SoundType ah, m_aacPacketType := pt\<rparr>\<rparr>)"
    using fl unfolding mux ParseAudioHeader_def Let_def by simp
qed

lemma ParseVideoHeader_avc:
  "ParseVideoHeader ([0x17, pt, 0, 0, 0] @ src) zeroTag =
    (Ok 5, zeroTag\<lparr>mediat := zeroMediaTag\<lparr>m_frameType := 1, m_codecID := 7, m_avcPacketType := pt,
      m_compositionTime := 0\<rparr>\<rparr>)"
proof -
  have "[2..<5] = [2, 3, 4 :: nat]" by (simp add: upt_rec)
  then show ?thesis by (simp add: ParseVideoHeader_def Let_def zeroTag_def zeroMediaTag_def)
qed

lemma Demux_avc:
  assumes "PacketType p = 1" and "PData p = [0x17, pt, 0, 0, 0] @ src"
  shows "Demux p = (Ok (), p\<lparr>VHeader := \<lparr>FrameType = 1, AVCPacketType = pt, CodecID = 7,
    CompositionTime = 0\<rparr>, PData := src\<rparr>)"
  unfolding Demux_def demux_gen_def assms ParseVideoHeader_avc
  by (simp add: videoHeaderOf_def zeroMediaTag_def Let_def assms(2))

lemma isNaluHeader_size: "isNaluHeader src \<Longrightarrow> naluSize src = Ok 1"
proof -
  assume h: "isNaluHeader src"
  then obtain a b c d r where "src = a # b # c # d # r"
    by (auto simp: isNaluHeader_def not_less numeral_eq_Suc Suc_le_length_iff)
  with h show ?thesis by (simp add: isNaluHeader_def naluSize_def)
qed

lemma muxer_avc_seq:
  "NewAVCSequenceHeader sps pps ts = [0x17, 0, 0, 0, 0] @ AVCDecoderConfigurationRecord sps pps"
  by (simp add: NewAVCSequenceHeader_def muxerTagData_def zeroMediaTag_def Let_def numeral_eq_Suc)

lemma ParseAVC_record:
  assumes "sps \<noteq> StartCode4" "pps \<noteq> StartCode4" "sps \<noteq> []" "pps \<noteq> []"
    and "length sps < 65536" "length pps < 65536"
  shows "ParseAVCSequenceHeader (AVCDecoderConfigurationRecord sps pps) = Ok ([sps], [pps])"
proof -
  let ?ls = "be_bytes 2 (of_nat (length sps) :: u16)" and ?lp = "be_bytes 2 (of_nat (length pps) :: u16)"
  have two: "be_word (be_bytes 2 v) = v" for v :: u16 by (simp add: be_word_be_bytes del: be_bytes.simps)
  have un: "n < 65536 \<Longrightarrow> unat (of_nat n :: u16) = n" for n
    by (simp add: unsigned_of_nat take_bit_nat_eq_self)
  have rd2: "br_Read 2 (be_bytes 2 v @ r) = (Ok (be_bytes 2 v), r)" for v :: u16 and r
    by (simp add: br_Read_def numeral_eq_Suc)
  have rdn: "br_Read (length x) (x @ r) = (Ok x, r)" if "x \<noteq> []" for x r
    using that by (simp add: br_Read_def)
  have set1: "readSets (Suc 0) [] (be_bytes 2 (of_nat (length x) :: u16) @ x @ r) = (Ok [x], r)"
    if "x \<noteq> []" "length x < 65536" for x r
    using that by (simp add: rd2 two un rdn del: be_bytes.simps)
  have n1: "unat (0xe1 AND 0x1f :: u8) = Suc 0" "unat (1 :: u8) = Suc 0" by simp_all
  show ?thesis
    unfolding ParseAVCSequenceHeader_def record_shape [OF assms(1,2)]
    using set1 [OF assms(3,5), of "1 # ?lp @ pps"] set1 [OF assms(4,6), of "[]"]
    by (simp add: pbind_def br_ReadByte_def br_Read_def br_err_def n1
        del: be_bytes.simps readSets.simps)
qed

section \<open>Properties\<close>

text \<open>
  C27: A key frame goes through the pipeline unchanged: the parameter sets and the IDR slice of an
  Annex B access unit, packed as an FLV tag by \<open>PackVideoData\<close>, taken apart by \<open>Demux\<close> and fed to
  the codec parser, come out as the same three units behind start codes and an access unit
  delimiter.
\<close>

theorem video_pipeline:
  assumes "CodecID h = 7" and "AVCPacketType h \<noteq> 0" and "clean sps" and "clean pps" and "is_param sps"
    and "is_param pps" and "is_frame idr" and "is_idr idr" and "length sps \<noteq> 1"
    and "PackVideoData h sid (annexb [sps, pps, idr]) ts = Ok d"
    and "PacketType p = 1" and "PData p = d" and "Demux p = (r, p')"
    and "cp_Parse buf_write p' cp w = (r', cp', w')"
  shows "r = Ok () \<and> r' = Ok () \<and> w' = w @ naluAud @ annexb [sps, pps, idr]"
proof -
  have ne: "pps \<noteq> []" "idr \<noteq> []" using assms(6,7) by (auto simp: is_param_def is_frame_def)
  have "d = [0x17, AVCPacketType h, 0, 0, 0] @ avcc [sps, pps, idr]"
    using PackVideoData_keyframe [OF assms(1,3,4,5) ne] assms(10) by simp
  then have p': "r = Ok ()" "p' = p\<lparr>VHeader := \<lparr>FrameType = 1, AVCPacketType = AVCPacketType h, CodecID = 7,
      CompositionTime = 0\<rparr>, PData := avcc [sps, pps, idr]\<rparr>"
    using Demux_avc [OF assms(11)] assms(12,13) by auto
  have "\<not> isNaluHeader (avcc [sps, pps, idr])"
  proof
    assume "isNaluHeader (avcc [sps, pps, idr])"
    then have "naluSize (avcc [sps, pps, idr]) = Ok 1" by (rule isNaluHeader_size)
    moreover have "length sps < 2 ^ 32" using assms(5) by (simp add: is_param_def)
    ultimately show False
      using naluSize_prefix [of sps "sps @ avcc [pps, idr]"] assms(9) by (simp del: be_bytes.simps)
  qed
  then have run: "cp_Parse buf_write p' cp w = (let parser = (case cp_h264 cp of Some h \<Rightarrow> h | None \<Rightarrow> NewH264Parser) in
      case getAnnexbH264 buf_write (avcc [sps, pps, idr]) parser w of
        (r, parser', w') \<Rightarrow> (r, cp\<lparr>cp_h264 := Some parser'\<rparr>, w'))"
    using assms(2,11) unfolding p' cp_Parse_def h264_Parse_def by (simp add: Let_def del: avcc_simps)
  have "getAnnexbH264 buf_write (avcc ([sps, pps] @ [idr])) parser w =
      (Ok (), parser\<lparr>ppsBuf := annexb [sps, pps]\<rparr>, w @ naluAud @ annexb [sps, pps, idr])" for parser
    using getAnnexb_units [of "[sps, pps]" "[idr]" parser w] assms(5-8) by simp
  with run assms(14) p'(1) show ?thesis by (auto simp: Let_def)
qed

theorem video_pipeline_witness:
  "\<exists>d. PackVideoData \<lparr>FrameType = 0, AVCPacketType = 1, CodecID = 7, CompositionTime = 0\<rparr> 1
      (annexb [[0x67, 66], [0x68, 7], [0x65, 9, 9]]) 40 = Ok d \<and>
    snd (snd (cp_Parse buf_write (snd (Demux (zeroPacket\<lparr>PacketType := 1, PData := d\<rparr>))) NewCodecParser [])) =
      naluAud @ annexb [[0x67, 66], [0x68, 7], [0x65, 9, 9]]"
proof -
  let ?h = "\<lparr>FrameType = 0, AVCPacketType = 1, CodecID = 7, CompositionTime = 0\<rparr>"
  let ?a = "[0x67, 66] :: bytes" and ?b = "[0x68, 7] :: bytes" and ?c = "[0x65, 9, 9] :: bytes"
  have cl: "clean ?a" "clean ?b" by code_simp+
  have ty: "is_param ?a" "is_param ?b" "is_frame ?c" "is_idr ?c"
    by (simp_all add: is_param_def is_frame_def is_idr_def nal_type_def)
  obtain d where d: "PackVideoData ?h 1 (annexb [?a, ?b, ?c]) 40 = Ok d"
    using PackVideoData_keyframe [of ?h ?a ?b ?c 1 40] cl ty by simp
  let ?p = "zeroPacket\<lparr>PacketType := 1, PData := d\<rparr>"
  obtain r p' where dm: "Demux ?p = (r, p')" by fastforce
  obtain r' cp' w' where cp: "cp_Parse buf_write p' NewCodecParser [] = (r', cp', w')" by (metis surj_pair)
  have "r = Ok () \<and> r' = Ok () \<and> w' = [] @ naluAud @ annexb [?a, ?b, ?c]"
    by (rule video_pipeline [OF _ _ cl ty _ d _ _ dm cp]) simp_all
  with d dm cp show ?thesis by simp
qed

text \<open>
  C39: An AAC frame packed by \<open>PackAudioData\<close> and taken apart by \<open>Demux\<close> gives the same audio header
  and the same data, for the four sound rates an FLV header can name.
\<close>

theorem audio_pack_roundtrip:
  assumes "SoundFormat ah = 10" and "SoundRate ah < 4" and "SoundSize ah < 2" and "SoundType ah < 2"
    and "PackAudioData ah sid src ts = Ok d" and "PacketType p = 2" and "PData p = d"
  shows "Demux p = (Ok (), p\<lparr>AHeader := ah\<lparr>AACPacketType := 1\<rparr>, PData := src\<rparr>)"
proof -
  let ?fl = "\<lparr>fType = 8, dataSize = of_nat (length src), timeStamp = ts, timeStampExtend = 0, tagStreamID = sid\<rparr>"
  have d: "d = muxerTagData (audioTag ah ?fl 1) @ src"
    using assms(1,5) by (simp add: PackAudioData_def Let_def)
  have "fType ?fl = 8" by simp
  note p = ParseAudioHeader_muxed [OF assms(1-4) this, of 1 src]
  show ?thesis
    unfolding Demux_def demux_gen_def assms(6,7) d p
    using assms(1) p(2) by (simp add: audioHeaderOf_def zeroTag_def zeroMediaTag_def Let_def assms(7) d)
qed

theorem audio_pack_roundtrip_witness:
  "let ah = \<lparr>SoundFormat = 10, SoundRate = 3, SoundSize = 1, SoundType = 1, AACPacketType = 0\<rparr>;
       d = [0xaf, 1, 7, 8]
   in PackAudioData ah 1 [7, 8] 0 = Ok d \<and>
      Demux (zeroPacket\<lparr>PacketType := 2, PData := d\<rparr>) =
        (Ok (), zeroPacket\<lparr>PacketType := 2, AHeader := ah\<lparr>AACPacketType := 1\<rparr>, PData := [7, 8]\<rparr>)"
proof -
  let ?ah = "\<lparr>SoundFormat = 10, SoundRate = 3, SoundSize = 1, SoundType = 1, AACPacketType = 0\<rparr>"
  have d: "PackAudioData ?ah 1 [7, 8] 0 = Ok [0xaf, 1, 7, 8]" by code_simp
  let ?p = "zeroPacket\<lparr>PacketType := 2, PData := [0xaf, 1, 7, 8]\<rparr>"
  have "Demux ?p = (Ok (), ?p\<lparr>AHeader := ?ah\<lparr>AACPacketType := 1\<rparr>, PData := [7, 8]\<rparr>)"
    by (rule audio_pack_roundtrip [OF _ _ _ _ d]) simp_all
  with d show ?thesis by (simp add: Let_def zeroPacket_def)
qed

text \<open>
  The AVC sequence header of a parameter-set pair, demuxed and parsed by
  \<open>ParseAVCSequenceHeader\<close>, gives back the two parameter sets.
\<close>

theorem avc_sequence_header_roundtrip:
  assumes "sps \<noteq> StartCode4" and "pps \<noteq> StartCode4" and "sps \<noteq> []" and "pps \<noteq> []"
    and "length sps < 65536" and "length pps < 65536"
    and "PacketType p = 1" and "PData p = NewAVCSequenceHeader sps pps ts"
  shows "\<exists>p'. Demux p = (Ok (), p') \<and> CodecID (VHeader p') = 7 \<and> AVCPacketType (VHeader p') = 0 \<and>
    ParseAVCSequenceHeader (PData p') = Ok ([sps], [pps])"
  using Demux_avc [OF assms(7), of 0] ParseAVC_record [OF assms(1-6)] assms(8)
  unfolding muxer_avc_seq by simp

theorem avc_sequence_header_roundtrip_witness:
  "\<exists>p'. Demux (zeroPacket\<lparr>PacketType := 1, PData := NewAVCSequenceHeader [0x67, 1] [0x68] 0\<rparr>) = (Ok (), p') \<and>
     CodecID (VHeader p') = 7 \<and> AVCPacketType (VHeader p') = 0 \<and>
     ParseAVCSequenceHeader (PData p') = Ok ([[0x67, 1]], [[0x68]])"
  by (rule avc_sequence_header_roundtrip) (simp_all add: StartCode4_def)

text \<open>
  \<open>Demux\<close> panics only on an audio packet that consists of the single AAC flags byte: the length
  check before it lets one byte pass, and the AAC packet type is read from the second.
\<close>

theorem demux_panic_iff:
  "fst (Demux p) = Panic \<longleftrightarrow>
     PacketType p = 2 \<and> (\<exists>b. PData p = [b] \<and> drop_bit 4 b = 10)"
proof -
  have audio: "fst (ParseAudioHeader d tag) = Panic \<longleftrightarrow> (\<exists>b. d = [b] \<and> drop_bit 4 b = 10)" for d tag
    by (cases d rule: remdups_adj.cases) (auto simp: ParseAudioHeader_def Let_def)
  have video: "fst (ParseVideoHeader d tag) \<noteq> Panic" for d tag
    by (simp add: ParseVideoHeader_def Let_def)
  have split: "fst (case x of (Ok n, tag) \<Rightarrow> (Ok (), f n tag) | (Err e, _) \<Rightarrow> (Err e, p) | (Panic, _) \<Rightarrow> (Panic, p)) = Panic
      \<longleftrightarrow> fst x = Panic" for x :: "nat res \<times> Tag" and f :: "nat \<Rightarrow> Tag \<Rightarrow> Packet"
    by (auto split: prod.splits res.splits)
  show ?thesis
    unfolding Demux_def demux_gen_def Let_def by (simp add: split audio video)
qed

end
