(* ===== verification/StreamRw.thy ===== *)
theory StreamRw
  imports ForwardConn FlvTag StreamCache
begin

text \<open>
  The two ends of a stream, \<open>protocol/stream_rw.go\<close>: \<open>StreamReader\<close> turns the messages of a publisher
  into packets, \<open>StreamWriter\<close> queues the packets for a player and sends them. The goroutines of a
  writer are steps: \<open>Write\<close> is called by the stream, one turn of \<open>SendPacket\<close> takes a packet off the
  queue. Clock readings are arguments (\<open>now\<close> for \<open>time.Now()\<close>, \<open>ms\<close> for the milliseconds of \<open>SaveStatics\<close>);
  closing the network connection itself and logging are left out.
\<close>

section \<open>Statistics\<close>

record StaticsBW =
  bwStreamID :: u32
  VideoDatainBytes :: u64
  LastVideoDatainBytes :: u64
  VideoSpeedInBytesperMS :: u64
  AudioDatainBytes :: u64
  LastAudioDatainBytes :: u64
  AudioSpeedInBytesperMS :: u64
  LastTimestamp :: u64 \<comment> \<open>int64, two's complement\<close>

definition zeroStatics :: StaticsBW where
  "zeroStatics = \<lparr>bwStreamID = 0, VideoDatainBytes = 0, LastVideoDatainBytes = 0, VideoSpeedInBytesperMS = 0,
     AudioDatainBytes = 0, LastAudioDatainBytes = 0, AudioSpeedInBytesperMS = 0, LastTimestamp = 0\<rparr>"

text \<open>The quotient of the positive difference by 1000, converted to \<open>uint64\<close>; dividing by zero panics.\<close>

definition saveStatics :: "u64 \<Rightarrow> u32 \<Rightarrow> u64 \<Rightarrow> bool \<Rightarrow> StaticsBW \<Rightarrow> StaticsBW res" where
  "saveStatics ms streamid len isVideoFlag s =
     (let s1 = s\<lparr>bwStreamID := streamid\<rparr>;
          s2 = (if isVideoFlag then s1\<lparr>VideoDatainBytes := VideoDatainBytes s1 + len\<rparr>
                else s1\<lparr>AudioDatainBytes := AudioDatainBytes s1 + len\<rparr>) in
      if LastTimestamp s2 = 0 then Ok (s2\<lparr>LastTimestamp := ms\<rparr>)
      else if sint (ms - LastTimestamp s2) \<ge> 5000 then
        (let diffTimestamp = (of_int (sint (ms - LastTimestamp s2) div 1000) :: u64) in
         if diffTimestamp = 0 then Panic
         else
           Ok (s2\<lparr>VideoSpeedInBytesperMS := (VideoDatainBytes s2 - LastVideoDatainBytes s2) * 8 div diffTimestamp div 1000,
              AudioSpeedInBytesperMS := (AudioDatainBytes s2 - LastAudioDatainBytes s2) * 8 div diffTimestamp div 1000,
              LastVideoDatainBytes := VideoDatainBytes s2, LastAudioDatainBytes := AudioDatainBytes s2,
              LastTimestamp := ms\<rparr>))
      else Ok s2)"

lemma saveStatics_ok: "\<exists>s'. saveStatics ms sid len v s = Ok s'"
proof -
  have "(of_int (sint d div 1000) :: u64) \<noteq> 0" if "sint d \<ge> 5000" for d :: u64
  proof -
    have "sint d < 2 ^ 63" using sint_lt [of d] by simp
    with that have "0 < sint d div 1000" "sint d div 1000 < 2 ^ 64" by simp_all
    then show ?thesis by (simp add: word_of_int_eq_0_iff zdvd_not_zless)
  qed
  then show ?thesis by (simp add: saveStatics_def Let_def)
qed

section \<open>The writer\<close>

record StreamWriter =
  sw_base :: RWBaser
  sw_streamID :: bytes
  sw_closed :: bool
  keyframeNeed :: bool
  sw_conn :: ForwardConnect
  packetQueue :: "Packet chan"
  WriteBWInfo :: StaticsBW

definition maxQueueNum :: nat where "maxQueueNum = 1024"

definition NewStreamWriter :: "int \<Rightarrow> ForwardConnect \<Rightarrow> bytes \<Rightarrow> StreamWriter" where
  "NewStreamWriter now conn streamID = \<lparr>sw_base = NewRWBaser now 10000000000, sw_streamID = streamID, sw_closed = False,
     keyframeNeed = True, sw_conn = conn, packetQueue = make_chan maxQueueNum, WriteBWInfo = zeroStatics\<rparr>"

definition sw_SaveStatics :: "u64 \<Rightarrow> u32 \<Rightarrow> u64 \<Rightarrow> bool \<Rightarrow> (StreamWriter, unit) prog" where
  "sw_SaveStatics ms streamid len isVideoFlag sw =
     (case saveStatics ms streamid len isVideoFlag (WriteBWInfo sw) of
        Ok s \<Rightarrow> (Ok (), sw\<lparr>WriteBWInfo := s\<rparr>) | Err e \<Rightarrow> (Err e, sw) | Panic \<Rightarrow> (Panic, sw))"

definition is_key :: "Packet \<Rightarrow> bool" where
  "is_key p \<longleftrightarrow> PacketType p = PacketTypeVideo \<and> FrameType (VHeader p) = FRAME_KEY"

text \<open>The deferred \<open>recover\<close> turns the panic of a send on a closed channel into an error.\<close>

definition sw_Write :: "Packet \<Rightarrow> (StreamWriter, unit) prog" where
  "sw_Write p sw =
     (if sw_closed sw then (Err (Errorf ''PeerWriter closed''), sw)
      else if PacketType p = PacketTypeVideo \<and> keyframeNeed sw \<and> FrameType (VHeader p) \<noteq> FRAME_KEY then (Ok (), sw)
      else
        (let sw1 = (if PacketType p = PacketTypeVideo \<and> keyframeNeed sw then sw\<lparr>keyframeNeed := False\<rparr> else sw) in
         case try_send p (packetQueue sw1) of
           (Ok True, q) \<Rightarrow> (Ok (), sw1\<lparr>packetQueue := q\<rparr>)
         | (Ok False, q) \<Rightarrow> (Ok (), if is_key p then sw1\<lparr>keyframeNeed := True\<rparr> else sw1)
         | (Err e, q) \<Rightarrow> (Err e, sw1)
         | (Panic, q) \<Rightarrow> (Err (Errorf ''Panic''), sw1)))"

text \<open>The message for a packet. The variable \<open>cs\<close> lives across the turns of the loop.\<close>

definition packetMsg :: "Packet \<Rightarrow> u32 \<Rightarrow> ChunkStream \<Rightarrow> ChunkStream" where
  "packetMsg p base cs =
     (let cs1 = cs\<lparr>Data := PData p, Length := of_nat (length (PData p)), StreamID := PStreamID p,
            Timestamp := TimeStamp p + base\<rparr> in
      if PacketType p = PacketTypeVideo then cs1\<lparr>TypeID := TAG_VIDEO\<rparr>
      else if PacketType p = PacketTypeAudio then cs1\<lparr>TypeID := TAG_AUDIO\<rparr>
      else if PacketType p = PacketTypeMetadata then cs1\<lparr>TypeID := TAG_SCRIPTDATAAMF0\<rparr>
      else cs1)"

definition onWriterConn :: "(ForwardConnect, 'a) prog \<Rightarrow> (StreamWriter, 'a) prog" where
  "onWriterConn m sw = (case m (sw_conn sw) of (r, c) \<Rightarrow> (r, sw\<lparr>sw_conn := c\<rparr>))"

definition SendPacket_one :: "int \<Rightarrow> u64 \<Rightarrow> Packet \<Rightarrow> ChunkStream \<Rightarrow> (StreamWriter, ChunkStream) prog" where
  "SendPacket_one now ms p cs sw =
     (let cs1 = packetMsg p (BaseTimeStamp (sw_base sw)) cs in
      pbind (sw_SaveStatics ms (PStreamID p) (ucast (Length cs1)) (PacketType p = PacketTypeVideo)) (\<lambda>_ sw1.
        (let sw2 = sw1\<lparr>sw_base := RecTimeStamp (Timestamp cs1) (TypeID cs1) (SetPreTime now (sw_base sw1))\<rparr> in
         case onWriterConn (fc_Write cs1) sw2 of
           (Ok _, sw3) \<Rightarrow>
             (case onWriterConn fc_Flush sw3 of (Panic, sw4) \<Rightarrow> (Panic, sw4) | (_, sw4) \<Rightarrow> (Ok cs1, sw4))
         | (Err e, sw3) \<Rightarrow> (Err e, sw3\<lparr>sw_closed := True\<rparr>)
         | (Panic, sw3) \<Rightarrow> (Panic, sw3))) sw)"

text \<open>One turn of \<open>SendPacket\<close>; \<open>None\<close> while it waits for a packet.\<close>

definition SendPacket_turn :: "int \<Rightarrow> u64 \<Rightarrow> ChunkStream \<Rightarrow> StreamWriter \<Rightarrow> (ChunkStream res \<times> StreamWriter) option" where
  "SendPacket_turn now ms cs sw =
     (case cbuf (packetQueue sw) of
        [] \<Rightarrow> if cclosed (packetQueue sw) then Some (Err (Errorf ''closed''), sw) else None
      | p # ps \<Rightarrow> Some (SendPacket_one now ms p cs (sw\<lparr>packetQueue := (packetQueue sw)\<lparr>cbuf := ps\<rparr>\<rparr>)))"

text \<open>
  \<open>Close\<close> is three actions without a lock: the test of \<open>closed\<close>, \<open>close(packetQueue)\<close> and the assignment to \<open>closed\<close>. It is called by the
  goroutine \<open>Check\<close> of the writer and by the loop of the stream, so the two calls may overlap. \<open>sw_Close raced\<close> is one whole call;
  \<open>raced\<close> says whether the other call closes the queue between the test and the \<open>close\<close> of this one.
\<close>

definition closeQueue :: "(StreamWriter, unit) prog" where
  "closeQueue sw =
     (case close_chan (packetQueue sw) of
        (Ok _, q) \<Rightarrow> (Ok (), sw\<lparr>packetQueue := q\<rparr>)
      | (Err e, q) \<Rightarrow> (Err e, sw)
      | (Panic, q) \<Rightarrow> (Panic, sw))"

definition setClosed :: "StreamWriter \<Rightarrow> StreamWriter" where
  "setClosed sw = sw\<lparr>sw_closed := True\<rparr>"

definition sw_Close :: "(StreamWriter \<Rightarrow> bool) \<Rightarrow> (StreamWriter, unit) prog" where
  "sw_Close raced sw =
     (if sw_closed sw then (Ok (), setClosed sw)
      else pbind closeQueue (\<lambda>_ sw'. (Ok (), setClosed sw')) (if raced sw then snd (closeQueue sw) else sw))"

text \<open>The single actions of one call, and two calls that run side by side in the order \<open>sched\<close> (\<open>True\<close>: the first one moves).\<close>

datatype close_pc = AtTest | AtClose | AtFlag | Closed

fun Close_step :: "close_pc \<Rightarrow> (StreamWriter, close_pc) prog" where
  "Close_step AtTest sw = (Ok (if sw_closed sw then AtFlag else AtClose), sw)"
| "Close_step AtClose sw = pbind closeQueue (\<lambda>_. preturn AtFlag) sw"
| "Close_step AtFlag sw = (Ok Closed, setClosed sw)"
| "Close_step Closed sw = (Ok Closed, sw)"

fun two_Closes :: "bool list \<Rightarrow> close_pc \<Rightarrow> close_pc \<Rightarrow> (StreamWriter, unit) prog" where
  "two_Closes [] a b sw = (Ok (), sw)"
| "two_Closes (x # sched) a b sw =
     (if x then pbind (Close_step a) (\<lambda>a'. two_Closes sched a' b) sw else pbind (Close_step b) (\<lambda>b'. two_Closes sched a b') sw)"

text \<open>\<open>Check\<close> reads until the connection fails and then closes the writer.\<close>

definition Check_turn :: "(StreamWriter \<Rightarrow> bool) \<Rightarrow> (StreamWriter, unit option) prog" where
  "Check_turn raced sw =
     (case onWriterConn fc_Read sw of
        (Ok _, sw1) \<Rightarrow> (Ok None, sw1)
      | (Err e, sw1) \<Rightarrow> pbind (sw_Close raced) (\<lambda>_. preturn (Some ())) sw1
      | (Panic, sw1) \<Rightarrow> (Panic, sw1))"

definition Check :: "(StreamWriter \<Rightarrow> bool) \<Rightarrow> StreamWriter \<Rightarrow> (unit res \<times> StreamWriter) option" where
  "Check raced = run_loop (Check_turn raced)"

section \<open>The reader\<close>

record StreamReader =
  rd_base :: RWBaser
  rd_streamID :: bytes
  rd_conn :: ForwardConnect
  ReadBWInfo :: StaticsBW

definition NewStreamReader :: "int \<Rightarrow> ForwardConnect \<Rightarrow> bytes \<Rightarrow> StreamReader" where
  "NewStreamReader now conn streamID = \<lparr>rd_base = NewRWBaser now 10000000000, rd_streamID = streamID,
     rd_conn = conn, ReadBWInfo = zeroStatics\<rparr>"

definition rd_SaveStatics :: "u64 \<Rightarrow> u32 \<Rightarrow> u64 \<Rightarrow> bool \<Rightarrow> (StreamReader, unit) prog" where
  "rd_SaveStatics ms streamid len isVideoFlag pr =
     (case saveStatics ms streamid len isVideoFlag (ReadBWInfo pr) of
        Ok s \<Rightarrow> (Ok (), pr\<lparr>ReadBWInfo := s\<rparr>) | Err e \<Rightarrow> (Err e, pr) | Panic \<Rightarrow> (Panic, pr))"

definition is_av :: "u32 \<Rightarrow> bool" where
  "is_av t \<longleftrightarrow> t = TAG_AUDIO \<or> t = TAG_VIDEO \<or> t = TAG_SCRIPTDATAAMF0 \<or> t = TAG_SCRIPTDATAAMF3"

definition avMessage_turn :: "(StreamReader, ChunkStream option) prog" where
  "avMessage_turn pr =
     (case fc_Read (rd_conn pr) of
        (Ok cs, c) \<Rightarrow> (Ok (if is_av (TypeID cs) then Some cs else None), pr\<lparr>rd_conn := c\<rparr>)
      | (Err e, c) \<Rightarrow> (Err e, pr\<lparr>rd_conn := c\<rparr>)
      | (Panic, c) \<Rightarrow> (Panic, pr\<lparr>rd_conn := c\<rparr>))"

text \<open>The data of the packet is not copied: it is the slice of the buffer in which the chunk stream of the message is assembled.\<close>

definition fillPacket :: "ChunkStream \<Rightarrow> Packet \<Rightarrow> Packet" where
  "fillPacket cs p =
     (let p1 = (if TypeID cs = TAG_VIDEO then p\<lparr>PacketType := PacketTypeVideo\<rparr>
            else if TypeID cs = TAG_AUDIO then p\<lparr>PacketType := PacketTypeAudio\<rparr>
            else if TypeID cs = TAG_SCRIPTDATAAMF0 \<or> TypeID cs = TAG_SCRIPTDATAAMF3 then p\<lparr>PacketType := PacketTypeMetadata\<rparr>
            else p)
      in p1\<lparr>PStreamID := StreamID cs, PData := Data cs, PArr := Some (CSID cs, DataRef cs), TimeStamp := Timestamp cs\<rparr>)"

text \<open>
  \<open>Read\<close> recovers from every panic and then returns the named result \<open>err\<close>, which is \<open>nil\<close> at that
  point: the packet keeps what had been filled in. The result of \<open>DemuxH\<close> is ignored.
\<close>

definition rd_Read :: "int \<Rightarrow> u64 \<Rightarrow> Packet \<Rightarrow> StreamReader \<Rightarrow> (unit res \<times> Packet \<times> StreamReader) option" where
  "rd_Read now ms p pr =
     (case run_loop avMessage_turn (pr\<lparr>rd_base := SetPreTime now (rd_base pr)\<rparr>) of
        None \<Rightarrow> None
      | Some (Ok cs, pr1) \<Rightarrow>
          (let p1 = fillPacket cs p in
           case rd_SaveStatics ms (PStreamID p1) (of_nat (length (PData p1))) (TypeID cs = TAG_VIDEO) pr1 of
             (Ok _, pr2) \<Rightarrow> Some (Ok (), snd (DemuxH p1), pr2)
           | (Err e, pr2) \<Rightarrow> Some (Err e, p1, pr2)
           | (Panic, pr2) \<Rightarrow> Some (Ok (), p1, pr2))
      | Some (Err e, pr1) \<Rightarrow> Some (Err e, p, pr1)
      | Some (Panic, pr1) \<Rightarrow> Some (Ok (), p, pr1))"

section \<open>The loops of the two ends return\<close>

lemma rd_pending: "fc_Read (rd_conn pr) = (Ok c, fc) \<Longrightarrow> pending fc < pending (rd_conn pr)"
  by (rule fc_Read_shrinks)

interpretation reader_loop: progress avMessage_turn "\<lambda>pr. pending (rd_conn pr)"
  by unfold_locales (auto simp: avMessage_turn_def dest!: rd_pending split: prod.splits res.splits if_splits)

lemma sw_Close_not_None: "pbind (sw_Close raced) (\<lambda>_. preturn (Some ())) sw \<noteq> (Ok None, sw')"
  by (auto simp: pbind_def preturn_def split: prod.splits res.splits)

interpretation check_loop: progress "Check_turn raced" "\<lambda>sw. pending (sw_conn sw)"
  for raced
proof
  fix sw sw' assume "Check_turn raced sw = (Ok None, sw')"
  then obtain c fc where "fc_Read (sw_conn sw) = (Ok c, fc)" "sw' = sw\<lparr>sw_conn := fc\<rparr>"
    using sw_Close_not_None by (auto simp: Check_turn_def onWriterConn_def split: prod.splits res.splits)
  then show "pending (sw_conn sw') < pending (sw_conn sw)" using fc_Read_shrinks by simp
qed

text \<open>The queue of a writer has 1024 places.\<close>

definition writer_inv :: "StreamWriter \<Rightarrow> bool" where
  "writer_inv sw \<longleftrightarrow> chan_ok (packetQueue sw) \<and> ccap (packetQueue sw) = maxQueueNum"

lemma writer_inv_New: "writer_inv (NewStreamWriter now conn i)"
  by (simp add: writer_inv_def NewStreamWriter_def make_chan_def)

lemma writer_inv_conn [simp]: "writer_inv (sw\<lparr>sw_conn := c\<rparr>) = writer_inv sw"
  by (simp add: writer_inv_def)

text \<open>
  \<open>torn\<close>: the queue is closed and \<open>closed\<close> not yet set, so a call of \<open>Close\<close> that starts now passes its test and closes the queue a
  second time. \<open>raced\<close> is the same for a call that has already made its test.
\<close>

definition torn :: "(StreamWriter \<Rightarrow> bool) \<Rightarrow> StreamWriter \<Rightarrow> bool" where
  "torn raced sw \<longleftrightarrow> \<not> sw_closed sw \<and> (cclosed (packetQueue sw) \<or> raced sw)"

definition refuses :: "Packet \<Rightarrow> StreamWriter \<Rightarrow> bool" where
  "refuses p sw \<longleftrightarrow> \<not> sw_closed sw \<and> PacketType p = PacketTypeVideo \<and> keyframeNeed sw \<and> FrameType (VHeader p) \<noteq> FRAME_KEY"

lemma writer_inv_Write:
  assumes "writer_inv sw" and "sw_Write p sw = (r, sw')"
  shows "writer_inv sw'" and "r \<noteq> Panic" and "r = Ok () \<longleftrightarrow> \<not> sw_closed sw \<and> (\<not> cclosed (packetQueue sw) \<or> refuses p sw)"
    and "packetQueue sw' = packetQueue sw \<or> cbuf (packetQueue sw') = cbuf (packetQueue sw) @ [p]"
    and "sw_closed sw' = sw_closed sw" and "cclosed (packetQueue sw') = cclosed (packetQueue sw)"
  using assms by (auto simp: writer_inv_def sw_Write_def try_send_def refuses_def Let_def split: if_splits)

lemma closeQueue_cases:
  "closeQueue sw = (if cclosed (packetQueue sw) then (Panic, sw) else (Ok (), sw\<lparr>packetQueue := (packetQueue sw)\<lparr>cclosed := True\<rparr>\<rparr>))"
  by (simp add: closeQueue_def close_chan_def)

lemma sw_Close_spec:
  "fst (sw_Close raced sw) = (if torn raced sw then Panic else Ok ())"
  "\<not> torn raced sw \<Longrightarrow> sw_closed (snd (sw_Close raced sw))"
  by (auto simp: sw_Close_def pbind_def closeQueue_cases setClosed_def torn_def)

text \<open>After a \<open>Write\<close> that failed it makes no difference whether the call of \<open>Close\<close> is overtaken: the writer is closed or its queue is.\<close>

lemma Close_after_failed_Write:
  assumes "sw_Write p sw = (Err e, sw')"
  shows "fst (sw_Close raced sw') = (if sw_closed sw then Ok () else Panic)"
  using assms by (auto simp: sw_Close_spec torn_def sw_Write_def try_send_def Let_def split: if_splits)

lemma onWriterConn_frame:
  assumes "onWriterConn m sw = (r, sw')"
  shows "sw' = sw\<lparr>sw_conn := sw_conn sw'\<rparr>"
  using assms by (auto simp: onWriterConn_def split: prod.splits)

lemma SendPacket_one_spec:
  assumes "SendPacket_one now ms p cs sw = (r, sw')"
  shows "packetQueue sw' = packetQueue sw" and "keyframeNeed sw' = keyframeNeed sw" and "sw_closed sw \<Longrightarrow> sw_closed sw'"
    and "sw_base sw' = RecTimeStamp (Timestamp (packetMsg p (BaseTimeStamp (sw_base sw)) cs))
        (TypeID (packetMsg p (BaseTimeStamp (sw_base sw)) cs)) (SetPreTime now (sw_base sw))"
    and "r = Ok cs' \<Longrightarrow> cs' = packetMsg p (BaseTimeStamp (sw_base sw)) cs"
proof -
  let ?cs = "packetMsg p (BaseTimeStamp (sw_base sw)) cs"
  obtain s where s: "saveStatics ms (PStreamID p) (ucast (Length ?cs)) (PacketType p = PacketTypeVideo) (WriteBWInfo sw) = Ok s"
    using saveStatics_ok by blast
  let ?sw = "sw\<lparr>WriteBWInfo := s, sw_base := RecTimeStamp (Timestamp ?cs) (TypeID ?cs) (SetPreTime now (sw_base sw))\<rparr>"
  obtain w c where w: "fc_Write ?cs (sw_conn sw) = (w, c)" by fastforce
  obtain f d where f: "fc_Flush c = (f, d)" by fastforce
  have "(r, sw') = (case w of Ok _ \<Rightarrow> (if f = Panic then Panic else Ok ?cs, ?sw\<lparr>sw_conn := d\<rparr>)
      | Err e \<Rightarrow> (Err e, ?sw\<lparr>sw_conn := c, sw_closed := True\<rparr>) | Panic \<Rightarrow> (Panic, ?sw\<lparr>sw_conn := c\<rparr>))"
    using assms s w f by (cases w; cases f) (auto simp: SendPacket_one_def Let_def pbind_def sw_SaveStatics_def onWriterConn_def)
  then show "packetQueue sw' = packetQueue sw" and "keyframeNeed sw' = keyframeNeed sw" and "sw_closed sw \<Longrightarrow> sw_closed sw'"
    and "sw_base sw' = RecTimeStamp (Timestamp ?cs) (TypeID ?cs) (SetPreTime now (sw_base sw))"
    and "r = Ok cs' \<Longrightarrow> cs' = ?cs"
    by (cases w; auto split: if_splits)+
qed

text \<open>The writer as a state machine: \<open>Write\<close>, one turn of \<open>SendPacket\<close>, the two actions of \<open>Close\<close>, with the log of what \<open>Write\<close> did.\<close>

inductive writer_run :: "StreamWriter \<Rightarrow> (bool \<times> Packet) list \<Rightarrow> StreamWriter \<Rightarrow> bool" for start where
  run_start: "writer_run start [] start"
| run_write: "writer_run start log sw \<Longrightarrow> sw_Write p sw = (r, sw') \<Longrightarrow>
    writer_run start (log @ [(cbuf (packetQueue sw') = cbuf (packetQueue sw) @ [p], p)]) sw'"
| run_send: "writer_run start log sw \<Longrightarrow> SendPacket_turn now ms cs sw = Some (r, sw') \<Longrightarrow> writer_run start log sw'"
| run_close_queue: "writer_run start log sw \<Longrightarrow> closeQueue sw = (Ok (), sw') \<Longrightarrow> writer_run start log sw'"
| run_close_flag: "writer_run start log sw \<Longrightarrow> writer_run start log (setClosed sw)"

lemma SendPacket_turn_spec:
  assumes "SendPacket_turn now ms cs sw = Some (r, sw')"
  shows "cbuf (packetQueue sw') = tl (cbuf (packetQueue sw))" and "keyframeNeed sw' = keyframeNeed sw"
    and "writer_inv sw \<Longrightarrow> writer_inv sw'"
proof -
  consider "sw' = sw" "cbuf (packetQueue sw) = []"
    | p ps where "cbuf (packetQueue sw) = p # ps"
        "SendPacket_one now ms p cs (sw\<lparr>packetQueue := (packetQueue sw)\<lparr>cbuf := ps\<rparr>\<rparr>) = (r, sw')"
    using assms by (auto simp: SendPacket_turn_def split: list.splits if_splits)
  then have "cbuf (packetQueue sw') = tl (cbuf (packetQueue sw)) \<and> keyframeNeed sw' = keyframeNeed sw \<and>
      (writer_inv sw \<longrightarrow> writer_inv sw')"
  proof cases
    case 2
    then show ?thesis using SendPacket_one_spec(1-3) [OF 2(2)] by (auto simp: writer_inv_def)
  qed simp
  then show "cbuf (packetQueue sw') = tl (cbuf (packetQueue sw))" and "keyframeNeed sw' = keyframeNeed sw"
    and "writer_inv sw \<Longrightarrow> writer_inv sw'" by simp_all
qed

lemma writer_inv_close: "writer_inv (setClosed sw) = writer_inv sw" "closeQueue sw = (r, sw') \<Longrightarrow> writer_inv sw' = writer_inv sw"
  by (auto simp: writer_inv_def setClosed_def closeQueue_cases split: if_splits)

lemma writer_run_inv: "writer_run start log sw \<Longrightarrow> writer_inv start \<Longrightarrow> writer_inv sw"
  by (induction rule: writer_run.induct) (auto simp: writer_inv_close dest: writer_inv_Write(1) SendPacket_turn_spec(3))

section \<open>The key-frame gate\<close>

text \<open>
  \<open>opened log\<close>: the last key frame that came was queued. \<open>gated log\<close>: every other video frame that
  was queued came when the gate was open.
\<close>

definition opened :: "(bool \<times> Packet) list \<Rightarrow> bool" where
  "opened log \<longleftrightarrow> (let keys = filter (\<lambda>(queued, p). is_key p) log in keys \<noteq> [] \<and> fst (last keys))"

definition gated :: "(bool \<times> Packet) list \<Rightarrow> bool" where
  "gated log \<longleftrightarrow> (\<forall>i<length log. fst (log ! i) \<and> PacketType (snd (log ! i)) = PacketTypeVideo \<and> \<not> is_key (snd (log ! i)) \<longrightarrow>
     opened (take i log))"

lemma opened_snoc: "opened (log @ [x]) \<longleftrightarrow> (if is_key (snd x) then fst x else opened log)"
  by (simp add: opened_def Let_def split_beta)

lemma gated_snoc:
  "gated (log @ [x]) \<longleftrightarrow> gated log \<and> (fst x \<and> PacketType (snd x) = PacketTypeVideo \<and> \<not> is_key (snd x) \<longrightarrow> opened log)"
proof -
  have old: "(log @ [x]) ! k = log ! k" if "k < length log" for k using that by (simp add: nth_append)
  show ?thesis unfolding gated_def by (auto simp: All_less_Suc old)
qed

lemma SendPacket_turn_closed:
  assumes "SendPacket_turn now ms cs sw = Some (r, sw')"
  shows "sw_closed sw \<Longrightarrow> sw_closed sw'" and "cclosed (packetQueue sw') = cclosed (packetQueue sw)"
proof -
  show "sw_closed sw \<Longrightarrow> sw_closed sw'"
    using assms by (auto simp: SendPacket_turn_def split: list.splits if_splits dest!: SendPacket_one_spec(3))
  show "cclosed (packetQueue sw') = cclosed (packetQueue sw)"
    using assms by (auto simp: SendPacket_turn_def split: list.splits if_splits dest!: SendPacket_one_spec(1))
qed

lemma writer_run_gated:
  assumes "writer_run start log sw" and "writer_inv start" and "keyframeNeed start"
  shows "gated log \<and> (sw_closed sw \<or> cclosed (packetQueue sw) \<or> keyframeNeed sw \<or> opened log)"
  using assms
proof (induction rule: writer_run.induct)
  case run_start
  then show ?case by (simp add: gated_def)
next
  case (run_write log sw p r sw')
  then show ?case
    by (auto simp: gated_snoc opened_snoc sw_Write_def try_send_def is_key_def Let_def split: if_splits)
next
  case (run_send log sw now ms cs r sw')
  with SendPacket_turn_closed [OF run_send(2)] SendPacket_turn_spec(2) [OF run_send(2)] show ?case by auto
qed (auto simp: closeQueue_cases setClosed_def split: if_splits)

text \<open>
  C10: A player never gets a video frame it cannot decode for want of the key frame: whatever packets a new
  writer is handed, however its queue is drained and filled in between, every other video frame
  that is queued comes after a key frame that was queued, with no key frame lost since. The queue
  stays within its 1024 places and \<open>Write\<close> never panics.
\<close>

theorem writer_key_frame_gate:
  assumes "writer_run (NewStreamWriter now conn i) log sw"
  shows "gated log \<and> length (cbuf (packetQueue sw)) \<le> maxQueueNum \<and> fst (sw_Write p sw) \<noteq> Panic"
proof -
  have inv: "writer_inv sw" using writer_run_inv [OF assms writer_inv_New] .
  have "keyframeNeed (NewStreamWriter now conn i)" by (simp add: NewStreamWriter_def)
  then show ?thesis
    using writer_run_gated [OF assms writer_inv_New] inv writer_inv_Write(2) [OF inv surjective_pairing]
    by (auto simp: writer_inv_def)
qed

theorem writer_key_frame_gate_witness:
  "let key = zeroPacket\<lparr>PacketType := 1, VHeader := zeroVideoHeader\<lparr>FrameType := 1\<rparr>\<rparr>;
       inter = zeroPacket\<lparr>PacketType := 1, VHeader := zeroVideoHeader\<lparr>FrameType := 2\<rparr>\<rparr>
   in gated [(False, inter), (True, key), (True, inter)]"
proof -
  define key where "key = zeroPacket\<lparr>PacketType := 1, VHeader := zeroVideoHeader\<lparr>FrameType := 1\<rparr>\<rparr>"
  define inter where "inter = zeroPacket\<lparr>PacketType := 1, VHeader := zeroVideoHeader\<lparr>FrameType := 2\<rparr>\<rparr>"
  define w where "w = NewStreamWriter 0 (NewForwardConnect (fresh_conn [])) []"
  note defs = sw_Write_def try_send_def w_def NewStreamWriter_def make_chan_def maxQueueNum_def key_def inter_def Let_def
  have r0: "writer_run w [] w" by (rule run_start)
  have a: "sw_Write inter w = (Ok (), w)" by (simp add: defs)
  from run_write [OF r0 a] have r1: "writer_run w [(False, inter)] w" by simp
  define w1 where "w1 = w\<lparr>keyframeNeed := False, packetQueue := (packetQueue w)\<lparr>cbuf := [key]\<rparr>\<rparr>"
  have b: "sw_Write key w = (Ok (), w1)" by (simp add: w1_def defs)
  from run_write [OF r1 b] have r2: "writer_run w [(False, inter), (True, key)] w1" by (simp add: w1_def w_def NewStreamWriter_def make_chan_def)
  define w2 where "w2 = w1\<lparr>packetQueue := (packetQueue w)\<lparr>cbuf := [key, inter]\<rparr>\<rparr>"
  have c: "sw_Write inter w1 = (Ok (), w2)" by (simp add: w2_def w1_def defs)
  from run_write [OF r2 c] have "writer_run w [(False, inter), (True, key), (True, inter)] w2" by (simp add: w2_def w1_def)
  from writer_key_frame_gate [OF this [unfolded w_def]] show ?thesis by (simp add: key_def inter_def Let_def)
qed

section \<open>Forwarding\<close>

lemma DemuxH_frame:
  "PacketType (snd (DemuxH p)) = PacketType p" "TimeStamp (snd (DemuxH p)) = TimeStamp p"
  "PStreamID (snd (DemuxH p)) = PStreamID p" "PData (snd (DemuxH p)) = PData p"
  by (auto simp: DemuxH_def demux_gen_def Let_def split: prod.splits res.splits)

lemma rd_SaveStatics_ok: "\<exists>pr'. rd_SaveStatics ms sid n v pr = (Ok (), pr') \<and> rd_conn pr' = rd_conn pr"
  using saveStatics_ok [of ms sid n v "ReadBWInfo pr"] by (auto simp: rd_SaveStatics_def)

text \<open>Messages that are not media are skipped.\<close>

lemma avMessage_skips:
  assumes "Reads k (fconn (rd_conn pr)) = (Ok skipped, conn)" and "\<forall>m\<in>set skipped. \<not> is_av (TypeID m)"
  shows "run_loop avMessage_turn pr = run_loop avMessage_turn (pr\<lparr>rd_conn := (rd_conn pr)\<lparr>fconn := conn\<rparr>\<rparr>)"
  using assms
proof (induction k arbitrary: pr skipped)
  case (Suc k)
  obtain m c where 1: "Read (fconn (rd_conn pr)) = (Ok m, c)" and 2: "pbind (Reads k) (\<lambda>ms. preturn (m # ms)) c = (Ok skipped, conn)"
    using Suc.prems(1) unfolding Reads.simps by (rule pbind_OkE)
  obtain ms c' where ms: "Reads k c = (Ok ms, c')" and 3: "preturn (m # ms) c' = (Ok skipped, conn)" using 2 by (rule pbind_OkE)
  have eq: "skipped = m # ms" "c' = conn" using 3 by (auto simp: preturn_def)
  let ?pr = "pr\<lparr>rd_conn := (rd_conn pr)\<lparr>fconn := c\<rparr>\<rparr>"
  have "avMessage_turn pr = (Ok None, ?pr)" using 1 Suc.prems(2) eq(1) by (simp add: avMessage_turn_def fc_Read_def)
  then have "run_loop avMessage_turn pr = run_loop avMessage_turn ?pr" by (rule run_loop_simps(2))
  moreover have "run_loop avMessage_turn ?pr = run_loop avMessage_turn (?pr\<lparr>rd_conn := (rd_conn ?pr)\<lparr>fconn := conn\<rparr>\<rparr>)"
    by (rule Suc.IH [of ?pr ms]) (use ms eq Suc.prems(2) in simp_all)
  ultimately show ?case by simp
next
  case 0
  then have "pr\<lparr>rd_conn := (rd_conn pr)\<lparr>fconn := conn\<rparr>\<rparr> = pr" by (cases pr; cases "rd_conn pr") auto
  then show ?case by simp
qed

lemma rd_Read_after_skip:
  assumes "Reads k (fconn (rd_conn pr)) = (Ok skipped, conn)" and "\<forall>m\<in>set skipped. \<not> is_av (TypeID m)"
    and "Read conn = (r, conn')"
  shows "r = Ok c \<Longrightarrow> is_av (TypeID c) \<Longrightarrow>
      \<exists>pr'. rd_Read now ms p pr = Some (Ok (), snd (DemuxH (fillPacket c p)), pr') \<and> fconn (rd_conn pr') = conn'"
    and "r = Err e \<Longrightarrow> \<exists>pr'. rd_Read now ms p pr = Some (Err e, p, pr') \<and> fconn (rd_conn pr') = conn'"
    and "r = Panic \<Longrightarrow> \<exists>pr'. rd_Read now ms p pr = Some (Ok (), p, pr') \<and> fconn (rd_conn pr') = conn'"
proof -
  let ?pr = "pr\<lparr>rd_base := SetPreTime now (rd_base pr)\<rparr>"
  let ?pr1 = "?pr\<lparr>rd_conn := (rd_conn pr)\<lparr>fconn := conn\<rparr>\<rparr>" and ?pr2 = "?pr\<lparr>rd_conn := (rd_conn pr)\<lparr>fconn := conn'\<rparr>\<rparr>"
  have skip: "run_loop avMessage_turn ?pr = run_loop avMessage_turn ?pr1"
    using avMessage_skips [of k ?pr skipped conn] assms(1,2) by simp
  have rd: "fc_Read (rd_conn ?pr1) = (r, rd_conn ?pr2)" using assms(3) by (simp add: fc_Read_def)
  show "\<exists>pr'. rd_Read now ms p pr = Some (Ok (), snd (DemuxH (fillPacket c p)), pr') \<and> fconn (rd_conn pr') = conn'"
    if "r = Ok c" "is_av (TypeID c)"
  proof -
    have "avMessage_turn ?pr1 = (Ok (Some c), ?pr2)" using rd that by (simp add: avMessage_turn_def)
    then have "run_loop avMessage_turn ?pr = Some (Ok c, ?pr2)" unfolding skip by (rule run_loop_simps(1))
    then show ?thesis
      using rd_SaveStatics_ok [of ms "PStreamID (fillPacket c p)" "of_nat (length (PData (fillPacket c p)))" "TypeID c = TAG_VIDEO" ?pr2]
      by (auto simp: rd_Read_def Let_def)
  qed
  show "\<exists>pr'. rd_Read now ms p pr = Some (Err e, p, pr') \<and> fconn (rd_conn pr') = conn'" if "r = Err e"
  proof -
    have "avMessage_turn ?pr1 = (Err e, ?pr2)" using rd that by (simp add: avMessage_turn_def)
    then have "run_loop avMessage_turn ?pr = Some (Err e, ?pr2)" unfolding skip by (rule run_loop_simps(3))
    then show ?thesis by (simp add: rd_Read_def)
  qed
  show "\<exists>pr'. rd_Read now ms p pr = Some (Ok (), p, pr') \<and> fconn (rd_conn pr') = conn'" if "r = Panic"
  proof -
    have "avMessage_turn ?pr1 = (Panic, ?pr2)" using rd that by (simp add: avMessage_turn_def)
    then have "run_loop avMessage_turn ?pr = Some (Panic, ?pr2)" unfolding skip by (rule run_loop_simps(4))
    then show ?thesis by (simp add: rd_Read_def)
  qed
qed

lemma rd_Read_av:
  assumes "Read (fconn (rd_conn pr)) = (Ok c, conn)" and "is_av (TypeID c)"
  shows "\<exists>pr'. rd_Read now ms p pr = Some (Ok (), snd (DemuxH (fillPacket c p)), pr') \<and> fconn (rd_conn pr') = conn"
  using rd_Read_after_skip(1) [of 0 pr "[]", OF _ _ assms(1) refl assms(2)] by simp

text \<open>
  C23: \<open>StreamReader.Read\<close> returns on every finite input (what the publisher sent until it closed the connection) and never panics. It
  skips any number of messages that carry no media: when \<open>skipped\<close> are the messages that the connection gives first, none of them audio,
  video or data, then the outcome is decided by the next \<open>Read\<close> of the connection. A media message gives success with the packet of
  that message, its header parsed, and the connection is just behind it; an error is returned and the packet is untouched; a panic
  of the connection is reported as success, with the packet untouched.
\<close>

theorem reader_returns:
  "(\<exists>r p' pr'. rd_Read now ms p pr = Some (r, p', pr') \<and> r \<noteq> Panic) \<and>
   (\<forall>k skipped conn r conn'. Reads k (fconn (rd_conn pr)) = (Ok skipped, conn) \<and> (\<forall>m\<in>set skipped. \<not> is_av (TypeID m)) \<and> Read conn = (r, conn') \<longrightarrow>
      (\<forall>c. r = Ok c \<and> is_av (TypeID c) \<longrightarrow>
        (\<exists>pr'. rd_Read now ms p pr = Some (Ok (), snd (DemuxH (fillPacket c p)), pr') \<and> fconn (rd_conn pr') = conn')) \<and>
      (\<forall>e. r = Err e \<longrightarrow> (\<exists>pr'. rd_Read now ms p pr = Some (Err e, p, pr') \<and> fconn (rd_conn pr') = conn')) \<and>
      (r = Panic \<longrightarrow> (\<exists>pr'. rd_Read now ms p pr = Some (Ok (), p, pr') \<and> fconn (rd_conn pr') = conn')))"
proof (intro conjI allI impI)
  let ?pr = "pr\<lparr>rd_base := SetPreTime now (rd_base pr)\<rparr>"
  obtain q pr1 where run: "run_loop avMessage_turn ?pr = Some (q, pr1)" using reader_loop.returns by blast
  show "\<exists>r p' pr'. rd_Read now ms p pr = Some (r, p', pr') \<and> r \<noteq> Panic"
  proof (cases q)
    case (Ok c)
    obtain pr2 where "rd_SaveStatics ms (PStreamID (fillPacket c p)) (of_nat (length (PData (fillPacket c p)))) (TypeID c = TAG_VIDEO) pr1 = (Ok (), pr2)"
      using rd_SaveStatics_ok by blast
    then show ?thesis using Ok run by (simp add: rd_Read_def Let_def)
  qed (use run in \<open>simp_all add: rd_Read_def\<close>)
qed (auto dest: rd_Read_after_skip)

theorem reader_returns_witness:
  "\<exists>pr'. rd_Read 0 0 zeroPacket (NewStreamReader 0 (NewForwardConnect (fresh_conn (stream_bytes 128 [sample_msg 20 3 0 [5], sample_msg 9 6 40 [0x17, 0, 0, 0, 0]]))) []) =
    Some (Ok (), snd (DemuxH (zeroPacket\<lparr>PacketType := 1, TimeStamp := 40, PStreamID := 1, PData := [0x17, 0, 0, 0, 0], PArr := Some (6, 1)\<rparr>)), pr')"
proof -
  let ?conn = "fresh_conn (stream_bytes 128 [sample_msg 20 3 0 [5], sample_msg 9 6 40 [0x17, 0, 0, 0, 0]])"
  have "case Reads 1 ?conn of (Ok [m], conn) \<Rightarrow> TypeID m = 20 \<and>
      (case Read conn of (Ok c, _) \<Rightarrow> TypeID c = 9 \<and> StreamID c = 1 \<and> Timestamp c = 40 \<and> Data c = [0x17, 0, 0, 0, 0] \<and> CSID c = 6 \<and> DataRef c = 1
       | _ \<Rightarrow> False) | _ \<Rightarrow> False" by code_simp
  then obtain m conn c conn' where rd: "Reads 1 ?conn = (Ok [m], conn)" "Read conn = (Ok c, conn')"
    and t: "TypeID m = 20" "TypeID c = 9" "StreamID c = 1" "Timestamp c = 40" "Data c = [0x17, 0, 0, 0, 0]" "CSID c = 6" "DataRef c = 1"
    by (auto split: prod.splits res.splits list.splits)
  have f: "fillPacket c zeroPacket = zeroPacket\<lparr>PacketType := 1, TimeStamp := 40, PStreamID := 1, PData := [0x17, 0, 0, 0, 0], PArr := Some (6, 1)\<rparr>"
    using t by (simp add: fillPacket_def zeroPacket_def Let_def)
  have "Reads 1 (fconn (rd_conn (NewStreamReader 0 (NewForwardConnect ?conn) []))) = (Ok [m], conn)"
    using rd(1) by (simp add: NewStreamReader_def NewForwardConnect_def del: Reads.simps)
  with reader_returns [of 0 0 zeroPacket "NewStreamReader 0 (NewForwardConnect ?conn) []"] rd(2) t(1,2) f show ?thesis
    by (force simp: is_av_def simp del: Reads.simps)
qed

section \<open>Two calls of Close\<close>

lemma two_Closes_swap: "two_Closes sched a b sw = two_Closes (map Not sched) b a sw"
  by (induction sched arbitrary: a b sw) (simp_all add: pbind_def split: prod.splits res.splits)

lemma two_Closes_done:
  "sw_closed sw \<Longrightarrow> a \<noteq> AtClose \<Longrightarrow> b \<noteq> AtClose \<Longrightarrow> fst (two_Closes sched a b sw) = Ok ()"
proof (induction sched arbitrary: a b sw)
  case (Cons x sched)
  then show ?case by (cases a; cases b) (simp_all add: pbind_def setClosed_def)
qed simp

lemma two_Closes_second:
  "cclosed (packetQueue sw) \<Longrightarrow> a = AtFlag \<or> a = Closed \<Longrightarrow>
   fst (two_Closes sched a AtClose sw) = (if False\<in>set sched then Panic else Ok ())"
proof (induction sched arbitrary: a sw)
  case (Cons x sched)
  then show ?case by (cases a) (auto simp: pbind_def setClosed_def closeQueue_cases)
qed simp

lemma two_Closes_both:
  "\<not> cclosed (packetQueue sw) \<Longrightarrow>
   fst (two_Closes sched AtClose AtClose sw) = (if True\<in>set sched \<and> False\<in>set sched then Panic else Ok ())"
proof (cases sched)
  case (Cons x xs)
  assume "\<not> cclosed (packetQueue sw)"
  then show ?thesis
    using Cons two_Closes_second [of _ AtFlag xs] two_Closes_second [of _ AtFlag "map Not xs"] two_Closes_swap [of xs AtClose AtFlag]
    by (cases x) (auto simp: pbind_def closeQueue_cases preturn_def)
qed simp

text \<open>The first call leads: what is left depends on whether the other one makes its test before the flag is set.\<close>

lemma two_Closes_flag:
  assumes "cclosed (packetQueue sw)" and "\<not> sw_closed sw"
  shows "fst (two_Closes sched AtFlag AtTest sw) = (case sched of False # xs \<Rightarrow> if False \<in> set xs then Panic else Ok () | _ \<Rightarrow> Ok ())"
proof (cases sched)
  case (Cons x xs)
  then show ?thesis
    using assms two_Closes_second [of sw AtFlag xs] two_Closes_done [of "setClosed sw" Closed AtTest xs]
    by (cases x) (simp_all add: pbind_def setClosed_def)
qed simp

lemma two_Closes_tested:
  assumes "\<not> cclosed (packetQueue sw)" and "\<not> sw_closed sw"
  shows "fst (two_Closes sched AtClose AtTest sw) =
    (case sched of True # False # xs \<Rightarrow> if False \<in> set xs then Panic else Ok ()
     | False # xs \<Rightarrow> if True \<in> set xs \<and> False \<in> set xs then Panic else Ok () | _ \<Rightarrow> Ok ())"
proof (cases sched)
  case (Cons x xs)
  let ?sw = "sw\<lparr>packetQueue := (packetQueue sw)\<lparr>cclosed := True\<rparr>\<rparr>"
  have "fst (two_Closes xs AtFlag AtTest ?sw) = (case xs of False # ys \<Rightarrow> if False \<in> set ys then Panic else Ok () | _ \<Rightarrow> Ok ())"
    by (rule two_Closes_flag) (use assms in simp_all)
  then show ?thesis
    using Cons assms two_Closes_both [of sw xs] by (cases x) (auto simp: pbind_def closeQueue_cases preturn_def split: list.splits)
qed simp

text \<open>When the first call makes the first move.\<close>

lemma two_Closes_lead:
  assumes "\<not> sw_closed sw" and "\<not> cclosed (packetQueue sw)"
  shows "fst (two_Closes (True # sched) AtTest AtTest sw) = Panic \<longleftrightarrow>
    1 \<le> count_list sched True \<and> 2 \<le> count_list sched False \<and> length (takeWhile id sched) < 2"
proof -
  have c: "x \<in> set xs \<longleftrightarrow> 1 \<le> count_list xs x" for x and xs :: "bool list"
    using count_list_0_iff [of xs x] by linarith
  have "fst (two_Closes (True # sched) AtTest AtTest sw) = fst (two_Closes sched AtClose AtTest sw)" using assms by (simp add: pbind_def)
  also have "... = Panic \<longleftrightarrow> 1 \<le> count_list sched True \<and> 2 \<le> count_list sched False \<and> length (takeWhile id sched) < 2"
    unfolding two_Closes_tested [OF assms(2,1)] by (auto simp: c split: list.splits bool.splits)
  finally show ?thesis .
qed

text \<open>
  C32: \<open>StreamWriter.Close\<close> is not safe to call from two goroutines. Two calls on a writer that is open, taking their three actions (test,
  close of the queue, assignment of the flag) in any order: the process panics on the second close exactly when both calls get to their
  second action and neither has finished before the other one starts. A call that runs alone, or with its other call before or
  after it, closes the writer and does not panic; \<open>sw_Close\<close> is such a call, and with \<open>raced\<close> the one that is overtaken.
\<close>

theorem close_race:
  assumes "\<not> sw_closed sw" and "\<not> cclosed (packetQueue sw)"
  shows "(fst (two_Closes sched AtTest AtTest sw) = Panic \<longleftrightarrow>
      2 \<le> count_list sched True \<and> 2 \<le> count_list sched False \<and> length (takeWhile (\<lambda>x. x = hd sched) sched) < 3) \<and>
    sw_Close (\<lambda>_. False) sw = two_Closes [True, True, True] AtTest AtTest sw \<and>
    fst (sw_Close (\<lambda>_. True) sw) = fst (two_Closes [True, False, False, True] AtTest AtTest sw)"
proof (intro conjI)
  show "fst (two_Closes sched AtTest AtTest sw) = Panic \<longleftrightarrow>
      2 \<le> count_list sched True \<and> 2 \<le> count_list sched False \<and> length (takeWhile (\<lambda>x. x = hd sched) sched) < 3"
  proof (cases sched)
    case (Cons x xs)
    show ?thesis
    proof (cases x)
      case True
      then show ?thesis using Cons two_Closes_lead [OF assms, of xs] by (auto simp: id_def)
    next
      case False
      have n: "count_list (map Not xs) y = count_list xs (\<not> y)" for y by (induction xs) auto
      have t: "length (takeWhile id (map Not xs)) = length (takeWhile (\<lambda>x. \<not> x) xs)" by (simp add: takeWhile_map comp_def)
      have "fst (two_Closes sched AtTest AtTest sw) = fst (two_Closes (True # map Not xs) AtTest AtTest sw)"
        using Cons False two_Closes_swap [of sched AtTest AtTest sw] by simp
      then show ?thesis using Cons False two_Closes_lead [OF assms, of "map Not xs"] n t by auto
    qed
  qed simp
  show "sw_Close (\<lambda>_. False) sw = two_Closes [True, True, True] AtTest AtTest sw"
    using assms by (simp add: sw_Close_def pbind_def preturn_def closeQueue_cases)
  show "fst (sw_Close (\<lambda>_. True) sw) = fst (two_Closes [True, False, False, True] AtTest AtTest sw)"
    using assms by (simp add: sw_Close_def pbind_def preturn_def closeQueue_cases)
qed

theorem close_race_witness:
  "fst (two_Closes [True, False, True, False] AtTest AtTest (NewStreamWriter 0 (NewForwardConnect (fresh_conn [])) [])) = Panic \<and>
   fst (two_Closes [True, True, True, False, False, False] AtTest AtTest (NewStreamWriter 0 (NewForwardConnect (fresh_conn [])) [])) \<noteq> Panic"
proof -
  let ?w = "NewStreamWriter 0 (NewForwardConnect (fresh_conn [])) []"
  have "\<not> sw_closed ?w" "\<not> cclosed (packetQueue ?w)" by (simp_all add: NewStreamWriter_def make_chan_def)
  from close_race [OF this, of "[True, False, True, False]"] close_race [OF this, of "[True, True, True, False, False, False]"]
  show ?thesis by simp
qed

end
