(* ===== verification/RtmpStreams.thy ===== *)
theory RtmpStreams
  imports StreamRw
begin

text \<open>
  A stream, \<open>protocol/stream.go\<close>, and the registry of streams, \<open>protocol/stream_handler.go\<close>. The select
  loop of a stream is a state machine: each case of the \<open>select\<close> is a function on the stream, and so
  is one turn of the goroutine that reads from the publisher. A writer or reader that was added
  waits in \<open>writerChan\<close> or \<open>readerChan\<close> (in the channel or in a goroutine that blocks on it), and
  the loop takes any one of them. Clock readings and the random identifier are arguments; logging
  is left out.

  What is one step here and several actions in the code: a turn of \<open>startRead\<close> (read a packet, put it into the cache, send it to the
  channel). Only that goroutine writes the cache and sends to the channel, so for one reading goroutine the turn can be
  seen as one step; two of them at the same time (a new publisher whose predecessor is not waited for) are not interleaved inside a
  turn. \<open>HandleConnect\<close> holds the lock of the registry only inside \<open>getOrCreate\<close>; as one step it is a
  call that is not overtaken by the removal of the stream between \<open>getOrCreate\<close> and \<open>AddReader\<close> or \<open>AddWriter\<close>. \<open>Close\<close> of a player is
  not one step: see \<open>raced\<close> in theory \<open>StreamRw\<close>.
\<close>

section \<open>A stream\<close>

record StreamInfo =
  si_App :: bytes
  si_Name :: bytes
  si_URL :: bytes

record RtmpStream =
  st_streamID :: bytes
  isStart :: bool
  st_cache :: Cache
  reader :: "StreamReader option"
  writers :: "StreamWriter list"
  streamInfo :: StreamInfo
  pktChan :: "Packet chan"
  writerChan :: "StreamWriter list"
  readerChan :: "StreamReader list"

definition NewStream :: "bytes \<Rightarrow> int \<Rightarrow> StreamInfo \<Rightarrow> RtmpStream" where
  "NewStream newId gopNum info = \<lparr>st_streamID = newId, isStart = False, st_cache = NewCache gopNum, reader = None,
     writers = [], streamInfo = info, pktChan = make_chan 16, writerChan = [], readerChan = []\<rparr>"

definition stream_ID :: "RtmpStream \<Rightarrow> bytes" where
  "stream_ID s = (if reader s \<noteq> None then st_streamID s else [])"

definition GetReader :: "RtmpStream \<Rightarrow> StreamReader option" where
  "GetReader s = reader s"

definition AddReader :: "StreamReader \<Rightarrow> RtmpStream \<Rightarrow> RtmpStream" where
  "AddReader r s = s\<lparr>readerChan := readerChan s @ [r]\<rparr>"

definition AddWriter :: "StreamWriter \<Rightarrow> RtmpStream \<Rightarrow> RtmpStream" where
  "AddWriter w s = s\<lparr>writerChan := writerChan s @ [w]\<rparr>"

text \<open>
  One turn of \<open>startRead\<close>: the packet goes into the cache and, if there is room, into the channel of
  the stream. \<open>Ok False\<close> ends the goroutine.
\<close>

definition startRead_turn :: "int \<Rightarrow> u64 \<Rightarrow> RtmpStream \<Rightarrow> bool res \<times> RtmpStream" where
  "startRead_turn now ms s =
     (case reader s of
        None \<Rightarrow> (Panic, s)
      | Some rd0 \<Rightarrow>
          (case rd_Read now ms zeroPacket rd0 of
             None \<Rightarrow> (Panic, s)
           | Some (Ok _, pkt, rd1) \<Rightarrow>
               (let s1 = s\<lparr>reader := Some rd1, st_cache := cache_Write pkt (st_cache s)\<rparr> in
                case try_send pkt (pktChan s1) of
                  (Ok _, ch) \<Rightarrow> (Ok True, s1\<lparr>pktChan := ch\<rparr>)
                | (Err e, ch) \<Rightarrow> (Err e, s1)
                | (Panic, ch) \<Rightarrow> (Panic, s1))
           | Some (Err e, pkt, rd1) \<Rightarrow> (Ok False, s\<lparr>reader := Some rd1\<rparr>)
           | Some (Panic, pkt, rd1) \<Rightarrow> (Panic, s\<lparr>reader := Some rd1\<rparr>)))"

section \<open>The select loop\<close>

datatype loop = Continue | Return

text \<open>
  \<open>case pkt := <-s.pktChan\<close>: the packet goes to every writer; one that fails is closed, replaced by
  \<open>nil\<close> and then cut out of the slice. \<open>Close\<close> after a failed \<open>Write\<close> has the same outcome whether it is overtaken or not
  (\<open>Close_after_failed_Write\<close>).
\<close>

fun writeAll :: "Packet \<Rightarrow> StreamWriter list \<Rightarrow> StreamWriter option list res" where
  "writeAll pkt [] = Ok []"
| "writeAll pkt (w # ws) =
     (case sw_Write pkt w of
        (Ok _, w') \<Rightarrow> res_bind (writeAll pkt ws) (\<lambda>os. Ok (Some w' # os))
      | (Err e, w') \<Rightarrow>
          (case sw_Close (\<lambda>_. False) w' of
             (Ok _, _) \<Rightarrow> res_bind (writeAll pkt ws) (\<lambda>os. Ok (None # os))
           | (Err e, _) \<Rightarrow> Err e
           | (Panic, _) \<Rightarrow> Panic)
      | (Panic, w') \<Rightarrow> Panic)"

fun cutNil :: "'a option list \<Rightarrow> 'a list" where
  "cutNil [] = []"
| "cutNil (None # os) = cutNil os"
| "cutNil (Some w # os) = w # cutNil os"

definition onPacket :: "RtmpStream \<Rightarrow> loop res \<times> RtmpStream" where
  "onPacket s =
     (case cbuf (pktChan s) of
        [] \<Rightarrow> (Ok Continue, s)
      | pkt # rest \<Rightarrow>
          (let s1 = s\<lparr>pktChan := (pktChan s)\<lparr>cbuf := rest\<rparr>\<rparr> in
           case writeAll pkt (writers s1) of
             Ok os \<Rightarrow> (Ok Continue, s1\<lparr>writers := cutNil os\<rparr>)
           | Err e \<Rightarrow> (Err e, s1)
           | Panic \<Rightarrow> (Panic, s1)))"

text \<open>
  \<open>case w := <-s.writerChan\<close>: a player joins; it gets the cached headers first. The error branch is for a queue without
  room; in a run the queue of a waiting player is empty (\<open>onWriter_spec\<close>).
\<close>

definition onWriter :: "nat \<Rightarrow> RtmpStream \<Rightarrow> loop res \<times> RtmpStream" where
  "onWriter i s =
     (let w = writerChan s ! i; s1 = s\<lparr>writerChan := take i (writerChan s) @ drop (Suc i) (writerChan s)\<rparr> in
      case cache_Send (st_cache s1) (packetQueue w) of
        (Ok _, q) \<Rightarrow> (Ok Continue, s1\<lparr>writers := writers s1 @ [w\<lparr>packetQueue := q\<rparr>]\<rparr>)
      | (Err e, q) \<Rightarrow> (case sw_Close (\<lambda>_. False) (w\<lparr>packetQueue := q\<rparr>) of (Panic, _) \<Rightarrow> (Panic, s1) | _ \<Rightarrow> (Ok Return, s1))
      | (Panic, q) \<Rightarrow> (Panic, s1))"

text \<open>
  \<open>case r := <-s.readerChan\<close>: a publisher takes over. The old one is closed, its goroutine has ended,
  the packets still in the channel are thrown away and every writer's time base is recomputed.
\<close>

definition onReader :: "nat \<Rightarrow> RtmpStream \<Rightarrow> loop res \<times> RtmpStream" where
  "onReader i s =
     (let r = readerChan s ! i;
          s1 = s\<lparr>readerChan := take i (readerChan s) @ drop (Suc i) (readerChan s)\<rparr>;
          s2 = (if reader s1 \<noteq> None
                then s1\<lparr>pktChan := (pktChan s1)\<lparr>cbuf := []\<rparr>,
                   writers := map (\<lambda>w. w\<lparr>sw_base := CalcBaseTimestamp (sw_base w)\<rparr>) (writers s1)\<rparr>
                else s1)
      in (Ok Continue, s2\<lparr>reader := Some r\<rparr>))"

text \<open>
  \<open>case <-checkTicker.C\<close>: without a living reader the stream ends; writers that timed out are closed. \<open>raced\<close>: the players whose
  own goroutine closes the queue just between the test and the \<open>close\<close> of this call.
\<close>

fun aliveWriters :: "(StreamWriter \<Rightarrow> bool) \<Rightarrow> int \<Rightarrow> StreamWriter list \<Rightarrow> StreamWriter list res" where
  "aliveWriters raced now [] = Ok []"
| "aliveWriters raced now (w # ws) =
     (if \<not> Alive now (sw_base w) then
        (case sw_Close raced w of (Ok _, _) \<Rightarrow> aliveWriters raced now ws | (Err e, _) \<Rightarrow> Err e | (Panic, _) \<Rightarrow> Panic)
      else res_bind (aliveWriters raced now ws) (\<lambda>ws'. Ok (w # ws')))"

definition onTick :: "(StreamWriter \<Rightarrow> bool) \<Rightarrow> int \<Rightarrow> RtmpStream \<Rightarrow> loop res \<times> RtmpStream" where
  "onTick raced now s =
     (case reader s of
        None \<Rightarrow> (Ok Return, s)
      | Some r \<Rightarrow>
          if \<not> Alive now (rd_base r) then (Ok Return, s)
          else (case aliveWriters raced now (writers s) of
              Ok ws \<Rightarrow> (Ok Continue, s\<lparr>writers := ws\<rparr>) | Err e \<Rightarrow> (Err e, s) | Panic \<Rightarrow> (Panic, s)))"

text \<open>\<open>close\<close>: the reader, everything that still waits in the channels, and the writers.\<close>

fun closeAll :: "(StreamWriter \<Rightarrow> bool) \<Rightarrow> StreamWriter list \<Rightarrow> StreamWriter list res" where
  "closeAll raced [] = Ok []"
| "closeAll raced (w # ws) =
     (case sw_Close raced w of (Ok _, w') \<Rightarrow> res_bind (closeAll raced ws) (\<lambda>ws'. Ok (w' # ws')) | (Err e, _) \<Rightarrow> Err e | (Panic, _) \<Rightarrow> Panic)"

definition stream_close :: "(StreamWriter \<Rightarrow> bool) \<Rightarrow> RtmpStream \<Rightarrow> unit res \<times> RtmpStream" where
  "stream_close raced s =
     (case res_bind (closeAll raced (writerChan s)) (\<lambda>_. closeAll raced (writers s)) of
        Ok ws \<Rightarrow> (Ok (), s\<lparr>writerChan := [], readerChan := [], writers := ws\<rparr>)
      | Err e \<Rightarrow> (Err e, s) | Panic \<Rightarrow> (Panic, s))"

section \<open>The registry\<close>

type_synonym StreamHandler = "bytes \<rightharpoonup> RtmpStream"

definition NewStreamHandler :: StreamHandler where
  "NewStreamHandler = (\<lambda>_. None)"

definition streamKey :: "StreamInfo \<Rightarrow> bytes" where
  "streamKey info = si_App info @ [0x5f] @ si_Name info"

definition getOrCreate :: "bytes \<Rightarrow> int \<Rightarrow> StreamInfo \<Rightarrow> StreamHandler \<Rightarrow> RtmpStream \<times> StreamHandler" where
  "getOrCreate newId gopNum info h =
     (case h (streamKey info) of
        Some s \<Rightarrow> (s, h)
      | None \<Rightarrow> (let s = NewStream newId gopNum info in (s, h(streamKey info \<mapsto> s))))"

definition handler_remove :: "bytes \<Rightarrow> StreamHandler \<Rightarrow> StreamHandler" where
  "handler_remove key h = (if h key \<noteq> None then h(key := None) else h)"

text \<open>\<open>GetStreams\<close> iterates over the map; \<open>keys\<close> is the order in which the iteration comes to the keys.\<close>

definition GetStreams :: "bytes list \<Rightarrow> StreamHandler \<Rightarrow> RtmpStream list" where
  "GetStreams keys h = List.map_filter h keys"

text \<open>The stream in the map is the one the connection is added to (the code holds a pointer to it).\<close>

definition HandleConnect :: "bytes \<Rightarrow> int \<Rightarrow> int \<Rightarrow> ForwardConnect \<Rightarrow> StreamHandler \<Rightarrow> unit res \<times> StreamHandler" where
  "HandleConnect newId gopNum now conn h =
     (case GetStreamInfo conn of (app, name, url) \<Rightarrow>
       (let info = \<lparr>si_App = app, si_Name = name, si_URL = url\<rparr>;
            (stream, h1) = getOrCreate newId gopNum info h in
        if IsPublisher conn
        then (Ok (), h1(streamKey info \<mapsto> AddReader (NewStreamReader now conn (stream_ID stream)) stream))
        else (Ok (), h1(streamKey info \<mapsto> AddWriter (NewStreamWriter now conn (stream_ID stream)) stream))))"

definition streamLoop_return :: "(StreamWriter \<Rightarrow> bool) \<Rightarrow> RtmpStream \<Rightarrow> StreamHandler \<Rightarrow> unit res \<times> RtmpStream \<times> StreamHandler" where
  "streamLoop_return raced s h =
     (case stream_close raced s of (r, s') \<Rightarrow> (r, s', handler_remove (streamKey (streamInfo s)) h))"

section \<open>Runs of a stream\<close>

text \<open>
  What the goroutines of a writer do on their own: send, read from the player, and the two actions of \<open>Close\<close>, one after the other.
  (The test before them may have been made any time earlier, also before the sender set \<open>closed\<close>.)
\<close>

inductive writer_step :: "StreamWriter \<Rightarrow> StreamWriter \<Rightarrow> bool" where
  "SendPacket_turn now ms cs w = Some (r, w') \<Longrightarrow> writer_step w w'"
| "onWriterConn fc_Read w = (r, w') \<Longrightarrow> writer_step w w'"
| "closeQueue w = (Ok (), w') \<Longrightarrow> writer_step w w'"
| "cclosed (packetQueue w) \<Longrightarrow> writer_step w (setClosed w)"

text \<open>\<open>stream_run s0 ps s\<close>: the stream came from \<open>s0\<close> to \<open>s\<close>, and \<open>ps\<close> are the packets read from its publishers.\<close>

inductive stream_run :: "RtmpStream \<Rightarrow> Packet list \<Rightarrow> RtmpStream \<Rightarrow> bool" for s0 where
  stream_start: "stream_run s0 [] s0"
| stream_read: "stream_run s0 ps s \<Longrightarrow> reader s = Some r \<Longrightarrow> rd_Read now ms zeroPacket r = Some (Ok (), p, r') \<Longrightarrow>
    startRead_turn now ms s = (x, s') \<Longrightarrow> stream_run s0 (ps @ [p]) s'"
| stream_read_err: "stream_run s0 ps s \<Longrightarrow> reader s = Some r \<Longrightarrow> rd_Read now ms zeroPacket r = Some (Err e, p, r') \<Longrightarrow>
    startRead_turn now ms s = (x, s') \<Longrightarrow> stream_run s0 ps s'"
| stream_add_reader: "stream_run s0 ps s \<Longrightarrow> stream_run s0 ps (AddReader r s)"
| stream_add_writer: "stream_run s0 ps s \<Longrightarrow> stream_run s0 ps (AddWriter (NewStreamWriter now conn i) s)"
| stream_packet: "stream_run s0 ps s \<Longrightarrow> onPacket s = (Ok Continue, s') \<Longrightarrow> stream_run s0 ps s'"
| stream_writer: "stream_run s0 ps s \<Longrightarrow> i < length (writerChan s) \<Longrightarrow> onWriter i s = (Ok Continue, s') \<Longrightarrow> stream_run s0 ps s'"
| stream_reader: "stream_run s0 ps s \<Longrightarrow> i < length (readerChan s) \<Longrightarrow> onReader i s = (Ok Continue, s') \<Longrightarrow> stream_run s0 ps s'"
| stream_tick: "stream_run s0 ps s \<Longrightarrow> onTick raced now s = (Ok Continue, s') \<Longrightarrow> stream_run s0 ps s'"
| stream_active: "stream_run s0 ps s \<Longrightarrow> i < length (writers s) \<Longrightarrow> writer_step (writers s ! i) w \<Longrightarrow>
    stream_run s0 ps (s\<lparr>writers := (writers s)[i := w]\<rparr>)"
| stream_waiting: "stream_run s0 ps s \<Longrightarrow> i < length (writerChan s) \<Longrightarrow> writer_step (writerChan s ! i) w \<Longrightarrow>
    stream_run s0 ps (s\<lparr>writerChan := (writerChan s)[i := w]\<rparr>)"

section \<open>The invariant\<close>

definition stream_inv :: "Packet list \<Rightarrow> RtmpStream \<Rightarrow> bool" where
  "stream_inv ps s \<longleftrightarrow> cache_holds ps (st_cache s) \<and> (\<forall>w\<in>set (writers s). writer_inv w) \<and>
     (\<forall>w\<in>set (writerChan s). writer_inv w \<and> cbuf (packetQueue w) = []) \<and>
     chan_ok (pktChan s) \<and> ccap (pktChan s) = 16 \<and> \<not> cclosed (pktChan s)"

lemma writer_step_inv:
  assumes "writer_step w w'" and "writer_inv w"
  shows "writer_inv w'" and "cbuf (packetQueue w) = [] \<Longrightarrow> cbuf (packetQueue w') = []"
proof -
  have "writer_inv w' \<and> (cbuf (packetQueue w) = [] \<longrightarrow> cbuf (packetQueue w') = [])"
    using assms
  proof cases
    case (1 now ms cs r)
    then show ?thesis using SendPacket_turn_spec [OF 1] assms(2) by simp
  next
    case (2 r)
    from onWriterConn_frame [OF 2] show ?thesis using assms(2) by (metis writer_inv_conn StreamWriter.select_convs(6) StreamWriter.surjective StreamWriter.update_convs(5))
  next
    case 3
    then show ?thesis using assms(2) by (auto simp: writer_inv_def closeQueue_cases split: if_splits)
  next
    case 4
    then show ?thesis using assms(2) by (simp add: writer_inv_def setClosed_def)
  qed
  then show "writer_inv w'" and "cbuf (packetQueue w) = [] \<Longrightarrow> cbuf (packetQueue w') = []" by simp_all
qed

lemma writeAll_spec:
  "\<forall>w\<in>set ws. writer_inv w \<Longrightarrow>
   writeAll p ws =
     (if \<exists>w\<in>set ws. torn (\<lambda>_. False) w \<and> \<not> refuses p w then Panic
      else Ok (map (\<lambda>w. if sw_closed w then None else Some (snd (sw_Write p w))) ws))"
proof (induction ws)
  case (Cons w ws)
  obtain r w' where w': "sw_Write p w = (r, w')" by fastforce
  have inv: "writer_inv w" using Cons.prems by simp
  note spec = writer_inv_Write [OF inv w']
  show ?case
  proof (cases r)
    case (Ok u)
    then have "\<not> sw_closed w" "\<not> (torn (\<lambda>_. False) w \<and> \<not> refuses p w)" using spec(3) by (auto simp: torn_def)
    then show ?thesis using Cons Ok w' by auto
  next
    case (Err e)
    obtain x w'' where c: "sw_Close (\<lambda>_. False) w' = (x, w'')" by fastforce
    have x: "x = (if sw_closed w then Ok () else Panic)"
      using Close_after_failed_Write [of p w e w' "\<lambda>_. False"] w' Err c by simp
    have t: "torn (\<lambda>_. False) w \<and> \<not> refuses p w \<longleftrightarrow> \<not> sw_closed w" using spec(3) Err by (auto simp: torn_def)
    show ?thesis using Cons Err w' c x t by (cases "sw_closed w") auto
  qed (use spec(2) in simp)
qed simp

lemma cutNil_map: "cutNil (map (\<lambda>w. if P w then None else Some (f w)) ws) = map f (filter (\<lambda>w. \<not> P w) ws)"
  by (induction ws) simp_all

lemma aliveWriters_spec:
  "aliveWriters raced now ws =
     (if \<exists>w\<in>set ws. \<not> Alive now (sw_base w) \<and> torn raced w then Panic
      else Ok (filter (\<lambda>w. Alive now (sw_base w)) ws))"
proof (induction ws)
  case (Cons w ws)
  obtain x w' where "sw_Close raced w = (x, w')" by fastforce
  with sw_Close_spec(1) [of raced w] Cons show ?case by auto
qed simp

lemma closeAll_spec:
  "if \<exists>w\<in>set ws. torn raced w then closeAll raced ws = Panic
   else \<exists>ws'. closeAll raced ws = Ok ws' \<and> length ws' = length ws \<and> (\<forall>w\<in>set ws'. sw_closed w)"
proof (induction ws)
  case (Cons w ws)
  obtain x w' where w': "sw_Close raced w = (x, w')" by fastforce
  with sw_Close_spec [of raced w] have x: "x = (if torn raced w then Panic else Ok ())" "\<not> torn raced w \<Longrightarrow> sw_closed w'" by auto
  show ?case
  proof (cases "torn raced w")
    case False
    then show ?thesis using Cons.IH w' x by (cases "\<exists>w\<in>set ws. torn raced w") (auto split: if_splits)
  qed (use w' x in simp)
qed simp

lemma length_replay: "length (replay ps) \<le> 3"
  using last_of_cases [of is_metadata ps] last_of_cases [of is_videoSeq ps] last_of_cases [of is_audioSeq ps]
  by (auto simp: replay_def)

lemma cache_Send_holds:
  assumes "cache_holds ps c"
  shows "cache_Send c ch = sendHeaders (replay ps) ch"
  using assms cachePkts_replay [OF assms]
  by (auto simp: cache_Send_def pbind_def cache_holds_def split: prod.splits res.splits)

lemma onWriter_spec:
  assumes "stream_inv ps s" and "i < length (writerChan s)"
  defines "w \<equiv> writerChan s ! i" and "s' \<equiv> s\<lparr>writerChan := take i (writerChan s) @ drop (Suc i) (writerChan s)\<rparr>"
  shows "\<not> cclosed (packetQueue w) \<Longrightarrow> onWriter i s = (Ok Continue, s'\<lparr>writers := writers s @ [w\<lparr>packetQueue := (packetQueue w)\<lparr>cbuf := replay ps\<rparr>\<rparr>]\<rparr>)"
    and "cclosed (packetQueue w) \<Longrightarrow> replay ps \<noteq> [] \<Longrightarrow> onWriter i s = (Panic, s')"
    and "cclosed (packetQueue w) \<Longrightarrow> replay ps = [] \<Longrightarrow> onWriter i s = (Ok Continue, s'\<lparr>writers := writers s @ [w]\<rparr>)"
proof -
  have w: "writer_inv w" "cbuf (packetQueue w) = []" using assms by (simp_all add: stream_inv_def)
  have c: "cache_Send (st_cache s) (packetQueue w) = sendHeaders (replay ps) (packetQueue w)"
    using assms(1) by (intro cache_Send_holds) (simp add: stream_inv_def)
  have l: "length (replay ps) \<le> 1024" using length_replay [of ps] by simp
  show "\<not> cclosed (packetQueue w) \<Longrightarrow> onWriter i s = (Ok Continue, s'\<lparr>writers := writers s @ [w\<lparr>packetQueue := (packetQueue w)\<lparr>cbuf := replay ps\<rparr>\<rparr>]\<rparr>)"
    using c w l by (simp add: onWriter_def w_def [symmetric] s'_def Let_def sendHeaders_spec writer_inv_def maxQueueNum_def)
  show "cclosed (packetQueue w) \<Longrightarrow> replay ps \<noteq> [] \<Longrightarrow> onWriter i s = (Panic, s')"
    using c by (cases "replay ps") (simp_all add: onWriter_def w_def [symmetric] s'_def Let_def try_send_def)
  show "cclosed (packetQueue w) \<Longrightarrow> replay ps = [] \<Longrightarrow> onWriter i s = (Ok Continue, s'\<lparr>writers := writers s @ [w]\<rparr>)"
    using c by (simp add: onWriter_def w_def [symmetric] s'_def Let_def)
qed

lemma stream_inv_New: "stream_inv [] (NewStream i n info)"
  by (simp add: stream_inv_def NewStream_def cache_holds_New make_chan_def)

lemma stream_inv_read:
  assumes "stream_inv ps s" and "reader s = Some r" and "rd_Read now ms zeroPacket r = Some (Ok (), p, r')"
    and "startRead_turn now ms s = (x, s')"
  shows "stream_inv (ps @ [p]) s'"
  using assms cache_holds_Write [of ps "st_cache s" p]
  by (auto simp: stream_inv_def startRead_turn_def try_send_def Let_def split: if_splits)

lemma stream_inv_read_err:
  assumes "stream_inv ps s" and "reader s = Some r" and "rd_Read now ms zeroPacket r = Some (Err e, p, r')"
    and "startRead_turn now ms s = (x, s')"
  shows "stream_inv ps s'"
proof -
  have "s' = s\<lparr>reader := Some r'\<rparr>" using assms(2-4) by (simp add: startRead_turn_def)
  then show ?thesis using assms(1) by (simp add: stream_inv_def)
qed

text \<open>A packet that is delivered: every player that is not closed gets it; a torn player takes the stream down.\<close>

definition delivery_fails :: "RtmpStream \<Rightarrow> bool" where
  "delivery_fails s \<longleftrightarrow> cbuf (pktChan s) \<noteq> [] \<and> (\<exists>w\<in>set (writers s). torn (\<lambda>_. False) w \<and> \<not> refuses (hd (cbuf (pktChan s))) w)"

lemma onPacket_spec:
  assumes "stream_inv ps s" and "cbuf (pktChan s) = p # rest"
  defines "s1 \<equiv> s\<lparr>pktChan := (pktChan s)\<lparr>cbuf := rest\<rparr>\<rparr>"
  shows "onPacket s = (if delivery_fails s then (Panic, s1)
    else (Ok Continue, s1\<lparr>writers := map (\<lambda>w. snd (sw_Write p w)) (filter (\<lambda>w. \<not> sw_closed w) (writers s))\<rparr>))"
proof -
  have "\<forall>w\<in>set (writers s). writer_inv w" using assms(1) by (simp add: stream_inv_def)
  from writeAll_spec [OF this, of p] show ?thesis
    using assms(2) by (auto simp: onPacket_def Let_def s1_def delivery_fails_def cutNil_map)
qed

lemma stream_inv_packet:
  assumes "stream_inv ps s" and "onPacket s = (r, s')"
  shows "r = (if delivery_fails s then Panic else Ok Continue)" and "stream_inv ps s'"
proof -
  have "r = (if delivery_fails s then Panic else Ok Continue) \<and> stream_inv ps s'"
  proof (cases "cbuf (pktChan s)")
    case Nil
    then show ?thesis using assms by (simp add: onPacket_def delivery_fails_def)
  next
    case (Cons p rest)
    have "writer_inv (snd (sw_Write p w))" if "w\<in>set (writers s)" for w
      using writer_inv_Write(1) [OF _ surjective_pairing, of w p] assms(1) that by (simp add: stream_inv_def)
    then show ?thesis using onPacket_spec [OF assms(1) Cons] assms Cons by (auto simp: stream_inv_def split: if_splits)
  qed
  then show "r = (if delivery_fails s then Panic else Ok Continue)" and "stream_inv ps s'" by simp_all
qed

lemma stream_inv_writer:
  assumes "stream_inv ps s" and "i < length (writerChan s)" and "onWriter i s = (Ok Continue, s')"
  shows "stream_inv ps s'"
proof -
  let ?w = "writerChan s ! i"
  have w: "writer_inv ?w" "cbuf (packetQueue ?w) = []" using assms(1,2) by (simp_all add: stream_inv_def)
  have "\<exists>q. s' = s\<lparr>writerChan := take i (writerChan s) @ drop (Suc i) (writerChan s), writers := writers s @ [?w\<lparr>packetQueue := q\<rparr>]\<rparr> \<and>
      writer_inv (?w\<lparr>packetQueue := q\<rparr>)"
  proof (cases "cclosed (packetQueue ?w)")
    case False
    have "writer_inv (?w\<lparr>packetQueue := (packetQueue ?w)\<lparr>cbuf := replay ps\<rparr>\<rparr>)"
      using w length_replay [of ps] by (simp add: writer_inv_def maxQueueNum_def)
    then show ?thesis using onWriter_spec(1) [OF assms(1,2) False] assms(3) by auto
  next
    case True
    then have "replay ps = []" using onWriter_spec(2) [OF assms(1,2) True] assms(3) by auto
    then show ?thesis using onWriter_spec(3) [OF assms(1,2) True] assms(3) w by (intro exI [of _ "packetQueue ?w"]) auto
  qed
  moreover have "w \<in> set (take i (writerChan s) @ drop (Suc i) (writerChan s)) \<Longrightarrow> w \<in> set (writerChan s)" for w
    by (auto dest: in_set_takeD in_set_dropD)
  ultimately show ?thesis using assms(1) by (auto simp: stream_inv_def)
qed

lemma writer_inv_base [simp]: "writer_inv (w\<lparr>sw_base := b\<rparr>) = writer_inv w"
  by (simp add: writer_inv_def)

lemma stream_inv_reader:
  assumes "stream_inv ps s" and "onReader i s = (r, s')"
  shows "stream_inv ps s'"
  using assms by (cases "reader s") (auto simp: stream_inv_def onReader_def Let_def)

definition check_fails :: "(StreamWriter \<Rightarrow> bool) \<Rightarrow> int \<Rightarrow> RtmpStream \<Rightarrow> bool" where
  "check_fails raced now s \<longleftrightarrow> (\<exists>r. reader s = Some r \<and> Alive now (rd_base r)) \<and>
     (\<exists>w\<in>set (writers s). \<not> Alive now (sw_base w) \<and> torn raced w)"

lemma stream_inv_tick:
  assumes "stream_inv ps s" and "onTick raced now s = (r, s')"
  shows "r = Panic \<longleftrightarrow> check_fails raced now s" and "stream_inv ps s'"
  using assms aliveWriters_spec [of raced now "writers s"]
  by (auto simp: stream_inv_def onTick_def check_fails_def split: option.splits if_splits)

definition close_fails :: "(StreamWriter \<Rightarrow> bool) \<Rightarrow> RtmpStream \<Rightarrow> bool" where
  "close_fails raced s \<longleftrightarrow> (\<exists>w\<in>set (writers s) \<union> set (writerChan s). torn raced w)"

lemma stream_close_spec:
  "if close_fails raced s then stream_close raced s = (Panic, s)
   else \<exists>ws. stream_close raced s = (Ok (), s\<lparr>writerChan := [], readerChan := [], writers := ws\<rparr>) \<and> length ws = length (writers s) \<and>
     (\<forall>w\<in>set ws. sw_closed w)"
  using closeAll_spec [of "writerChan s" raced] closeAll_spec [of "writers s" raced]
  by (auto simp: stream_close_def close_fails_def split: if_splits)

lemma stream_inv_add: "stream_inv ps s \<Longrightarrow> stream_inv ps (AddReader r s)"
  "stream_inv ps s \<Longrightarrow> stream_inv ps (AddWriter (NewStreamWriter now conn i) s)"
  using writer_inv_New [of now conn i]
  by (auto simp: stream_inv_def AddReader_def AddWriter_def NewStreamWriter_def make_chan_def)

lemma set_update_cases: "w \<in> set (xs[i := v]) \<Longrightarrow> w \<in> set xs \<or> w = v"
  using set_update_subset_insert by fastforce

lemma stream_run_inv:
  assumes "stream_run s0 ps s" and "stream_inv [] s0"
  shows "stream_inv ps s"
  using assms(1)
proof (induction rule: stream_run.induct)
  case stream_start
  show ?case by (rule assms(2))
next
  case (stream_active ps s i w)
  then have inv: "stream_inv ps s" by simp
  moreover from inv stream_active(2) have "writer_inv w"
    using writer_step_inv(1) [OF stream_active(3)] by (simp add: stream_inv_def)
  ultimately show ?case by (auto simp: stream_inv_def dest!: set_update_cases)
next
  case (stream_waiting ps s i w)
  then have inv: "stream_inv ps s" by simp
  moreover from inv stream_waiting(2) have "writer_inv w" "cbuf (packetQueue w) = []"
    using writer_step_inv [OF stream_waiting(3)] by (simp_all add: stream_inv_def)
  ultimately show ?case by (auto simp: stream_inv_def dest!: set_update_cases)
qed (blast intro: stream_inv_add stream_inv_read stream_inv_read_err stream_inv_packet stream_inv_writer stream_inv_reader stream_inv_tick)+

section \<open>Properties of a stream\<close>

text \<open>
  C6: In every run of a stream, whatever publishers, players and their connections do: the packet
  channel never holds more than 16 packets and no player's queue more than 1024, and the channel of
  the stream is open. Handing a packet to the players, the periodic check and closing the stream panic exactly when a call of
  \<open>Close\<close> meets another one: a player whose queue its own goroutine has closed without having set \<open>closed\<close> (\<open>torn\<close>) is handed a packet
  it does not refuse, or it has timed out, or the stream is closed, where for the last two also the player counts
  whose goroutine overtakes the call (\<open>raced\<close>). In every other case they succeed.
\<close>

theorem stream_run_bounded:
  assumes "stream_run (NewStream i n info) ps s"
  shows "length (cbuf (pktChan s)) \<le> 16 \<and> (\<forall>w\<in>set (writers s). length (cbuf (packetQueue w)) \<le> 1024) \<and> \<not> cclosed (pktChan s) \<and>
    fst (onPacket s) = (if delivery_fails s then Panic else Ok Continue) \<and>
    (fst (onTick raced now s) = Panic \<longleftrightarrow> check_fails raced now s) \<and>
    fst (stream_close raced s) = (if close_fails raced s then Panic else Ok ())"
proof -
  have inv: "stream_inv ps s" using stream_run_inv [OF assms stream_inv_New] .
  have "fst (stream_close raced s) = (if close_fails raced s then Panic else Ok ())"
    using stream_close_spec [of raced s] by auto
  then show ?thesis
    using inv stream_inv_packet(1) [OF inv surjective_pairing] stream_inv_tick(1) [OF inv surjective_pairing]
    by (auto simp: stream_inv_def writer_inv_def maxQueueNum_def)
qed

theorem stream_run_bounded_witness:
  "let s = AddWriter (NewStreamWriter 0 (NewForwardConnect (fresh_conn [])) []) (NewStream [] 1 \<lparr>si_App = [], si_Name = [], si_URL = []\<rparr>)
   in fst (onPacket s) = Ok Continue \<and> fst (stream_close (\<lambda>_. False) s) = Ok () \<and> fst (stream_close (\<lambda>_. True) s) = Panic"
proof -
  let ?s = "NewStream [] 1 \<lparr>si_App = [], si_Name = [], si_URL = []\<rparr>" and ?w = "NewStreamWriter 0 (NewForwardConnect (fresh_conn [])) []"
  have "\<not> delivery_fails (AddWriter ?w ?s)" "\<not> close_fails (\<lambda>_. False) (AddWriter ?w ?s)" "close_fails (\<lambda>_. True) (AddWriter ?w ?s)"
    by (simp_all add: delivery_fails_def close_fails_def torn_def AddWriter_def NewStream_def NewStreamWriter_def make_chan_def)
  with stream_run_bounded [OF stream_add_writer [OF stream_start [of ?s], of 0 "NewForwardConnect (fresh_conn [])" "[]"], of "\<lambda>_. False" 0]
    stream_run_bounded [OF stream_add_writer [OF stream_start [of ?s], of 0 "NewForwardConnect (fresh_conn [])" "[]"], of "\<lambda>_. True" 0]
  show ?thesis by (simp add: Let_def)
qed






text \<open>
  C9: A player that joins a stream in any run: if its queue is still open, it is added with exactly
  the current headers of the stream queued, in the order metadata, video, audio, whoever published
  them; if its queue was closed in the meantime (the player disconnected while it waited), the stream panics
  as soon as it has a header to send.
\<close>

theorem player_joins:
  assumes "stream_run (NewStream j n info) ps s" and "i < length (writerChan s)"
  shows "(\<not> cclosed (packetQueue (writerChan s ! i)) \<longrightarrow>
      (\<exists>s'. onWriter i s = (Ok Continue, s') \<and> length (writers s') = Suc (length (writers s)) \<and>
        cbuf (packetQueue (last (writers s'))) = replay ps)) \<and>
    (cclosed (packetQueue (writerChan s ! i)) \<longrightarrow> (fst (onWriter i s) = Panic \<longleftrightarrow> replay ps \<noteq> []))"
proof -
  have inv: "stream_inv ps s" using stream_run_inv [OF assms(1) stream_inv_New] .
  note spec = onWriter_spec [OF inv assms(2)]
  show ?thesis
  proof (intro conjI impI)
    assume "\<not> cclosed (packetQueue (writerChan s ! i))"
    then show "\<exists>s'. onWriter i s = (Ok Continue, s') \<and> length (writers s') = Suc (length (writers s)) \<and>
        cbuf (packetQueue (last (writers s'))) = replay ps" using spec(1) by simp
  next
    assume "cclosed (packetQueue (writerChan s ! i))"
    then show "fst (onWriter i s) = Panic \<longleftrightarrow> replay ps \<noteq> []" using spec(2,3) by (cases "replay ps = []") simp_all
  qed
qed

theorem player_joins_witness:
  "let s = AddWriter (NewStreamWriter 0 (NewForwardConnect (fresh_conn [])) []) (NewStream [] 1 \<lparr>si_App = [], si_Name = [], si_URL = []\<rparr>)
   in \<exists>s'. onWriter 0 s = (Ok Continue, s') \<and> length (writers s') = 1"
proof -
  let ?s = "NewStream [] 1 \<lparr>si_App = [], si_Name = [], si_URL = []\<rparr>" and ?w = "NewStreamWriter 0 (NewForwardConnect (fresh_conn [])) []"
  have "0 < length (writerChan (AddWriter ?w ?s))" "\<not> cclosed (packetQueue (writerChan (AddWriter ?w ?s) ! 0))" "writers (AddWriter ?w ?s) = []"
    by (simp_all add: AddWriter_def NewStream_def NewStreamWriter_def make_chan_def)
  with player_joins [OF stream_add_writer [OF stream_start [of ?s], of 0 "NewForwardConnect (fresh_conn [])" "[]"], of 0]
  show ?thesis by (auto simp: Let_def)
qed

section \<open>The registry\<close>

text \<open>What the rest of the server relies on: streams are found under their key, and only there.\<close>

locale stream_registry =
  fixes key :: "'i \<Rightarrow> 'k" and find :: "'h \<Rightarrow> 'k \<Rightarrow> 's option"
    and acquire :: "'i \<Rightarrow> 'h \<Rightarrow> 's \<times> 'h" and put :: "'k \<Rightarrow> 's \<Rightarrow> 'h \<Rightarrow> 'h" and release :: "'k \<Rightarrow> 'h \<Rightarrow> 'h"
  assumes acquire_find: "acquire i h = (s, h') \<Longrightarrow> find h' (key i) = Some s"
    and acquire_known: "find h (key i) = Some s \<Longrightarrow> acquire i h = (s, h)"
    and acquire_other: "acquire i h = (s, h') \<Longrightarrow> k \<noteq> key i \<Longrightarrow> find h' k = find h k"
    and put_find: "find (put k s h) k' = (if k' = k then Some s else find h k')"
    and release_find: "find (release k h) k' = (if k' = k then None else find h k')"
begin

text \<open>An update of the stream under a key: acquire it, change it, put it back.\<close>

definition visit :: "('s \<Rightarrow> 's) \<Rightarrow> 'i \<Rightarrow> 'h \<Rightarrow> 'h" where
  "visit f i h = (case acquire i h of (s, h') \<Rightarrow> put (key i) (f s) h')"

lemma visit_find: "find (visit f i h) (key i) = Some (f (fst (acquire i h)))"
  by (cases "acquire i h") (simp add: visit_def put_find)

lemma visit_other: "k \<noteq> key i \<Longrightarrow> find (visit f i h) k = find h k"
  by (cases "acquire i h") (auto simp: visit_def put_find dest: acquire_other)

lemma visits_meet:
  assumes "key i = key j"
  shows "find (visit g j (visit f i h)) (key i) = Some (g (f (fst (acquire i h))))"
  using assms acquire_known [of "visit f i h" j] visit_find [of f i h] visit_find [of g j "visit f i h"] by simp

lemma visit_between:
  assumes "key j \<noteq> key i"
  shows "fst (acquire i (visit g j (visit f i h))) = f (fst (acquire i h))"
  using assms visit_other [of "key i" j g "visit f i h"] visit_find [of f i h] acquire_known by fastforce

lemma released_gone: "find (release (key i) (visit f i h)) (key i) = None"
  by (simp add: release_find)

end

interpretation handler: stream_registry streamKey "\<lambda>h k. h k" "getOrCreate newId gopNum" "\<lambda>k s h. h(k \<mapsto> s)" handler_remove
  for newId gopNum
  by unfold_locales (auto simp: getOrCreate_def handler_remove_def Let_def split: option.splits if_splits)

definition connInfo :: "ForwardConnect \<Rightarrow> StreamInfo" where
  "connInfo conn = (case GetStreamInfo conn of (app, name, url) \<Rightarrow> \<lparr>si_App = app, si_Name = name, si_URL = url\<rparr>)"

definition connAdd :: "int \<Rightarrow> ForwardConnect \<Rightarrow> RtmpStream \<Rightarrow> RtmpStream" where
  "connAdd now conn s =
     (if IsPublisher conn then AddReader (NewStreamReader now conn (stream_ID s)) s
      else AddWriter (NewStreamWriter now conn (stream_ID s)) s)"

lemma HandleConnect_visit:
  "HandleConnect newId gopNum now conn h = (Ok (), handler.visit newId gopNum (connAdd now conn) (connInfo conn) h)"
  by (auto simp: HandleConnect_def handler.visit_def connInfo_def connAdd_def GetStreamInfo_def Let_def split: prod.splits)

text \<open>
  C19: Publisher and player of one stream meet: when a publisher connects and later a player with the
  same application and stream name, both are waiting in the same stream, which is the one the registry
  holds under this name; every stream under another key is untouched, and no connection fails.
\<close>

theorem publisher_and_player_meet:
  assumes "IsPublisher pub" and "\<not> IsPublisher pl"
    and "si_App (connInfo pub) = si_App (connInfo pl)" and "si_Name (connInfo pub) = si_Name (connInfo pl)"
    and "HandleConnect i n t pub h = (r, h1)" and "HandleConnect i' n' t' pl h1 = (r', h2)"
  shows "r = Ok () \<and> r' = Ok () \<and>
    (\<exists>s. h2 (streamKey (connInfo pub)) = Some s \<and> pub \<in> rd_conn ` set (readerChan s) \<and> pl \<in> sw_conn ` set (writerChan s)) \<and>
    (\<forall>k. k \<noteq> streamKey (connInfo pub) \<longrightarrow> h2 k = h k)"
proof -
  have k: "streamKey (connInfo pub) = streamKey (connInfo pl)" using assms(3,4) by (simp add: streamKey_def)
  let ?s = "fst (getOrCreate i n (connInfo pub) h)"
  have h: "h1 = handler.visit i n (connAdd t pub) (connInfo pub) h" "h2 = handler.visit i' n' (connAdd t' pl) (connInfo pl) h1"
    using assms(5,6) by (simp_all add: HandleConnect_visit)
  have "h1 (streamKey (connInfo pl)) = Some (connAdd t pub ?s)" unfolding h(1) k [symmetric] by (rule handler.visit_find)
  then have s: "h2 (streamKey (connInfo pub)) = Some (connAdd t' pl (connAdd t pub ?s))"
    unfolding k h(2) by (subst handler.visit_find) (simp add: getOrCreate_def)
  have "\<forall>k'. k' \<noteq> streamKey (connInfo pub) \<longrightarrow> h2 k' = h k'"
    unfolding h using k by (simp add: handler.visit_other)
  with s assms(1,2,5,6) show ?thesis
    by (auto simp: connAdd_def AddReader_def AddWriter_def NewStreamReader_def NewStreamWriter_def HandleConnect_visit)
qed

text \<open>Two set-up connections for the witness: a publisher and a player of the stream \<open>a/b\<close>.\<close>

definition sample_fc :: "bool \<Rightarrow> ForwardConnect" where
  "sample_fc publisher = (NewForwardConnect (fresh_conn []))\<lparr>isPublisher := publisher,
     ConnInfo := (ConnInfo (NewForwardConnect (fresh_conn [])))\<lparr>App := chars ''a''\<rparr>, PubInfo := \<lparr>PName = chars ''b'', PType = []\<rparr>\<rparr>"

theorem publisher_and_player_meet_witness:
  "\<exists>s. snd (HandleConnect [] 1 0 (sample_fc False) (snd (HandleConnect [] 1 0 (sample_fc True) NewStreamHandler)))
      (streamKey (connInfo (sample_fc True))) = Some s \<and>
    sample_fc True \<in> rd_conn ` set (readerChan s) \<and> sample_fc False \<in> sw_conn ` set (writerChan s)"
  using publisher_and_player_meet [of "sample_fc True" "sample_fc False" "[]" 1 0 NewStreamHandler _ _ "[]" 1 0, OF _ _ _ _ surjective_pairing surjective_pairing]
  by (simp add: sample_fc_def IsPublisher_def connInfo_def GetStreamInfo_def)

text \<open>
  The key of a stream names its application and stream only when the application has no
  underscore: then two connections share a stream exactly when both names agree. With an underscore they can be mixed up: the
  stream \<open>c\<close> of the application \<open>a_b\<close> is the stream \<open>b_c\<close> of the application \<open>a\<close>.
\<close>

theorem stream_key_ambiguity:
  "(0x5f \<notin> set (si_App i) \<and> 0x5f \<notin> set (si_App j) \<longrightarrow>
     (streamKey i = streamKey j \<longleftrightarrow> si_App i = si_App j \<and> si_Name i = si_Name j)) \<and>
   streamKey \<lparr>si_App = chars ''a_b'', si_Name = chars ''c'', si_URL = u\<rparr> =
   streamKey \<lparr>si_App = chars ''a'', si_Name = chars ''b_c'', si_URL = v\<rparr>"
proof (intro conjI impI iffI)
  assume a: "0x5f \<notin> set (si_App i) \<and> 0x5f \<notin> set (si_App j)" and k: "streamKey i = streamKey j"
  have t: "takeWhile (\<lambda>b. b \<noteq> 0x5f) (streamKey x) = si_App x" if "0x5f \<notin> set (si_App x)" for x :: StreamInfo
  proof -
    have "b \<noteq> 0x5f" if "b \<in> set (si_App x)" for b using that \<open>0x5f \<notin> set (si_App x)\<close> by blast
    then show ?thesis by (simp add: streamKey_def takeWhile_append2)
  qed
  show app: "si_App i = si_App j" using a k t [of i] t [of j] by simp
  show "si_Name i = si_Name j" using k app by (simp add: streamKey_def)
qed (simp_all add: streamKey_def chars_def)

theorem stream_key_ambiguity_witness:
  "streamKey \<lparr>si_App = chars ''a'', si_Name = chars ''b'', si_URL = []\<rparr> \<noteq> streamKey \<lparr>si_App = chars ''a'', si_Name = chars ''c'', si_URL = []\<rparr>"
  using stream_key_ambiguity [of "\<lparr>si_App = chars ''a'', si_Name = chars ''b'', si_URL = []\<rparr>"
    "\<lparr>si_App = chars ''a'', si_Name = chars ''c'', si_URL = []\<rparr>" "[]" "[]"]
  by (simp add: chars_def)

text \<open>The deferred function.\<close>

lemma streamLoop_return_spec:
  assumes "streamLoop_return raced s h = (r, s', h')"
  shows "h' = h(streamKey (streamInfo s) := None) \<and>
    (if close_fails raced s then r = Panic
     else r = Ok () \<and> (\<forall>w\<in>set (writers s'). sw_closed w) \<and> length (writers s') = length (writers s) \<and> writerChan s' = [] \<and> readerChan s' = [])"
proof -
  have "handler_remove (streamKey (streamInfo s)) h = h(streamKey (streamInfo s) := None)"
    by (rule ext) (simp add: handler.release_find [simplified])
  then show ?thesis using assms stream_close_spec [of raced s] by (auto simp: streamLoop_return_def split: if_splits)
qed

end
