(* ===== verification/StreamOrder.thy ===== *)
theory StreamOrder
  imports RtmpStreams "HOL-Library.Sublist"
begin

text \<open>
  The order of the packets in a stream (\<open>protocol/stream.go\<close>, \<open>protocol/stream_rw.go\<close>): what the players
  have queued, compared with what the publishers sent. Packets are dropped in four situations (the
  channel of the stream is full, the queue of a player is full, the player waits for a key frame, another
  publisher takes over while they are in the channel); the invariant of this theory says
  that nothing else happens to them, in any run.
\<close>

section \<open>The invariant\<close>

text \<open>
  A queue \<open>q\<close> is in order when it is the rest of the headers the player got when it joined, after some
  number \<open>k\<close> of the packets \<open>ps\<close>, and then live packets; these, followed by those that are still in
  the channel, are a subsequence of \<open>ps\<close>.
\<close>

definition in_order :: "Packet list \<Rightarrow> Packet list \<Rightarrow> Packet list \<Rightarrow> bool" where
  "in_order ps ch q \<longleftrightarrow> (\<exists>k hs live. q = hs @ live \<and> suffix hs (replay (take k ps)) \<and> subseq (live @ ch) ps)"

definition stream_order :: "Packet list \<Rightarrow> RtmpStream \<Rightarrow> bool" where
  "stream_order ps s \<longleftrightarrow> subseq (cbuf (pktChan s)) ps \<and>
     (\<forall>w\<in>set (writers s). in_order ps (cbuf (pktChan s)) (cbuf (packetQueue w)))"

lemma in_order_read: "in_order ps ch q \<Longrightarrow> in_order (ps @ [p]) ch q" "in_order ps ch q \<Longrightarrow> in_order (ps @ [p]) (ch @ [p]) q"
proof -
  assume "in_order ps ch q"
  then obtain k hs live where o: "q = hs @ live" "suffix hs (replay (take k ps))" "subseq (live @ ch) ps" by (auto simp: in_order_def)
  have k: "take (min k (length ps)) (ps @ [p]) = take k ps" by (simp add: min_def)
  show "in_order (ps @ [p]) ch q" unfolding in_order_def
    using o k subseq_rev_drop_many [OF o(3), of "[p]"] by (intro exI [of _ "min k (length ps)"] exI [of _ hs] exI [of _ live]) simp
  have "subseq (live @ ch @ [p]) (ps @ [p])" using o(3) by (metis append_assoc subseq_append)
  with o k show "in_order (ps @ [p]) (ch @ [p]) q" unfolding in_order_def
    by (intro exI [of _ "min k (length ps)"] exI [of _ hs] exI [of _ live]) simp
qed

text \<open>A packet leaves the channel: it goes to the end of the queue, or the player does not get it.\<close>

lemma in_order_deliver: "in_order ps (p # ch) q \<Longrightarrow> in_order ps ch (q @ [p])"
  unfolding in_order_def by (metis append.assoc append_Cons append_Nil)

lemma subseq_drop_mid: "subseq (xs @ ys @ zs) ps \<Longrightarrow> subseq (xs @ zs) ps"
  by (rule subseq_order.trans [rotated]) (auto intro: list_emb_append_mono)

lemma in_order_skip: "in_order ps (xs @ ch) q \<Longrightarrow> in_order ps ch q"
  unfolding in_order_def by (blast dest: subseq_drop_mid)

text \<open>The player's own goroutine takes a packet off the front.\<close>

lemma in_order_tl: "in_order ps ch q \<Longrightarrow> in_order ps ch (tl q)"
proof -
  assume "in_order ps ch q"
  then obtain k hs live where o: "q = hs @ live" "suffix hs (replay (take k ps))" "subseq (live @ ch) ps" by (auto simp: in_order_def)
  show ?thesis
  proof (cases hs)
    case Nil
    have "subseq (tl live @ ch) ps" using o(3) by (cases live) (auto dest: subseq_Cons')
    then show ?thesis using o Nil unfolding in_order_def by (intro exI [of _ 0] exI [of _ "[]"] exI [of _ "tl live"]) simp
  next
    case (Cons h hs')
    then have "suffix hs' (replay (take k ps))" using o(2) by (auto dest: suffix_ConsD)
    then show ?thesis using o Cons unfolding in_order_def by (intro exI [of _ k] exI [of _ hs'] exI [of _ live]) simp
  qed
qed

lemma in_order_join: "subseq ch ps \<Longrightarrow> in_order ps ch (replay ps)"
  unfolding in_order_def by (intro exI [of _ "length ps"] exI [of _ "replay ps"] exI [of _ "[]"]) simp

lemma in_order_Nil: "subseq ch ps \<Longrightarrow> in_order ps ch []"
  unfolding in_order_def by (intro exI [of _ 0] exI [of _ "[]"]) simp

lemmas in_order_steps = in_order_read in_order_deliver in_order_skip in_order_tl in_order_join in_order_Nil

section \<open>Every step keeps it\<close>

lemma stream_order_New: "stream_order [] (NewStream i n info)"
  by (simp add: stream_order_def NewStream_def make_chan_def)

lemma stream_order_read:
  assumes "stream_order ps s" and "reader s = Some r" and "rd_Read now ms zeroPacket r = Some (Ok (), p, r')"
    and "startRead_turn now ms s = (x, s')"
  shows "stream_order (ps @ [p]) s'"
proof -
  have "writers s' = writers s \<and> (cbuf (pktChan s') = cbuf (pktChan s) \<or> cbuf (pktChan s') = cbuf (pktChan s) @ [p])"
    using assms(2-4) by (auto simp: startRead_turn_def try_send_def Let_def split: if_splits)
  moreover have "subseq (cbuf (pktChan s)) ps" using assms(1) by (simp add: stream_order_def)
  ultimately show ?thesis using assms(1) by (auto simp: stream_order_def in_order_steps subseq_rev_drop_many)
qed

lemma stream_order_packet:
  assumes "stream_inv ps s" and "stream_order ps s" and "onPacket s = (r, s')"
  shows "stream_order ps s'"
proof (cases "cbuf (pktChan s)")
  case Nil
  then show ?thesis using assms by (simp add: onPacket_def)
next
  case (Cons p ch)
  have inv: "\<forall>w\<in>set (writers s). writer_inv w" using assms(1) by (simp add: stream_inv_def)
  have "in_order ps ch (cbuf (packetQueue (snd (sw_Write p w))))" if w: "w \<in> set (writers s)" for w
  proof -
    have o: "in_order ps (p # ch) (cbuf (packetQueue w))" using assms(2) w Cons by (simp add: stream_order_def)
    then have "in_order ps ch (cbuf (packetQueue w))" using in_order_skip [of ps "[p]" ch] by simp
    with in_order_deliver [OF o] show ?thesis
      using writer_inv_Write(4) [OF _ surjective_pairing, of w p] inv w by metis
  qed
  moreover have "in_order ps ch (cbuf (packetQueue w))" if "w \<in> set (writers s)" for w
    using assms(2) that Cons in_order_skip [of ps "[p]" ch] by (simp add: stream_order_def)
  moreover have "subseq ch ps" using assms(2) Cons by (auto simp: stream_order_def dest: subseq_Cons')
  ultimately show ?thesis using assms(3) onPacket_spec [OF assms(1) Cons] by (auto simp: stream_order_def split: if_splits)
qed

lemma stream_order_writer:
  assumes "stream_inv ps s" and "stream_order ps s" and "i < length (writerChan s)" and "onWriter i s = (Ok Continue, s')"
  shows "stream_order ps s'"
proof -
  let ?w = "writerChan s ! i"
  have "cbuf (packetQueue ?w) = []" using assms(1,3) by (simp add: stream_inv_def)
  moreover have "subseq (cbuf (pktChan s)) ps" using assms(2) by (simp add: stream_order_def)
  ultimately show ?thesis
    using assms(2,4) onWriter_spec [OF assms(1,3)]
    by (cases "cclosed (packetQueue ?w)"; cases "replay ps = []") (auto simp: stream_order_def in_order_steps)
qed

lemma stream_order_reader:
  assumes "stream_order ps s" and "onReader i s = (r, s')"
  shows "stream_order ps s'"
  using assms in_order_skip [of ps "cbuf (pktChan s)" "[]"] by (auto simp: stream_order_def onReader_def Let_def)

lemma stream_order_tick:
  assumes "stream_order ps s" and "onTick raced now s = (r, s')"
  shows "stream_order ps s'"
  using assms aliveWriters_spec [of raced now "writers s"]
  by (auto simp: stream_order_def onTick_def split: option.splits if_splits)

lemma writer_step_queue:
  assumes "writer_step w w'"
  shows "cbuf (packetQueue w') = cbuf (packetQueue w) \<or> cbuf (packetQueue w') = tl (cbuf (packetQueue w))"
  using assms
proof cases
  case (1 now ms cs r)
  then show ?thesis using SendPacket_turn_spec(1) [OF 1] by simp
next
  case (2 r)
  from onWriterConn_frame [OF 2] have "packetQueue w' = packetQueue (w\<lparr>sw_conn := sw_conn w'\<rparr>)" by (rule arg_cong)
  then show ?thesis by simp
qed (auto simp: closeQueue_cases setClosed_def split: if_splits)

lemma stream_order_active:
  assumes "stream_order ps s" and "i < length (writers s)" and "writer_step (writers s ! i) w"
  shows "stream_order ps (s\<lparr>writers := (writers s)[i := w]\<rparr>)"
proof -
  have "in_order ps (cbuf (pktChan s)) (cbuf (packetQueue (writers s ! i)))"
    using assms(1,2) by (simp add: stream_order_def)
  then have "in_order ps (cbuf (pktChan s)) (cbuf (packetQueue w))"
    using writer_step_queue [OF assms(3)] by (metis in_order_tl)
  then show ?thesis using assms(1) by (auto simp: stream_order_def dest!: set_update_cases)
qed

lemma stream_run_order:
  assumes "stream_run s0 ps s" and "stream_inv [] s0" and "stream_order [] s0"
  shows "stream_order ps s"
  using assms(1)
proof (induction rule: stream_run.induct)
  case (stream_read_err ps s r now ms e p r' x s')
  then have "s' = s\<lparr>reader := Some r'\<rparr>" by (simp add: startRead_turn_def)
  then show ?case using stream_read_err.IH by (simp add: stream_order_def)
next
  case (stream_waiting ps s i w)
  then show ?case by (simp add: stream_order_def)
next
  case (stream_packet ps s s')
  then show ?case using stream_order_packet stream_run_inv [OF stream_packet(1) assms(2)] by simp
next
  case (stream_writer ps s i s')
  then show ?case using stream_order_writer [OF stream_run_inv [OF stream_writer(1) assms(2)]] by simp
next
  case (stream_tick ps s raced now s')
  show ?case by (rule stream_order_tick [OF stream_tick.IH stream_tick.hyps(2)])
next
  case (stream_active ps s i w)
  then show ?case using stream_order_active by simp
next
  case (stream_read ps s r now ms p r' x s')
  show ?case by (rule stream_order_read [OF stream_read.IH stream_read.hyps(2-4)])
next
  case (stream_reader ps s i s')
  show ?case by (rule stream_order_reader [OF stream_reader.IH stream_reader.hyps(3)])
qed (simp_all add: assms(3), simp_all add: stream_order_def AddReader_def AddWriter_def)

section \<open>Order of delivery\<close>

text \<open>
  C5: In every run of a stream, whatever publishers, players and their connections do, the queue of
  every player is what is left of the headers it was given when it joined (the last metadata,
  video and audio header after some number of published packets) and then live packets, and those, followed by the packets
  that still wait in the channel of the stream, are a subsequence of what the publishers sent:
  packets may be dropped, but none is duplicated, reordered or made up behind the headers.
\<close>

theorem delivery_in_order:
  assumes "stream_run (NewStream i n info) ps s"
  shows "subseq (cbuf (pktChan s)) ps \<and>
    (\<forall>w\<in>set (writers s). \<exists>k hs live. cbuf (packetQueue w) = hs @ live \<and>
       suffix hs (replay (take k ps)) \<and> subseq (live @ cbuf (pktChan s)) ps)"
  using stream_run_order [OF assms stream_inv_New stream_order_New] by (simp add: stream_order_def in_order_def)

theorem delivery_in_order_witness:
  "let s = AddWriter (NewStreamWriter 0 (NewForwardConnect (fresh_conn [])) []) (NewStream [] 1 \<lparr>si_App = [], si_Name = [], si_URL = []\<rparr>)
   in \<exists>s'. onWriter 0 s = (Ok Continue, s') \<and> (\<exists>w. writers s' = [w] \<and> cbuf (packetQueue w) = [])"
proof -
  let ?start = "NewStream [] 1 \<lparr>si_App = [], si_Name = [], si_URL = []\<rparr>" and ?w = "NewStreamWriter 0 (NewForwardConnect (fresh_conn [])) []"
  let ?s = "AddWriter ?w ?start"
  have s: "0 < length (writerChan ?s)" "\<not> cclosed (packetQueue (writerChan ?s ! 0))" "writers ?s = []"
    by (simp_all add: AddWriter_def NewStream_def NewStreamWriter_def make_chan_def)
  have run: "stream_run ?start [] ?s" by (rule stream_add_writer [OF stream_start [of ?start]])
  obtain s' where s': "onWriter 0 ?s = (Ok Continue, s')" "\<exists>w. writers s' = [w]"
    using onWriter_spec(1) [OF stream_run_inv [OF run stream_inv_New] s(1,2)] s(3) by simp
  then obtain w where "writers s' = [w]" by blast
  with delivery_in_order [OF stream_writer [OF run s(1) s'(1)]] s'(1) show ?thesis
    by (auto simp: Let_def replay_def last_of_def dest!: list_emb_Nil2)
qed

end
