(* ===== verification/StreamLoop.thy ===== *)
theory StreamLoop
  imports StreamOrder
begin

text \<open>
  The loop of a stream as a whole, \<open>streamLoop\<close> of \<open>protocol/stream.go\<close>: the \<open>select\<close> over the channels and the ticker, and the deferred
  function that runs when it returns. Which of the ready cases a \<open>select\<close> takes is an argument, so the statements hold for every choice. The
  other goroutines of the stream are the rules of \<open>stream_run\<close>.
\<close>

section \<open>The loop\<close>

text \<open>A case of the \<open>select\<close>; of several players or publishers that wait, any one may be taken.\<close>

datatype select_case = PktCase | WriterCase nat | ReaderCase nat | TickCase int

definition case_ready :: "select_case \<Rightarrow> RtmpStream \<Rightarrow> bool" where
  "case_ready sc s =
     (case sc of
        PktCase \<Rightarrow> cbuf (pktChan s) \<noteq> []
      | WriterCase i \<Rightarrow> i < length (writerChan s)
      | ReaderCase i \<Rightarrow> i < length (readerChan s)
      | TickCase now \<Rightarrow> True)"

definition select_turn :: "(StreamWriter \<Rightarrow> bool) \<Rightarrow> select_case \<Rightarrow> RtmpStream \<Rightarrow> loop res \<times> RtmpStream" where
  "select_turn raced sc s =
     (case sc of PktCase \<Rightarrow> onPacket s | WriterCase i \<Rightarrow> onWriter i s | ReaderCase i \<Rightarrow> onReader i s | TickCase now \<Rightarrow> onTick raced now s)"

text \<open>
  \<open>Ok None\<close>: the loop still runs after the cases that were chosen. A case that is not ready is not taken. Each turn comes with the
  players whose own goroutine overtakes a call of \<open>Close\<close> in this turn.
\<close>

fun streamLoop :: "(select_case \<times> (StreamWriter \<Rightarrow> bool)) list \<Rightarrow> RtmpStream \<Rightarrow> StreamHandler \<Rightarrow> unit option res \<times> RtmpStream \<times> StreamHandler" where
  "streamLoop [] s h = (Ok None, s, h)"
| "streamLoop ((sc, raced) # scs) s h =
     (if \<not> case_ready sc s then streamLoop scs s h
      else
        (case select_turn raced sc s of
           (Ok Continue, s') \<Rightarrow> streamLoop scs s' h
         | (Ok Return, s') \<Rightarrow> (case streamLoop_return raced s' h of (r, s'', h') \<Rightarrow> (res_bind r (\<lambda>_. Ok (Some ())), s'', h'))
         | (Err e, s') \<Rightarrow> (Err e, s', h)
         | (Panic, s') \<Rightarrow> (Panic, s', h)))"

section \<open>One turn\<close>

lemma select_turn_run:
  assumes "stream_run s0 ps s" and "case_ready sc s" and "select_turn raced sc s = (Ok Continue, s')"
  shows "stream_run s0 ps s'"
  using assms
  by (cases sc) (auto simp: case_ready_def select_turn_def intro: stream_packet stream_writer stream_reader stream_tick)

lemma onReader_continues: "fst (onReader i s) = Ok Continue"
  by (simp add: onReader_def Let_def)

text \<open>
  What can make a turn or the deferred function panic: a waiting player whose queue was closed, when there is a header to send to it;
  a player whose queue is closed and whose flag is not set; or a call of \<open>Close\<close> that is overtaken.
\<close>

definition unsafe :: "Packet list \<Rightarrow> (StreamWriter \<Rightarrow> bool) \<Rightarrow> RtmpStream \<Rightarrow> bool" where
  "unsafe ps raced s \<longleftrightarrow> replay ps \<noteq> [] \<and> (\<exists>w\<in>set (writerChan s). cclosed (packetQueue w)) \<or>
     (\<exists>w\<in>set (writers s) \<union> set (writerChan s). torn raced w)"

lemma onTick_outcomes:
  assumes "stream_inv ps s" and "onTick raced now s = (r, s')"
  shows "r = Ok Continue \<or> r = Ok Return \<and> s' = s \<or> r = Panic \<and> unsafe ps raced s" and "streamInfo s' = streamInfo s"
  using assms aliveWriters_spec [of raced now "writers s"]
  by (auto simp: onTick_def unsafe_def split: option.splits if_splits)

lemma onWriter_outcomes:
  assumes "stream_inv ps s" and "i < length (writerChan s)" and "onWriter i s = (r, s')"
  shows "r = Ok Continue \<or> r = Panic \<and> cclosed (packetQueue (writerChan s ! i)) \<and> replay ps \<noteq> []" and "streamInfo s' = streamInfo s"
proof -
  note spec = onWriter_spec [OF assms(1,2)]
  have "(r = Ok Continue \<or> r = Panic \<and> cclosed (packetQueue (writerChan s ! i)) \<and> replay ps \<noteq> []) \<and> streamInfo s' = streamInfo s"
  proof (cases "cclosed (packetQueue (writerChan s ! i))")
    case True
    show ?thesis
    proof (cases "replay ps = []")
      case False
      from spec(2) [OF True this] assms(3) True False show ?thesis by auto
    qed (use spec(3) [OF True] assms(3) in auto)
  qed (use spec(1) assms(3) in auto)
  then show "r = Ok Continue \<or> r = Panic \<and> cclosed (packetQueue (writerChan s ! i)) \<and> replay ps \<noteq> []" and "streamInfo s' = streamInfo s"
    by simp_all
qed

lemma torn_False: "torn (\<lambda>_. False) w \<Longrightarrow> torn raced w"
  by (auto simp: torn_def)

lemma onPacket_outcomes:
  assumes "stream_inv ps s" and "onPacket s = (r, s')"
  shows "r = Ok Continue \<or> r = Panic \<and> unsafe ps raced s" and "streamInfo s' = streamInfo s"
proof -
  show "r = Ok Continue \<or> r = Panic \<and> unsafe ps raced s"
    using stream_inv_packet(1) [OF assms] by (auto simp: delivery_fails_def unsafe_def dest: torn_False split: if_splits)
  show "streamInfo s' = streamInfo s"
    using assms(2) by (auto simp: onPacket_def Let_def split: list.splits res.splits)
qed

lemma select_turn_outcomes:
  assumes "stream_inv ps s" and "case_ready sc s" and "select_turn raced sc s = (r, s')"
  shows "r = Ok Continue \<or> r = Ok Return \<and> s' = s \<or> r = Panic \<and> unsafe ps raced s"
    and "streamInfo s' = streamInfo s"
proof -
  have "(r = Ok Continue \<or> r = Ok Return \<and> s' = s \<or> r = Panic \<and> unsafe ps raced s) \<and> streamInfo s' = streamInfo s"
  proof (cases sc)
    case PktCase
    then have "onPacket s = (r, s')" using assms(3) by (simp add: select_turn_def)
    from onPacket_outcomes(1) [OF assms(1) this, where raced = raced] onPacket_outcomes(2) [OF assms(1) this] show ?thesis by blast
  next
    case (WriterCase i)
    then have "i < length (writerChan s)" "onWriter i s = (r, s')" using assms(2,3) by (simp_all add: case_ready_def select_turn_def)
    with onWriter_outcomes [OF assms(1) this] show ?thesis by (auto simp: unsafe_def intro: nth_mem)
  next
    case (ReaderCase i)
    then show ?thesis using onReader_continues [of i s] assms(3) by (auto simp: select_turn_def onReader_def Let_def)
  next
    case (TickCase now)
    then show ?thesis using onTick_outcomes [OF assms(1)] assms(3) by (auto simp: select_turn_def)
  qed
  then show "r = Ok Continue \<or> r = Ok Return \<and> s' = s \<or> r = Panic \<and> unsafe ps raced s"
    and "streamInfo s' = streamInfo s" by simp_all
qed

text \<open>A turn that goes on changes no flag and closes no queue of a player that stays.\<close>

definition flags :: "StreamWriter \<Rightarrow> bool \<times> bool" where
  "flags w = (sw_closed w, cclosed (packetQueue w))"

lemma select_turn_players:
  assumes "stream_inv ps s" and "case_ready sc s" and "select_turn raced sc s = (Ok Continue, s')"
  shows "set (writerChan s') \<subseteq> set (writerChan s)"
    and "flags ` set (writers s') \<subseteq> flags ` (set (writers s) \<union> set (writerChan s))"
proof -
  have "set (writerChan s') \<subseteq> set (writerChan s) \<and> flags ` set (writers s') \<subseteq> flags ` (set (writers s) \<union> set (writerChan s))"
  proof (cases sc)
    case PktCase
    show ?thesis
    proof (cases "cbuf (pktChan s)")
      case (Cons p rest)
      have "flags (snd (sw_Write p w)) = flags w" if "w\<in>set (writers s)" for w
        using writer_inv_Write(5,6) [OF _ surjective_pairing, of w p] assms(1) that by (simp add: stream_inv_def flags_def)
      then have "flags ` set (map (\<lambda>w. snd (sw_Write p w)) (filter (\<lambda>w. \<not> sw_closed w) (writers s))) \<subseteq> flags ` set (writers s)" by auto
      moreover have "writers s' = map (\<lambda>w. snd (sw_Write p w)) (filter (\<lambda>w. \<not> sw_closed w) (writers s))" "writerChan s' = writerChan s"
        using onPacket_spec [OF assms(1) Cons] assms(3) PktCase by (auto simp: select_turn_def split: if_splits)
      ultimately show ?thesis by (simp only: image_Un) blast
    qed (use assms(2) PktCase in \<open>simp add: case_ready_def\<close>)
  next
    case (WriterCase i)
    then have i: "i < length (writerChan s)" "onWriter i s = (Ok Continue, s')" using assms(2,3) by (simp_all add: case_ready_def select_turn_def)
    note spec = onWriter_spec [OF assms(1) i(1)]
    let ?w = "writerChan s ! i"
    have mem: "?w \<in> set (writerChan s)" using i(1) by simp
    have "\<exists>w'. writers s' = writers s @ [w'] \<and> flags w' = flags ?w \<and> writerChan s' = take i (writerChan s) @ drop (Suc i) (writerChan s)"
    proof (cases "cclosed (packetQueue ?w)")
      case True
      show ?thesis
      proof (cases "replay ps = []")
        case empty: True
        from spec(3) [OF True empty] i(2) show ?thesis by auto
      qed (use spec(2) [OF True] i(2) in simp)
    next
      case False
      from spec(1) [OF False] i(2) show ?thesis by (auto simp: flags_def)
    qed
    then obtain w' where w': "writers s' = writers s @ [w']" "flags w' = flags ?w" "writerChan s' = take i (writerChan s) @ drop (Suc i) (writerChan s)"
      by blast
    have "set (writerChan s') \<subseteq> set (writerChan s)" unfolding w'(3) by (auto dest: in_set_takeD in_set_dropD)
    moreover have "flags ` set (writers s') \<subseteq> flags ` (set (writers s) \<union> set (writerChan s))" using w'(1,2) mem by auto
    ultimately show ?thesis ..
  next
    case (ReaderCase i)
    then have "writerChan s' = writerChan s" "flags ` set (writers s') = flags ` set (writers s)"
      using assms(3) by (cases "reader s"; auto simp: select_turn_def onReader_def Let_def flags_def image_image)+
    then show ?thesis by (simp only: image_Un) blast
  next
    case (TickCase now)
    then show ?thesis using assms(3) aliveWriters_spec [of raced now "writers s"]
      by (auto simp: select_turn_def onTick_def split: option.splits if_splits)
  qed
  then show "set (writerChan s') \<subseteq> set (writerChan s)"
    and "flags ` set (writers s') \<subseteq> flags ` (set (writers s) \<union> set (writerChan s))" by simp_all
qed

section \<open>Outcomes of the loop\<close>

text \<open>
  What has to be the case at the beginning, or happen during the turns, for a panic: a header is published and the queue of a waiting player is
  closed; the queue of a player is closed and its flag not set; or the goroutine of an open player overtakes a \<open>Close\<close>.
\<close>

definition endangered :: "Packet list \<Rightarrow> (select_case \<times> (StreamWriter \<Rightarrow> bool)) list \<Rightarrow> RtmpStream \<Rightarrow> bool" where
  "endangered ps scs s \<longleftrightarrow> replay ps \<noteq> [] \<and> (\<exists>w\<in>set (writerChan s). cclosed (packetQueue w)) \<or>
     (\<exists>w\<in>set (writers s) \<union> set (writerChan s). \<not> sw_closed w \<and> cclosed (packetQueue w)) \<or>
     (\<exists>(sc, raced)\<in>set scs. \<exists>w. raced w \<and> \<not> sw_closed w)"

lemma unsafe_endangered: "unsafe ps raced s \<Longrightarrow> endangered ps ((sc, raced) # scs) s"
  by (auto simp: unsafe_def endangered_def torn_def)

lemma endangered_turn:
  assumes "stream_inv ps s" and "case_ready sc s" and "select_turn raced sc s = (Ok Continue, s')" and "endangered ps scs s'"
  shows "endangered ps ((sc, raced) # scs) s"
proof -
  note pl = select_turn_players [OF assms(1-3)]
  have "\<exists>v\<in>set (writers s) \<union> set (writerChan s). \<not> sw_closed v \<and> cclosed (packetQueue v)"
    if "w\<in>set (writers s') \<union> set (writerChan s')" "\<not> sw_closed w" "cclosed (packetQueue w)" for w
  proof -
    from that(1) pl obtain v where "v\<in>set (writers s) \<union> set (writerChan s)" "flags w = flags v" by blast
    with that(2,3) show ?thesis by (auto simp: flags_def)
  qed
  with assms(4) pl(1) show ?thesis unfolding endangered_def by auto
qed

text \<open>
  C7: However the loop of a stream is scheduled, from any state it can reach: either it still runs, the registry is
  unchanged and it has only taken steps of a run; or it returned, and then the stream is gone from the registry, every other
  stream is still there, every player is closed and nobody waits any more; or it panicked, which happens only when a
  header has been published and a player whose queue was closed is waiting to join, or when a \<open>Close\<close> of the loop meets the \<open>Close\<close> of a
  player's own goroutine: the queue of a player is closed and its flag not yet set, or that goroutine
  comes between the test and the \<open>close\<close> of the loop.
\<close>

theorem stream_loop_outcomes:
  assumes "stream_run (NewStream i n info) ps s" and "streamLoop scs s h = (r, s', h')"
  shows "r = Ok None \<and> h' = h \<and> stream_run (NewStream i n info) ps s' \<or>
    r = Ok (Some ()) \<and> h' = h(streamKey (streamInfo s) := None) \<and> (\<forall>w\<in>set (writers s'). sw_closed w) \<and> writerChan s' = [] \<and> readerChan s' = [] \<or>
    r = Panic \<and> (h' = h \<or> h' = h(streamKey (streamInfo s) := None)) \<and> endangered ps scs s"
  using assms
proof (induction scs arbitrary: s)
  case (Cons turn scs)
  obtain sc raced where turn: "turn = (sc, raced)" by fastforce
  have inv: "stream_inv ps s" using stream_run_inv [OF Cons.prems(1) stream_inv_New] .
  show ?case
  proof (cases "case_ready sc s")
    case True
    obtain q s1 where q: "select_turn raced sc s = (q, s1)" by fastforce
    from select_turn_outcomes [OF inv True q] consider "q = Ok Continue" | "q = Ok Return" "s1 = s" 
      | "q = Panic" "unsafe ps raced s" by blast
    then show ?thesis
    proof cases
      case 1
      then have "stream_run (NewStream i n info) ps s1" using select_turn_run [OF Cons.prems(1) True] q by simp
      moreover have "streamLoop scs s1 h = (r, s', h')" using Cons.prems(2) True q 1 turn by simp
      moreover have "streamInfo s1 = streamInfo s" using select_turn_outcomes(2) [OF inv True q] .
      ultimately show ?thesis using Cons.IH [of s1] endangered_turn [OF inv True q [unfolded 1]] turn by auto
    next
      case 2
      obtain x t k where x: "streamLoop_return raced s h = (x, t, k)" by (metis surj_pair)
      note spec = streamLoop_return_spec [OF x]
      have eq: "r = res_bind x (\<lambda>_. Ok (Some ()))" "s' = t" "h' = k" using Cons.prems(2) True q 2 x turn by simp_all
      show ?thesis
      proof (cases "close_fails raced s")
        case True
        then have "unsafe ps raced s" by (simp add: close_fails_def unsafe_def)
        then have "endangered ps (turn # scs) s" using unsafe_endangered turn by blast
        with spec eq True show ?thesis by simp
      qed (use spec eq in simp)
    next
      case 3
      then have "endangered ps (turn # scs) s" using unsafe_endangered turn by blast
      then show ?thesis using Cons.prems(2) True q 3 turn by simp
    qed
  next
    case False
    have "streamLoop scs s h = (r, s', h')" using False Cons.prems(2) turn by simp
    moreover have "endangered ps scs s \<Longrightarrow> endangered ps (turn # scs) s" by (auto simp: endangered_def)
    ultimately show ?thesis using Cons.IH [OF Cons.prems(1)] by blast
  qed
qed simp

theorem stream_loop_outcomes_witness:
  "let s = NewStream [] 1 \<lparr>si_App = chars ''a'', si_Name = chars ''b'', si_URL = []\<rparr>; quiet = (\<lambda>_. False);
       (r, s', h') = streamLoop [(PktCase, quiet), (WriterCase 0, quiet), (TickCase 0, quiet)] s [streamKey (streamInfo s) \<mapsto> s]
   in r = Ok (Some ()) \<and> h' (streamKey (streamInfo s)) = None"
proof -
  let ?s = "NewStream [] 1 \<lparr>si_App = chars ''a'', si_Name = chars ''b'', si_URL = []\<rparr>" and ?q = "\<lambda>_. False"
  let ?scs = "[(PktCase, ?q), (WriterCase 0, ?q), (TickCase 0, ?q)]"
  obtain r s' h' where run: "streamLoop ?scs ?s [streamKey (streamInfo ?s) \<mapsto> ?s] = (r, s', h')" by (metis surj_pair)
  have "\<not> case_ready PktCase ?s" "\<not> case_ready (WriterCase 0) ?s" "case_ready (TickCase 0) ?s" "select_turn ?q (TickCase 0) ?s = (Ok Return, ?s)"
    by (simp_all add: case_ready_def NewStream_def make_chan_def select_turn_def onTick_def)
  moreover obtain x t k where x: "streamLoop_return ?q ?s [streamKey (streamInfo ?s) \<mapsto> ?s] = (x, t, k)" by (metis surj_pair)
  moreover have "\<not> close_fails ?q ?s" by (simp add: close_fails_def NewStream_def)
  then have "x = Ok ()" using streamLoop_return_spec [OF x] by simp
  ultimately have "r = Ok (Some ())" using run by simp
  with stream_loop_outcomes [OF stream_start run] run show ?thesis by (simp add: Let_def)
qed

end
