(* ===== verification/Session.thy ===== *)
theory Session
  imports ConnClient
begin

text \<open>
  A client and a server together: \<open>ConnClient.Start\<close> on one end of a connection and
  \<open>ForwardConnect.SetUpPlayOrPublish\<close> on the other. Each end is run on the bytes the other one has
  sent, and both come out with the same stream.
\<close>

section \<open>Reading with no acknowledgement due\<close>

text \<open>
  \<open>calm b n conn\<close>: \<open>conn\<close> waits for the next message of a peer whose chunk size is \<open>n\<close>, and \<open>b\<close> more
  bytes of payload fit in the acknowledgement window that this server announces, so that nothing is
  written while they are read.
\<close>

definition calm :: "nat \<Rightarrow> u32 \<Rightarrow> RtmpConn \<Rightarrow> bool" where
  "calm b n conn \<longleftrightarrow> ready n conn \<and> remoteWindowAckSize conn = 2500000 \<and> unat (ackReceived conn) + b < 2500000"

lemma ack_silent:
  assumes "unat (ackReceived conn) + unat sz < unat (remoteWindowAckSize conn)"
  shows "\<exists>k. ack sz conn = (Ok (), conn\<lparr>received := k, ackReceived := ackReceived conn + sz\<rparr>)"
proof -
  have u: "unat (ackReceived conn + sz) = unat (ackReceived conn) + unat sz"
    using assms unsigned_less [of "remoteWindowAckSize conn", where ?'a = nat] by (simp add: unat_word_ariths)
  then have "\<not> remoteWindowAckSize conn \<le> ackReceived conn + sz" using assms by (simp add: word_le_nat_alt)
  then show ?thesis by (cases conn) (auto simp: ack_def ack_count_def Let_def)
qed

lemma Read_complete_silent:
  assumes run: "Read_complete cs conn = (Ok r, conn')" and w: "remoteWindowAckSize conn = 2500000"
    and a: "unat (ackReceived conn) + unat (Length cs) < 2500000"
    and five: "TypeID cs = idWindowAckSize \<longrightarrow> U32BE (Data cs) = Ok 2500000"
  shows "rw conn' = rw conn \<and> chunkSize conn' = chunkSize conn \<and> remoteWindowAckSize conn' = 2500000 \<and>
    unat (ackReceived conn') = unat (ackReceived conn) + unat (Length cs)"
proof -
  from run obtain d h c1 where h: "handleControlMsg cs conn = (Ok h, c1)" and k: "ack (Length cs) c1 = (Ok (), conn')"
    by (auto simp: Read_complete_def pbind_def preturn_def split: res.splits prod.splits)
  have c1: "rw c1 = rw conn" "chunkSize c1 = chunkSize conn" "remoteWindowAckSize c1 = 2500000" "ackReceived c1 = ackReceived conn"
    using h w five by (auto simp: handleControlMsg_def split: if_splits res.splits)
  have "unat (ackReceived c1) + unat (Length cs) < unat (remoteWindowAckSize c1)" using c1 a by simp
  from ack_silent [OF this] k c1 have "ackReceived conn' = ackReceived conn + Length cs" "rw conn' = rw conn"
    "chunkSize conn' = chunkSize conn" "remoteWindowAckSize conn' = 2500000" by auto
  moreover have "unat (ackReceived conn + Length cs) = unat (ackReceived conn) + unat (Length cs)"
    using a by (simp add: unat_word_ariths)
  ultimately show ?thesis by simp
qed

lemma Read_calm:
  assumes m: "sendable m" and c: "calm (length (Data m) + b) n conn"
    and five: "TypeID m = idWindowAckSize \<longrightarrow> be_word (take 4 (Data m)) = (2500000 :: u32)"
    and rin: "rin (rw conn) = message_bytes (unat n) m @ rest"
  obtains conn' where "if is_control m then Read conn = Read conn' else \<exists>c. Read conn = (Ok c, conn') \<and> erase_ref c = as_read m"
    and "calm b (window_after m n) conn'" and "rw conn' = (rw conn)\<lparr>rin := rest\<rparr>" and "chunkSize conn' = chunkSize conn"
proof -
  note c' = c [unfolded calm_def]
  have rdy: "ready n conn" using c' by simp
  obtain cs where rd: "Read conn = Read_after cs (place (CSID m) cs rest conn)" and h: "holds m cs"
    by (rule Read_message [OF m rdy rin])
  let ?p = "place (CSID m) cs rest conn"
  obtain r conn' where rc: "Read_complete cs ?p = (Ok r, conn')" "ready (window_after m n) conn'" "rin (rw conn') = rest"
    "if is_control m then r = None else \<exists>c. r = Some c \<and> erase_ref c = as_read m"
    by (rule Read_complete_message [OF m h rdy])
  have asm: "assembled (Data m) (length (Data m)) cs" and ty: "TypeID cs = TypeID m" using h by (simp_all add: holds_def)
  have len: "unat (Length cs) = length (Data m)"
    using assembled_unat(3) [OF asm] by simp
  have "U32BE (Data cs) = Ok 2500000" if "TypeID cs = idWindowAckSize"
  proof -
    have l: "4 \<le> length (Data m)" using m that ty by (simp add: sendable_def)
    have "take (length (Data m)) (Data cs) = Data m" using asm by (simp add: assembled_def)
    then have "take 4 (Data cs) = take 4 (Data m)" "length (Data m) \<le> length (Data cs)"
      using l by (metis min.absorb2 take_take min.commute, metis length_take min.cobounded1)
    then show ?thesis using five that ty l by (simp add: U32BE_cases)
  qed
  with Read_complete_silent [OF rc(1)] c' len
  have f: "rw conn' = rw ?p" "chunkSize conn' = chunkSize conn" "remoteWindowAckSize conn' = 2500000"
    "unat (ackReceived conn') = unat (ackReceived conn) + length (Data m)"
    by (auto simp: place_def)
  show thesis
  proof (rule that)
    show "if is_control m then Read conn = Read conn' else \<exists>c. Read conn = (Ok c, conn') \<and> erase_ref c = as_read m"
      using rc rd by (auto simp: Read_after_def split: if_splits)
    show "calm b (window_after m n) conn'" using rc(2) f c' by (simp add: calm_def)
    show "rw conn' = (rw conn)\<lparr>rin := rest\<rparr>" using f(1) by (simp add: place_def)
  qed (rule f(2))
qed

text \<open>The next message that is not a protocol control message.\<close>

definition window_ok :: "ChunkStream \<Rightarrow> bool" where
  "window_ok m \<longleftrightarrow> sendable (on_wire m) \<and> (TypeID m = idWindowAckSize \<longrightarrow> be_word (take 4 (Data m)) = (2500000 :: u32))"

abbreviation payload :: "ChunkStream list \<Rightarrow> nat" where
  "payload ms \<equiv> sum_list (map (\<lambda>m. length (Data m)) ms)"

fun window_at :: "u32 \<Rightarrow> ChunkStream list \<Rightarrow> u32" where
  "window_at n [] = n"
| "window_at n (m # ms) = window_at (window_after m n) ms"

lemma stream_bytes_append: "stream_bytes n (xs @ ys) = stream_bytes n xs @ stream_bytes (window_at n xs) ys"
  by (induction xs arbitrary: n) simp_all

lemma Read_next:
  assumes "\<forall>m\<in>set cs. is_control m" and "\<not> is_control m" and "\<forall>x\<in>set (cs @ [m]). window_ok x"
    and "calm (payload (cs @ [m]) + b) n conn" and "rin (rw conn) = stream_bytes n (cs @ [m]) @ rest"
  shows "\<exists>c conn'. Read conn = (Ok c, conn') \<and> erase_ref c = as_read (on_wire m) \<and> calm b (window_at n (cs @ [m])) conn' \<and>
    rw conn' = (rw conn)\<lparr>rin := rest\<rparr> \<and> chunkSize conn' = chunkSize conn"
  using assms
proof (induction cs arbitrary: n conn)
  case Nil
  show ?case
    by (rule Read_calm [of "on_wire m" b n conn rest]) (use Nil in \<open>auto simp: window_ok_def\<close>)
next
  case (Cons x cs)
  obtain conn' where c': "Read conn = Read conn'" "calm (payload (cs @ [m]) + b) (window_after x n) conn'"
    "rw conn' = (rw conn)\<lparr>rin := stream_bytes (window_after x n) (cs @ [m]) @ rest\<rparr>" "chunkSize conn' = chunkSize conn"
    by (rule Read_calm [of "on_wire x" "payload (cs @ [m]) + b" n conn "stream_bytes (window_after x n) (cs @ [m]) @ rest"])
      (use Cons.prems in \<open>auto simp: window_ok_def add.assoc\<close>)
  with Cons.IH [of "window_after x n" conn'] Cons.prems show ?case by auto
qed

section \<open>What the two say\<close>

text \<open>The commands of the client, with the transaction ids it counts from 1, and the stream ids.\<close>

definition connect_args :: "order \<Rightarrow> ConnClient \<Rightarrow> val list" where
  "connect_args order cc = [VStr (chars ''connect''), VInt 1,
     VObject (order [(chars ''app'', VStr (app cc)), (chars ''type'', VStr (chars ''nonprivate'')),
       (chars ''flashVer'', VStr (chars ''FMS.3.1'')), (chars ''tcUrl'', VStr (tcurl cc))])]"

definition create_args :: "val list" where
  "create_args = [VStr (chars ''createStream''), VInt 2, VNil]"

definition stream_args :: "bool \<Rightarrow> ConnClient \<Rightarrow> val list" where
  "stream_args publish cc =
     (if publish then [VStr (chars ''publish''), VInt 3, VNil, VStr (title cc), VStr (chars ''live'')]
      else [VStr (chars ''play''), VInt 0, VNil, VStr (title cc)])"

definition client_says :: "order \<Rightarrow> bool \<Rightarrow> ConnClient \<Rightarrow> ChunkStream list" where
  "client_says order publish cc =
     [command_msg 3 0 (connect_args order cc), command_msg 3 0 create_args, command_msg 3 1 (stream_args publish cc)]"

text \<open>The answers of the server. Control messages are on chunk stream 2.\<close>

definition control_msg :: "u32 \<Rightarrow> u32 \<Rightarrow> bytes \<Rightarrow> ChunkStream" where
  "control_msg typ sid d = zeroChunkStream\<lparr>Format := 0, CSID := 2, TypeID := typ, StreamID := sid, Length := of_nat (length d), Data := d\<rparr>"

definition connect_controls :: "ChunkStream list" where
  "connect_controls = [control_msg 5 0 (be_bytes 4 (2500000 :: u32)), control_msg 6 0 (be_bytes 4 (2500000 :: u32) @ [2]),
     control_msg 1 0 (be_bytes 4 (1024 :: u32))]"

definition connect_result :: "order \<Rightarrow> val list" where
  "connect_result order = [VStr (chars ''_result''), VInt 1,
     VObject (order [(chars ''fmsVer'', VStr (chars ''FMS/3,0,1,123'')), (chars ''capabilities'', VInt 31)]),
     VObject (order [(chars ''level'', VStr (chars ''status'')), (chars ''code'', VStr (chars ''NetConnection.Connect.Success'')),
       (chars ''description'', VStr (chars ''Connection succeeded.'')), (chars ''objectEncoding'', VInt 0)])]"

definition create_result :: "val list" where
  "create_result = [VStr (chars ''_result''), VInt 2, VNil, VInt 1]"

text \<open>To \<open>play\<close> the server sends two user control messages and four states, of which the client takes the first.\<close>

definition stream_controls :: "bool \<Rightarrow> ChunkStream list" where
  "stream_controls publish =
     (if publish then [] else [control_msg 4 1 [0, 4, 0, 0, 0, 1], control_msg 4 1 [0, 0, 0, 0, 0, 1]])"

definition stream_state :: "order \<Rightarrow> bool \<Rightarrow> val list" where
  "stream_state order publish =
     (if publish then status order ''NetStream.Publish.Start'' ''Start publising.''
      else status order ''NetStream.Play.Reset'' ''Playing and resetting stream.'')"

definition play_states :: "order \<Rightarrow> bool \<Rightarrow> ChunkStream list" where
  "play_states order publish = (if publish then [] else
     map (command_msg 3 1) [status order ''NetStream.Play.Start'' ''Started playing stream.'',
       status order ''NetStream.Data.Start'' ''Started playing stream.'',
       status order ''NetStream.Play.PublishNotify'' ''Started playing notify.''])"

definition server_says :: "order \<Rightarrow> bool \<Rightarrow> ChunkStream list" where
  "server_says order publish = connect_controls @ [command_msg 3 0 (connect_result order), command_msg 3 0 create_result] @
     stream_controls publish @ [command_msg 3 1 (stream_state order publish)] @ play_states order publish"

section \<open>Sendable and well-formed\<close>

lemma on_wire_command [simp]: "on_wire (command_msg csid sid args) = command_msg csid sid args"
  by (simp add: on_wire_def chunkCSID_def)

lemma on_wire_control [simp]: "typ \<notin> {8, 9, 15, 18} \<Longrightarrow> on_wire (control_msg typ sid d) = control_msg typ sid d"
  by (simp add: on_wire_def chunkCSID_def control_msg_def)

lemma not_control_command [simp]: "\<not> is_control (command_msg csid sid args)"
  by (simp add: is_control_def)

lemma window_command [simp]: "window_after (command_msg csid sid args) n = n"
  by (simp add: window_after_def)

lemma window_ok_command:
  assumes "args \<noteq> []" and "\<forall>v\<in>set args. amf0_ok v" and "length (concat (map amf0_bytes args)) \<le> 0xffffff"
  shows "window_ok (command_msg 3 sid args)"
  using assms amf0_bytes_nonempty by (cases args) (auto simp: window_ok_def on_wire_def chunkCSID_def sendable_def zeroChunkStream_def)

lemma controls_ok:
  "\<forall>m\<in>set connect_controls. is_control m \<and> window_ok m" "\<forall>m\<in>set (stream_controls p). is_control m \<and> window_ok m"
  "window_at n connect_controls = 1024" "window_at n (stream_controls p) = n"
proof -
  have b: "be_bytes 4 (2500000 :: u32) = [0, 38, 37, 160]" "be_bytes 4 (1024 :: u32) = [0, 0, 4, 0]"
    by code_simp+
  have w: "be_word [0, 38, 37, 160] = (2500000 :: u32)" "be_word [0, 0, 4, 0] = (1024 :: u32)" by (simp_all add: be_word_def)
  show "\<forall>m\<in>set connect_controls. is_control m \<and> window_ok m"
    unfolding connect_controls_def b using w
    by (simp add: control_msg_def is_control_def window_ok_def on_wire_def chunkCSID_def sendable_def zeroChunkStream_def)
  show "\<forall>m\<in>set (stream_controls p). is_control m \<and> window_ok m"
    by (simp add: stream_controls_def control_msg_def is_control_def window_ok_def on_wire_def chunkCSID_def sendable_def zeroChunkStream_def)
  show "window_at n connect_controls = 1024" "window_at n (stream_controls p) = n"
    using w b by (simp_all add: connect_controls_def stream_controls_def control_msg_def window_after_def)
qed

lemma ordered_map_of:
  assumes "\<forall>m. mset (order m) = mset m" and "distinct (map fst m)"
  shows "map_of (order m) = map_of m"
proof -
  have p: "mset (order m) = mset m" using assms(1) by blast
  then have "mset (map fst (order m)) = mset (map fst m)" by (simp only: mset_map)
  then have "distinct (map fst (order m))" using assms(2) mset_eq_imp_distinct_iff by blast
  then show ?thesis using map_of_inject_set [OF _ assms(2)] mset_eq_setD [OF p] by blast
qed

lemma ordered_object:
  assumes "\<forall>m. mset (order m) = mset m" and "amf0_ok (VObject m)"
  shows "amf0_ok (VObject (order m))"
  using order_object(1) [of order m, OF spec [OF assms(1)] assms(2)] .

lemma codeOf_norm:
  "codeOf (amf0_norm (VObject m)) = (case map_of m (chars ''code'') of Some v \<Rightarrow> (case amf0_norm v of VStr s \<Rightarrow> Some s | _ \<Rightarrow> None) | None \<Rightarrow> None)"
  by (simp add: codeOf_def map_of_map [unfolded comp_def] split: option.splits)

lemma args_ok:
  assumes o: "\<forall>m. mset (order m) = mset m"
  shows "length (app cc) < 2 ^ 32 \<Longrightarrow> length (tcurl cc) < 2 ^ 32 \<Longrightarrow> \<forall>v\<in>set (connect_args order cc). amf0_ok v"
    and "\<forall>v\<in>set create_args. amf0_ok v" and "length (title cc) < 2 ^ 32 \<Longrightarrow> \<forall>v\<in>set (stream_args p cc). amf0_ok v"
    and "\<forall>v\<in>set (connect_result order). amf0_ok v" and "\<forall>v\<in>set create_result. amf0_ok v"
    and "\<forall>v\<in>set (stream_state order p). amf0_ok v"
proof -
  note object = ordered_object [OF o]
  show "\<forall>v\<in>set (connect_args order cc). amf0_ok v" if "length (app cc) < 2 ^ 32" "length (tcurl cc) < 2 ^ 32"
    using that object [of "[(chars ''app'', VStr (app cc)), (chars ''type'', VStr (chars ''nonprivate'')),
       (chars ''flashVer'', VStr (chars ''FMS.3.1'')), (chars ''tcUrl'', VStr (tcurl cc))]"]
    by (simp add: connect_args_def chars_def)
  show "\<forall>v\<in>set (connect_result order). amf0_ok v"
    using object [of "[(chars ''fmsVer'', VStr (chars ''FMS/3,0,1,123'')), (chars ''capabilities'', VInt 31)]"]
      object [of "[(chars ''level'', VStr (chars ''status'')), (chars ''code'', VStr (chars ''NetConnection.Connect.Success'')),
       (chars ''description'', VStr (chars ''Connection succeeded.'')), (chars ''objectEncoding'', VInt 0)]"]
    by (simp add: connect_result_def chars_def)
  show "\<forall>v\<in>set (stream_state order p). amf0_ok v"
    unfolding stream_state_def by (cases p; simp; intro ballI bspec [OF status_ok(1) [OF o]]; simp)
qed (simp_all add: create_args_def stream_args_def create_result_def chars_def)

section \<open>The client\<close>

lemma cc_writeMsg_sends:
  fixes cc :: ConnClient
  assumes "\<forall>v\<in>set args. amf0_ok v" and "length (concat (map amf0_bytes args)) \<le> 0xffffff"
    and "chunkSize (cconn cc) \<noteq> 0" and "wok (rw (cconn cc))"
    and "length (message_bytes (unat (chunkSize (cconn cc))) (command_msg 3 (streamid cc) args)) \<le> room (rw (cconn cc))"
  shows "\<exists>w. cc_writeMsg args cc = (Ok (), cc\<lparr>cconn := (cconn cc)\<lparr>rw := w\<rparr>\<rparr>) \<and> wire w = sent w \<and>
    sends (message_bytes (unat (chunkSize (cconn cc))) (command_msg 3 (streamid cc) args)) (rw (cconn cc)) w"
proof -
  from send_command [OF assms(2-5)] obtain c' w1 w where
    "Write (command_msg 3 (streamid cc) args) (cconn cc) = (Ok (), c', (cconn cc)\<lparr>rw := w1\<rparr>)" "rw_Flush w1 = (Ok (), w)"
    "wire w = sent w" "sends (message_bytes (unat (chunkSize (cconn cc))) (command_msg 3 (streamid cc) args)) (rw (cconn cc)) w"
    by blast
  then show ?thesis using EncodeBatch_bytes [OF assms(1), of "[]"]
    by (intro exI [of _ w]) (simp add: cc_writeMsg_def ccWrite_ignored_def cc_Flush_def conn_Flush_def pbind_def)
qed

lemma calm_rd_same:
  assumes "calm b n conn" and "rd_same (rw conn) w"
  shows "calm b n (conn\<lparr>rw := w\<rparr>)"
  using assms by (simp add: calm_def ready_def conn_inv_def rd_same_def)

lemma wait_answer:
  fixes cc :: ConnClient
  assumes cs: "\<forall>m\<in>set cs. is_control m \<and> window_ok m" and args: "args \<noteq> []" "\<forall>v\<in>set args. amf0_ok v"
    and c: "calm (payload (cs @ [command_msg 3 sid args]) + b) n (cconn cc)"
    and rin: "rin (rw (cconn cc)) = stream_bytes n (cs @ [command_msg 3 sid args]) @ rest"
    and answer: "\<And>conn d. checkAnswer cmd (map amf0_norm args) (cc\<lparr>cconn := conn, cdecoder := d\<rparr>) =
      (Ok (), cc\<lparr>cconn := conn, cdecoder := d, streamid := sid'\<rparr>)"
  shows "\<exists>conn' d. waitForResponse cmd cc = Some (Ok (), cc\<lparr>cconn := conn', cdecoder := d, streamid := sid'\<rparr>) \<and>
    calm b (window_at n cs) conn' \<and> rw conn' = (rw (cconn cc))\<lparr>rin := rest\<rparr> \<and> chunkSize conn' = chunkSize (cconn cc)"
proof -
  let ?m = "command_msg 3 sid args"
  have "length (concat (map amf0_bytes args)) \<le> 0xffffff" using c by (simp add: calm_def)
  then have "window_ok ?m" by (rule window_ok_command [OF args])
  moreover have wa: "window_at n (cs @ [?m]) = window_at n cs" by (induction cs arbitrary: n) simp_all
  ultimately obtain r conn' where r: "Read (cconn cc) = (Ok r, conn')" "erase_ref r = as_read ?m"
    "calm b (window_at n cs) conn'" "rw conn' = (rw (cconn cc))\<lparr>rin := rest\<rparr>" "chunkSize conn' = chunkSize (cconn cc)"
    using Read_next [of cs ?m b n "cconn cc" rest] cs c rin by auto
  have "TypeID r = TypeID (erase_ref r)" "Data r = Data (erase_ref r)" by (simp_all add: erase_ref_def)
  then have d: "TypeID r = 20" "Data r = concat (map amf0_bytes args)" unfolding r(2) by (simp_all add: as_read_def)
  let ?cc = "cc\<lparr>cconn := conn'\<rparr>"
  obtain d' where "cc_DecodeBatch 0 (Data r) ?cc = (Ok (map amf0_norm args, EOF), ?cc\<lparr>cdecoder := d'\<rparr>)"
    using DecodeBatch_bytes [OF args(2), of "cdecoder ?cc"] d(2) by (auto simp: cc_DecodeBatch_def)
  then have "wait_turn cmd cc = (Ok (Some ()), cc\<lparr>cconn := conn', cdecoder := d', streamid := sid'\<rparr>)"
    using r(1) d answer by (simp add: wait_turn_def wait_message_def cc_Read_def pbind_def pwrap_def preturn_def)
  then show ?thesis using r by (auto simp: waitForResponse_def run_loop_simps(1))
qed

text \<open>
  \<open>conn_at\<close>: the connection with its chunk size \<open>k\<close> and that of the peer \<open>n\<close>, what it has sent, the room
  and the payload that are left, and its input. \<open>client_at\<close>: where the client is in the dialogue.
\<close>

definition conn_at :: "u32 \<Rightarrow> u32 \<Rightarrow> bytes \<Rightarrow> nat \<Rightarrow> nat \<Rightarrow> bytes \<Rightarrow> RtmpConn \<Rightarrow> bool" where
  "conn_at k n out r b inp conn \<longleftrightarrow> chunkSize conn = k \<and> calm b n conn \<and> rin (rw conn) = inp \<and>
     wok (rw conn) \<and> sent (rw conn) = out \<and> r \<le> room (rw conn)"

definition client_at :: "ConnClient \<Rightarrow> int \<Rightarrow> u32 \<Rightarrow> bytes \<Rightarrow> nat \<Rightarrow> nat \<Rightarrow> u32 \<Rightarrow> bytes \<Rightarrow> ConnClient \<Rightarrow> bool" where
  "client_at cc0 t sid out r b n inp cc \<longleftrightarrow> app cc = app cc0 \<and> title cc = title cc0 \<and> tcurl cc = tcurl cc0 \<and>
     transID cc = t \<and> streamid cc = sid \<and> conn_at 128 n out r b inp (cconn cc)"

lemma client_turn:
  fixes cc :: ConnClient
  assumes at: "client_at cc0 t sid out (length (message_bytes 128 (command_msg 3 sid args)) + r)
      (payload (cs @ [command_msg 3 sid ans]) + b) n (stream_bytes n (cs @ [command_msg 3 sid ans]) @ rest) cc"
    and args: "\<forall>v\<in>set args. amf0_ok v" "length (concat (map amf0_bytes args)) \<le> 0xffffff"
    and cmd: "sendCommand order cmd cc = pwrap why (cc_writeMsg args) (cc\<lparr>transID := t', curcmdName := cmd\<rparr>)"
    and cs: "\<forall>m\<in>set cs. is_control m \<and> window_ok m" and ans: "ans \<noteq> []" "\<forall>v\<in>set ans. amf0_ok v"
    and answer: "\<And>cc' :: ConnClient. transID cc' = t' \<Longrightarrow> streamid cc' = sid \<Longrightarrow> checkAnswer cmd (map amf0_norm ans) cc' = (Ok (), cc'\<lparr>streamid := sid'\<rparr>)"
    and nxt: "nextCommand meth cmd = Ok nx"
  shows "\<exists>cc'. Start_turn order meth (cmd, cc) =
      (case nx of None \<Rightarrow> (Ok (Some ()), (cmd, cc')) | Some cmd' \<Rightarrow> (Ok None, (cmd', cc'))) \<and>
    wire (rw (cconn cc')) = sent (rw (cconn cc')) \<and>
    client_at cc0 t' sid' (out @ message_bytes 128 (command_msg 3 sid args)) r b (window_at n cs) rest cc'"
proof -
  let ?cc = "cc\<lparr>transID := t', curcmdName := cmd\<rparr>" and ?bs = "message_bytes 128 (command_msg 3 sid args)"
  note a = at [unfolded client_at_def conn_at_def]
  from cc_writeMsg_sends [OF args, of ?cc] a
  obtain w where w: "cc_writeMsg args ?cc = (Ok (), ?cc\<lparr>cconn := (cconn cc)\<lparr>rw := w\<rparr>\<rparr>)" "wire w = sent w" "sends ?bs (rw (cconn cc)) w"
    by auto
  define cc1 where "cc1 = ?cc\<lparr>cconn := (cconn cc)\<lparr>rw := w\<rparr>\<rparr>"
  have cc1: "calm (payload (cs @ [command_msg 3 sid ans]) + b) n (cconn cc1)"
    "rin (rw (cconn cc1)) = stream_bytes n (cs @ [command_msg 3 sid ans]) @ rest"
    using a w(3) calm_rd_same by (auto simp: cc1_def sends_def rd_same_def)
  have "\<exists>conn' d. waitForResponse cmd cc1 = Some (Ok (), cc1\<lparr>cconn := conn', cdecoder := d, streamid := sid'\<rparr>) \<and>
      calm b (window_at n cs) conn' \<and> rw conn' = (rw (cconn cc1))\<lparr>rin := rest\<rparr> \<and> chunkSize conn' = chunkSize (cconn cc1)"
    by (rule wait_answer [OF cs ans cc1]) (use answer a in \<open>simp add: cc1_def\<close>)
  then obtain conn' d where wr: "waitForResponse cmd cc1 = Some (Ok (), cc1\<lparr>cconn := conn', cdecoder := d, streamid := sid'\<rparr>)"
      "calm b (window_at n cs) conn'" "rw conn' = w\<lparr>rin := rest\<rparr>" "chunkSize conn' = 128"
    using a by (auto simp: cc1_def)
  have "sendCommand order cmd cc = (Ok (), cc1)" using cmd w(1) by (simp add: pwrap_def cc1_def)
  then have "Start_turn order meth (cmd, cc) = (let cc' = cc1\<lparr>cconn := conn', cdecoder := d, streamid := sid'\<rparr> in
      case nx of None \<Rightarrow> (Ok (Some ()), (cmd, cc')) | Some cmd' \<Rightarrow> (Ok None, (cmd', cc')))"
    using wr(1) nxt by (simp add: Start_turn_def Let_def split: option.split)
  moreover have "client_at cc0 t' sid' (out @ ?bs) r b (window_at n cs) rest (cc1\<lparr>cconn := conn', cdecoder := d, streamid := sid'\<rparr>)"
    using a w(3) wr by (auto simp: client_at_def conn_at_def cc1_def sends_def)
  moreover have "wire (rw conn') = sent (rw conn')" using w(2) wr(3) by simp
  ultimately show ?thesis by (intro exI [of _ "cc1\<lparr>cconn := conn', cdecoder := d, streamid := sid'\<rparr>"]) (simp add: Let_def)
qed

text \<open>The answers of the server satisfy the checks of the client.\<close>

lemma chars_eq [simp]: "chars a = chars b \<longleftrightarrow> a = b"
proof
  assume "chars a = chars b"
  moreover have "inj (\<lambda>c. of_nat (of_char c) :: u8)"
  proof (rule injI)
    fix x y :: char assume "(of_nat (of_char x) :: u8) = of_nat (of_char y)"
    then show "x = y" by (simp add: word_of_nat_eq_iff take_bit_eq_mod)
  qed
  ultimately show "a = b" unfolding chars_def using inj_map_eq_map by blast
qed simp

lemma connect_answer:
  fixes cc :: ConnClient
  assumes o: "\<forall>m. mset (order m) = mset m" and "transID cc = 1"
  shows "checkAnswer (chars ''connect'') (map amf0_norm (connect_result order)) cc = (Ok (), cc)"
proof -
  let ?m = "[(chars ''level'', VStr (chars ''status'')), (chars ''code'', VStr (chars ''NetConnection.Connect.Success'')),
       (chars ''description'', VStr (chars ''Connection succeeded.'')), (chars ''objectEncoding'', VInt 0)]"
  have "map_of (order ?m) = map_of ?m" by (rule ordered_map_of [OF o]) simp
  then have "codeOf (amf0_norm (VObject (order ?m))) = Some (chars ''NetConnection.Connect.Success'')"
    by (simp add: codeOf_norm del: amf0_norm.simps(7))
  then show ?thesis using assms(2)
    by (simp add: checkAnswer_def connect_result_def f64_roundtrip)
qed

lemma create_answer:
  fixes cc :: ConnClient
  assumes "transID cc = 2"
  shows "checkAnswer (chars ''createStream'') (map amf0_norm create_result) cc = (Ok (), cc\<lparr>streamid := 1\<rparr>)"
  using assms by (simp add: checkAnswer_def create_result_def f64_roundtrip)

lemma status_answer:
  assumes o: "\<forall>m. mset (order m) = mset m"
  shows "codeOf (amf0_norm (last (status order code desc))) = Some (chars code)"
    and "VStr (chars ''onStatus'') \<in> set (map amf0_norm (status order code desc))"
    and "amf0_norm (last (status order code desc)) \<in> set (map amf0_norm (status order code desc))"
proof -
  let ?m = "[(chars ''level'', VStr (chars ''status'')), (chars ''code'', VStr (chars code)), (chars ''description'', VStr (chars desc))]"
  have "map_of (order ?m) = map_of ?m" by (rule ordered_map_of [OF o]) simp
  then show "codeOf (amf0_norm (last (status order code desc))) = Some (chars code)"
    by (simp add: status_def codeOf_norm del: amf0_norm.simps(7))
qed (simp_all add: status_def)

lemma stream_answer:
  fixes cc :: ConnClient
  assumes o: "\<forall>m. mset (order m) = mset m"
  shows "checkAnswer (chars (if p then ''publish'' else ''play'')) (map amf0_norm (stream_state order p)) cc = (Ok (), cc)"
proof -
  have "statusFlags codes (map amf0_norm (status order code desc)) = (True, True)" if "code \<in> set codes" for codes code desc
    using status_answer [OF o, of code desc] that unfolding statusFlags_def prod.inject eq_True by blast
  then show ?thesis by (simp add: checkAnswer_def stream_state_def)
qed

lemma answers_nonempty [simp]: "connect_result order \<noteq> []" "create_result \<noteq> []" "stream_state order p \<noteq> []"
  by (simp_all add: connect_result_def create_result_def stream_state_def status_def)

lemma same_streamid: "streamid cc = s \<Longrightarrow> cc\<lparr>streamid := s\<rparr> = (cc :: ConnClient)"
  by (cases cc) simp

lemma client_runs:
  fixes cc :: ConnClient
  assumes oc: "\<forall>m. mset (oc m) = mset m" and os: "\<forall>m. mset (os m) = mset m"
    and len: "length (app cc) < 2 ^ 32" "length (tcurl cc) < 2 ^ 32" "length (title cc) < 2 ^ 32"
    and small: "payload (client_says oc p cc) \<le> 0xffffff"
    and at: "client_at cc 1 0 out (length (stream_bytes 128 (client_says oc p cc))) (payload (server_says os p)) 128
      (stream_bytes 128 (server_says os p)) cc"
  shows "\<exists>cmd cc'. run_loop (Start_turn oc (chars (if p then ''publish'' else ''play''))) (chars ''connect'', cc) = Some (Ok (), (cmd, cc')) \<and>
    wire (rw (cconn cc')) = out @ stream_bytes 128 (client_says oc p cc) \<and> streamid cc' = 1 \<and>
    calm (payload (play_states os p)) 1024 (cconn cc') \<and> rin (rw (cconn cc')) = stream_bytes 1024 (play_states os p)"
proof -
  let ?meth = "chars (if p then ''publish'' else ''play'')"
  let ?m1 = "message_bytes 128 (command_msg 3 0 (connect_args oc cc))" and ?m2 = "message_bytes 128 (command_msg 3 0 create_args)"
    and ?m3 = "message_bytes 128 (command_msg 3 1 (stream_args p cc))"
  let ?s2 = "[command_msg 3 0 create_result]" and ?s3 = "stream_controls p @ [command_msg 3 1 (stream_state os p)]"
  have t1: "transID cc = 1" using at by (simp add: client_at_def)
  then have "cc\<lparr>transID := 1\<rparr> = cc" by (cases cc) simp
  then have cc1: "cc\<lparr>transID := 1, curcmdName := x\<rparr> = cc\<lparr>curcmdName := x\<rparr>" for x by simp
  note bytes = stream_bytes_append controls_ok(3,4)
  have says: "stream_bytes 128 (client_says oc p cc) = ?m1 @ ?m2 @ ?m3" by (simp add: client_says_def)
  have small': "length (concat (map amf0_bytes (connect_args oc cc))) \<le> 0xffffff"
    "length (concat (map amf0_bytes create_args)) \<le> 0xffffff" "length (concat (map amf0_bytes (stream_args p cc))) \<le> 0xffffff"
    using small by (simp_all add: client_says_def)
  have "client_at cc 1 0 out (length ?m1 + (length ?m2 + length ?m3))
      (payload (connect_controls @ [command_msg 3 0 (connect_result os)]) + (payload ?s2 + (payload ?s3 + payload (play_states os p)))) 128
      (stream_bytes 128 (connect_controls @ [command_msg 3 0 (connect_result os)]) @
        stream_bytes 1024 (?s2 @ ?s3 @ play_states os p)) cc"
    using at by (simp add: says server_says_def bytes add.assoc)
  then have "\<exists>c1. Start_turn oc ?meth (chars ''connect'', cc) =
      (case Some (chars ''createStream'') of None \<Rightarrow> (Ok (Some ()), (chars ''connect'', c1)) | Some cmd' \<Rightarrow> (Ok None, (cmd', c1))) \<and>
    wire (rw (cconn c1)) = sent (rw (cconn c1)) \<and>
    client_at cc 1 0 (out @ ?m1) (length ?m2 + length ?m3) (payload ?s2 + (payload ?s3 + payload (play_states os p)))
      (window_at 128 connect_controls) (stream_bytes 1024 (?s2 @ ?s3 @ play_states os p)) c1"
  proof (rule client_turn [OF _ args_ok(1) [OF oc len(1,2)] small'(1) _ controls_ok(1) _ args_ok(4) [OF os]])
    show "sendCommand oc (chars ''connect'') cc =
        pwrap ''write connect msg failed'' (cc_writeMsg (connect_args oc cc)) (cc\<lparr>transID := 1, curcmdName := chars ''connect''\<rparr>)"
      unfolding cc1 using t1 by (simp add: sendCommand_def writeConnectMsg_def pwrap_def Let_def connect_args_def client_at_def)
  qed (auto simp: connect_answer [OF os] nextCommand_def same_streamid)
  then obtain c1 where c1: "Start_turn oc ?meth (chars ''connect'', cc) = (Ok None, (chars ''createStream'', c1))"
    "client_at cc 1 0 (out @ ?m1) (length ?m2 + length ?m3) (payload ([] @ ?s2) + (payload ?s3 + payload (play_states os p))) 1024
      (stream_bytes 1024 ([] @ ?s2) @ stream_bytes 1024 (?s3 @ play_states os p)) c1"
    by (auto simp: bytes)
  from c1(2) have "\<exists>c2. Start_turn oc ?meth (chars ''createStream'', c1) =
      (case Some ?meth of None \<Rightarrow> (Ok (Some ()), (chars ''createStream'', c2)) | Some cmd' \<Rightarrow> (Ok None, (cmd', c2))) \<and>
    wire (rw (cconn c2)) = sent (rw (cconn c2)) \<and>
    client_at cc 2 1 ((out @ ?m1) @ ?m2) (length ?m3) (payload ?s3 + payload (play_states os p)) (window_at 1024 [])
      (stream_bytes 1024 (?s3 @ play_states os p)) c2"
  proof (rule client_turn [OF _ args_ok(2) [OF oc] small'(2) _ _ _ args_ok(5) [OF os]])
    show "sendCommand oc (chars ''createStream'') c1 =
        pwrap ''write create stream failed'' (cc_writeMsg create_args) (c1\<lparr>transID := 2, curcmdName := chars ''createStream''\<rparr>)"
      using c1(2) by (simp add: sendCommand_def writeCreateStreamMsg_def pwrap_def Let_def create_args_def client_at_def)
  qed (auto simp: create_answer nextCommand_def)
  then obtain c2 where c2: "Start_turn oc ?meth (chars ''createStream'', c1) = (Ok None, (?meth, c2))"
    "client_at cc 2 1 ((out @ ?m1) @ ?m2) (length ?m3 + 0) (payload ?s3 + payload (play_states os p)) 1024
      (stream_bytes 1024 ?s3 @ stream_bytes 1024 (play_states os p)) c2"
    by (auto simp: bytes)
  from c2(2) have "\<exists>c3. Start_turn oc ?meth (?meth, c2) =
      (case None of None \<Rightarrow> (Ok (Some ()), (?meth, c3)) | Some cmd' \<Rightarrow> (Ok None, (cmd', c3))) \<and>
    wire (rw (cconn c3)) = sent (rw (cconn c3)) \<and>
    client_at cc 3 1 (((out @ ?m1) @ ?m2) @ ?m3) 0 (payload (play_states os p)) (window_at 1024 (stream_controls p))
      (stream_bytes 1024 (play_states os p)) c3"
  proof (rule client_turn [OF _ args_ok(3) [OF oc len(3)] small'(3) _ controls_ok(2) _ args_ok(6) [OF os]])
    show "sendCommand oc ?meth c2 = pwrap (if p then ''write publish msg failed'' else ''write play msg failed'')
        (cc_writeMsg (stream_args p cc)) (c2\<lparr>transID := 3, curcmdName := ?meth\<rparr>)"
      using c2(2) by (simp add: sendCommand_def writePublishMsg_def writePlayMsg_def pwrap_def Let_def stream_args_def client_at_def)
  qed (use stream_answer [OF os] in \<open>auto simp: nextCommand_def same_streamid\<close>)
  then obtain c3 where c3: "Start_turn oc ?meth (?meth, c2) = (Ok (Some ()), (?meth, c3))"
    "wire (rw (cconn c3)) = sent (rw (cconn c3))"
    "client_at cc 3 1 (((out @ ?m1) @ ?m2) @ ?m3) 0 (payload (play_states os p)) 1024 (stream_bytes 1024 (play_states os p)) c3"
    by (auto simp: bytes)
  note go = run_loop_simps [where turn = "Start_turn oc ?meth"]
  have "run_loop (Start_turn oc ?meth) (chars ''connect'', cc) = Some (Ok (), (?meth, c3))"
    using go(2) [OF c1(1)] go(2) [OF c2(1)] go(1) [OF c3(1)] by simp
  then show ?thesis using c3(2,3) by (auto simp: client_at_def conn_at_def says)
qed

section \<open>The server\<close>

lemma Write_sends:
  assumes m: "window_ok m" and k: "4 \<le> unat (chunkSize conn)" and "wok (rw conn)"
    and "length (message_bytes (unat (chunkSize conn)) (on_wire m)) \<le> room (rw conn)"
  shows "\<exists>c' w. Write m conn = (Ok (), c', conn\<lparr>chunkSize := window_after m (chunkSize conn), rw := w\<rparr>) \<and>
    sends (message_bytes (unat (chunkSize conn)) (on_wire m)) (rw conn) w"
proof -
  obtain r c' conn' where run: "Write m conn = (r, c', conn')" by (metis surj_pair)
  have s: "sendable (on_wire m)" using m by (simp add: window_ok_def)
  note w = Write_writes [OF s k run]
  then have "r = Ok ()" "sends (message_bytes (unat (chunkSize conn)) (on_wire m)) (rw conn) (rw conn')"
    using assms(3,4) by (auto simp: writes_def sends_def)
  moreover have "conn' = conn\<lparr>chunkSize := chunkSize conn', rw := rw conn'\<rparr>"
    using run by (auto simp: Write_def conn_writeChunk_def split: if_splits res.splits prod.splits)
  ultimately show ?thesis using run w(2) by metis
qed

lemma conn_at_sends:
  assumes "conn_at k n out (length bs + r) b inp conn" and "sends bs (rw conn) w"
  shows "conn_at k' n (out @ bs) r b inp (conn\<lparr>chunkSize := k', rw := w\<rparr>) \<longleftrightarrow> k' \<noteq> 0"
  using assms calm_rd_same [of b n conn w]
  by (auto simp: conn_at_def sends_def rd_same_def calm_def ready_def conn_inv_def)

lemma Write_at:
  assumes "conn_at k n out (length (message_bytes (unat k) (on_wire m)) + r) b inp conn" and "window_ok m" and "4 \<le> unat k"
  shows "\<exists>c' conn'. Write m conn = (Ok (), c', conn') \<and>
    conn_at (window_after m k) n (out @ message_bytes (unat k) (on_wire m)) r b inp conn'"
proof -
  have "chunkSize conn = k" "wok (rw conn)" "length (message_bytes (unat k) (on_wire m)) \<le> room (rw conn)"
    using assms(1) by (simp_all add: conn_at_def)
  with Write_sends [OF assms(2), of conn] assms(3) obtain c' w where
    "Write m conn = (Ok (), c', conn\<lparr>chunkSize := window_after m k, rw := w\<rparr>)"
    "sends (message_bytes (unat k) (on_wire m)) (rw conn) w" by auto
  moreover have "window_after m k \<noteq> 0"
    using window_after_ge4 [of m k] assms(2,3) by (auto simp: window_ok_def)
  ultimately show ?thesis using conn_at_sends [OF assms(1)] by blast
qed

lemma control_at:
  assumes "conn_at k n out (length (message_bytes (unat k) (on_wire m)) + r) b inp (fconn fc)" and "window_ok m" and "4 \<le> unat k"
  shows "\<exists>conn'. fcWrite_ignored m fc = (Ok (), fc\<lparr>fconn := conn'\<rparr>) \<and>
    conn_at (window_after m k) n (out @ message_bytes (unat k) (on_wire m)) r b inp conn'"
  using Write_at [OF assms] by (auto simp: fcWrite_ignored_def)

lemma command_at:
  assumes at: "conn_at k n out (length (message_bytes (unat k) (command_msg csid sid args)) + r) b inp (fconn fc)" and k: "k \<noteq> 0"
    and args: "\<forall>v\<in>set args. amf0_ok v" "length (concat (map amf0_bytes args)) \<le> 0xffffff"
  shows "\<exists>conn'. writeMsg csid sid args fc = (Ok (), fc\<lparr>fconn := conn'\<rparr>) \<and> wire (rw conn') = sent (rw conn') \<and>
    conn_at k n (out @ message_bytes (unat k) (command_msg csid sid args)) r b inp conn'"
proof -
  let ?bs = "message_bytes (unat k) (command_msg csid sid args)"
  have a: "chunkSize (fconn fc) = k" using at by (simp add: conn_at_def)
  have "wok (rw (fconn fc))" "length ?bs \<le> room (rw (fconn fc))" using at by (simp_all add: conn_at_def)
  with writeMsg_sends [OF args, where fc = fc and csid = csid and sid = sid] a k
  obtain w where w: "writeMsg csid sid args fc = (Ok (), fc\<lparr>fconn := (fconn fc)\<lparr>rw := w\<rparr>\<rparr>)" "wire w = sent w" "sends ?bs (rw (fconn fc)) w"
    by auto
  have "(fconn fc)\<lparr>chunkSize := k, rw := w\<rparr> = (fconn fc)\<lparr>rw := w\<rparr>" using a by (cases "fconn fc") simp
  then have "conn_at k n (out @ ?bs) r b inp ((fconn fc)\<lparr>rw := w\<rparr>)"
    using conn_at_sends [OF at w(3), of k] k by simp
  then show ?thesis using w(1,2) by (intro exI [of _ "(fconn fc)\<lparr>rw := w\<rparr>"]) simp
qed

text \<open>The next command of the client arrives.\<close>

lemma server_reads:
  assumes at: "conn_at k 128 out r (payload [command_msg 3 sid vs] + b)
      (message_bytes 128 (command_msg 3 sid vs) @ rest) (fconn fc)"
    and vs: "vs = VStr cmd # args" and args: "\<forall>v\<in>set vs. amf0_ok v"
  shows "\<exists>c conn d. SetUp_turn order fc = SetUp_command order c (map amf0_norm vs) cmd (fc\<lparr>fconn := conn, decoder := d\<rparr>) \<and>
    CSID c = 3 \<and> StreamID c = sid \<and> conn_at k 128 out r b rest conn"
proof -
  let ?m = "command_msg 3 sid vs"
  note a = at [unfolded conn_at_def]
  have c: "calm (payload ([] @ [?m]) + b) 128 (fconn fc)" "rin (rw (fconn fc)) = stream_bytes 128 ([] @ [?m]) @ rest"
    using a by simp_all
  have "length (Data ?m) < 2500000" using c(1) by (simp add: calm_def)
  then have "window_ok ?m" using args vs by (intro window_ok_command) simp_all
  with Read_next [OF _ _ _ c] obtain c conn where r: "Read (fconn fc) = (Ok c, conn)" "erase_ref c = as_read ?m" "calm b 128 conn"
    "rw conn = (rw (fconn fc))\<lparr>rin := rest\<rparr>" "chunkSize conn = chunkSize (fconn fc)" by auto
  have "TypeID c = TypeID (erase_ref c)" "Data c = Data (erase_ref c)" "CSID c = CSID (erase_ref c)" "StreamID c = StreamID (erase_ref c)"
    by (simp_all add: erase_ref_def)
  then have f: "TypeID c = 20" "Data c = concat (map amf0_bytes vs)" "CSID c = 3" "StreamID c = sid"
    unfolding r(2) by (simp_all add: as_read_def)
  have "conn_at k 128 out r b rest conn" using a r by (simp add: conn_at_def)
  then show ?thesis
    unfolding SetUp_turn_read [OF r(1)] using SetUp_message_command [OF f(1) f(2) [unfolded vs] args [unfolded vs], of order "fc\<lparr>fconn := conn\<rparr>"] f(3,4) vs by auto
qed

text \<open>Several messages one after the other.\<close>

fun fcWrites :: "ChunkStream list \<Rightarrow> (ForwardConnect, unit) prog" where
  "fcWrites [] = preturn ()"
| "fcWrites (m # ms) = pbind (fcWrite_ignored m) (\<lambda>_. fcWrites ms)"

fun writeMsgs :: "u32 \<Rightarrow> u32 \<Rightarrow> val list list \<Rightarrow> (ForwardConnect, unit) prog" where
  "writeMsgs csid sid [] = preturn ()"
| "writeMsgs csid sid (args # ms) = pbind (writeMsg csid sid args) (\<lambda>_. writeMsgs csid sid ms)"

lemma controls_at:
  assumes "conn_at k n out (length (stream_bytes k ms) + r) b inp (fconn fc)" and "\<forall>m\<in>set ms. window_ok m" and "4 \<le> unat k"
  shows "\<exists>conn'. fcWrites ms fc = (Ok (), fc\<lparr>fconn := conn'\<rparr>) \<and>
    conn_at (window_at k ms) n (out @ stream_bytes k ms) r b inp conn'"
  using assms
proof (induction ms arbitrary: k out fc)
  case Nil
  then show ?case by (intro exI [of _ "fconn fc"]) simp
next
  case (Cons m ms)
  let ?k = "window_after m k"
  have "conn_at k n out (length (message_bytes (unat k) (on_wire m)) + (length (stream_bytes ?k ms) + r)) b inp (fconn fc)"
    using Cons.prems(1) by (simp add: add.assoc)
  then obtain conn' where c: "fcWrite_ignored m fc = (Ok (), fc\<lparr>fconn := conn'\<rparr>)"
    "conn_at ?k n (out @ message_bytes (unat k) (on_wire m)) (length (stream_bytes ?k ms) + r) b inp conn'"
    using control_at Cons.prems(2,3) by (metis list.set_intros(1))
  have "4 \<le> unat ?k" using window_after_ge4 Cons.prems(2,3) by (simp add: window_ok_def)
  with Cons.IH [of ?k _ "fc\<lparr>fconn := conn'\<rparr>"] c(2) Cons.prems(2) obtain conn'' where
    "fcWrites ms (fc\<lparr>fconn := conn'\<rparr>) = (Ok (), fc\<lparr>fconn := conn''\<rparr>)"
    "conn_at (window_at ?k ms) n ((out @ message_bytes (unat k) (on_wire m)) @ stream_bytes ?k ms) r b inp conn''"
    by fastforce
  then show ?case using c(1) by (intro exI [of _ conn'']) (simp add: pbind_def)
qed

lemma commands_at:
  assumes "conn_at k n out (length (stream_bytes k (map (command_msg 3 sid) ms)) + r) b inp (fconn fc)" and "k \<noteq> 0"
    and "\<forall>args\<in>set ms. (\<forall>v\<in>set args. amf0_ok v) \<and> length (concat (map amf0_bytes args)) \<le> 0xffffff"
  shows "\<exists>conn'. writeMsgs 3 sid ms fc = (Ok (), fc\<lparr>fconn := conn'\<rparr>) \<and>
    conn_at k n (out @ stream_bytes k (map (command_msg 3 sid) ms)) r b inp conn' \<and> (ms \<noteq> [] \<longrightarrow> wire (rw conn') = sent (rw conn'))"
  using assms
proof (induction ms arbitrary: out fc)
  case Nil
  then show ?case by (intro exI [of _ "fconn fc"]) simp
next
  case (Cons args ms)
  let ?bs = "message_bytes (unat k) (command_msg 3 sid args)" and ?rest = "stream_bytes k (map (command_msg 3 sid) ms)"
  have "conn_at k n out (length ?bs + (length ?rest + r)) b inp (fconn fc)"
    using Cons.prems(1) by (simp add: add.assoc)
  from command_at [OF this Cons.prems(2)] Cons.prems(3)
  obtain conn' where c: "writeMsg 3 sid args fc = (Ok (), fc\<lparr>fconn := conn'\<rparr>)" "wire (rw conn') = sent (rw conn')"
    "conn_at k n (out @ ?bs) (length ?rest + r) b inp conn'"
    by auto
  with Cons.IH [of _ "fc\<lparr>fconn := conn'\<rparr>"] Cons.prems(2,3) obtain conn'' where d:
    "writeMsgs 3 sid ms (fc\<lparr>fconn := conn'\<rparr>) = (Ok (), fc\<lparr>fconn := conn''\<rparr>)"
    "conn_at k n ((out @ ?bs) @ ?rest) r b inp conn''" "ms \<noteq> [] \<longrightarrow> wire (rw conn'') = sent (rw conn'')"
    by fastforce
  have "wire (rw conn'') = sent (rw conn'')"
  proof (cases "ms = []")
    case True
    then have "fc\<lparr>fconn := conn''\<rparr> = fc\<lparr>fconn := conn'\<rparr>" using d(1) by simp
    then have "conn'' = conn'" by (metis ForwardConnect.select_convs(4) ForwardConnect.surjective ForwardConnect.update_convs(4))
    then show ?thesis using c(2) by simp
  qed (use d(3) in simp)
  then show ?case using c(1) d(1,2) by (intro exI [of _ conn'']) (simp add: pbind_def)
qed

lemma flush_at:
  assumes "conn_at k n out r b inp (fconn fc)"
  shows "\<exists>conn'. fc_Flush fc = (Ok (), fc\<lparr>fconn := conn'\<rparr>) \<and> conn_at k n out r b inp conn' \<and> wire (rw conn') = sent (rw conn')"
proof -
  note a = assms [unfolded conn_at_def]
  from rw_Flush_ok [of "rw (fconn fc)"] a obtain w where w: "rw_Flush (rw (fconn fc)) = (Ok (), w)" "sends [] (rw (fconn fc)) w" "wire w = sent w"
    by auto
  have "calm b n ((fconn fc)\<lparr>rw := w\<rparr>)" using a w(2) calm_rd_same by (simp add: sends_def)
  then show ?thesis using a w
    by (intro exI [of _ "(fconn fc)\<lparr>rw := w\<rparr>"]) (auto simp: fc_Flush_def conn_Flush_def conn_at_def sends_def rd_same_def)
qed

section \<open>The responses are the messages above\<close>

lemma pbind_assoc: "pbind (pbind m f) g = pbind m (\<lambda>a. pbind (f a) g)"
  by (simp add: fun_eq_iff pbind_def split: prod.splits res.splits)

lemma pbind_preturn: "pbind (preturn a) f = f a"
  by (simp add: fun_eq_iff pbind_def preturn_def)

lemma sendControl_Ok: "sendControl (Ok m) = fcWrite_ignored m"
  by (simp add: fun_eq_iff sendControl_def)

lemma connectResp_eq:
  "connectResp order c = pbind (fcWrites connect_controls) (\<lambda>_ fc. writeMsg (CSID c) (StreamID c)
     [VStr (chars ''_result''), VInt (transactionID fc),
        VObject (order [(chars ''fmsVer'', VStr (chars ''FMS/3,0,1,123'')), (chars ''capabilities'', VInt 31)]),
        VObject (order [(chars ''level'', VStr (chars ''status'')), (chars ''code'', VStr (chars ''NetConnection.Connect.Success'')),
          (chars ''description'', VStr (chars ''Connection succeeded.'')),
          (chars ''objectEncoding'', VInt (ObjectEncoding (ConnInfo fc)))])] fc)"
proof -
  have "NewWindowAckSize 2500000 = Ok (control_msg 5 0 (be_bytes 4 (2500000 :: u32)))"
    "NewSetPeerBandwidth 2500000 = Ok (control_msg 6 0 (be_bytes 4 (2500000 :: u32) @ [2]))"
    "NewSetChunkSize 1024 = Ok (control_msg 1 0 (be_bytes 4 (1024 :: u32)))"
    by code_simp+
  then show ?thesis by (simp add: connectResp_def connect_controls_def sendControl_Ok pbind_assoc pbind_preturn)
qed

lemma playResp_eq:
  assumes "CSID c = 3" and "StreamID c = 1"
  shows "playResp order c = pbind (fcWrites (stream_controls False)) (\<lambda>_.
     pbind (writeMsgs 3 1 [stream_state order False, status order ''NetStream.Play.Start'' ''Started playing stream.'',
       status order ''NetStream.Data.Start'' ''Started playing stream.'',
       status order ''NetStream.Play.PublishNotify'' ''Started playing notify.'']) (\<lambda>_. fc_Flush))"
proof -
  have "res_bind (userControlMsg e 4) (\<lambda>ret.
             foldl (\<lambda>acc i. res_bind acc (\<lambda>m.
                 res_bind (set_index (Data m) (2 + i) (streamIdByte i)) (\<lambda>d. Ok (m\<lparr>Data := d\<rparr>))))
               (Ok ret) [0..<4]) = Ok (control_msg 4 1 [0, ucast e, 0, 0, 0, 1])" if "e \<in> {0, 4}" for e
    using that by (elim insertE emptyE; simp only:; code_simp)
  then have "onConn SetRecorded = fcWrite_ignored (control_msg 4 1 [0, 4, 0, 0, 0, 1])"
    "onConn SetBegin = fcWrite_ignored (control_msg 4 1 [0, 0, 0, 0, 0, 1])"
    by (simp_all add: fun_eq_iff onConn_def SetRecorded_def SetBegin_def sendUserControl_def fcWrite_ignored_def split: prod.splits res.splits)
  then show ?thesis using assms
    by (simp add: playResp_def stream_controls_def stream_state_def pbind_assoc pbind_preturn Let_def)
qed

section \<open>The server takes the commands of the client\<close>

lemma map_of_norm: "map_of (map (\<lambda>(k, v). (k, amf0_norm v)) m) k = map_option amf0_norm (map_of m k)"
  by (simp add: map_of_map [unfolded comp_def])

lemma fc_connect_args:
  assumes o: "\<forall>m. mset (order m) = mset m"
  shows "fc_connect (drop 1 (map amf0_norm (connect_args order cc))) fc =
    (Ok (), fc\<lparr>transactionID := 1, ConnInfo := (ConnInfo fc)\<lparr>App := app cc, Flashver := chars ''FMS.3.1'', TcURL := tcurl cc\<rparr>\<rparr>)"
proof -
  let ?m = "[(chars ''app'', VStr (app cc)), (chars ''type'', VStr (chars ''nonprivate'')),
       (chars ''flashVer'', VStr (chars ''FMS.3.1'')), (chars ''tcUrl'', VStr (tcurl cc))]"
  have "map_of (order ?m) = map_of ?m" by (rule ordered_map_of [OF o]) simp
  then show ?thesis
    by (simp add: connect_args_def f64_roundtrip connectObject_def ifPresent_def map_of_norm asString_def)
qed

lemma small_status:
  assumes "\<forall>m. mset (order m) = mset m"
  shows "\<forall>(code, desc)\<in>{(''NetStream.Publish.Start'', ''Start publising.''), (''NetStream.Play.Reset'', ''Playing and resetting stream.''),
    (''NetStream.Play.Start'', ''Started playing stream.''), (''NetStream.Data.Start'', ''Started playing stream.''),
    (''NetStream.Play.PublishNotify'', ''Started playing notify.'')}.
    (\<forall>v\<in>set (status order code desc). amf0_ok v) \<and> length (concat (map amf0_bytes (status order code desc))) \<le> 0xffffff"
proof -
  define Q where "Q code desc \<longleftrightarrow> (\<forall>v\<in>set (status order code desc). amf0_ok v) \<and>
    length (concat (map amf0_bytes (status order code desc))) \<le> 0xffffff" for code desc
  have "Q code desc" if "length code \<le> 1000" "length desc \<le> 1000" for code desc
    using status_ok [OF assms that] by (simp add: Q_def)
  then show ?thesis by (simp flip: Q_def)
qed

lemma stream_reply_at:
  assumes o: "\<forall>m. mset (order m) = mset m" and c: "CSID c = 3" "StreamID c = 1"
    and at: "conn_at 1024 n out (length (stream_bytes 1024 (stream_controls p @ command_msg 3 1 (stream_state order p) # play_states order p)) + r)
      b inp (fconn fc)"
  shows "\<exists>conn'. (if p then publishResp order c else playResp order c) fc = (Ok (), fc\<lparr>fconn := conn'\<rparr>) \<and> wire (rw conn') = sent (rw conn') \<and>
    conn_at 1024 n (out @ stream_bytes 1024 (stream_controls p @ command_msg 3 1 (stream_state order p) # play_states order p)) r b inp conn'"
proof (cases p)
  case True
  then have "conn_at 1024 n out (length (message_bytes (unat (1024 :: u32)) (command_msg 3 1 (stream_state order p))) + r) b inp (fconn fc)"
    using at by (simp add: stream_controls_def play_states_def)
  from command_at [OF this] small_status [OF o] True c show ?thesis
    by (simp add: publishResp_def stream_state_def stream_controls_def play_states_def)
next
  case False
  define ss where "ss = [stream_state order False, status order ''NetStream.Play.Start'' ''Started playing stream.'',
       status order ''NetStream.Data.Start'' ''Started playing stream.'', status order ''NetStream.Play.PublishNotify'' ''Started playing notify.'']"
  let ?cs = "stream_controls False" and ?ms = "map (command_msg 3 1) ss"
  have ms: "command_msg 3 1 (stream_state order p) # play_states order p = ?ms"
    using False by (simp add: play_states_def ss_def)
  have ok: "\<forall>args\<in>set ss. (\<forall>v\<in>set args. amf0_ok v) \<and> length (concat (map amf0_bytes args)) \<le> 0xffffff"
    using small_status [OF o] by (simp add: stream_state_def ss_def)
  have "conn_at 1024 n out (length (stream_bytes 1024 ?cs) + (length (stream_bytes 1024 ?ms) + r)) b inp (fconn fc)"
    using at unfolding ms using False by (simp add: stream_bytes_append controls_ok(4) add.assoc)
  from controls_at [OF this] controls_ok(2,4) obtain c1 where c1: "fcWrites ?cs fc = (Ok (), fc\<lparr>fconn := c1\<rparr>)"
    "conn_at 1024 n (out @ stream_bytes 1024 ?cs) (length (stream_bytes 1024 ?ms) + r) b inp c1" by auto
  have "conn_at 1024 n (out @ stream_bytes 1024 ?cs) (length (stream_bytes 1024 ?ms) + r) b inp (fconn (fc\<lparr>fconn := c1\<rparr>))"
    using c1(2) by simp
  from commands_at [OF this _ ok]
  obtain c2 where c2: "writeMsgs 3 1 ss (fc\<lparr>fconn := c1\<rparr>) = (Ok (), fc\<lparr>fconn := c2\<rparr>)"
    "conn_at 1024 n ((out @ stream_bytes 1024 ?cs) @ stream_bytes 1024 ?ms) r b inp c2" by auto
  have "conn_at 1024 n ((out @ stream_bytes 1024 ?cs) @ stream_bytes 1024 ?ms) r b inp (fconn (fc\<lparr>fconn := c2\<rparr>))"
    using c2(2) by simp
  from flush_at [OF this] obtain c3 where c3: "fc_Flush (fc\<lparr>fconn := c2\<rparr>) = (Ok (), fc\<lparr>fconn := c3\<rparr>)"
    "conn_at 1024 n ((out @ stream_bytes 1024 ?cs) @ stream_bytes 1024 ?ms) r b inp c3" "wire (rw c3) = sent (rw c3)" by auto
  have "playResp order c fc = (Ok (), fc\<lparr>fconn := c3\<rparr>)"
    using c1(1) c2(1) c3(1) by (simp only: playResp_eq [OF c, of order, folded ss_def] pbind_def prod.case res.case)
  then show ?thesis unfolding ms using False c3 by (auto simp: stream_bytes_append controls_ok(4))
qed

lemma connect_reply_at:
  assumes o: "\<forall>m. mset (order m) = mset m" and c: "CSID c = 3" "StreamID c = 0"
    and fc: "transactionID fc = 1" "ObjectEncoding (ConnInfo fc) = 0"
    and small: "length (concat (map amf0_bytes (connect_result order))) \<le> 0xffffff"
    and at: "conn_at 128 n out (length (stream_bytes 128 (connect_controls @ [command_msg 3 0 (connect_result order)])) + r) b inp (fconn fc)"
  shows "\<exists>conn'. connectResp order c fc = (Ok (), fc\<lparr>fconn := conn'\<rparr>) \<and>
    conn_at 1024 n (out @ stream_bytes 128 (connect_controls @ [command_msg 3 0 (connect_result order)])) r b inp conn'"
proof -
  let ?bs = "message_bytes (unat (1024 :: u32)) (command_msg 3 0 (connect_result order))"
  have split: "stream_bytes 128 (connect_controls @ [command_msg 3 0 (connect_result order)]) = stream_bytes 128 connect_controls @ ?bs"
    by (simp add: stream_bytes_append controls_ok(3))
  have "conn_at 128 n out (length (stream_bytes 128 connect_controls) + (length ?bs + r)) b inp (fconn fc)"
    using at unfolding split by (simp add: add.assoc)
  from controls_at [OF this] controls_ok(1,3) obtain c1 where c1: "fcWrites connect_controls fc = (Ok (), fc\<lparr>fconn := c1\<rparr>)"
    "conn_at 1024 n (out @ stream_bytes 128 connect_controls) (length ?bs + r) b inp (fconn (fc\<lparr>fconn := c1\<rparr>))" by auto
  from command_at [OF c1(2) _ args_ok(4) [OF o] small]
  obtain c2 where c2: "writeMsg 3 0 (connect_result order) (fc\<lparr>fconn := c1\<rparr>) = (Ok (), fc\<lparr>fconn := c2\<rparr>)"
    "conn_at 1024 n ((out @ stream_bytes 128 connect_controls) @ ?bs) r b inp c2" by auto
  have "connectResp order c fc = (Ok (), fc\<lparr>fconn := c2\<rparr>)"
    using c1(1) c2(1) fc c by (simp add: connectResp_eq pbind_def connect_result_def)
  then show ?thesis unfolding split using c2(2) by auto
qed

lemma create_reply_at:
  assumes c: "CSID c = 3" "StreamID c = 0" and fc: "transactionID fc = 2" "fstreamID fc = 1"
    and at: "conn_at 1024 n out (length (stream_bytes 1024 [command_msg 3 0 create_result]) + r) b inp (fconn fc)"
  shows "\<exists>conn'. createStreamResp c fc = (Ok (), fc\<lparr>fconn := conn'\<rparr>) \<and>
    conn_at 1024 n (out @ stream_bytes 1024 [command_msg 3 0 create_result]) r b inp conn'"
proof -
  have small: "length (concat (map amf0_bytes create_result)) \<le> 0xffffff" by (simp add: create_result_def chars_def str_bytes_def)
  have ok: "\<forall>v\<in>set create_result. amf0_ok v" by (rule args_ok(5) [where order = "\<lambda>m. m"]) simp
  have resp: "createStreamResp c fc = writeMsg 3 0 create_result fc"
    using fc c by (simp add: createStreamResp_def create_result_def)
  have "conn_at 1024 n out (length (message_bytes (unat (1024 :: u32)) (command_msg 3 0 create_result)) + r) b inp (fconn fc)"
    using at by simp
  from command_at [OF this _ ok small] show ?thesis unfolding resp by auto
qed

text \<open>The three turns of the command loop.\<close>

lemma connect_turn:
  fixes cc :: ConnClient
  assumes oc: "\<forall>m. mset (oc m) = mset m" and os: "\<forall>m. mset (os m) = mset m"
    and len: "length (app cc) < 2 ^ 32" "length (tcurl cc) < 2 ^ 32" and fc: "ObjectEncoding (ConnInfo fc) = 0"
    and small: "length (concat (map amf0_bytes (connect_result os))) \<le> 0xffffff"
    and at: "conn_at 128 128 out (length (stream_bytes 128 (connect_controls @ [command_msg 3 0 (connect_result os)])) + r)
      (payload [command_msg 3 0 (connect_args oc cc)] + b) (message_bytes 128 (command_msg 3 0 (connect_args oc cc)) @ rest) (fconn fc)"
  shows "\<exists>k d. SetUp_turn os fc = (Ok None, fc\<lparr>decoder := d, transactionID := 1,
      ConnInfo := (ConnInfo fc)\<lparr>App := app cc, Flashver := chars ''FMS.3.1'', TcURL := tcurl cc\<rparr>, fconn := k\<rparr>) \<and>
    conn_at 1024 128 (out @ stream_bytes 128 (connect_controls @ [command_msg 3 0 (connect_result os)])) r b rest k"
proof -
  from server_reads [OF at connect_args_def args_ok(1) [OF oc len], of os]
  obtain c n d where r1: "SetUp_turn os fc = SetUp_command os c (map amf0_norm (connect_args oc cc)) (chars ''connect'') (fc\<lparr>fconn := n, decoder := d\<rparr>)"
    "CSID c = 3" "StreamID c = 0"
    "conn_at 128 128 out (length (stream_bytes 128 (connect_controls @ [command_msg 3 0 (connect_result os)])) + r) b rest n" by blast
  define f where "f = fc\<lparr>fconn := n, decoder := d, transactionID := 1,
    ConnInfo := (ConnInfo fc)\<lparr>App := app cc, Flashver := chars ''FMS.3.1'', TcURL := tcurl cc\<rparr>\<rparr>"
  have t: "fc_connect (drop 1 (map amf0_norm (connect_args oc cc))) (fc\<lparr>fconn := n, decoder := d\<rparr>) = (Ok (), f)"
    unfolding fc_connect_args [OF oc] f_def by simp
  have f: "transactionID f = 1" "ObjectEncoding (ConnInfo f) = 0" "fconn f = n" using fc by (simp_all add: f_def)
  from connect_reply_at [OF os r1(2,3) f(1,2) small r1(4) [folded f(3)]] obtain k where k: "connectResp os c f = (Ok (), f\<lparr>fconn := k\<rparr>)"
    "conn_at 1024 128 (out @ stream_bytes 128 (connect_controls @ [command_msg 3 0 (connect_result os)])) r b rest k" by blast
  have "SetUp_turn os fc = (Ok None, f\<lparr>fconn := k\<rparr>)"
    unfolding r1(1) SetUp_command_def using t k(1) by (simp add: pbind_def pwrap_def)
  then show ?thesis using k(2) by (auto simp: f_def)
qed

lemma create_turn:
  assumes fc: "fstreamID fc = 1"
    and at: "conn_at 1024 128 out (length (stream_bytes 1024 [command_msg 3 0 create_result]) + r)
      (payload [command_msg 3 0 create_args] + b) (message_bytes 128 (command_msg 3 0 create_args) @ rest) (fconn fc)"
  shows "\<exists>k d. SetUp_turn os fc = (Ok None, fc\<lparr>decoder := d, transactionID := 2, fconn := k\<rparr>) \<and>
    conn_at 1024 128 (out @ stream_bytes 1024 [command_msg 3 0 create_result]) r b rest k"
proof -
  have ok: "\<forall>v\<in>set create_args. amf0_ok v" by (rule args_ok(2) [where order = "\<lambda>m. m"]) simp
  from server_reads [OF at create_args_def ok, of os]
  obtain c n d where r1: "SetUp_turn os fc = SetUp_command os c (map amf0_norm create_args) (chars ''createStream'') (fc\<lparr>fconn := n, decoder := d\<rparr>)"
    "CSID c = 3" "StreamID c = 0" "conn_at 1024 128 out (length (stream_bytes 1024 [command_msg 3 0 create_result]) + r) b rest n" by blast
  define f where "f = fc\<lparr>fconn := n, decoder := d, transactionID := 2\<rparr>"
  have f: "transactionID f = 2" "fstreamID f = 1" "fconn f = n" using fc by (simp_all add: f_def)
  from create_reply_at [OF r1(2,3) f(1,2) r1(4) [folded f(3)]] obtain k where k: "createStreamResp c f = (Ok (), f\<lparr>fconn := k\<rparr>)"
    "conn_at 1024 128 (out @ stream_bytes 1024 [command_msg 3 0 create_result]) r b rest k" by blast
  have "SetUp_turn os fc = (Ok None, f\<lparr>fconn := k\<rparr>)"
    unfolding r1(1) using k(1) by (simp add: SetUp_command_def pbind_def pwrap_def create_args_def f64_roundtrip f_def)
  then show ?thesis using k(2) by (auto simp: f_def)
qed

lemma stream_turn:
  fixes cc :: ConnClient
  assumes oc: "\<forall>m. mset (oc m) = mset (m :: obj)" and os: "\<forall>m. mset (os m) = mset m" and len: "length (title cc) < 2 ^ 32"
    and says: "ms = stream_controls p @ command_msg 3 1 (stream_state os p) # play_states os p"
    and at: "conn_at 1024 128 out (length (stream_bytes 1024 ms) + r)
      (payload [command_msg 3 1 (stream_args p cc)] + b) (message_bytes 128 (command_msg 3 1 (stream_args p cc)) @ rest) (fconn fc)"
  shows "\<exists>k d. SetUp_turn os fc = (Ok (Some ()), fc\<lparr>decoder := d, transactionID := (if p then 3 else 0),
      PubInfo := \<lparr>PName = title cc, PType = (if p then chars ''live'' else PType (PubInfo fc))\<rparr>, fconn := k, isPublisher := p\<rparr>) \<and>
    conn_at 1024 128 (out @ stream_bytes 1024 ms) r b rest k \<and> wire (rw k) = sent (rw k)"
proof -
  obtain args where sa: "stream_args p cc = VStr (chars (if p then ''publish'' else ''play'')) # args" by (cases p) (auto simp: stream_args_def)
  from server_reads [OF at sa args_ok(3) [OF oc len], of os]
  obtain c n d where r1: "SetUp_turn os fc =
      SetUp_command os c (map amf0_norm (stream_args p cc)) (chars (if p then ''publish'' else ''play'')) (fc\<lparr>fconn := n, decoder := d\<rparr>)"
    "CSID c = 3" "StreamID c = 1" "conn_at 1024 128 out (length (stream_bytes 1024 ms) + r) b rest n" by blast
  define f where "f = fc\<lparr>fconn := n, decoder := d, transactionID := (if p then 3 else 0),
    PubInfo := \<lparr>PName = title cc, PType = (if p then chars ''live'' else PType (PubInfo fc))\<rparr>\<rparr>"
  have t: "publishOrPlay (drop 1 (map amf0_norm (stream_args p cc))) (fc\<lparr>fconn := n, decoder := d\<rparr>) = (Ok (), f)"
    by (cases "PubInfo fc") (simp add: stream_args_def publishOrPlay_def f_def f64_roundtrip)
  have f: "fconn f = n" by (simp add: f_def)
  from stream_reply_at [OF os r1(2,3) r1(4) [folded f, unfolded says], folded says] obtain k where
    k: "(if p then publishResp os c else playResp os c) f = (Ok (), f\<lparr>fconn := k\<rparr>)" "wire (rw k) = sent (rw k)"
    "conn_at 1024 128 (out @ stream_bytes 1024 ms) r b rest k" by blast
  have "SetUp_turn os fc = (Ok (Some ()), f\<lparr>fconn := k, isPublisher := p\<rparr>)"
    unfolding r1(1) SetUp_command_def using t k(1) by (simp add: pbind_def pwrap_def setPublisher_def split: if_splits)
  then show ?thesis using k(2,3) by (auto simp: f_def)
qed

lemma server_runs:
  fixes cc :: ConnClient
  assumes oc: "\<forall>m. mset (oc m) = mset m" and os: "\<forall>m. mset (os m) = mset m"
    and len: "length (app cc) < 2 ^ 32" "length (tcurl cc) < 2 ^ 32" "length (title cc) < 2 ^ 32"
    and small: "payload (server_says os p) \<le> 0xffffff"
    and fc: "fstreamID fc = 1" "ObjectEncoding (ConnInfo fc) = 0"
    and at: "conn_at 128 128 out (length (stream_bytes 128 (server_says os p))) (payload (client_says oc p cc))
      (stream_bytes 128 (client_says oc p cc)) (fconn fc)"
  shows "\<exists>fc'. SetUpPlayOrPublish os fc = Some (Ok (), fc') \<and> IsPublisher fc' = p \<and>
    GetStreamInfo fc' = (app cc, title cc, tcurl cc @ chars ''/'' @ title cc) \<and>
    wire (rw (fconn fc')) = out @ stream_bytes 128 (server_says os p) \<and>
    calm 0 128 (fconn fc') \<and> rin (rw (fconn fc')) = []"
proof -
  let ?m1 = "command_msg 3 0 (connect_args oc cc)" and ?m2 = "command_msg 3 0 create_args" and ?m3 = "command_msg 3 1 (stream_args p cc)"
  let ?s1 = "stream_bytes 128 (connect_controls @ [command_msg 3 0 (connect_result os)])"
    and ?s2 = "stream_bytes 1024 [command_msg 3 0 create_result]"
  define ms where "ms = stream_controls p @ command_msg 3 1 (stream_state os p) # play_states os p"
  have says: "stream_bytes 128 (server_says os p) = ?s1 @ ?s2 @ stream_bytes 1024 ms"
    by (simp add: server_says_def stream_bytes_append controls_ok(3,4) ms_def)
  have small1: "length (concat (map amf0_bytes (connect_result os))) \<le> 0xffffff" using small by (simp add: server_says_def)
  have "conn_at 128 128 out (length ?s1 + (length ?s2 + (length (stream_bytes 1024 ms) + 0))) (payload [?m1] + (payload [?m2] + (payload [?m3] + 0)))
      (message_bytes 128 ?m1 @ message_bytes 128 ?m2 @ message_bytes 128 ?m3 @ []) (fconn fc)"
    using at by (simp add: says client_says_def)
  from connect_turn [OF oc os len(1,2) fc(2) small1 this] obtain k1 d1 where
    t1: "SetUp_turn os fc = (Ok None, fc\<lparr>decoder := d1, transactionID := 1,
        ConnInfo := (ConnInfo fc)\<lparr>App := app cc, Flashver := chars ''FMS.3.1'', TcURL := tcurl cc\<rparr>, fconn := k1\<rparr>)" and
    k1: "conn_at 1024 128 (out @ ?s1) (length ?s2 + (length (stream_bytes 1024 ms) + 0)) (payload [?m2] + (payload [?m3] + 0))
      (message_bytes 128 ?m2 @ message_bytes 128 ?m3 @ []) k1" by blast
  define f1 where "f1 = fc\<lparr>decoder := d1, transactionID := 1,
        ConnInfo := (ConnInfo fc)\<lparr>App := app cc, Flashver := chars ''FMS.3.1'', TcURL := tcurl cc\<rparr>, fconn := k1\<rparr>"
  have f1: "fstreamID f1 = 1" "fconn f1 = k1" using fc by (simp_all add: f1_def)
  from create_turn [OF f1(1) k1 [folded f1(2)], of os] obtain k2 d2 where
    t2: "SetUp_turn os f1 = (Ok None, f1\<lparr>decoder := d2, transactionID := 2, fconn := k2\<rparr>)" and
    k2: "conn_at 1024 128 ((out @ ?s1) @ ?s2) (length (stream_bytes 1024 ms) + 0) (payload [?m3] + 0) (message_bytes 128 ?m3 @ []) k2" by blast
  define f2 where "f2 = f1\<lparr>decoder := d2, transactionID := 2, fconn := k2\<rparr>"
  have f2: "fconn f2 = k2" by (simp add: f2_def)
  from stream_turn [OF oc os len(3) ms_def k2 [folded f2]] obtain k3 d3 where
    t3: "SetUp_turn os f2 = (Ok (Some ()), f2\<lparr>decoder := d3, transactionID := (if p then 3 else 0),
      PubInfo := \<lparr>PName = title cc, PType = (if p then chars ''live'' else PType (PubInfo f2))\<rparr>, fconn := k3, isPublisher := p\<rparr>)" and
    k3: "conn_at 1024 128 (((out @ ?s1) @ ?s2) @ stream_bytes 1024 ms) 0 0 [] k3" "wire (rw k3) = sent (rw k3)" by blast
  note go = run_loop_simps [where turn = "SetUp_turn os"]
  have "\<exists>fc'. SetUpPlayOrPublish os fc = Some (Ok (), fc') \<and> fconn fc' = k3 \<and> isPublisher fc' = p \<and>
      App (ConnInfo fc') = app cc \<and> TcURL (ConnInfo fc') = tcurl cc \<and> PName (PubInfo fc') = title cc"
    unfolding SetUpPlayOrPublish_def
    using go(2) [OF t1 [folded f1_def]] go(2) [OF t2 [folded f2_def]] go(1) [OF t3] by (simp add: f2_def f1_def)
  then show ?thesis using k3 by (auto simp: IsPublisher_def GetStreamInfo_def says conn_at_def)
qed

section \<open>Properties\<close>

text \<open>
  A client and a server set a stream up together. When the input of the client is what the server
  has to say and the input of the server is what the client has to say, then \<open>Start\<close> (after the
  handshake) and \<open>SetUpPlayOrPublish\<close> both return without error, each has put exactly those bytes on its
  wire that the other one reads, in whatever order the two iterate their maps, the client has been
  given stream 1, and the server knows it as a publisher or a player of the application and the
  stream that the client was started with.
\<close>

theorem session_established:
  assumes "\<forall>m. mset (oc m) = mset m" and "\<forall>m. mset (os m) = mset m"
    and "length (app cc) < 2 ^ 32" and "length (tcurl cc) < 2 ^ 32" and "length (title cc) < 2 ^ 32"
    and "transID cc = 1" and "streamid cc = 0"
    and "X = stream_bytes 128 (client_says oc publish cc)" and "Y = stream_bytes 128 (server_says os publish)"
    and client: "conn_at 128 128 out1 (length X) (payload (server_says os publish)) Y (cconn cc)"
    and server: "conn_at 128 128 out2 (length Y) (payload (client_says oc publish cc)) X conn"
  shows "\<exists>cmd cc' fc'.
    run_loop (Start_turn oc (chars (if publish then ''publish'' else ''play''))) (chars ''connect'', cc) = Some (Ok (), (cmd, cc')) \<and>
    SetUpPlayOrPublish os (NewForwardConnect conn) = Some (Ok (), fc') \<and>
    wire (rw (cconn cc')) = out1 @ X \<and> wire (rw (fconn fc')) = out2 @ Y \<and>
    streamid cc' = 1 \<and> IsPublisher fc' = publish \<and>
    GetStreamInfo fc' = (app cc, title cc, tcurl cc @ chars ''/'' @ title cc)"
proof -
  have "payload (client_says oc publish cc) \<le> 0xffffff" "payload (server_says os publish) \<le> 0xffffff"
    using client server by (simp_all add: conn_at_def calm_def)
  note small = this
  have "client_at cc 1 0 out1 (length X) (payload (server_says os publish)) 128 Y cc"
    using client assms(6,7) by (simp add: client_at_def)
  from client_runs [OF assms(1-5) small(1) this [unfolded assms(8,9)]]
    server_runs [OF assms(1-5) small(2), of "NewForwardConnect conn" out2] server assms(8,9)
  show ?thesis by (auto simp: NewForwardConnect_def)
qed

text \<open>Room for a message, whatever its chunks.\<close>

lemma length_chunk_body: "length (chunk_body c h d) \<le> (length h + 1) * length d"
proof (induction c h d rule: chunk_body.induct)
  case (1 c h d)
  show ?case
  proof (cases "c = 0 \<or> d = []")
    case False
    define k m where "k = length (drop c d)" and "m = min c (length d)"
    have k: "length d = k + m" "1 \<le> m" using False by (cases d; auto simp: k_def m_def)+
    have "length (chunk_body c h (drop c d)) \<le> (length h + 1) * k" using 1 False by (simp add: k_def)
    moreover have "length h * 1 \<le> length h * m" using k(2) by (rule mult_le_mono2)
    ultimately have "length h + m + length (chunk_body c h (drop c d)) \<le> (length h + 1) * (k + m)"
      unfolding distrib_left distrib_right by linarith
    moreover have "length (chunk_body c h d) = length h + m + length (chunk_body c h (drop c d))"
      using False by (subst chunk_body.simps) (simp add: min.commute m_def)
    ultimately show ?thesis using k(1) by simp
  qed (simp add: chunk_body.simps)
qed

lemma length_message_bytes: "length (message_bytes c m) \<le> 18 + 20 * length (Data m)"
proof -
  have h: "length (header_bytes (m\<lparr>Format := f\<rparr>)) \<le> 18" if "f \<in> {0, 3}" for f
    using that by (auto simp: header_bytes_def basic_header_def ext_bytes_def)
  have "length (chunk_body c (header_bytes (m\<lparr>Format := 3\<rparr>)) (drop c (Data m))) \<le> 19 * length (Data m)"
    using order_trans [OF length_chunk_body mult_le_mono] h [of 3] by simp
  moreover have "length (message_bytes c m) \<le> length (header_bytes (m\<lparr>Format := 0\<rparr>)) + length (Data m) +
      length (chunk_body c (header_bytes (m\<lparr>Format := 3\<rparr>)) (drop c (Data m)))"
    by (simp add: message_bytes_def)
  ultimately show ?thesis using h [of 0] by simp
qed

lemma length_stream_bytes: "length (stream_bytes n ms) \<le> 18 * length ms + 20 * payload ms"
proof (induction ms arbitrary: n)
  case (Cons m ms)
  show ?case using Cons [of "window_after m n"] length_message_bytes [of "unat n" "on_wire m"] by simp
qed simp

definition sample_client :: "bytes \<Rightarrow> ConnClient" where
  "sample_client inp = (NewConnClient (NewRtmpConn (NewReadWriter inp EOF 100000 EOF 4096)))
     \<lparr>app := chars ''live'', title := chars ''a'', tcurl := chars ''rtmp://h/live''\<rparr>"

lemma payload_samples:
  shows "payload (client_says (\<lambda>m. m) True (sample_client i)) \<le> 500"
    and "payload (server_says (\<lambda>m. m) True) \<le> 1000"
  by (simp_all add: client_says_def server_says_def connect_args_def create_args_def stream_args_def connect_controls_def
      connect_result_def create_result_def stream_controls_def stream_state_def play_states_def status_def control_msg_def
      sample_client_def chars_def str_bytes_def)

theorem session_established_witness:
  "\<exists>X Y cmd cc' fc'. X = stream_bytes 128 (client_says (\<lambda>m. m) True (sample_client Y)) \<and> Y = stream_bytes 128 (server_says (\<lambda>m. m) True) \<and>
    run_loop (Start_turn (\<lambda>m. m) (chars ''publish'')) (chars ''connect'', sample_client Y) = Some (Ok (), (cmd, cc')) \<and>
    SetUpPlayOrPublish (\<lambda>m. m) (NewForwardConnect (NewRtmpConn (NewReadWriter X EOF 100000 EOF 4096))) = Some (Ok (), fc') \<and>
    wire (rw (cconn cc')) = X \<and> wire (rw (fconn fc')) = Y \<and> IsPublisher fc'"
proof -
  define Y where "Y = stream_bytes 128 (server_says (\<lambda>m. m) True)"
  define X where "X = stream_bytes 128 (client_says (\<lambda>m. m) True (sample_client Y))"
  have at: "conn_at 128 128 [] r b inp (NewRtmpConn (NewReadWriter inp EOF 100000 EOF 4096))" if "r \<le> 100000" "b \<le> 1000" for r b inp
    using that by (simp add: conn_at_def calm_def ready_def conn_inv_def NewRtmpConn_def NewReadWriter_def wok_def room_def sent_def)
  have n: "length (client_says (\<lambda>m. m) True (sample_client Y)) = 3" "length (server_says (\<lambda>m. m) True) = 6"
    by (simp_all add: client_says_def server_says_def connect_controls_def stream_controls_def play_states_def)
  have len: "length X \<le> 100000" "length Y \<le> 100000"
    using length_stream_bytes [of 128 "client_says (\<lambda>m. m) True (sample_client Y)"] payload_samples(1) [of Y]
      length_stream_bytes [of 128 "server_says (\<lambda>m. m) True"] payload_samples(2) n
    unfolding X_def [symmetric] Y_def [symmetric] by linarith+
  have cc: "length (app (sample_client Y)) < 2 ^ 32" "length (tcurl (sample_client Y)) < 2 ^ 32" "length (title (sample_client Y)) < 2 ^ 32"
    "transID (sample_client Y) = 1" "streamid (sample_client Y) = 0" "cconn (sample_client Y) = NewRtmpConn (NewReadWriter Y EOF 100000 EOF 4096)"
    by (simp_all add: sample_client_def NewConnClient_def chars_def)
  have "conn_at 128 128 [] (length X) (payload (server_says (\<lambda>m. m) True)) Y (cconn (sample_client Y))"
    "conn_at 128 128 [] (length Y) (payload (client_says (\<lambda>m. m) True (sample_client Y))) X (NewRtmpConn (NewReadWriter X EOF 100000 EOF 4096))"
    unfolding cc(6) by (rule at; use len payload_samples(1) [of Y] payload_samples(2) in linarith)+
  from session_established [OF _ _ cc(1-5) X_def Y_def this] show ?thesis
    using X_def Y_def by auto
qed

end
