(* ===== verification/RtmpClient.thy ===== *)
theory RtmpClient
  imports Session FlvTag
begin

text \<open>
  The client of the library, \<open>client.go\<close>: a publisher packs frames into FLV tags and sends them, a
  player takes the messages of the server apart and hands the frames to a callback. The calls of the
  callback \<open>onPacketReceive\<close> are recorded with the packet as it is at the time of the call (the callback
  is given a pointer to one packet that is changed between the calls), those of \<open>onClosed\<close> are counted. The channel
  \<open>packetChan\<close> is never used. Logging is left out.
\<close>

section \<open>State\<close>

record RtmpClient =
  rconn :: ConnClient
  delivered :: "Packet list"
  hasOnClosed :: bool
  closedCalls :: nat
  connOpen :: bool
  isPublish :: bool
  videoFirst :: bool
  audioFirst :: bool

text \<open>The connection is \<open>nil\<close> until the client is opened; \<open>cc\<close> is what it is before.\<close>

definition NewRtmpClient :: "ConnClient \<Rightarrow> RtmpClient" where
  "NewRtmpClient cc = \<lparr>rconn = cc, delivered = [], hasOnClosed = False, closedCalls = 0, connOpen = False, isPublish = False,
     videoFirst = True, audioFirst = True\<rparr>"

definition onClient :: "(ConnClient, 'a) prog \<Rightarrow> (RtmpClient, 'a) prog" where
  "onClient m c = (case m (rconn c) of (r, cc) \<Rightarrow> (r, c\<lparr>rconn := cc\<rparr>))"

text \<open>\<open>Start\<close> returns for every server, so its \<open>None\<close> is never taken.\<close>

definition Open :: "network \<Rightarrow> order \<Rightarrow> bytes \<Rightarrow> string \<Rightarrow> RtmpConn \<Rightarrow> (RtmpClient, unit) prog" where
  "Open net order u meth conn c =
     (case Start net order u (chars meth) (NewConnClient conn) of
        Some (r, cc) \<Rightarrow> (r, c\<lparr>rconn := cc, connOpen := (r = Ok ())\<rparr>)
      | None \<Rightarrow> (Panic, c))"

definition OpenPublish :: "network \<Rightarrow> order \<Rightarrow> bytes \<Rightarrow> RtmpConn \<Rightarrow> (RtmpClient, unit) prog" where
  "OpenPublish net order u conn =
     pbind (Open net order u ''publish'' conn) (\<lambda>_ c. (Ok (), c\<lparr>isPublish := True\<rparr>))"

text \<open>The goroutine that \<open>OpenPlay\<close> starts is \<open>streamPlayProc\<close> below.\<close>

definition OpenPlay :: "network \<Rightarrow> order \<Rightarrow> bytes \<Rightarrow> bool \<Rightarrow> RtmpConn \<Rightarrow> (RtmpClient, unit) prog" where
  "OpenPlay net order u onClosed conn =
     pbind (Open net order u ''play'' conn) (\<lambda>_ c. (Ok (), c\<lparr>hasOnClosed := onClosed\<rparr>))"

definition rc_Close :: "(RtmpClient, unit) prog" where
  "rc_Close c = (Ok (), c\<lparr>connOpen := False, closedCalls := closedCalls c + (if hasOnClosed c then 1 else 0)\<rparr>)"

section \<open>Sending\<close>

definition rc_Write :: "ChunkStream \<Rightarrow> (RtmpClient, unit) prog" where
  "rc_Write cs c = (case cc_Write cs (rconn c) of (r, _, cc) \<Rightarrow> (r, c\<lparr>rconn := cc\<rparr>))"

definition sendPacketData :: "bytes \<Rightarrow> u32 \<Rightarrow> u32 \<Rightarrow> (RtmpClient, unit) prog" where
  "sendPacketData d ts packetType =
     (if length d = 0 then perr ''data length is zero''
      else if packetType \<notin> {PacketTypeVideo, PacketTypeAudio, PacketTypeMetadata} then perr ''Unsupport packet type''
      else
        (let typeID = (if packetType = PacketTypeVideo then TAG_VIDEO
               else if packetType = PacketTypeAudio then TAG_AUDIO else TAG_SCRIPTDATAAMF0) in
         (\<lambda>c. pbind (rc_Write (zeroChunkStream\<lparr>Data := d, Length := of_nat (length d), StreamID := GetStreamID (rconn c),
              Timestamp := ts, TypeID := typeID\<rparr>)) (\<lambda>_. onClient cc_Flush) c)))"

text \<open>The packet is passed by reference and its data replaced by the tag (by \<open>nil\<close> after an error).\<close>

definition onRc :: "(RtmpClient, 'a) prog \<Rightarrow> (Packet \<times> RtmpClient, 'a) prog" where
  "onRc m s = (case s of (pkt, c) \<Rightarrow> (case m c of (r, c') \<Rightarrow> (r, pkt, c')))"

definition packData :: "string \<Rightarrow> (Packet \<Rightarrow> bytes res) \<Rightarrow> (Packet \<times> RtmpClient, unit) prog" where
  "packData t pack s = (case s of (pkt, c) \<Rightarrow>
     (case pack pkt of
        Ok d \<Rightarrow> (Ok (), pkt\<lparr>PData := d\<rparr>, c)
      | Err e \<Rightarrow> (Err (Errorf t), pkt\<lparr>PData := []\<rparr>, c)
      | Panic \<Rightarrow> (Panic, pkt, c)))"

definition sendData :: "u32 \<Rightarrow> (Packet \<times> RtmpClient, unit) prog" where
  "sendData packetType s = onRc (pwrap ''send packet failed'' (sendPacketData (PData (fst s)) (TimeStamp (fst s)) packetType)) s"

definition setAudioFirst :: "bool \<Rightarrow> (RtmpClient, unit) prog" where
  "setAudioFirst b c = (Ok (), c\<lparr>audioFirst := b\<rparr>)"

definition setVideoFirst :: "bool \<Rightarrow> (RtmpClient, unit) prog" where
  "setVideoFirst b c = (Ok (), c\<lparr>videoFirst := b\<rparr>)"

definition sendAudioPacket :: "(Packet \<times> RtmpClient, unit) prog" where
  "sendAudioPacket =
     pbind (\<lambda>s. case s of (pkt, c) \<Rightarrow>
       if SoundFormat (AHeader pkt) = SOUND_AAC \<and> audioFirst c then
         onRc (pbind (pwrap ''send aac sequence header failed'' (sendPacketData (NewAACSequenceHeader (AHeader pkt)) (TimeStamp pkt) PacketTypeAudio))
           (\<lambda>_. setAudioFirst False)) s
       else (Ok (), s)) (\<lambda>_.
     pbind (packData ''Pack audio failed'' (\<lambda>pkt. PackAudioData (AHeader pkt) (PStreamID pkt) (PData pkt) (TimeStamp pkt))) (\<lambda>_.
     sendData PacketTypeAudio))"

text \<open>The last sequence and picture parameter sets among the units; \<open>nalu[0]\<close> of an empty unit panics.\<close>

fun findSets :: "bytes list \<Rightarrow> bytes option \<times> bytes option \<Rightarrow> (bytes option \<times> bytes option) res" where
  "findSets [] sets = Ok sets"
| "findSets (nalu # nalus) (sps, pps) =
     res_bind (index nalu 0) (\<lambda>b.
       findSets nalus (if b AND 0x1F = 7 then (Some nalu, pps) else if b AND 0x1F = 8 then (sps, Some nalu) else (sps, pps)))"

text \<open>The result says whether the frame is sent: without parameter sets the first frames are dropped.\<close>

definition sendSequenceHeader :: "(Packet \<times> RtmpClient, bool) prog" where
  "sendSequenceHeader s = (case s of (pkt, c) \<Rightarrow>
     (case res_bind (ParseNalus (PData pkt)) (\<lambda>nalus. findSets nalus (None, None)) of
        Ok (Some sps, Some pps) \<Rightarrow>
          onRc (pbind (pwrap ''send flv sequence header failed''
              (sendPacketData (NewAVCSequenceHeader sps pps (TimeStamp pkt)) (TimeStamp pkt) PacketTypeVideo))
            (\<lambda>_. pbind (setVideoFirst False) (\<lambda>_. preturn True))) s
      | Ok _ \<Rightarrow> (Ok False, s)
      | Err e \<Rightarrow> (Err e, s)
      | Panic \<Rightarrow> (Panic, s)))"

definition sendVideoPacket :: "(Packet \<times> RtmpClient, unit) prog" where
  "sendVideoPacket =
     pbind (\<lambda>s. case s of (pkt, c) \<Rightarrow>
       if CodecID (VHeader pkt) = VIDEO_H264 \<and> videoFirst c then sendSequenceHeader s else (Ok True, s)) (\<lambda>go_on.
     if \<not> go_on then preturn ()
     else
       pbind (packData ''Pack video failed'' (\<lambda>pkt. PackVideoData (VHeader pkt) (PStreamID pkt) (PData pkt) (TimeStamp pkt))) (\<lambda>_.
       sendData PacketTypeVideo))"

definition sendMetaPacket :: "(Packet \<times> RtmpClient, unit) prog" where
  "sendMetaPacket = perr ''Mata data unsupport''"

definition rc_SendPacket :: "(Packet \<times> RtmpClient, unit) prog" where
  "rc_SendPacket s = (case s of (pkt, c) \<Rightarrow>
     if \<not> isPublish c then (Err (Errorf ''It is not publish mode''), s)
     else if PacketType pkt = PacketTypeAudio then sendAudioPacket s
     else if PacketType pkt = PacketTypeVideo then sendVideoPacket s
     else if PacketType pkt = PacketTypeMetadata then sendMetaPacket s
     else (Err (Errorf ''Unknow packet type''), s))"

section \<open>Receiving\<close>

definition onPacketReceive :: "Packet \<Rightarrow> (RtmpClient, unit) prog" where
  "onPacketReceive pkt c = (Ok (), c\<lparr>delivered := delivered c @ [pkt]\<rparr>)"

text \<open>
  The loop over the units of a video frame, each behind its length in four bytes. Fewer than four bytes at the end are
  ignored.
\<close>

function naluLoop :: "Packet \<Rightarrow> bytes \<Rightarrow> (RtmpClient, unit) prog" where
  "naluLoop pkt naluData c =
     (let remain = length naluData in
      if remain < 4 then (Ok (), c)
      else
        (case U32BE naluData of
           Ok len \<Rightarrow>
             (if len > of_nat (remain - 4) then (Err (Errorf ''invalid data length''), c)
              else
                (case slice 4 (4 + unat len) naluData of
                   Ok nalu \<Rightarrow> naluLoop pkt (drop (4 + unat len) naluData) (snd (onPacketReceive (pkt\<lparr>PData := nalu\<rparr>) c))
                 | Err e \<Rightarrow> (Err e, c)
                 | Panic \<Rightarrow> (Panic, c)))
         | Err e \<Rightarrow> (Err e, c)
         | Panic \<Rightarrow> (Panic, c)))"
  by pat_completeness auto
termination
  by (relation "measure (\<lambda>(pkt, naluData, c). length naluData)") auto

declare naluLoop.simps [simp del]

definition deliverFirst :: "Packet \<Rightarrow> bytes list \<Rightarrow> (RtmpClient, unit) prog" where
  "deliverFirst pkt sets = (case sets of [] \<Rightarrow> preturn () | s # _ \<Rightarrow> onPacketReceive (pkt\<lparr>PData := s\<rparr>))"

definition handleVideo :: "Packet \<Rightarrow> (RtmpClient, unit) prog" where
  "handleVideo pkt =
     (if CodecID (VHeader pkt) = VIDEO_H264 \<and> FrameType (VHeader pkt) = FRAME_KEY \<and> AVCPacketType (VHeader pkt) = AVC_SEQHDR then
        (\<lambda>c. case ParseAVCSequenceHeader (PData pkt) of
           Ok (spss, ppss) \<Rightarrow> pbind (deliverFirst pkt spss) (\<lambda>_. deliverFirst pkt ppss) c
         | Err e \<Rightarrow> (Err (Errorf ''Parse avc sequence header failed''), c)
         | Panic \<Rightarrow> (Panic, c))
      else naluLoop pkt (PData pkt))"

definition handleVideoAudio :: "ChunkStream \<Rightarrow> (RtmpClient, unit) prog" where
  "handleVideoAudio cs c =
     (let t = TypeID cs in
      if t \<notin> {TAG_VIDEO, TAG_AUDIO, TAG_SCRIPTDATAAMF0, TAG_SCRIPTDATAAMF3} then (Err (Errorf ''Unknow chunk type''), c)
      else
        (let pktType = (if t = TAG_VIDEO then PacketTypeVideo else if t = TAG_AUDIO then PacketTypeAudio else PacketTypeMetadata) in
         case Demux (zeroPacket\<lparr>PData := Data cs, PStreamID := StreamID cs, TimeStamp := Timestamp cs, PacketType := pktType\<rparr>) of
           (Ok _, pkt) \<Rightarrow>
             (if PacketType pkt = PacketTypeAudio then onPacketReceive pkt c
              else if PacketType pkt = PacketTypeVideo then handleVideo pkt c
              else if PacketType pkt = TAG_SCRIPTDATAAMF0 \<or> PacketType pkt = TAG_SCRIPTDATAAMF3 then (Err (Errorf ''TODO''), c)
              else (Err (Errorf ''unknow chunk stream type''), c))
         | (Err e, _) \<Rightarrow> (Err (Errorf ''Demux failed''), c)
         | (Panic, _) \<Rightarrow> (Panic, c)))"

text \<open>Metadata and commands are decoded and only logged; a message of neither type is not decoded.\<close>

definition decodeOnly :: "u32 \<Rightarrow> u32 \<Rightarrow> ChunkStream \<Rightarrow> (RtmpClient, unit) prog" where
  "decodeOnly amf0 amf3 cs =
     (if TypeID cs = amf0 \<or> TypeID cs = amf3 then
        pbind (onClient (cc_DecodeBatch (if TypeID cs = amf0 then 0 else 3) (Data cs))) (\<lambda>(values, e).
          if e \<noteq> EOF then perr ''decode failed'' else preturn ())
      else preturn ())"

definition handleMetadata :: "ChunkStream \<Rightarrow> (RtmpClient, unit) prog" where
  "handleMetadata = decodeOnly TAG_SCRIPTDATAAMF0 TAG_SCRIPTDATAAMF3"

definition rc_handleCommand :: "ChunkStream \<Rightarrow> (RtmpClient, unit) prog" where
  "rc_handleCommand = decodeOnly 20 17"

text \<open>Errors of a handler are logged, those of \<open>Read\<close> end the loop; \<open>Close\<close> is deferred.\<close>

definition logged :: "(RtmpClient, unit) prog \<Rightarrow> (RtmpClient, unit option) prog" where
  "logged m c = (case m c of (Panic, c') \<Rightarrow> (Panic, c') | (_, c') \<Rightarrow> (Ok None, c'))"

definition play_message :: "ChunkStream \<Rightarrow> (RtmpClient, unit option) prog" where
  "play_message cs =
     (let t = TypeID cs in
      if t = TAG_AUDIO \<or> t = TAG_VIDEO then logged (handleVideoAudio cs)
      else if t = TAG_SCRIPTDATAAMF0 \<or> t = TAG_SCRIPTDATAAMF3 then logged (handleMetadata cs)
      else if t = 17 \<or> t = 20 then logged (rc_handleCommand cs)
      else preturn None)"

definition play_turn :: "(RtmpClient, unit option) prog" where
  "play_turn c =
     (case onClient cc_Read c of
        (Ok cs, c') \<Rightarrow> play_message cs c'
      | (Err e, c') \<Rightarrow> (Ok (Some ()), c')
      | (Panic, c') \<Rightarrow> (Panic, c'))"

definition streamPlayProc :: "RtmpClient \<Rightarrow> (unit res \<times> RtmpClient) option" where
  "streamPlayProc c = map_option (\<lambda>(r, c'). (r, snd (rc_Close c'))) (run_loop play_turn c)"

section \<open>The player returns\<close>

abbreviation rquiet :: "(RtmpClient, 'a) prog \<Rightarrow> bool" where
  "rquiet m \<equiv> keeps (\<lambda>c. rin (rw (cconn (rconn c)))) m"

lemma rquiet_onClient [keeps_rules]: "cquiet m \<Longrightarrow> rquiet (onClient m)"
  by (simp add: keeps_def onClient_def split_beta)

text \<open>Handling media only adds calls of the callback.\<close>

definition delivers :: "(RtmpClient, 'a) prog \<Rightarrow> bool" where
  "delivers m \<longleftrightarrow> (\<forall>c. \<exists>xs. snd (m c) = c\<lparr>delivered := delivered c @ xs\<rparr>)"

lemma delivers_pure: "delivers (\<lambda>c. (r, c))"
  by (simp add: delivers_def) (metis RtmpClient.surjective RtmpClient.update_convs(2) append.right_neutral)

lemma delivers_onPacketReceive: "delivers (onPacketReceive pkt)"
  by (auto simp: delivers_def onPacketReceive_def)

lemma delivers_pbind: "delivers m \<Longrightarrow> (\<And>a. delivers (f a)) \<Longrightarrow> delivers (pbind m f)"
  unfolding delivers_def
proof
  fix c assume m: "\<forall>c. \<exists>xs. snd (m c) = c\<lparr>delivered := delivered c @ xs\<rparr>"
    and f: "\<And>a. \<forall>c. \<exists>xs. snd (f a c) = c\<lparr>delivered := delivered c @ xs\<rparr>"
  obtain r c1 where r: "m c = (r, c1)" by fastforce
  with m obtain xs where c1: "c1 = c\<lparr>delivered := delivered c @ xs\<rparr>" by (metis snd_conv)
  show "\<exists>xs. snd (pbind m f c) = c\<lparr>delivered := delivered c @ xs\<rparr>"
  proof (cases r)
    case (Ok a)
    obtain ys where "snd (f a c1) = c1\<lparr>delivered := delivered c1 @ ys\<rparr>" using f by blast
    then show ?thesis using r Ok c1 by (intro exI [of _ "xs @ ys"]) (simp add: pbind_def)
  qed (use r c1 in \<open>auto simp: pbind_def\<close>)
qed

lemma delivers_naluLoop: "\<exists>xs. snd (naluLoop pkt d c) = c\<lparr>delivered := delivered c @ xs\<rparr>"
proof (induction pkt d c rule: naluLoop.induct)
  case (1 pkt d c)
  have nil: "\<exists>xs. c = c\<lparr>delivered := delivered c @ xs\<rparr>" using delivers_pure [of "Ok ()"] by (simp add: delivers_def)
  show ?case
  proof (cases "\<exists>len nalu. U32BE d = Ok len \<and> slice 4 (4 + unat len) d = Ok nalu \<and> \<not> length d < 4 \<and> \<not> len > of_nat (length d - 4)")
    case True
    then obtain len nalu where h: "\<not> length d < 4" "U32BE d = Ok len" "\<not> len > of_nat (length d - 4)" "slice 4 (4 + unat len) d = Ok nalu"
      by blast
    from 1 [OF refl h] obtain xs where xs: "snd (naluLoop pkt (drop (4 + unat len) d) (snd (onPacketReceive (pkt\<lparr>PData := nalu\<rparr>) c))) =
        (snd (onPacketReceive (pkt\<lparr>PData := nalu\<rparr>) c))\<lparr>delivered := delivered (snd (onPacketReceive (pkt\<lparr>PData := nalu\<rparr>) c)) @ xs\<rparr>" by blast
    have "naluLoop pkt d c = naluLoop pkt (drop (4 + unat len) d) (snd (onPacketReceive (pkt\<lparr>PData := nalu\<rparr>) c))"
      using h by (subst naluLoop.simps) (simp add: Let_def)
    then show ?thesis using xs by (simp add: onPacketReceive_def) blast
  next
    case False
    then have "snd (naluLoop pkt d c) = c"
      by (subst naluLoop.simps) (auto simp: Let_def split: res.split)
    then show ?thesis using nil by simp
  qed
qed

lemma delivers_handleVideo: "delivers (handleVideo pkt)"
proof -
  have first: "delivers (deliverFirst pkt sets)" for sets
    by (cases sets) (simp_all add: deliverFirst_def preturn_def delivers_pure delivers_onPacketReceive)
  have two: "delivers (pbind (deliverFirst pkt a) (\<lambda>_. deliverFirst pkt b))" for a b by (intro delivers_pbind first)
  have nalus: "delivers (naluLoop pkt d)" for d by (simp add: delivers_def delivers_naluLoop)
  show ?thesis
  proof (cases "ParseAVCSequenceHeader (PData pkt)")
    case (Ok sets)
    then show ?thesis by (cases sets) (simp add: handleVideo_def two nalus)
  qed (simp_all add: handleVideo_def nalus delivers_pure)
qed

lemma delivers_handleVideoAudio: "delivers (handleVideoAudio cs)"
  unfolding delivers_def
proof
  fix c :: RtmpClient
  define p where "p = Demux (zeroPacket\<lparr>PData := Data cs, PStreamID := StreamID cs, TimeStamp := Timestamp cs,
    PacketType := (if TypeID cs = 9 then 1 else if TypeID cs = 8 then 2 else 3)\<rparr>)"
  obtain r pkt where p: "p = (r, pkt)" by fastforce
  have "\<exists>xs. c = c\<lparr>delivered := delivered c @ xs\<rparr>" using delivers_pure [of "Ok ()"] by (simp add: delivers_def)
  moreover have "\<exists>xs. snd (onPacketReceive pkt c) = c\<lparr>delivered := delivered c @ xs\<rparr>"
    "\<exists>xs. snd (handleVideo pkt c) = c\<lparr>delivered := delivered c @ xs\<rparr>"
    using delivers_onPacketReceive delivers_handleVideo unfolding delivers_def by blast+
  ultimately show "\<exists>xs. snd (handleVideoAudio cs c) = c\<lparr>delivered := delivered c @ xs\<rparr>"
    unfolding handleVideoAudio_def Let_def p_def [symmetric] p by (cases r) (simp_all only: prod.case res.case snd_conv split: if_split, blast+)
qed

lemma delivers_frame:
  assumes "delivers m"
  shows "rconn (snd (m c)) = rconn c" and "closedCalls (snd (m c)) = closedCalls c" and "hasOnClosed (snd (m c)) = hasOnClosed c"
  using assms unfolding delivers_def by (metis RtmpClient.ext_inject RtmpClient.surjective RtmpClient.update_convs(2))+

lemma rquiet_handlers [keeps_rules]: "rquiet (handleVideoAudio cs)" "rquiet (handleMetadata cs)" "rquiet (rc_handleCommand cs)"
proof -
  show "rquiet (handleVideoAudio cs)" by (rule keepsI) (simp add: delivers_frame [OF delivers_handleVideoAudio])
  have "rquiet (decodeOnly a b cs)" for a b unfolding decodeOnly_def by (intro keeps_rules)
  then show "rquiet (handleMetadata cs)" "rquiet (rc_handleCommand cs)"
    unfolding handleMetadata_def rc_handleCommand_def by blast+
qed

lemma snd_logged [simp]: "snd (logged m c) = snd (m c)"
  by (simp add: logged_def split: prod.split res.split)

lemma rquiet_logged [keeps_rules]: "rquiet m \<Longrightarrow> rquiet (logged m)"
  by (simp add: keeps_def)

lemma rquiet_play_message: "rquiet (play_message cs)"
  unfolding play_message_def Let_def by (intro keeps_rules)

interpretation play_loop: progress play_turn "\<lambda>c. cpending (rconn c)"
proof
  fix c c' assume t: "play_turn c = (Ok None, c')"
  then obtain cs cc where r: "cc_Read (rconn c) = (Ok cs, cc)" and m: "play_message cs (c\<lparr>rconn := cc\<rparr>) = (Ok None, c')"
    by (auto simp: play_turn_def onClient_def split: prod.splits res.splits)
  from keepsD [OF rquiet_play_message m] cc_Read_shrinks [OF r] show "cpending (rconn c') < cpending (rconn c)" by simp
qed

section \<open>Frames\<close>

lemma naluLoop_units:
  assumes "length (avcc us @ tail) < 2 ^ 32" and "length tail < 4"
  shows "naluLoop pkt (avcc us @ tail) c = (Ok (), c\<lparr>delivered := delivered c @ map (\<lambda>u. pkt\<lparr>PData := u\<rparr>) us\<rparr>)"
  using assms(1)
proof (induction us arbitrary: c)
  case Nil
  then show ?case using assms(2) by (subst naluLoop.simps) simp
next
  case (Cons u us)
  let ?d = "avcc (u # us) @ tail" and ?n = "of_nat (length u) :: u32"
  have l: "length u < 2 ^ 32" "length (u @ avcc us @ tail) < 2 ^ 32" using Cons.prems by simp_all
  then have un: "unat ?n = length u" by (simp add: unat_of_nat_u32)
  have fits: "\<not> ?n > of_nat (length ?d - 4)"
    using l unat_of_nat_u32 [of "length (u @ avcc us @ tail)"] by (simp add: word_less_nat_alt un del: of_nat_add)
  have hd: "U32BE ?d = Ok ?n" by (simp add: U32BE_cases be_word_be_bytes del: be_bytes.simps)
  have sl: "slice 4 (4 + unat ?n) ?d = Ok u" using un by (simp add: slice_def del: be_bytes.simps)
  have dr: "drop (4 + unat ?n) ?d = avcc us @ tail" using un by (simp del: be_bytes.simps)
  have "\<not> length ?d < 4" by simp
  then have "naluLoop pkt ?d c = naluLoop pkt (avcc us @ tail) (c\<lparr>delivered := delivered c @ [pkt\<lparr>PData := u\<rparr>]\<rparr>)"
    using fits hd sl dr by (subst naluLoop.simps) (simp add: Let_def onPacketReceive_def del: avcc_simps)
  then show ?case using Cons.IH l(2) by simp
qed

text \<open>A message as \<open>sendPacketData\<close> makes it; \<open>t\<close> is its type.\<close>

definition media_msg :: "u32 \<Rightarrow> u32 \<Rightarrow> u32 \<Rightarrow> bytes \<Rightarrow> ChunkStream" where
  "media_msg t sid ts d = zeroChunkStream\<lparr>Data := d, Length := of_nat (length d), StreamID := sid, Timestamp := ts, TypeID := t\<rparr>"

abbreviation video_msg :: "u32 \<Rightarrow> u32 \<Rightarrow> bytes \<Rightarrow> ChunkStream" where
  "video_msg \<equiv> media_msg 9"

abbreviation audio_msg :: "u32 \<Rightarrow> u32 \<Rightarrow> bytes \<Rightarrow> ChunkStream" where
  "audio_msg \<equiv> media_msg 8"

lemmas video_msg_def = media_msg_def

text \<open>The type of the message for a packet of sound or pictures.\<close>

definition tag_of :: "u32 \<Rightarrow> u32" where
  "tag_of packetType = (if packetType = PacketTypeVideo then TAG_VIDEO else TAG_AUDIO)"

lemma tag_of_video: "tag_of PacketTypeVideo = TAG_VIDEO"
  by (simp add: tag_of_def)

lemma tag_of_audio: "tag_of PacketTypeAudio = TAG_AUDIO"
  by (simp add: tag_of_def)

definition same_media :: "ChunkStream \<Rightarrow> ChunkStream \<Rightarrow> bool" where
  "same_media a b \<longleftrightarrow> TypeID a = TypeID b \<and> Data a = Data b \<and> StreamID a = StreamID b \<and> Timestamp a = Timestamp b"

text \<open>A unit as it is handed to the callback.\<close>

definition unit_pkt :: "u32 \<Rightarrow> u32 \<Rightarrow> u8 \<Rightarrow> bytes \<Rightarrow> Packet" where
  "unit_pkt sid ts pt u = zeroPacket\<lparr>PacketType := 1, TimeStamp := ts, PStreamID := sid,
     VHeader := \<lparr>FrameType = 1, AVCPacketType = pt, CodecID = 7, CompositionTime = 0\<rparr>, PData := u\<rparr>"

lemma unit_pkt_simps [simp]: "PData (unit_pkt sid ts pt u) = u" "TimeStamp (unit_pkt sid ts pt u) = ts" "PacketType (unit_pkt sid ts pt u) = 1"
  "(unit_pkt sid ts pt u)\<lparr>PData := v\<rparr> = unit_pkt sid ts pt v"
  by (simp_all add: unit_pkt_def)

lemma handle_avc:
  assumes "same_media cs (video_msg sid ts ([0x17, pt, 0, 0, 0] @ src))"
  shows "handleVideoAudio cs c = handleVideo (unit_pkt sid ts pt src) c"
proof -
  let ?p = "zeroPacket\<lparr>PData := [0x17, pt, 0, 0, 0] @ src, PStreamID := sid, TimeStamp := ts, PacketType := 1\<rparr>"
  have f: "TypeID cs = 9" "Data cs = [0x17, pt, 0, 0, 0] @ src" "StreamID cs = sid" "Timestamp cs = ts"
    using assms(1) by (simp_all add: same_media_def video_msg_def)
  have "Demux ?p = (Ok (), ?p\<lparr>VHeader := \<lparr>FrameType = 1, AVCPacketType = pt, CodecID = 7, CompositionTime = 0\<rparr>, PData := src\<rparr>)"
    by (rule Demux_avc) simp_all
  then have "Demux ?p = (Ok (), unit_pkt sid ts pt src)" by (simp add: unit_pkt_def zeroPacket_def)
  then show ?thesis using f by (simp add: handleVideoAudio_def Let_def)
qed

lemma handle_frame:
  assumes "same_media cs (video_msg sid ts ([0x17, pt, 0, 0, 0] @ avcc us))" and "pt \<noteq> 0" and "length (avcc us) < 2 ^ 32"
  shows "handleVideoAudio cs c = (Ok (), c\<lparr>delivered := delivered c @ map (unit_pkt sid ts pt) us\<rparr>)"
  using handle_avc [OF assms(1)] assms(2,3) naluLoop_units [of us "[]" "unit_pkt sid ts pt (avcc us)" c]
  by (simp add: handleVideo_def unit_pkt_def)

lemma handle_sequence_header:
  assumes "same_media cs (video_msg sid ts (NewAVCSequenceHeader sps pps t))"
    and "sps \<noteq> StartCode4" "pps \<noteq> StartCode4" "sps \<noteq> []" "pps \<noteq> []" "length sps < 65536" "length pps < 65536"
  shows "handleVideoAudio cs c = (Ok (), c\<lparr>delivered := delivered c @ map (unit_pkt sid ts 0) [sps, pps]\<rparr>)"
  using handle_avc [OF assms(1) [unfolded muxer_avc_seq]] ParseAVC_record [OF assms(2-7)]
  by (simp add: handleVideo_def deliverFirst_def onPacketReceive_def pbind_def unit_pkt_def)

section \<open>From the publisher to the player\<close>

lemma sendPacketData_media:
  fixes c :: RtmpClient
  assumes pt: "pt = PacketTypeVideo \<or> pt = PacketTypeAudio" and d: "d \<noteq> []" "length d \<le> 0xffffff" and conn: "chunkSize (cconn (rconn c)) \<noteq> 0" "wok (rw (cconn (rconn c)))"
    and bs: "bs = message_bytes (unat (chunkSize (cconn (rconn c)))) (on_wire (media_msg (tag_of pt) (streamid (rconn c)) ts d))"
    and room: "length bs \<le> room (rw (cconn (rconn c)))"
  shows "\<exists>w. sendPacketData d ts pt c = (Ok (), c\<lparr>rconn := (rconn c)\<lparr>cconn := (cconn (rconn c))\<lparr>rw := w\<rparr>\<rparr>\<rparr>) \<and>
    wire w = sent w \<and> sends bs (rw (cconn (rconn c))) w"
proof -
  let ?m = "media_msg (tag_of pt) (streamid (rconn c)) ts d"
  have m: "Length ?m = of_nat (length (Data ?m))" "length (Data ?m) \<le> 0xffffff" "TypeID ?m \<noteq> 1"
    using d by (simp_all add: media_msg_def tag_of_def)
  from Write_fits [OF m conn] room obtain c' w where w: "Write ?m (cconn (rconn c)) = (Ok (), c', (cconn (rconn c))\<lparr>rw := w\<rparr>)"
    "sends bs (rw (cconn (rconn c))) w" unfolding bs by auto
  then obtain w' where f: "rw_Flush w = (Ok (), w')" "sends [] w w'" "wire w' = sent w'"
    using rw_Flush_ok [of w] by (auto simp: sends_def)
  have "cc_Write ?m (rconn c) = (Ok (), c', (rconn c)\<lparr>cconn := (cconn (rconn c))\<lparr>rw := w\<rparr>\<rparr>)"
    using w(1) by (simp add: cc_Write_def media_msg_def tag_of_def)
  then have "rc_Write ?m c = (Ok (), c\<lparr>rconn := (rconn c)\<lparr>cconn := (cconn (rconn c))\<lparr>rw := w\<rparr>\<rparr>\<rparr>)"
    by (simp add: rc_Write_def)
  then have "sendPacketData d ts pt c = (Ok (), c\<lparr>rconn := (rconn c)\<lparr>cconn := (cconn (rconn c))\<lparr>rw := w'\<rparr>\<rparr>\<rparr>)"
    using pt d f(1) by (auto simp: sendPacketData_def tag_of_def pbind_def media_msg_def GetStreamID_def onClient_def cc_Flush_def conn_Flush_def)
  then show ?thesis using sends_trans [OF w(2) f(2)] f(3) by auto
qed

lemmas sendPacketData_video = sendPacketData_media [of PacketTypeVideo, OF disjI1 [OF refl], unfolded tag_of_video]

lemma findSets_frame:
  assumes "nal_type sps = 7" "nal_type pps = 8" "is_frame idr" "sps \<noteq> []" "pps \<noteq> []"
  shows "findSets [sps, pps, idr] (None, None) = Ok (Some sps, Some pps)"
proof -
  have "nal_type idr \<noteq> 7" "nal_type idr \<noteq> 8" "idr \<noteq> []" using assms(3) by (auto simp: is_frame_def)
  then show ?thesis using assms(1,2,4,5) by (cases sps; cases pps; cases idr) (simp_all add: nal_type_def)
qed

text \<open>What the first key frame of a publisher puts on the wire: the sequence header, then the frame.\<close>

definition frame_messages :: "u32 \<Rightarrow> u32 \<Rightarrow> u8 \<Rightarrow> bytes \<Rightarrow> bytes \<Rightarrow> bytes \<Rightarrow> ChunkStream list" where
  "frame_messages sid ts pt sps pps idr =
     [video_msg sid ts (NewAVCSequenceHeader sps pps ts), video_msg sid ts ([0x17, pt, 0, 0, 0] @ avcc [sps, pps, idr])]"

lemma publish_frame:
  fixes c :: RtmpClient
  assumes pub: "isPublish c" "videoFirst c"
    and p: "PacketType p = PacketTypeVideo" "CodecID (VHeader p) = VIDEO_H264" "PData p = annexb [sps, pps, idr]"
    and us: "clean sps" "clean pps" "clean idr" "nal_type sps = 7" "nal_type pps = 8" "is_frame idr" "sps \<noteq> []" "pps \<noteq> []" "4 \<le> length idr"
      "length sps < 65536" "length pps < 65536" "length idr \<le> 0xf00000"
    and X: "X = stream_bytes k (frame_messages (streamid (rconn c)) (TimeStamp p) (AVCPacketType (VHeader p)) sps pps idr)"
    and conn: "chunkSize (cconn (rconn c)) = k" "k \<noteq> 0" "wok (rw (cconn (rconn c)))" "length X \<le> room (rw (cconn (rconn c)))"
  shows "\<exists>p' c'. rc_SendPacket (p, c) = (Ok (), p', c') \<and> \<not> videoFirst c' \<and>
    wire (rw (cconn (rconn c'))) = sent (rw (cconn (rconn c))) @ X"
proof -
  let ?ts = "TimeStamp p" and ?sid = "streamid (rconn c)" and ?h = "NewAVCSequenceHeader sps pps (TimeStamp p)"
  let ?f = "[0x17, AVCPacketType (VHeader p), 0, 0, 0] @ avcc [sps, pps, idr]"
  have par: "is_param sps" "is_param pps" using us by (simp_all add: is_param_def)
  have nal: "ParseNalus (PData p) = Ok [sps, pps, idr]"
    unfolding p(3) by (rule ParseNalus_units) (use us in auto)
  have sets: "res_bind (ParseNalus (PData p)) (\<lambda>nalus. findSets nalus (None, None)) = Ok (Some sps, Some pps)"
    unfolding nal using findSets_frame [OF us(4-8)] by simp
  have pk: "PackVideoData (VHeader p) (PStreamID p) (PData p) (TimeStamp p) = Ok ?f"
    unfolding p(3) using PackVideoData_keyframe [OF p(2) us(1,2) par(1) us(8)] us(9) by (cases idr) simp_all
  let ?b1 = "message_bytes (unat k) (on_wire (video_msg ?sid ?ts ?h))" and ?b2 = "message_bytes (unat k) (on_wire (video_msg ?sid ?ts ?f))"
  have X': "X = ?b1 @ ?b2" unfolding X by (simp add: frame_messages_def video_msg_def window_after_def)
  have l4: "length StartCode4 = 4" by (simp add: StartCode4_def)
  have h: "?h \<noteq> []" "length ?h \<le> 0xffffff"
    using us(10,11) l4 by (simp_all add: muxer_avc_seq AVCDecoderConfigurationRecord_def Let_def)
  from sendPacketData_video [OF h, of c ?b1 ?ts] conn X' obtain w1 where
    w1: "sendPacketData ?h ?ts PacketTypeVideo c = (Ok (), c\<lparr>rconn := (rconn c)\<lparr>cconn := (cconn (rconn c))\<lparr>rw := w1\<rparr>\<rparr>\<rparr>)"
      "wire w1 = sent w1" "sends ?b1 (rw (cconn (rconn c))) w1" by auto
  define c1 where "c1 = c\<lparr>rconn := (rconn c)\<lparr>cconn := (cconn (rconn c))\<lparr>rw := w1\<rparr>\<rparr>, videoFirst := False\<rparr>"
  have seq: "sendSequenceHeader (p, c) = (Ok True, p, c1)"
    unfolding sendSequenceHeader_def using sets w1(1)
    by (simp add: onRc_def pbind_def pwrap_def setVideoFirst_def c1_def)
  have f: "?f \<noteq> []" "length ?f \<le> 0xffffff" using us(10-12) by simp_all
  have b2: "length ?b2 \<le> room w1" "wok w1" using w1(3) conn X' by (simp_all add: sends_def)
  from sendPacketData_video [OF f, of c1 ?b2 ?ts] conn b2 obtain w2 where
    w2: "sendPacketData ?f ?ts PacketTypeVideo c1 = (Ok (), c1\<lparr>rconn := (rconn c1)\<lparr>cconn := (cconn (rconn c1))\<lparr>rw := w2\<rparr>\<rparr>\<rparr>)"
      "wire w2 = sent w2" "sends ?b2 (rw (cconn (rconn c1))) w2" by (auto simp: c1_def)
  have "rc_SendPacket (p, c) = (Ok (), p\<lparr>PData := ?f\<rparr>, c1\<lparr>rconn := (rconn c1)\<lparr>cconn := (cconn (rconn c1))\<lparr>rw := w2\<rparr>\<rparr>\<rparr>)"
    using pub p(1,2) seq pk w2(1)
    by (simp add: rc_SendPacket_def sendVideoPacket_def packData_def sendData_def onRc_def pbind_def pwrap_def)
  moreover have "wire w2 = sent (rw (cconn (rconn c))) @ X" using w1(3) w2(2,3) X' by (simp add: sends_def c1_def)
  ultimately show ?thesis by (auto simp: c1_def)
qed

lemma Read_eof:
  assumes "rin (rw conn) = []"
  shows "Read conn = (Err (rend (rw conn)), conn)"
proof -
  have "readBasicHeader (rw conn) = (Err (rend (rw conn)), rw conn)"
    using assms by (simp add: readBasicHeader_def pbind_def bufio_ReadByte_def)
  then have "Read_turn conn = (Err (rend (rw conn)), conn)" by (simp add: Read_turn_def Read_chunk_def pbind_def)
  then show ?thesis by (subst Read.simps) simp
qed

text \<open>Reading a message that is not a protocol control message.\<close>

lemma Read_media:
  assumes m: "sendable m" "\<not> is_control m" and conn: "ready n conn" "rin (rw conn) = message_bytes (unat n) m @ rest"
  obtains c conn' where "Read conn = (Ok c, conn')" and "same_media c m" and "ready (window_after m n) conn'" and "rin (rw conn') = rest"
proof -
  obtain cs where rd: "Read conn = Read_after cs (place (CSID m) cs rest conn)" and h: "holds m cs"
    by (rule Read_message [OF m(1) conn])
  obtain r conn' where rc: "Read_complete cs (place (CSID m) cs rest conn) = (Ok r, conn')" "ready (window_after m n) conn'"
    "rin (rw conn') = rest" "if is_control m then r = None else \<exists>c. r = Some c \<and> erase_ref c = as_read m"
    by (rule Read_complete_message [OF m(1) h conn(1)])
  from rc(4) m(2) obtain c where c: "r = Some c" "erase_ref c = as_read m" by auto
  have "same_media (erase_ref c) m" unfolding c(2) by (simp add: same_media_def as_read_def)
  then have "same_media c m" by (simp add: same_media_def erase_ref_def)
  moreover have "Read conn = (Ok c, conn')" using rd rc(1) c(1) by (simp add: Read_after_def)
  ultimately show thesis using that rc(2,3) by blast
qed

lemma play_turn_reads:
  fixes q :: RtmpClient
  assumes m: "sendable m" "\<not> is_control m" and q: "ready n (cconn (rconn q))" "rin (rw (cconn (rconn q))) = message_bytes (unat n) m @ rest"
  obtains cs conn where "play_turn q = play_message cs (q\<lparr>rconn := (rconn q)\<lparr>cconn := conn\<rparr>\<rparr>)" and "same_media cs m"
    and "ready (window_after m n) conn" and "rin (rw conn) = rest"
  by (rule Read_media [OF m q]) (use that in \<open>simp add: play_turn_def onClient_def cc_Read_def\<close>)

lemma sendable_media:
  assumes "t = TAG_VIDEO \<or> t = TAG_AUDIO" and "d \<noteq> []" "length d \<le> 0xffffff" "ts < 0xffffff"
  shows "sendable (on_wire (media_msg t sid ts d))" and "\<not> is_control (on_wire (media_msg t sid ts d))"
    and "window_after (on_wire (media_msg t sid ts d)) n = n" and "same_media cs (on_wire (media_msg t sid ts d)) = same_media cs (media_msg t sid ts d)"
  using assms by (auto simp: sendable_def on_wire_def chunkCSID_def media_msg_def is_control_def window_after_def same_media_def zeroChunkStream_def)

lemmas sendable_video = sendable_media [of TAG_VIDEO, OF disjI1 [OF refl]]

text \<open>One message that the handler accepts, in the middle of the player's loop.\<close>

lemma play_media:
  fixes q :: RtmpClient
  assumes t: "t = TAG_VIDEO \<or> t = TAG_AUDIO" and d: "d \<noteq> []" "length d \<le> 0xffffff" "ts < 0xffffff"
    and q: "ready n (cconn (rconn q))" "rin (rw (cconn (rconn q))) = message_bytes (unat n) (on_wire (media_msg t sid ts d)) @ rest"
    and handle: "\<And>cs c. same_media cs (media_msg t sid ts d) \<Longrightarrow>
      \<exists>xs. handleVideoAudio cs c = (Ok (), c\<lparr>delivered := delivered c @ xs\<rparr>) \<and> P xs"
  shows "\<exists>xs conn. play_turn q = (Ok None, q\<lparr>rconn := (rconn q)\<lparr>cconn := conn\<rparr>, delivered := delivered q @ xs\<rparr>) \<and> P xs \<and>
    ready n conn \<and> rin (rw conn) = rest"
proof -
  note s = sendable_media [OF t d, where sid = sid]
  obtain cs conn where p: "play_turn q = play_message cs (q\<lparr>rconn := (rconn q)\<lparr>cconn := conn\<rparr>\<rparr>)"
    "same_media cs (on_wire (media_msg t sid ts d))" "ready (window_after (on_wire (media_msg t sid ts d)) n) conn" "rin (rw conn) = rest"
    by (rule play_turn_reads [OF s(1,2) q])
  have cs: "same_media cs (media_msg t sid ts d)" using p(2) s(4) by simp
  then have "TypeID cs = t" by (simp add: same_media_def media_msg_def)
  moreover obtain xs where "handleVideoAudio cs (q\<lparr>rconn := (rconn q)\<lparr>cconn := conn\<rparr>\<rparr>) =
      (Ok (), (q\<lparr>rconn := (rconn q)\<lparr>cconn := conn\<rparr>\<rparr>)\<lparr>delivered := delivered q @ xs\<rparr>)" "P xs"
    using handle [OF cs, of "q\<lparr>rconn := (rconn q)\<lparr>cconn := conn\<rparr>\<rparr>"] by auto
  ultimately show ?thesis using t p(1,3,4) s(3) by (auto simp: play_message_def logged_def)
qed

text \<open>The player's loop over a list of messages, each of which the handler turns into the calls \<open>f m\<close> of the callback.\<close>

definition playable :: "(ChunkStream \<Rightarrow> Packet list) \<Rightarrow> ChunkStream \<Rightarrow> bool" where
  "playable f m \<longleftrightarrow> (TypeID m = TAG_VIDEO \<or> TypeID m = TAG_AUDIO) \<and> Data m \<noteq> [] \<and> length (Data m) \<le> 0xffffff \<and> Timestamp m < 0xffffff \<and>
     m = media_msg (TypeID m) (StreamID m) (Timestamp m) (Data m) \<and>
     (\<forall>cs c. same_media cs m \<longrightarrow> handleVideoAudio cs c = (Ok (), c\<lparr>delivered := delivered c @ f m\<rparr>))"

lemma playableI:
  assumes "t = TAG_VIDEO \<or> t = TAG_AUDIO" and "d \<noteq> []" and "length d \<le> 0xffffff" and "ts < 0xffffff"
    and "\<And>cs c. same_media cs (media_msg t sid ts d) \<Longrightarrow> handleVideoAudio cs c = (Ok (), c\<lparr>delivered := delivered c @ f (media_msg t sid ts d)\<rparr>)"
  shows "playable f (media_msg t sid ts d)"
  using assms unfolding playable_def by (simp add: media_msg_def)

lemma play_messages:
  fixes q :: RtmpClient
  assumes "\<forall>m\<in>set ms. playable f m"
  shows "ready n (cconn (rconn q)) \<Longrightarrow> rin (rw (cconn (rconn q))) = stream_bytes n ms \<Longrightarrow>
    \<exists>q'. streamPlayProc q = Some (Ok (), q') \<and> delivered q' = delivered q @ concat (map f ms) \<and>
      closedCalls q' = closedCalls q + (if hasOnClosed q then 1 else 0)"
  using assms
proof (induction ms arbitrary: q)
  case Nil
  then have "play_turn q = (Ok (Some ()), q\<lparr>rconn := (rconn q)\<lparr>cconn := cconn (rconn q)\<rparr>\<rparr>)"
    using Read_eof [of "cconn (rconn q)"] by (simp add: play_turn_def onClient_def cc_Read_def)
  then show ?case by (simp add: streamPlayProc_def run_loop_simps(1) rc_Close_def)
next
  case (Cons m ms)
  define t sid ts d where "t = TypeID m" and "sid = StreamID m" and "ts = Timestamp m" and "d = Data m"
  have p: "t = TAG_VIDEO \<or> t = TAG_AUDIO" "d \<noteq> []" "length d \<le> 0xffffff" "ts < 0xffffff" and m: "m = media_msg t sid ts d"
    and h: "\<And>cs c. same_media cs (media_msg t sid ts d) \<Longrightarrow> \<exists>xs. handleVideoAudio cs c = (Ok (), c\<lparr>delivered := delivered c @ xs\<rparr>) \<and> xs = f m"
    using Cons.prems(3) by (simp_all add: playable_def t_def sid_def ts_def d_def)
  have "window_after m n = n" using p(1) by (auto simp: m media_msg_def window_after_def)
  then have X: "rin (rw (cconn (rconn q))) = message_bytes (unat n) (on_wire (media_msg t sid ts d)) @ stream_bytes n ms"
    using Cons.prems(2) m by simp
  have "\<exists>xs conn. play_turn q = (Ok None, q\<lparr>rconn := (rconn q)\<lparr>cconn := conn\<rparr>, delivered := delivered q @ xs\<rparr>) \<and> xs = f m \<and>
      ready n conn \<and> rin (rw conn) = stream_bytes n ms"
    by (rule play_media [OF p Cons.prems(1) X]) (rule h)
  then obtain conn where t: "play_turn q = (Ok None, q\<lparr>rconn := (rconn q)\<lparr>cconn := conn\<rparr>, delivered := delivered q @ f m\<rparr>)"
    "ready n conn" "rin (rw conn) = stream_bytes n ms" by (elim exE conjE) (rule that; simp)
  define q1 where "q1 = q\<lparr>rconn := (rconn q)\<lparr>cconn := conn\<rparr>, delivered := delivered q @ f m\<rparr>"
  have "ready n (cconn (rconn q1))" "rin (rw (cconn (rconn q1))) = stream_bytes n ms" using t(2,3) by (simp_all add: q1_def)
  from Cons.IH [OF this] Cons.prems(3) obtain q' where q': "streamPlayProc q1 = Some (Ok (), q')"
    "delivered q' = delivered q1 @ concat (map f ms)" "closedCalls q' = closedCalls q1 + (if hasOnClosed q1 then 1 else 0)" by auto
  have "streamPlayProc q = streamPlayProc q1"
    unfolding streamPlayProc_def run_loop_simps(2) [of play_turn, OF t(1)] q1_def ..
  then show ?case using q' by (simp add: q1_def)
qed

section \<open>Properties\<close>

text \<open>A player that reads the two messages of a key frame.\<close>

lemma play_frame:
  fixes q :: RtmpClient
  assumes pt: "pt \<noteq> 0" and ts: "ts < 0xffffff" and us: "nal_type sps = 7" "nal_type pps = 8" "sps \<noteq> []" "pps \<noteq> []"
      "length sps < 65536" "length pps < 65536" "length idr \<le> 0xf00000"
    and q: "ready k (cconn (rconn q))" "rin (rw (cconn (rconn q))) = stream_bytes k (frame_messages sid ts pt sps pps idr)"
  shows "\<exists>q' xs. streamPlayProc q = Some (Ok (), q') \<and> delivered q' = delivered q @ xs \<and>
    map PData xs = [sps, pps, sps, pps, idr] \<and> (\<forall>x\<in>set xs. TimeStamp x = ts \<and> PacketType x = PacketTypeVideo) \<and>
    closedCalls q' = closedCalls q + (if hasOnClosed q then 1 else 0)"
proof -
  let ?h = "NewAVCSequenceHeader sps pps ts" and ?f = "[0x17, pt, 0, 0, 0] @ avcc [sps, pps, idr]"
  let ?calls = "\<lambda>m. if Data m = ?h then map (unit_pkt sid ts 0) [sps, pps] else map (unit_pkt sid ts pt) [sps, pps, idr]"
  have sc: "sps \<noteq> StartCode4" "pps \<noteq> StartCode4" "length StartCode4 = 4" using us(1,2) by (auto simp: nal_type_def StartCode4_def)
  have h: "?h \<noteq> []" "length ?h \<le> 0xffffff" "?f \<noteq> ?h"
    using us(5,6) sc pt by (simp_all add: muxer_avc_seq AVCDecoderConfigurationRecord_def Let_def)
  have f: "?f \<noteq> []" "length ?f \<le> 0xffffff" "length (avcc [sps, pps, idr]) < 2 ^ 32" using us(5-7) by simp_all
  have "playable ?calls (video_msg sid ts ?h)"
    by (rule playableI [OF disjI1 [OF refl] h(1,2) ts]) (simp add: handle_sequence_header [OF _ sc(1,2) us(3-6)] media_msg_def)
  moreover have "playable ?calls (video_msg sid ts ?f)"
    by (rule playableI [OF disjI1 [OF refl] f(1,2) ts]) (use h(3) in \<open>simp add: handle_frame [OF _ pt f(3)] media_msg_def del: avcc_simps append.simps\<close>)
  ultimately have pl: "\<forall>m\<in>set (frame_messages sid ts pt sps pps idr). playable ?calls m" by (simp add: frame_messages_def)
  have c: "concat (map ?calls (frame_messages sid ts pt sps pps idr)) = map (unit_pkt sid ts 0) [sps, pps] @ map (unit_pkt sid ts pt) [sps, pps, idr]"
    using h(3) by (simp add: frame_messages_def media_msg_def)
  obtain q' where "streamPlayProc q = Some (Ok (), q')"
    "delivered q' = delivered q @ map (unit_pkt sid ts 0) [sps, pps] @ map (unit_pkt sid ts pt) [sps, pps, idr]"
    "closedCalls q' = closedCalls q + (if hasOnClosed q then 1 else 0)"
    using play_messages [OF pl q] unfolding c by (elim exE conjE) (rule that)
  then show ?thesis
    by (intro exI [of _ q'] exI [of _ "map (unit_pkt sid ts 0) [sps, pps] @ map (unit_pkt sid ts pt) [sps, pps, idr]"]) simp
qed

text \<open>
  A frame that is published arrives at a player. The first H.264 key frame that a publisher sends (a sequence and a
  picture parameter set and a slice, in Annex B form) goes out as a sequence header and a frame; a player that
  reads exactly these bytes hands the two parameter sets and then the three units to its callback, each with
  the time stamp of the packet, and closes once when the input ends.
\<close>

theorem frame_reaches_player:
  fixes c q :: RtmpClient
  assumes "isPublish c" and "videoFirst c"
    and "PacketType p = PacketTypeVideo" and "CodecID (VHeader p) = VIDEO_H264" and "PData p = annexb [sps, pps, idr]"
    and "AVCPacketType (VHeader p) \<noteq> AVC_SEQHDR" and "TimeStamp p < 0xffffff"
    and "clean sps" and "clean pps" and "clean idr" and "nal_type sps = 7" and "nal_type pps = 8" and "is_frame idr"
    and "sps \<noteq> []" and "pps \<noteq> []" and "4 \<le> length idr"
    and "length sps < 65536" and "length pps < 65536" and "length idr \<le> 0xf00000"
    and "X = stream_bytes k (frame_messages (streamid (rconn c)) (TimeStamp p) (AVCPacketType (VHeader p)) sps pps idr)"
    and "chunkSize (cconn (rconn c)) = k" and "wok (rw (cconn (rconn c)))" and "length X \<le> room (rw (cconn (rconn c)))"
    and "ready k (cconn (rconn q))" and "rin (rw (cconn (rconn q))) = X"
  shows "\<exists>p' c' q' xs. rc_SendPacket (p, c) = (Ok (), p', c') \<and> \<not> videoFirst c' \<and>
    wire (rw (cconn (rconn c'))) = sent (rw (cconn (rconn c))) @ X \<and>
    streamPlayProc q = Some (Ok (), q') \<and> delivered q' = delivered q @ xs \<and>
    map PData xs = [sps, pps, sps, pps, idr] \<and> (\<forall>x\<in>set xs. TimeStamp x = TimeStamp p \<and> PacketType x = PacketTypeVideo) \<and>
    closedCalls q' = closedCalls q + (if hasOnClosed q then 1 else 0)"
proof -
  have k: "k \<noteq> 0" using assms(24) by (auto simp: ready_def)
  have pt: "AVCPacketType (VHeader p) \<noteq> 0" using assms(6) by simp
  have "\<exists>p' c'. rc_SendPacket (p, c) = (Ok (), p', c') \<and> \<not> videoFirst c' \<and> wire (rw (cconn (rconn c'))) = sent (rw (cconn (rconn c))) @ X"
    using publish_frame [OF assms(1-5,8-20) assms(21) k assms(22,23)] .
  with play_frame [OF pt assms(7,11,12,14,15,17-19,24) assms(25) [unfolded assms(20)]] show ?thesis
    by (elim exE conjE) (intro exI conjI; assumption)
qed

definition sample_rtmp :: "bytes \<Rightarrow> RtmpClient" where
  "sample_rtmp inp = (NewRtmpClient (NewConnClient (NewRtmpConn (NewReadWriter inp EOF 10000 EOF 4096))))\<lparr>isPublish := True, hasOnClosed := True\<rparr>"

definition sample_packet :: Packet where
  "sample_packet = zeroPacket\<lparr>PacketType := 1, TimeStamp := 40, PData := annexb [[0x67, 66], [0x68, 7], [0x65, 9, 9, 9]],
     VHeader := \<lparr>FrameType = 0, AVCPacketType = 1, CodecID = 7, CompositionTime = 0\<rparr>\<rparr>"

theorem frame_reaches_player_witness:
  "\<exists>X p' c' q' xs. rc_SendPacket (sample_packet, sample_rtmp []) = (Ok (), p', c') \<and> wire (rw (cconn (rconn c'))) = X \<and>
    streamPlayProc (sample_rtmp X) = Some (Ok (), q') \<and> delivered q' = xs \<and> closedCalls q' = 1 \<and>
    map PData xs = [[0x67, 66], [0x68, 7], [0x67, 66], [0x68, 7], [0x65, 9, 9, 9]]"
proof -
  let ?c = "sample_rtmp []" and ?a = "[0x67, 66] :: bytes" and ?b = "[0x68, 7] :: bytes" and ?i = "[0x65, 9, 9, 9] :: bytes"
  define X where "X = stream_bytes 128 (frame_messages (streamid (rconn ?c)) (TimeStamp sample_packet)
    (AVCPacketType (VHeader sample_packet)) ?a ?b ?i)"
  have "payload (frame_messages s t pt ?a ?b ?i) \<le> 100" "length (frame_messages s t pt ?a ?b ?i) = 2" for s t pt
    by (simp_all add: frame_messages_def video_msg_def muxer_avc_seq AVCDecoderConfigurationRecord_def Let_def StartCode4_def)
  note this [of "streamid (rconn ?c)" "TimeStamp sample_packet" "AVCPacketType (VHeader sample_packet)"]
  with length_stream_bytes [of 128 "frame_messages (streamid (rconn ?c)) (TimeStamp sample_packet)
      (AVCPacketType (VHeader sample_packet)) ?a ?b ?i", folded X_def]
  have "length X \<le> 10000" by linarith
  moreover have "ready 128 (cconn (rconn (sample_rtmp X)))" "wok (rw (cconn (rconn ?c)))" "room (rw (cconn (rconn ?c))) = 10000"
    "sent (rw (cconn (rconn ?c))) = []" "delivered (sample_rtmp X) = []" "closedCalls (sample_rtmp X) = 0"
    "hasOnClosed (sample_rtmp X)" "rin (rw (cconn (rconn (sample_rtmp X)))) = X" "chunkSize (cconn (rconn ?c)) = 128" "isPublish ?c" "videoFirst ?c"
    by (simp_all add: sample_rtmp_def NewRtmpClient_def NewConnClient_def NewRtmpConn_def NewReadWriter_def
        ready_def conn_inv_def wok_def room_def sent_def)
  moreover have "clean ?a" "clean ?b" "clean ?i" by code_simp+
  moreover have "PacketType sample_packet = 1" "CodecID (VHeader sample_packet) = 7" "PData sample_packet = annexb [?a, ?b, ?i]"
    "AVCPacketType (VHeader sample_packet) \<noteq> 0" "TimeStamp sample_packet < 0xffffff"
    by (simp_all add: sample_packet_def zeroPacket_def)
  moreover have "nal_type ?a = 7" "nal_type ?b = 8" "is_frame ?i" by (simp_all add: nal_type_def is_frame_def)
  ultimately have "\<exists>p' c' q' xs. rc_SendPacket (sample_packet, ?c) = (Ok (), p', c') \<and> \<not> videoFirst c' \<and>
    wire (rw (cconn (rconn c'))) = sent (rw (cconn (rconn ?c))) @ X \<and>
    streamPlayProc (sample_rtmp X) = Some (Ok (), q') \<and> delivered q' = delivered (sample_rtmp X) @ xs \<and>
    map PData xs = [?a, ?b, ?a, ?b, ?i] \<and> (\<forall>x\<in>set xs. TimeStamp x = TimeStamp sample_packet \<and> PacketType x = 1) \<and>
    closedCalls q' = closedCalls (sample_rtmp X) + (if hasOnClosed (sample_rtmp X) then 1 else 0)"
    by (intro frame_reaches_player [OF _ _ _ _ _ _ _ _ _ _ _ _ _ _ _ _ _ _ _ X_def]) (assumption | simp (no_asm))+
  then obtain p' c' q' xs where o: "rc_SendPacket (sample_packet, ?c) = (Ok (), p', c')"
    "wire (rw (cconn (rconn c'))) = sent (rw (cconn (rconn ?c))) @ X"
    "streamPlayProc (sample_rtmp X) = Some (Ok (), q')" "delivered q' = delivered (sample_rtmp X) @ xs"
    "map PData xs = [?a, ?b, ?a, ?b, ?i]" "closedCalls q' = closedCalls (sample_rtmp X) + (if hasOnClosed (sample_rtmp X) then 1 else 0)"
    by (elim exE conjE) (rule that)
  have "sent (rw (cconn (rconn ?c))) = []" "delivered (sample_rtmp X) = []" "closedCalls (sample_rtmp X) = 0" "hasOnClosed (sample_rtmp X)"
    by (simp_all add: sample_rtmp_def NewRtmpClient_def NewConnClient_def NewRtmpConn_def NewReadWriter_def sent_def)
  with o show ?thesis
    by (intro exI [of _ X] exI [of _ p'] exI [of _ c'] exI [of _ q'] exI [of _ xs]) simp
qed

lemma ending_kept: "closedCalls (snd (play_turn c)) = closedCalls c \<and> hasOnClosed (snd (play_turn c)) = hasOnClosed c"
proof -
  let ?k = "keeps (\<lambda>c. (closedCalls c, hasOnClosed c))"
  have on: "?k (onClient m)" for m :: "(ConnClient, 'a) prog" by (simp add: keeps_def onClient_def split_beta)
  have h: "?k (handleVideoAudio cs)" for cs by (rule keepsI) (simp add: delivers_frame [OF delivers_handleVideoAudio])
  have d: "?k (decodeOnly a b cs)" for a b cs unfolding decodeOnly_def by (intro keeps_rules on)
  have l: "?k m \<Longrightarrow> ?k (logged m)" for m by (simp add: keeps_def)
  have "?k (play_message cs)" for cs
    unfolding play_message_def Let_def handleMetadata_def rc_handleCommand_def by (intro keeps_rules l h d)
  moreover obtain r c1 where r: "onClient cc_Read c = (r, c1)" by fastforce
  then have "closedCalls c1 = closedCalls c" "hasOnClosed c1 = hasOnClosed c" using keepsD [OF on r] by simp_all
  ultimately show ?thesis using r by (cases r) (simp_all add: keeps_def play_turn_def)
qed

text \<open>
  C18: The player always comes to an end and reports it once: whatever the server sends, the loop
  of \<open>streamPlayProc\<close> returns, on every error path, and \<open>onClosed\<close>, when there is one, has been called exactly once more.
\<close>

theorem player_returns:
  "\<exists>r q'. streamPlayProc q = Some (r, q') \<and> closedCalls q' = closedCalls q + (if hasOnClosed q then 1 else 0)"
proof -
  obtain r q' where run: "run_loop play_turn q = Some (r, q')" using play_loop.returns by blast
  let ?I = "\<lambda>c. closedCalls c = closedCalls q \<and> hasOnClosed c = hasOnClosed q"
  have step: "?I c \<Longrightarrow> play_turn c = (x, c') \<Longrightarrow> ?I c'" for c c' x using ending_kept [of c] by simp
  have "?I q'"
    by (rule play_loop.run_loop_rule [OF run, where I = ?I and Q = "\<lambda>_. ?I"]) (simp, (erule (1) step)+)
  with run show ?thesis by (simp add: streamPlayProc_def rc_Close_def)
qed

text \<open>
  A server can crash a player: an audio message that consists of the AAC flags byte only makes the goroutine of the
  player panic, after the close callback.
\<close>

theorem short_audio_crashes_player:
  fixes q :: RtmpClient
  assumes "Read (cconn (rconn q)) = (Ok cs, conn)" and "TypeID cs = TAG_AUDIO" and "Data cs = [b]" and "drop_bit 4 b = SOUND_AAC"
  shows "\<exists>q'. streamPlayProc q = Some (Panic, q')"
proof -
  have demux: "\<exists>p. Demux (zeroPacket\<lparr>PData := [b], PStreamID := s, TimeStamp := t, PacketType := 2\<rparr>) = (Panic, p)" for s t :: u32
    using assms(4) by (simp add: Demux_def demux_gen_def ParseAudioHeader_def Let_def)
  have "handleVideoAudio cs c = (Panic, c)" for c
  proof -
    obtain p where "Demux (zeroPacket\<lparr>PData := [b], PStreamID := StreamID cs, TimeStamp := Timestamp cs, PacketType := 2\<rparr>) = (Panic, p)"
      using demux by blast
    then show ?thesis using assms(2,3) by (simp add: handleVideoAudio_def Let_def)
  qed
  then have "logged (handleVideoAudio cs) c = (Panic, c)" for c
    by (simp add: logged_def)
  then have "\<exists>q'. play_turn q = (Panic, q')"
    using assms(1,2) by (simp add: play_turn_def play_message_def onClient_def cc_Read_def)
  then show ?thesis unfolding streamPlayProc_def using run_loop_simps(4) [of play_turn q] by auto
qed

theorem short_audio_crashes_player_witness:
  "\<exists>q'. streamPlayProc (NewRtmpClient (NewConnClient (fresh_conn [4, 0, 0, 0, 0, 0, 1, 8, 1, 0, 0, 0, 0xaf]))) = Some (Panic, q')"
proof -
  let ?q = "NewRtmpClient (NewConnClient (fresh_conn [4, 0, 0, 0, 0, 0, 1, 8, 1, 0, 0, 0, 0xaf]))"
  have "case Read (cconn (rconn ?q)) of (Ok c, conn) \<Rightarrow> TypeID c = 8 \<and> Data c = [0xaf] | _ \<Rightarrow> False" by code_simp
  then obtain c conn where "Read (cconn (rconn ?q)) = (Ok c, conn)" "TypeID c = 8" "Data c = [0xaf]"
    by (cases "Read (cconn (rconn ?q))"; cases "fst (Read (cconn (rconn ?q)))") auto
  then show ?thesis using short_audio_crashes_player [of ?q c conn "0xaf"] by simp
qed

end
