(* ===== verification/Server.thy ===== *)
theory Server
  imports Session RtmpStreams
begin

text \<open>
  The server, \<open>server.go\<close>: accepting connections and what is done with one. The listener is the sequence of
  its answers; the randomness of the handshake, the id of a new stream and the clock are arguments; logging is left out.
\<close>

section \<open>One connection\<close>

text \<open>The deferred function closes the connection after an error, not after a panic.\<close>

definition handleConn :: "bytes \<Rightarrow> bytes \<Rightarrow> order \<Rightarrow> bytes \<Rightarrow> int \<Rightarrow> int \<Rightarrow> RtmpConn \<Rightarrow> StreamHandler \<Rightarrow> unit res \<times> bool \<times> RtmpConn \<times> StreamHandler" where
  "handleConn rnd1 rnd2 order newId gopNum now conn h =
     (case HandshakeServer rnd1 rnd2 conn of
        (Ok _, conn1) \<Rightarrow>
          (case SetUpPlayOrPublish order (NewForwardConnect conn1) of
             Some (Ok _, fc) \<Rightarrow>
               (case HandleConnect newId gopNum now fc h of
                  (Ok _, h') \<Rightarrow> (Ok (), False, fconn fc, h')
                | (Err e, h') \<Rightarrow> (Err e, True, fconn fc, h')
                | (Panic, h') \<Rightarrow> (Panic, False, fconn fc, h'))
           | Some (Err e, fc) \<Rightarrow> (Err e, True, fconn fc, h)
           | Some (Panic, fc) \<Rightarrow> (Panic, False, fconn fc, h)
           | None \<Rightarrow> (Panic, False, conn1, h))
      | (Err e, conn1) \<Rightarrow> (Err e, True, conn1, h)
      | (Panic, conn1) \<Rightarrow> (Panic, False, conn1, h))"

section \<open>Accepting\<close>

text \<open>An answer of \<open>Accept\<close>: a connection, a temporary error, or another one.\<close>

datatype accept = Accepted RtmpConn | Temporary | Fatal err

text \<open>
  The loop, with the connections that \<open>handleConn\<close> was started for. Without a fatal error it goes on; \<open>wrap\<close> is what is
  done with the error that ends it.
\<close>

fun acceptLoop :: "(err \<Rightarrow> err) \<Rightarrow> accept list \<Rightarrow> err option \<times> RtmpConn list" where
  "acceptLoop wrap [] = (None, [])"
| "acceptLoop wrap (Accepted conn # as) = (case acceptLoop wrap as of (r, conns) \<Rightarrow> (r, conn # conns))"
| "acceptLoop wrap (Temporary # as) = acceptLoop wrap as"
| "acceptLoop wrap (Fatal e # as) = (Some (wrap e), [])"

text \<open>
  After a failed \<open>Listen\<close> the code goes on to call \<open>Accept\<close> on the nil listener; the panic is recovered and the named
  result still holds the error.
\<close>

definition Serve :: "unit res \<Rightarrow> accept list \<Rightarrow> err option \<times> RtmpConn list" where
  "Serve listen as =
     (case listen of
        Ok _ \<Rightarrow> acceptLoop (\<lambda>e. e) as
      | _ \<Rightarrow> (Some (Errorf ''net.Listen failed''), []))"

definition ServeTLS :: "unit res \<Rightarrow> unit res \<Rightarrow> accept list \<Rightarrow> err option \<times> RtmpConn list" where
  "ServeTLS keyPair listen as =
     (case keyPair of
        Ok _ \<Rightarrow>
          (case listen of
             Ok _ \<Rightarrow> acceptLoop (\<lambda>e. Errorf ''Accept failed'') as
           | _ \<Rightarrow> (Some (Errorf ''Listen rtsp tls failed''), []))
      | _ \<Rightarrow> (Some (Errorf ''tls.LoadX509KeyPair failed''), []))"

section \<open>The handshake in front of the dialogue\<close>

abbreviation hs_zeros :: bytes where
  "hs_zeros \<equiv> replicate 1536 0"

lemma conn_at_rw:
  assumes "conn_at k n out r b inp conn" and "rin w = inp'" and "readError w = None" and "wok w" and "sent w = out'" and "r' \<le> room w"
  shows "conn_at k n out' r' b inp' (conn\<lparr>rw := w\<rparr>)"
  using assms by (auto simp: conn_at_def calm_def ready_def conn_inv_def)

lemma client_handshake:
  assumes at: "conn_at k n out (3073 + r) b (3 # s1 @ s2 @ rest) conn" and len: "length s1 = 1536" "length s2 = 1536"
  shows "\<exists>conn'. HandshakeClient conn = (Ok (), conn') \<and> conn_at k n (out @ 3 # hs_zeros @ s1) r b rest conn'"
proof -
  note a = at [unfolded conn_at_def calm_def ready_def]
  have ok: "rin (rw conn) = 3 # s1 @ s2 @ rest" "readError (rw conn) = None" "wok (rw conn)" "3073 \<le> room (rw conn)" using a by simp_all
  obtain conn' where c: "HandshakeClient conn = (Ok (), conn')" "rin (rw conn') = rest" "sent (rw conn') = sent (rw conn) @ 3 # hs_zeros @ s1"
    "conn' = conn\<lparr>rw := rw conn'\<rparr>" "readError (rw conn') = None" "wok (rw conn')" "room (rw conn') = room (rw conn) - 3073"
    by (rule HandshakeClient_runs [OF ok(1) len ok(2-4)])
  have "conn_at k n (out @ 3 # hs_zeros @ s1) r b rest (conn\<lparr>rw := rw conn'\<rparr>)"
    by (rule conn_at_rw [OF at c(2,5,6)]) (use a c(3,7) in auto)
  then show ?thesis using c(1,4) by auto
qed

lemma server_handshake:
  assumes at: "conn_at k n out (3073 + r) b (3 # hs_zeros @ c2 @ rest) conn" and len: "length c2 = 1536"
  shows "\<exists>conn'. HandshakeServer rnd1 rnd2 conn = (Ok (), conn') \<and> conn_at k n (out @ 3 # hs_zeros @ hs_zeros) r b rest conn'"
proof -
  note a = at [unfolded conn_at_def calm_def ready_def]
  have "drop 4 hs_zeros = replicate 1532 0" by simp
  moreover have "be_word (replicate 4 0) = (0 :: u32)" by (simp add: be_word_def numeral_eq_Suc)
  ultimately have reply: "serverReply hs_zeros rnd1 rnd2 = Ok (3 # hs_zeros @ hs_zeros)"
    by (intro serverReply_simple) (simp_all add: U32BE_cases)
  have ok: "rin (rw conn) = 3 # hs_zeros @ c2 @ rest" "readError (rw conn) = None" "wok (rw conn)" "length (3 # hs_zeros @ hs_zeros) \<le> room (rw conn)"
    using a by simp_all
  obtain conn' where c: "HandshakeServer rnd1 rnd2 conn = (Ok (), conn')" "rin (rw conn') = rest"
    "sent (rw conn') = sent (rw conn) @ 3 # hs_zeros @ hs_zeros" "conn' = conn\<lparr>rw := rw conn'\<rparr>" "readError (rw conn') = None"
    "wok (rw conn')" "room (rw conn') = room (rw conn) - length (3 # hs_zeros @ hs_zeros)"
    by (rule HandshakeServer_runs [OF ok(1) _ len ok(2-4) reply]) simp_all
  have "conn_at k n (out @ 3 # hs_zeros @ hs_zeros) r b rest (conn\<lparr>rw := rw conn'\<rparr>)"
    by (rule conn_at_rw [OF at c(2,5,6)]) (use a c(3,7) in auto)
  then show ?thesis using c(1,4) by auto
qed

section \<open>Properties\<close>

text \<open>The connections that are handled: those before the first error that is not temporary.\<close>

definition before_fatal :: "accept list \<Rightarrow> RtmpConn list" where
  "before_fatal as = concat (map (\<lambda>a. case a of Accepted conn \<Rightarrow> [conn] | _ \<Rightarrow> [])
     (takeWhile (\<lambda>a. case a of Fatal e \<Rightarrow> False | _ \<Rightarrow> True) as))"

lemma acceptLoop_conns: "snd (acceptLoop wrap as) = before_fatal as"
  by (induction wrap as rule: acceptLoop.induct) (auto simp: before_fatal_def split: prod.split)

lemma acceptLoop_ends: "fst (acceptLoop wrap as) = None \<longleftrightarrow> (\<forall>e. Fatal e \<notin> set as)"
  by (induction wrap as rule: acceptLoop.induct) (auto split: prod.split)

text \<open>
  Temporary errors of the listener do not stop the server: for every sequence of answers \<open>Serve\<close> and \<open>ServeTLS\<close> start
  \<open>handleConn\<close> for exactly the connections before the first other error, in order, and go on accepting as
  long as there is none; when listening or loading the certificate fails they return an error and handle nothing.
\<close>

theorem server_accepts:
  "snd (Serve (Ok ()) as) = before_fatal as \<and> snd (ServeTLS (Ok ()) (Ok ()) as) = before_fatal as \<and>
   (fst (Serve (Ok ()) as) = None \<longleftrightarrow> (\<forall>e. Fatal e \<notin> set as)) \<and>
   (fst (ServeTLS (Ok ()) (Ok ()) as) = None \<longleftrightarrow> (\<forall>e. Fatal e \<notin> set as)) \<and>
   (\<exists>e. Serve (Err f) as = (Some e, [])) \<and> (\<exists>e. ServeTLS (Err f) listen as = (Some e, [])) \<and> (\<exists>e. ServeTLS (Ok ()) (Err f) as = (Some e, []))"
  by (simp add: Serve_def ServeTLS_def acceptLoop_conns acceptLoop_ends)

lemma Start_after_connect:
  assumes "parseURL net u cc = (Ok (l, r), cc1)" and "dial net l r = Ok conn" and "HandshakeClient conn = (Ok (), conn')"
    and "run_loop (Start_turn order meth) (chars ''connect'', cc1\<lparr>cconn := conn'\<rparr>) = Some (x, (cmd, cc2))"
  shows "Start net order u meth cc = Some (x, cc2)"
proof -
  have "connectServer net u cc = (Ok (), cc1\<lparr>cconn := conn'\<rparr>)"
    using assms(1-3) by (simp add: connectServer_def pbind_def pwrap_def)
  then show ?thesis using assms(4) by (simp add: Start_def pwrap_def)
qed

text \<open>
  C2: From the URL to the stream: a client that is started with a URL whose host answers and a server that handles the
  connection both succeed, when each reads the handshake and the messages of the other. The client has been given stream 1;
  the server has not closed the connection and has added it, as publisher or as player, to the
  stream of its registry whose key is made of the application and the stream name in the URL, and every
  other stream of the registry is as before. This holds for every registry: a stream that exists is reused by a second publisher, and one that does not
  is created for a player, where the comments above the call in \<open>server.go\<close> say that the one is closed and made anew and the other is an error.
\<close>

theorem client_joins_stream:
  assumes oc: "\<forall>m. mset (oc m) = mset m" and os: "\<forall>m. mset (os m) = mset m"
    and url: "parseURL net u (NewConnClient conn0) = (Ok (l, r), cc1)" and dial: "dial net l r = Ok cl"
    and len: "length (app cc1) < 2 ^ 32" "length (tcurl cc1) < 2 ^ 32" "length (title cc1) < 2 ^ 32"
    and X: "X = stream_bytes 128 (client_says oc publish cc1)" and Y: "Y = stream_bytes 128 (server_says os publish)"
    and client: "conn_at 128 128 [] (3073 + length X) (payload (server_says os publish)) (3 # hs_zeros @ hs_zeros @ Y) cl"
    and server: "conn_at 128 128 [] (3073 + length Y) (payload (client_says oc publish cc1)) (3 # hs_zeros @ hs_zeros @ X) sv"
    and meth: "meth = (if publish then ''publish'' else ''play'')"
    and key: "key = streamKey \<lparr>si_App = app cc1, si_Name = title cc1, si_URL = url'\<rparr>"
  shows "\<exists>cc' sv' h' s. Start net oc u (chars meth) (NewConnClient conn0) = Some (Ok (), cc') \<and> GetStreamID cc' = 1 \<and>
    wire (rw (cconn cc')) = 3 # hs_zeros @ hs_zeros @ X \<and>
    handleConn rnd1 rnd2 os newId gopNum now sv h = (Ok (), False, sv', h') \<and> wire (rw sv') = 3 # hs_zeros @ hs_zeros @ Y \<and>
    h' key = Some s \<and> (\<forall>k. k \<noteq> key \<longrightarrow> h' k = h k) \<and>
    sv' \<in> (if publish then (fconn \<circ> rd_conn) ` set (readerChan s) else (fconn \<circ> sw_conn) ` set (writerChan s))"
proof -
  obtain cl' where cl': "HandshakeClient cl = (Ok (), cl')"
    "conn_at 128 128 (3 # hs_zeros @ hs_zeros) (length X) (payload (server_says os publish)) Y cl'"
    using client_handshake [OF client] by auto
  obtain sv1 where sv1: "HandshakeServer rnd1 rnd2 sv = (Ok (), sv1)"
    "conn_at 128 128 (3 # hs_zeros @ hs_zeros) (length Y) (payload (client_says oc publish cc1)) X sv1"
    using server_handshake [OF server] by auto
  let ?cc = "cc1\<lparr>cconn := cl'\<rparr>"
  have says: "client_says oc publish ?cc = client_says oc publish cc1"
    by (simp add: client_says_def connect_args_def stream_args_def)
  have cc1: "transID cc1 = 1" "streamid cc1 = 0"
    using url by (auto simp: parseURL_def NewConnClient_def Let_def split: res.splits option.splits)
  have small: "payload (client_says oc publish cc1) \<le> 0xffffff" "payload (server_says os publish) \<le> 0xffffff"
    using cl'(2) sv1(2) by (simp_all add: conn_at_def calm_def)
  have "client_at ?cc 1 0 (3 # hs_zeros @ hs_zeros) (length X) (payload (server_says os publish)) 128 Y ?cc"
    using cl'(2) cc1 by (simp add: client_at_def)
  with client_runs [OF oc os, of ?cc publish] len small(1) says X Y obtain cmd cc' where
    c: "run_loop (Start_turn oc (chars meth)) (chars ''connect'', ?cc) = Some (Ok (), (cmd, cc'))"
    "wire (rw (cconn cc')) = 3 # hs_zeros @ hs_zeros @ X" "streamid cc' = 1"
    unfolding meth by fastforce
  have at: "conn_at 128 128 (3 # hs_zeros @ hs_zeros) (length (stream_bytes 128 (server_says os publish))) (payload (client_says oc publish cc1))
      (stream_bytes 128 (client_says oc publish cc1)) (fconn (NewForwardConnect sv1))"
    using sv1(2) X Y by (simp add: NewForwardConnect_def)
  obtain fc where fc: "SetUpPlayOrPublish os (NewForwardConnect sv1) = Some (Ok (), fc)" "IsPublisher fc = publish"
    "GetStreamInfo fc = (app cc1, title cc1, tcurl cc1 @ chars ''/'' @ title cc1)"
    "wire (rw (fconn fc)) = 3 # hs_zeros @ hs_zeros @ Y"
    using server_runs [OF oc os len small(2) _ _ at] Y by (auto simp: NewForwardConnect_def)
  let ?h' = "handler.visit newId gopNum (connAdd now fc) (connInfo fc) h"
  have k: "streamKey (connInfo fc) = key" using fc(3) by (simp add: key streamKey_def connInfo_def)
  have "handleConn rnd1 rnd2 os newId gopNum now sv h = (Ok (), False, fconn fc, ?h')"
    using sv1(1) fc(1) by (simp add: handleConn_def HandleConnect_visit)
  moreover have "?h' key = Some (connAdd now fc (fst (getOrCreate newId gopNum (connInfo fc) h)))"
    unfolding k [symmetric] by (rule handler.visit_find)
  moreover have "\<forall>k. k \<noteq> key \<longrightarrow> ?h' k = h k" unfolding k [symmetric] by (simp add: handler.visit_other)
  moreover have "fconn fc \<in> (if publish then (fconn \<circ> rd_conn) ` set (readerChan (connAdd now fc s)) else (fconn \<circ> sw_conn) ` set (writerChan (connAdd now fc s)))" for s
    using fc(2) by (auto simp: connAdd_def AddReader_def AddWriter_def NewStreamReader_def NewStreamWriter_def)
  moreover have "Start net oc u (chars meth) (NewConnClient conn0) = Some (Ok (), cc')"
    by (rule Start_after_connect [OF url dial cl'(1) c(1)])
  ultimately show ?thesis using c(2,3) fc(4) unfolding GetStreamID_def by blast
qed

text \<open>A host with one address and the server's side of the dialogue behind it.\<close>

definition dialogue_network :: "bytes \<Rightarrow> network" where
  "dialogue_network inp = \<lparr>urlParse = (\<lambda>u. Ok \<lparr>Path = chars ''/live/a'', RawQuery = [], Host = chars ''h''\<rparr>),
     lookupIP = (\<lambda>h. Ok [chars ''10.0.0.1'']), randIntn = (\<lambda>n. 0),
     dial = (\<lambda>l r. Ok (NewRtmpConn (NewReadWriter inp EOF 100000 EOF 4096)))\<rparr>"

theorem client_joins_stream_witness:
  "\<exists>X Y cc' sv' h'. Start (dialogue_network (3 # hs_zeros @ hs_zeros @ Y)) (\<lambda>m. m) (chars ''rtmp://h/live/a'') (chars ''publish'')
      (NewConnClient (fresh_conn [])) = Some (Ok (), cc') \<and> GetStreamID cc' = 1 \<and>
    wire (rw (cconn cc')) = 3 # hs_zeros @ hs_zeros @ X \<and>
    handleConn [] [] (\<lambda>m. m) [] 0 0 (NewRtmpConn (NewReadWriter (3 # hs_zeros @ hs_zeros @ X) EOF 100000 EOF 4096)) Map.empty = (Ok (), False, sv', h') \<and>
    wire (rw sv') = 3 # hs_zeros @ hs_zeros @ Y"
proof -
  define cc1 where "cc1 = (NewConnClient (fresh_conn []))\<lparr>url := chars ''rtmp://h/live/a'', app := chars ''live'', title := chars ''a'', query := [],
    tcurl := chars ''rtmp://h/live''\<rparr>"
  define Y where "Y = stream_bytes 128 (server_says (\<lambda>m. m) True)"
  define X where "X = stream_bytes 128 (client_says (\<lambda>m. m) True cc1)"
  let ?net = "dialogue_network (3 # hs_zeros @ hs_zeros @ Y)"
  let ?conn = "\<lambda>inp. NewRtmpConn (NewReadWriter (3 # hs_zeros @ hs_zeros @ inp) EOF 100000 EOF 4096)"
  have says: "client_says (\<lambda>m. m) True cc1 = client_says (\<lambda>m. m) True (sample_client [])"
    by (simp add: client_says_def connect_args_def stream_args_def cc1_def sample_client_def)
  have at: "conn_at 128 128 [] r b (3 # hs_zeros @ hs_zeros @ inp) (?conn inp)" if "r \<le> 100000" "b \<le> 1000" for r b inp
    using that by (simp add: conn_at_def calm_def ready_def conn_inv_def NewRtmpConn_def NewReadWriter_def wok_def room_def sent_def)
  have n: "length (client_says (\<lambda>m. m) True cc1) = 3" "length (server_says (\<lambda>m. m) True) = 6"
    by (simp_all add: client_says_def server_says_def connect_controls_def stream_controls_def play_states_def)
  have len: "length X \<le> 90000" "length Y \<le> 90000"
    using length_stream_bytes [of 128 "client_says (\<lambda>m. m) True cc1"] payload_samples(1) [of "[]", folded says]
      length_stream_bytes [of 128 "server_says (\<lambda>m. m) True"] payload_samples(2) n
    unfolding X_def [symmetric] Y_def [symmetric] by linarith+
  have sp: "splitSlash (dropWhile (\<lambda>b. b = 0x2f) (chars ''/live/a'')) = Some (chars ''live'', chars ''a'')"
    "hostPort (chars ''h'') = Ok (chars ''h'', chars '':1935'')" "0x3a \<notin> set (chars ''10.0.0.1'')"
    "chars ''rtmp://'' @ chars ''h'' @ [0x2f] @ chars ''live'' = chars ''rtmp://h/live''"
    by code_simp+
  have url: "parseURL ?net (chars ''rtmp://h/live/a'') (NewConnClient (fresh_conn [])) = (Ok (chars '':0'', chars ''10.0.0.1'' @ chars '':1935''), cc1)"
    using sp by (simp add: parseURL_def dialogue_network_def Let_def cc1_def index_def)
  have dial: "dial ?net (chars '':0'') (chars ''10.0.0.1'' @ chars '':1935'') = Ok (?conn Y)" by (simp add: dialogue_network_def)
  have l: "length (app cc1) < 2 ^ 32" "length (tcurl cc1) < 2 ^ 32" "length (title cc1) < 2 ^ 32" by (simp_all add: cc1_def chars_def)
  have "conn_at 128 128 [] (3073 + length X) (payload (server_says (\<lambda>m. m) True)) (3 # hs_zeros @ hs_zeros @ Y) (?conn Y)"
    "conn_at 128 128 [] (3073 + length Y) (payload (client_says (\<lambda>m. m) True cc1)) (3 # hs_zeros @ hs_zeros @ X) (?conn X)"
    by (rule at; use len payload_samples(1) [of "[]"] payload_samples(2) in \<open>simp add: says\<close>)+
  from client_joins_stream [where ?rnd1.0 = "[]" and ?rnd2.0 = "[]" and newId = "[]" and gopNum = 0 and now = 0 and h = Map.empty and url' = "[]",
      OF _ _ url dial l X_def Y_def this refl refl]
  show ?thesis by (simp only: if_True) blast
qed

end
