(* ===== verification/Broadcast.thy ===== *)
theory Broadcast
  imports RtmpClient Server
begin

text \<open>
  From a publisher through the server to a player: \<open>RtmpClient.SendPacket\<close>, the goroutines of the stream (reading the publisher,
  the select loop, the sender of each player) and the loop of the playing client, each on the bytes or packets that the one before
  produced.
\<close>

section \<open>The bytes of a packet\<close>

text \<open>
  A packet of the server does not own its data: it is a slice of the buffer in which its chunk stream was assembled, and the next message on this
  chunk stream may overwrite it. \<open>array_now s p\<close> is what the slice shows now, for a packet of the present publisher of the stream: as long as
  the chunk stream still has the buffer, its present content, and what it was when the packet was read otherwise. The sender of a
  player sees the packets of its queue like this (\<open>seen\<close>).
\<close>

definition array_now :: "RtmpStream \<Rightarrow> Packet \<Rightarrow> bytes" where
  "array_now s p =
     (case reader s of
        None \<Rightarrow> PData p
      | Some r \<Rightarrow>
          (case PArr p of
             None \<Rightarrow> PData p
           | Some (csid, ref) \<Rightarrow>
               (case chunks (fconn (rd_conn r)) csid of
                  None \<Rightarrow> PData p
                | Some cs \<Rightarrow> if DataRef cs = ref then take (length (PData p)) (Data cs) else PData p)))"

definition seen :: "RtmpStream \<Rightarrow> StreamWriter \<Rightarrow> StreamWriter" where
  "seen s w = w\<lparr>packetQueue := (packetQueue w)\<lparr>cbuf := map (\<lambda>p. p\<lparr>PData := array_now s p\<rparr>) (cbuf (packetQueue w))\<rparr>\<rparr>"

lemma seen_fresh:
  assumes "\<forall>p\<in>set (cbuf (packetQueue w)). array_now s p = PData p"
  shows "seen s w = w"
proof -
  have "map (\<lambda>p. p\<lparr>PData := array_now s p\<rparr>) (cbuf (packetQueue w)) = cbuf (packetQueue w)"
    using assms by (intro map_idI) (metis Packet.surjective Packet.update_convs(6) Packet.select_convs(6))
  then show ?thesis by (simp add: seen_def)
qed

text \<open>
  It does happen: after the second of two messages on one chunk stream is read, the packet of the first one shows the beginning
  of the second.
\<close>

theorem packet_overwritten:
  "case Reads 2 (fresh_conn (stream_bytes 128 [sample_msg 9 6 0 [1, 2, 3], sample_msg 9 6 40 [7, 7]])) of
     (Ok [m1, m2], conn) \<Rightarrow>
       (let p = fillPacket m1 zeroPacket;
            s = (NewStream [] 0 \<lparr>si_App = [], si_Name = [], si_URL = []\<rparr>)\<lparr>reader := Some (NewStreamReader 0 (NewForwardConnect conn) [])\<rparr>
        in PData p = [1, 2, 3] \<and> array_now s p = [7, 7, 3])
   | _ \<Rightarrow> False"
  by code_simp

section \<open>Reading the publisher\<close>

text \<open>A message of a publisher as it is carried here: any video or sound that is not empty.\<close>

definition streamable :: "u32 \<Rightarrow> bytes \<Rightarrow> bool" where
  "streamable pt d \<longleftrightarrow> (pt = PacketTypeAudio \<or> pt = PacketTypeVideo) \<and> d \<noteq> [] \<and> length d \<le> 0xffffff"

definition key_tag :: "bytes \<Rightarrow> bool" where
  "key_tag d \<longleftrightarrow> (\<exists>k src. d = [0x17, k, 0, 0, 0] @ src)"

definition pkt_of :: "u32 \<Rightarrow> u32 \<Rightarrow> u32 \<Rightarrow> bytes \<Rightarrow> Packet \<Rightarrow> bool" where
  "pkt_of pt sid ts d p \<longleftrightarrow> (pt = PacketTypeVideo \<or> pt = PacketTypeAudio) \<and> PacketType p = pt \<and> PStreamID p = sid \<and> TimeStamp p = ts \<and>
     PData p = d \<and> (pt = PacketTypeVideo \<and> key_tag d \<longrightarrow> FrameType (VHeader p) = FRAME_KEY)"

lemma DemuxH_avc:
  assumes "PacketType p = 1" and "PData p = [0x17, k, 0, 0, 0] @ src"
  shows "FrameType (VHeader (snd (DemuxH p))) = 1"
  unfolding DemuxH_def demux_gen_def assms ParseVideoHeader_avc
  by (simp add: videoHeaderOf_def zeroMediaTag_def Let_def assms)

lemma pkt_of_message:
  assumes "same_media c (media_msg (tag_of pt) sid ts d)" and "streamable pt d"
  shows "pkt_of pt sid ts d (snd (DemuxH (fillPacket c p)))" and "is_av (TypeID c)"
proof -
  have f: "TypeID c = tag_of pt" "Data c = d" "StreamID c = sid" "Timestamp c = ts"
    using assms(1) by (simp_all add: same_media_def media_msg_def)
  have pt: "pt = 1 \<or> pt = 2" using assms(2) by (auto simp: streamable_def)
  have fill: "PacketType (fillPacket c p) = pt" "PData (fillPacket c p) = d" "PStreamID (fillPacket c p) = sid" "TimeStamp (fillPacket c p) = ts"
    using f pt by (auto simp: fillPacket_def tag_of_def Let_def)
  have "FrameType (VHeader (snd (DemuxH (fillPacket c p)))) = 1" if "pt = 1" "key_tag d"
  proof -
    from that(2) obtain k src where "d = [0x17, k, 0, 0, 0] @ src" by (auto simp: key_tag_def)
    with fill that show ?thesis by (intro DemuxH_avc) simp_all
  qed
  then show "pkt_of pt sid ts d (snd (DemuxH (fillPacket c p)))"
    using fill pt by (auto simp: pkt_of_def DemuxH_frame)
  show "is_av (TypeID c)" using f by (simp add: is_av_def tag_of_def)
qed

text \<open>The message that \<open>Read\<close> returns is a view of the buffer of its chunk stream.\<close>

lemma Read_view:
  assumes m: "sendable m" "\<not> is_control m" and conn: "ready n conn" "rin (rw conn) = message_bytes (unat n) m @ rest"
  obtains c conn' cs where "Read conn = (Ok c, conn')" and "same_media c m" and "ready (window_after m n) conn'" and "rin (rw conn') = rest"
    and "chunks conn' (CSID c) = Some cs" and "DataRef cs = DataRef c" and "take (length (Data c)) (Data cs) = Data c"
proof -
  obtain cs where rd: "Read conn = Read_after cs (place (CSID m) cs rest conn)" and h: "holds m cs"
    by (rule Read_message [OF m(1) conn])
  obtain r conn' where rc: "Read_complete cs (place (CSID m) cs rest conn) = (Ok r, conn')" "ready (window_after m n) conn'"
    "rin (rw conn') = rest" "if is_control m then r = None else \<exists>c. r = Some c \<and> erase_ref c = as_read m"
    by (rule Read_complete_message [OF m(1) h conn(1)])
  from rc(4) m(2) obtain c where c: "r = Some c" "erase_ref c = as_read m" by auto
  have "same_media (erase_ref c) m" unfolding c(2) by (simp add: same_media_def as_read_def)
  then have sm: "same_media c m" by (simp add: same_media_def erase_ref_def)
  have rd': "Read conn = (Ok c, conn')" using rd rc(1) c(1) by (simp add: Read_after_def)
  have v: "CSID c = CSID cs \<and> DataRef c = DataRef cs \<and> slice 0 (unat (Length cs)) (Data cs) = Ok (Data c)"
    using rc(1) c(1) by (auto simp: Read_complete_def pbind_def preturn_def split: res.splits prod.splits if_splits)
  have ch: "chunks conn' (CSID c) = Some cs" using Read_complete_frame(2) [OF rc(1)] v h by (simp add: holds_def)
  have "unat (Length cs) \<le> length (Data cs)" "Data c = take (unat (Length cs)) (Data cs)" using v by (auto simp: slice_def split: if_splits)
  then have "take (length (Data c)) (Data cs) = Data c" by simp
  with that [OF rd' sm rc(2,3) ch] v show thesis by simp
qed

text \<open>The reader of the stream waits for the input \<open>inp\<close> of its publisher, whose chunk size is \<open>n\<close>.\<close>

definition publishing :: "u32 \<Rightarrow> bytes \<Rightarrow> RtmpStream \<Rightarrow> bool" where
  "publishing n inp s \<longleftrightarrow> (\<exists>r. reader s = Some r \<and> ready n (fconn (rd_conn r)) \<and> rin (rw (fconn (rd_conn r))) = inp)"

lemma DemuxH_PArr: "PArr (snd (DemuxH p)) = PArr p"
  by (auto simp: DemuxH_def demux_gen_def Let_def split: prod.splits res.splits)

lemma startRead_media:
  assumes d: "streamable pt d" "ts < 0xffffff"
    and s: "publishing n (message_bytes (unat n) (on_wire (media_msg (tag_of pt) sid ts d)) @ rest) s"
    and ch: "\<not> cclosed (pktChan s)" "length (cbuf (pktChan s)) < ccap (pktChan s)"
  obtains s' p where "startRead_turn now ms s = (Ok True, s')" and "pkt_of pt sid ts d p" and "publishing n rest s'"
    and "pktChan s' = (pktChan s)\<lparr>cbuf := cbuf (pktChan s) @ [p]\<rparr>" and "writers s' = writers s" and "array_now s' p = d"
proof -
  obtain r where r: "reader s = Some r" "ready n (fconn (rd_conn r))"
    "rin (rw (fconn (rd_conn r))) = message_bytes (unat n) (on_wire (media_msg (tag_of pt) sid ts d)) @ rest"
    using s by (auto simp: publishing_def)
  have d0: "d \<noteq> []" "length d \<le> 0xffffff" using d(1) by (simp_all add: streamable_def)
  have t: "tag_of pt = TAG_VIDEO \<or> tag_of pt = TAG_AUDIO" by (simp add: tag_of_def)
  note v = sendable_media [OF t d0 d(2), where sid = sid]
  obtain c conn cs where rd: "Read (fconn (rd_conn r)) = (Ok c, conn)" "same_media c (on_wire (media_msg (tag_of pt) sid ts d))"
    "ready (window_after (on_wire (media_msg (tag_of pt) sid ts d)) n) conn" "rin (rw conn) = rest"
    and a: "chunks conn (CSID c) = Some cs" "DataRef cs = DataRef c" "take (length (Data c)) (Data cs) = Data c"
    by (rule Read_view [OF v(1,2) r(2,3)])
  have c: "same_media c (media_msg (tag_of pt) sid ts d)" and conn: "ready n conn" using rd(2,3) v(3,4) by simp_all
  obtain r' where r': "rd_Read now ms zeroPacket r = Some (Ok (), snd (DemuxH (fillPacket c zeroPacket)), r')" "fconn (rd_conn r') = conn"
    using rd_Read_av [OF rd(1) pkt_of_message(2) [OF c d(1)]] by blast
  let ?p = "snd (DemuxH (fillPacket c zeroPacket))"
  let ?s = "s\<lparr>reader := Some r', st_cache := cache_Write ?p (st_cache s), pktChan := (pktChan s)\<lparr>cbuf := cbuf (pktChan s) @ [?p]\<rparr>\<rparr>"
  have "PArr ?p = Some (CSID c, DataRef c)" "PData ?p = Data c" by (simp_all add: DemuxH_PArr DemuxH_frame fillPacket_def Let_def)
  moreover have "Data c = d" using c by (simp add: same_media_def media_msg_def)
  ultimately have now: "array_now ?s ?p = d" using a r'(2) by (simp add: array_now_def)
  show thesis
  proof (rule that [of ?s ?p])
    show "startRead_turn now ms s = (Ok True, ?s)"
      using r(1) r'(1) ch by (simp add: startRead_turn_def try_send_def Let_def)
    show "pkt_of pt sid ts d ?p" by (rule pkt_of_message(1) [OF c d(1)])
    show "publishing n rest ?s" using conn rd(4) r'(2) by (simp add: publishing_def)
    show "array_now ?s ?p = d" by (rule now)
  qed simp_all
qed

section \<open>The select loop\<close>

definition enqueue :: "Packet \<Rightarrow> StreamWriter \<Rightarrow> StreamWriter" where
  "enqueue p w = w\<lparr>keyframeNeed := (keyframeNeed w \<and> PacketType p \<noteq> PacketTypeVideo), packetQueue := (packetQueue w)\<lparr>cbuf := cbuf (packetQueue w) @ [p]\<rparr>\<rparr>"

text \<open>The queue of the player is open and has at least \<open>m\<close> free places.\<close>

definition spare :: "nat \<Rightarrow> StreamWriter \<Rightarrow> bool" where
  "spare m w \<longleftrightarrow> \<not> sw_closed w \<and> \<not> cclosed (packetQueue w) \<and> length (cbuf (packetQueue w)) + m \<le> ccap (packetQueue w)"

lemma sw_Write_media:
  assumes "spare (Suc m) w"
  shows "sw_Write p w = (Ok (), if refuses p w then w else enqueue p w)"
  using assms by (cases w) (auto simp: sw_Write_def spare_def try_send_def enqueue_def refuses_def Let_def)

lemma sw_Write_spare: "spare (Suc m) w \<Longrightarrow> spare m (snd (sw_Write p w))"
  by (simp add: sw_Write_media) (auto simp: spare_def enqueue_def)

lemma writeAll_media: "\<forall>w\<in>set ws. spare (Suc m) w \<Longrightarrow> writeAll p ws = Ok (map (\<lambda>w. Some (snd (sw_Write p w))) ws)"
  by (induction ws) (auto simp: sw_Write_media)

lemma cutNil_Some: "cutNil (map (\<lambda>w. Some (f w)) ws) = map f ws"
  by (induction ws) simp_all

lemma onPacket_media:
  assumes "\<forall>w\<in>set (writers s). spare (Suc m) w" and "cbuf (pktChan s) = p # ps"
  obtains s' where "onPacket s = (Ok Continue, s')" and "writers s' = map (\<lambda>w. snd (sw_Write p w)) (writers s)"
    and "pktChan s' = (pktChan s)\<lparr>cbuf := ps\<rparr>" and "reader s' = reader s"
  using assms(2) by (auto simp: onPacket_def Let_def writeAll_media [OF assms(1)] cutNil_Some)

section \<open>Sending to a player\<close>

lemma message_bytes_cong:
  assumes "Data a = Data b" "CSID a = CSID b" "Timestamp a = Timestamp b" "Length a = Length b" "TypeID a = TypeID b" "StreamID a = StreamID b"
  shows "message_bytes c a = message_bytes c b"
  using assms by (simp add: message_bytes_def header_bytes_def)

lemma packetMsg_media:
  assumes "pkt_of pt sid ts d p"
  shows "message_bytes c (on_wire (packetMsg p base cs)) = message_bytes c (on_wire (media_msg (tag_of pt) sid (ts + base) d))"
    and "Data (packetMsg p base cs) = d" "Length (packetMsg p base cs) = of_nat (length d)" "TypeID (packetMsg p base cs) = tag_of pt"
  using assms by (auto intro!: message_bytes_cong simp: packetMsg_def pkt_of_def media_msg_def tag_of_def on_wire_def chunkCSID_def Let_def)

text \<open>\<open>out\<close> has been written to the player, \<open>m\<close> more bytes fit, chunks have \<open>k\<close> bytes and time stamps are moved by \<open>base\<close>.\<close>

definition serving :: "u32 \<Rightarrow> bytes \<Rightarrow> nat \<Rightarrow> u32 \<Rightarrow> StreamWriter \<Rightarrow> bool" where
  "serving k out m base w \<longleftrightarrow> chunkSize (fconn (sw_conn w)) = k \<and> k \<noteq> 0 \<and> wok (rw (fconn (sw_conn w))) \<and>
     sent (rw (fconn (sw_conn w))) = out \<and> m \<le> room (rw (fconn (sw_conn w))) \<and> BaseTimeStamp (sw_base w) = base"

text \<open>A turn that succeeds leaves the flag and the capacity of the queue alone.\<close>

lemma SendPacket_ok_frame:
  assumes "SendPacket_turn now ms cs w = Some (Ok cs', w')"
  shows "sw_closed w' = sw_closed w" and "ccap (packetQueue w') = ccap (packetQueue w)"
proof -
  obtain p ps where p: "cbuf (packetQueue w) = p # ps" "SendPacket_one now ms p cs (w\<lparr>packetQueue := (packetQueue w)\<lparr>cbuf := ps\<rparr>\<rparr>) = (Ok cs', w')"
    using assms by (auto simp: SendPacket_turn_def split: list.splits if_splits)
  then show "ccap (packetQueue w') = ccap (packetQueue w)" using SendPacket_one_spec(1) [OF p(2)] by simp
  from p(2) show "sw_closed w' = sw_closed w"
    by (auto simp: SendPacket_one_def sw_SaveStatics_def pbind_def onWriterConn_def Let_def split: prod.splits res.splits)
qed

lemma SendPacket_media:
  assumes p: "pkt_of pt sid ts d p" "length d \<le> 0xffffff" and w: "serving k out (length bs + m) base w" and q: "cbuf (packetQueue w) = p # ps"
    and bs: "bs = message_bytes (unat k) (on_wire (media_msg (tag_of pt) sid (ts + base) d))"
  obtains cs' w' where "SendPacket_turn now ms cs w = Some (Ok cs', w')" and "serving k (out @ bs) m base w'"
    and "cbuf (packetQueue w') = ps" and "wire (rw (fconn (sw_conn w'))) = out @ bs"
proof -
  let ?cs = "packetMsg p base cs" and ?conn = "fconn (sw_conn w)"
  note s = w [unfolded serving_def] and m = packetMsg_media [OF p(1)]
  have t: "tag_of pt \<noteq> 1" "TypeID ?cs \<noteq> 15" "TypeID ?cs \<noteq> 18" by (simp_all add: tag_of_def m(4))
  have "length (message_bytes (unat (chunkSize ?conn)) (on_wire ?cs)) \<le> room (rw ?conn)" using s m(1) bs by simp
  from Write_fits [OF _ _ _ _ _ this] s m t(1) p obtain c' w1 where
    wr: "Write ?cs ?conn = (Ok (), c', ?conn\<lparr>rw := w1\<rparr>)" "sends bs (rw ?conn) w1" unfolding bs by auto
  then obtain w2 where fl: "rw_Flush w1 = (Ok (), w2)" "sends [] w1 w2" "wire w2 = sent w2"
    using rw_Flush_ok [of w1] by (auto simp: sends_def)
  have tot: "sends bs (rw ?conn) w2" using sends_trans [OF wr(2) fl(2)] by simp
  obtain st where st: "saveStatics ms (PStreamID p) (ucast (Length ?cs)) (PacketType p = PacketTypeVideo) (WriteBWInfo w) = Ok st"
    using saveStatics_ok by blast
  define w' where "w' = w\<lparr>packetQueue := (packetQueue w)\<lparr>cbuf := ps\<rparr>, WriteBWInfo := st,
    sw_base := RecTimeStamp (Timestamp ?cs) (TypeID ?cs) (SetPreTime now (sw_base w)),
    sw_conn := (sw_conn w)\<lparr>fconn := ?conn\<lparr>rw := w2\<rparr>\<rparr>\<rparr>"
  have "SendPacket_turn now ms cs w = Some (Ok ?cs, w')"
    using q s st wr(1) fl(1) t(2,3)
    by (simp add: SendPacket_turn_def SendPacket_one_def sw_SaveStatics_def pbind_def onWriterConn_def fc_Write_def fc_Flush_def conn_Flush_def Let_def w'_def)
  moreover have "serving k (out @ bs) m base w'"
    using s tot by (auto simp: serving_def sends_def w'_def RecTimeStamp_def SetPreTime_def BaseTimeStamp_def)
  moreover have "wire (rw (fconn (sw_conn w'))) = out @ bs" using fl(3) tot s by (simp add: w'_def sends_def)
  ultimately show thesis using that by (simp add: w'_def)
qed

section \<open>One message through the server\<close>

text \<open>
  A stream that waits for one message of its publisher, with nothing in its channel, players that have \<open>m\<close> free places each, and
  a player \<open>i\<close> that has sent all it had and has room for \<open>free\<close> bytes.
\<close>

definition idle :: "u32 \<Rightarrow> bytes \<Rightarrow> nat \<Rightarrow> nat \<Rightarrow> u32 \<Rightarrow> bytes \<Rightarrow> nat \<Rightarrow> u32 \<Rightarrow> RtmpStream \<Rightarrow> bool" where
  "idle n inp m i k out free base s \<longleftrightarrow> publishing n inp s \<and> pktChan s = make_chan 16 \<and> (\<forall>w\<in>set (writers s). spare m w) \<and>
     i < length (writers s) \<and> cbuf (packetQueue (writers s ! i)) = [] \<and> serving k out free base (writers s ! i)"

lemma forward_one:
  assumes d: "streamable pt d" "ts < 0xffffff" and bs: "bs = message_bytes (unat k) (on_wire (media_msg (tag_of pt) sid (ts + base) d))"
    and s: "idle n (message_bytes (unat n) (on_wire (media_msg (tag_of pt) sid ts d)) @ rest) (Suc m) i k out (length bs + free) base s"
    and key: "pt = PacketTypeVideo \<Longrightarrow> keyframeNeed (writers s ! i) \<Longrightarrow> key_tag d"
  obtains s1 s2 cs' w' where "startRead_turn now ms s = (Ok True, s1)" and "onPacket s1 = (Ok Continue, s2)"
    and "SendPacket_turn now ms cs (seen s2 (writers s2 ! i)) = Some (Ok cs', w')" and "wire (rw (fconn (sw_conn w'))) = out @ bs"
    and "idle n rest m i k (out @ bs) free base (s2\<lparr>writers := (writers s2)[i := w']\<rparr>)"
    and "length (writers s2) = length (writers s)" and "pt = PacketTypeAudio \<Longrightarrow> keyframeNeed w' = keyframeNeed (writers s ! i)"
    and "pt = PacketTypeVideo \<Longrightarrow> \<not> keyframeNeed w'"
proof -
  note st = s [unfolded idle_def]
  obtain s1 p where 1: "startRead_turn now ms s = (Ok True, s1)" "pkt_of pt sid ts d p" "publishing n rest s1"
    "pktChan s1 = (pktChan s)\<lparr>cbuf := cbuf (pktChan s) @ [p]\<rparr>" "writers s1 = writers s" "array_now s1 p = d"
    by (rule startRead_media [OF d conjunct1 [OF st], of now ms]) (use st in \<open>simp_all add: make_chan_def\<close>)
  have ch: "cbuf (pktChan s1) = [p]" and sp: "\<forall>w\<in>set (writers s1). spare (Suc m) w" using 1(4,5) st by (simp_all add: make_chan_def)
  obtain s2 where 2: "onPacket s1 = (Ok Continue, s2)" "writers s2 = map (\<lambda>w. snd (sw_Write p w)) (writers s1)"
    "pktChan s2 = (pktChan s1)\<lparr>cbuf := []\<rparr>" "reader s2 = reader s1"
    by (rule onPacket_media [OF sp ch])
  let ?w = "writers s ! i"
  have spi: "spare (Suc m) ?w" using st by simp
  have np: "\<not> refuses p ?w" using key 1(2) by (auto simp: refuses_def pkt_of_def)
  have w2: "writers s2 ! i = enqueue p ?w" using 2(2) 1(5) st sw_Write_media [OF spi, of p] np by simp
  have q2: "cbuf (packetQueue (enqueue p ?w)) = [p]" using st by (simp add: enqueue_def)
  have "array_now s2 p = PData p" using 1(2,6) 2(4) by (simp add: array_now_def pkt_of_def)
  then have fresh: "seen s2 (enqueue p ?w) = enqueue p ?w" using q2 by (intro seen_fresh) simp
  have srv: "serving k out (length bs + free) base (enqueue p ?w)" using st by (simp add: serving_def enqueue_def)
  have len: "length d \<le> 0xffffff" using d(1) by (simp add: streamable_def)
  obtain cs' w' where 3: "SendPacket_turn now ms cs (enqueue p ?w) = Some (Ok cs', w')" "serving k (out @ bs) free base w'"
    "cbuf (packetQueue w') = []" "wire (rw (fconn (sw_conn w'))) = out @ bs"
    by (rule SendPacket_media [OF 1(2) len srv q2 bs, of now ms cs])
  have keep: "sw_closed w' = sw_closed (enqueue p ?w)" "cclosed (packetQueue w') = cclosed (packetQueue ?w)" "ccap (packetQueue w') = ccap (packetQueue ?w)"
    "keyframeNeed w' = keyframeNeed (enqueue p ?w)"
    using 3(1) SendPacket_turn_closed(2) [OF 3(1)] SendPacket_turn_spec(2) [OF 3(1)] SendPacket_ok_frame [OF 3(1)] by (simp_all add: enqueue_def)
  have "spare m w'" using keep 3(3) spi by (simp add: spare_def enqueue_def)
  moreover have "spare m w" if "w \<in> set (writers s2)" for w using that 2(2) sp sw_Write_spare by auto
  ultimately have "\<forall>w\<in>set ((writers s2)[i := w']). spare m w" by (auto dest!: set_update_cases)
  moreover have "publishing n rest s2" using 1(3) 2(4) by (simp add: publishing_def)
  moreover have "length (writers s2) = length (writers s)" "pktChan s2 = make_chan 16" using 1(4,5) 2(2,3) st by (simp_all add: make_chan_def)
  ultimately have idle: "idle n rest m i k (out @ bs) free base (s2\<lparr>writers := (writers s2)[i := w']\<rparr>)"
    using 3(2,3) st by (simp add: idle_def publishing_def)
  have pt: "PacketType p = pt" using 1(2) by (simp add: pkt_of_def)
  show thesis
    by (rule that [OF 1(1) 2(1) _ 3(4) idle \<open>length (writers s2) = length (writers s)\<close>])
      (use 3(1) w2 fresh keep(4) pt in \<open>simp_all add: enqueue_def\<close>)
qed


section \<open>Two messages through the server\<close>

text \<open>A publisher sends a header and then a frame, both as messages of one kind.\<close>

definition two_messages :: "u32 \<Rightarrow> u32 \<Rightarrow> u32 \<Rightarrow> bytes \<Rightarrow> bytes \<Rightarrow> ChunkStream list" where
  "two_messages pt sid ts a b = [media_msg (tag_of pt) sid ts a, media_msg (tag_of pt) sid ts b]"

lemma two_messages_bytes:
  "stream_bytes n (two_messages pt sid ts a b) =
     message_bytes (unat n) (on_wire (media_msg (tag_of pt) sid ts a)) @ message_bytes (unat n) (on_wire (media_msg (tag_of pt) sid ts b)) @ []"
  by (simp add: two_messages_def media_msg_def window_after_def tag_of_def)

lemma forward_two:
  assumes a: "streamable pt a" "pt = PacketTypeVideo \<Longrightarrow> key_tag a" and b: "streamable pt b" and ts: "ts < 0xffffff"
    and Y: "Y = stream_bytes k (two_messages pt sid (ts + base) a b)"
    and s: "idle n (stream_bytes n (two_messages pt sid ts a b)) 2 i k out (length Y) base s"
  obtains s1 s2 cs1 w1 s3 s4 cs2 w2 where "startRead_turn now ms s = (Ok True, s1)" and "onPacket s1 = (Ok Continue, s2)"
    and "SendPacket_turn now ms cs (seen s2 (writers s2 ! i)) = Some (Ok cs1, w1)"
    and "startRead_turn now ms (s2\<lparr>writers := (writers s2)[i := w1]\<rparr>) = (Ok True, s3)" and "onPacket s3 = (Ok Continue, s4)"
    and "SendPacket_turn now ms cs1 (seen s4 (writers s4 ! i)) = Some (Ok cs2, w2)" and "wire (rw (fconn (sw_conn w2))) = out @ Y"
    and "length (writers s4) = length (writers s)" and "pt = PacketTypeAudio \<longrightarrow> keyframeNeed w2 = keyframeNeed (writers s ! i)"
proof -
  let ?b1 = "message_bytes (unat k) (on_wire (media_msg (tag_of pt) sid (ts + base) a))"
  let ?b2 = "message_bytes (unat k) (on_wire (media_msg (tag_of pt) sid (ts + base) b))"
  have Y': "Y = ?b1 @ ?b2" unfolding Y two_messages_bytes by simp
  let ?r = "message_bytes (unat n) (on_wire (media_msg (tag_of pt) sid ts b)) @ []"
  have i0: "idle n (message_bytes (unat n) (on_wire (media_msg (tag_of pt) sid ts a)) @ ?r) (Suc 1) i k out (length ?b1 + length ?b2) base s"
    using s unfolding two_messages_bytes Y' by (simp add: numeral_2_eq_2)
  obtain s1 s2 cs1 w1 where 1: "startRead_turn now ms s = (Ok True, s1)" "onPacket s1 = (Ok Continue, s2)"
    "SendPacket_turn now ms cs (seen s2 (writers s2 ! i)) = Some (Ok cs1, w1)"
    "idle n ?r 1 i k (out @ ?b1) (length ?b2) base (s2\<lparr>writers := (writers s2)[i := w1]\<rparr>)" "length (writers s2) = length (writers s)"
    "pt = PacketTypeAudio \<Longrightarrow> keyframeNeed w1 = keyframeNeed (writers s ! i)" "pt = PacketTypeVideo \<Longrightarrow> \<not> keyframeNeed w1"
    by (rule forward_one [OF a(1) ts refl i0, of now ms cs]) (use a(2) in blast)+
  let ?s = "s2\<lparr>writers := (writers s2)[i := w1]\<rparr>"
  have i: "i < length (writers s2)" using 1(4) by (simp add: idle_def)
  have i1: "idle n ?r (Suc 0) i k (out @ ?b1) (length ?b2 + 0) base ?s" using 1(4) by simp
  have key: "pt = PacketTypeVideo \<Longrightarrow> keyframeNeed (writers ?s ! i) \<Longrightarrow> key_tag b" using 1(7) i by simp
  obtain s3 s4 cs2 w2 where 2: "startRead_turn now ms ?s = (Ok True, s3)" "onPacket s3 = (Ok Continue, s4)"
    "SendPacket_turn now ms cs1 (seen s4 (writers s4 ! i)) = Some (Ok cs2, w2)" "wire (rw (fconn (sw_conn w2))) = (out @ ?b1) @ ?b2"
    "length (writers s4) = length (writers ?s)" "pt = PacketTypeAudio \<Longrightarrow> keyframeNeed w2 = keyframeNeed (writers ?s ! i)"
    by (rule forward_one [OF b ts refl i1, of now ms cs1]) (use key in blast)+
  show thesis
  proof (rule that [OF 1(1-3) 2(1-3)])
    show "wire (rw (fconn (sw_conn w2))) = out @ Y" using 2(4) Y' by simp
    show "length (writers s4) = length (writers s)" using 2(5) 1(5) by simp
    show "pt = PacketTypeAudio \<longrightarrow> keyframeNeed w2 = keyframeNeed (writers s ! i)" using 2(6) 1(6) i by simp
  qed
qed

section \<open>A key frame\<close>

text \<open>A key frame that a client can publish: two parameter sets and a slice.\<close>

definition key_frame :: "bytes \<Rightarrow> bytes \<Rightarrow> bytes \<Rightarrow> bool" where
  "key_frame sps pps idr \<longleftrightarrow> clean sps \<and> clean pps \<and> clean idr \<and> nal_type sps = 7 \<and> nal_type pps = 8 \<and> is_frame idr \<and>
     sps \<noteq> [] \<and> pps \<noteq> [] \<and> 4 \<le> length idr \<and> length sps < 65536 \<and> length pps < 65536 \<and> length idr \<le> 0xf00000"

text \<open>The sequence header and the frame are two such messages.\<close>

lemma frame_messages_two:
  "frame_messages sid ts pt sps pps idr =
     two_messages PacketTypeVideo sid ts (NewAVCSequenceHeader sps pps 0) ([0x17, pt, 0, 0, 0] @ avcc [sps, pps, idr])"
  by (simp add: frame_messages_def two_messages_def tag_of_def muxer_avc_seq)

lemma key_frame_streamable:
  assumes "key_frame sps pps idr"
  shows "streamable PacketTypeVideo (NewAVCSequenceHeader sps pps 0)" and "streamable PacketTypeVideo ([0x17, pt, 0, 0, 0] @ avcc [sps, pps, idr])"
    and "key_tag (NewAVCSequenceHeader sps pps 0)"
  using assms by (simp_all add: streamable_def key_tag_def muxer_avc_seq AVCDecoderConfigurationRecord_def Let_def key_frame_def StartCode4_def)

text \<open>
  C1: A frame goes from the publisher through the server to every player. The first key frame that a client sends comes as two
  messages. Each is read by the server in a turn of the reading goroutine and goes through the select loop into the queues of all players
  in another; the sender of any player (with room on its connection) writes it out in a turn, before the next message is read, so that it sees
  in the shared buffer what was read (\<open>seen\<close>). A playing client
  that reads these bytes hands exactly the two parameter sets and then the three units of the frame to its callback, with the time stamp
  of the publisher moved by the time base of the player. (When both messages are read before the first is sent, the second may overwrite it:
  \<open>packet_overwritten\<close>.)
\<close>

theorem frame_through_server:
  fixes c q :: RtmpClient
  assumes client: "isPublish c" "videoFirst c" and p: "PacketType p = PacketTypeVideo" "CodecID (VHeader p) = VIDEO_H264"
      "PData p = annexb [sps, pps, idr]" "AVCPacketType (VHeader p) \<noteq> AVC_SEQHDR" and us: "key_frame sps pps idr"
    and X: "X = stream_bytes n (frame_messages (streamid (rconn c)) (TimeStamp p) (AVCPacketType (VHeader p)) sps pps idr)"
    and conn: "chunkSize (cconn (rconn c)) = n" "wok (rw (cconn (rconn c)))" "length X \<le> room (rw (cconn (rconn c)))"
    and s: "publishing n X s" "pktChan s = make_chan 16" "\<forall>w\<in>set (writers s). \<not> sw_closed w \<and> packetQueue w = make_chan maxQueueNum"
    and w: "i < length (writers s)" "serving k out (length Y) base (writers s ! i)" and ts: "TimeStamp p < 0xffffff" "TimeStamp p + base < 0xffffff"
    and Y: "Y = stream_bytes k (frame_messages (streamid (rconn c)) (TimeStamp p + base) (AVCPacketType (VHeader p)) sps pps idr)"
    and player: "ready k (cconn (rconn q))" "rin (rw (cconn (rconn q))) = Y"
  shows "\<exists>p' c' s1 s2 cs1 w1 s3 s4 cs2 w2 q' xs.
    rc_SendPacket (p, c) = (Ok (), p', c') \<and> wire (rw (cconn (rconn c'))) = sent (rw (cconn (rconn c))) @ X \<and>
    startRead_turn now ms s = (Ok True, s1) \<and> onPacket s1 = (Ok Continue, s2) \<and>
    SendPacket_turn now ms cs (seen s2 (writers s2 ! i)) = Some (Ok cs1, w1) \<and>
    startRead_turn now ms (s2\<lparr>writers := (writers s2)[i := w1]\<rparr>) = (Ok True, s3) \<and> onPacket s3 = (Ok Continue, s4) \<and>
    SendPacket_turn now ms cs1 (seen s4 (writers s4 ! i)) = Some (Ok cs2, w2) \<and>
    length (writers s4) = length (writers s) \<and> wire (rw (fconn (sw_conn w2))) = out @ Y \<and>
    streamPlayProc q = Some (Ok (), q') \<and> delivered q' = delivered q @ xs \<and> map PData xs = [sps, pps, sps, pps, idr] \<and>
    (\<forall>x\<in>set xs. TimeStamp x = TimeStamp p + base)"
proof -
  let ?sid = "streamid (rconn c)" and ?ts = "TimeStamp p" and ?pt = "AVCPacketType (VHeader p)"
  note u = us [unfolded key_frame_def]
  have n: "n \<noteq> 0" using s(1) by (auto simp: publishing_def ready_def)
  have pub: "\<exists>p' c'. rc_SendPacket (p, c) = (Ok (), p', c') \<and> \<not> videoFirst c' \<and> wire (rw (cconn (rconn c'))) = sent (rw (cconn (rconn c))) @ X"
    by (rule publish_frame [OF client p(1-3) _ _ _ _ _ _ _ _ _ _ _ _ X conn(1) n conn(2,3)]) (use u in simp_all)
  then obtain p' c' where pub: "rc_SendPacket (p, c) = (Ok (), p', c')" "wire (rw (cconn (rconn c'))) = sent (rw (cconn (rconn c))) @ X"
    by (elim exE conjE) (rule that)
  note str = key_frame_streamable(1,3) [OF us] key_frame_streamable(2) [OF us, of ?pt]
  have idle: "idle n X 2 i k out (length Y) base s"
    using s w by (auto simp: idle_def spare_def make_chan_def maxQueueNum_def)
  obtain s1 s2 cs1 w1 s3 s4 cs2 w2 where st: "startRead_turn now ms s = (Ok True, s1)" "onPacket s1 = (Ok Continue, s2)"
    "SendPacket_turn now ms cs (seen s2 (writers s2 ! i)) = Some (Ok cs1, w1)"
    "startRead_turn now ms (s2\<lparr>writers := (writers s2)[i := w1]\<rparr>) = (Ok True, s3)" "onPacket s3 = (Ok Continue, s4)"
    "SendPacket_turn now ms cs1 (seen s4 (writers s4 ! i)) = Some (Ok cs2, w2)" "wire (rw (fconn (sw_conn w2))) = out @ Y"
    "length (writers s4) = length (writers s)"
    by (rule forward_two [OF str(1,2,3) ts(1) Y [unfolded frame_messages_two] idle [unfolded X frame_messages_two], of now ms cs])
  have pt: "?pt \<noteq> 0" using p(4) by simp
  have "\<exists>q' xs. streamPlayProc q = Some (Ok (), q') \<and> delivered q' = delivered q @ xs \<and>
    map PData xs = [sps, pps, sps, pps, idr] \<and> (\<forall>x\<in>set xs. TimeStamp x = ?ts + base \<and> PacketType x = PacketTypeVideo) \<and>
    closedCalls q' = closedCalls q + (if hasOnClosed q then 1 else 0)"
    by (rule play_frame [OF pt ts(2) _ _ _ _ _ _ _ player(1) player(2) [unfolded Y]]) (use u in simp_all)
  then obtain q' xs where pl: "streamPlayProc q = Some (Ok (), q')" "delivered q' = delivered q @ xs" "map PData xs = [sps, pps, sps, pps, idr]"
    "\<forall>x\<in>set xs. TimeStamp x = ?ts + base \<and> PacketType x = PacketTypeVideo" by (elim exE conjE) (rule that)
  from pl(4) have "\<forall>x\<in>set xs. TimeStamp x = ?ts + base" by simp
  with pub st(1-6,8,7) pl(1-3) show ?thesis by (intro exI conjI) assumption+
qed

definition sample_conn :: "bytes \<Rightarrow> ForwardConnect" where
  "sample_conn inp = NewForwardConnect (NewRtmpConn (NewReadWriter inp EOF 10000 EOF 4096))"

definition sample_stream :: "bytes \<Rightarrow> RtmpStream" where
  "sample_stream inp = (NewStream [] 0 \<lparr>si_App = [], si_Name = [], si_URL = []\<rparr>)\<lparr>reader := Some (NewStreamReader 0 (sample_conn inp) []),
     writers := [NewStreamWriter 0 (sample_conn []) []]\<rparr>"

lemma sample_stream_serves:
  assumes "length X \<le> 10000"
  shows "publishing 128 X (sample_stream X)" "pktChan (sample_stream X) = make_chan 16" "0 < length (writers (sample_stream X))"
    "\<forall>w\<in>set (writers (sample_stream X)). \<not> sw_closed w \<and> packetQueue w = make_chan maxQueueNum"
    "serving 128 [] (length X) 0 (writers (sample_stream X) ! 0)"
  using assms by (simp_all add: sample_stream_def publishing_def NewStreamReader_def sample_conn_def NewForwardConnect_def NewRtmpConn_def NewReadWriter_def
      ready_def conn_inv_def NewStream_def NewStreamWriter_def serving_def wok_def room_def sent_def NewRWBaser_def BaseTimeStamp_def)


theorem frame_through_server_witness:
  "\<exists>X p' c' s1 s2 cs1 w1 s3 s4 cs2 w2 q' xs.
    rc_SendPacket (sample_packet, sample_rtmp []) = (Ok (), p', c') \<and> wire (rw (cconn (rconn c'))) = X \<and>
    startRead_turn 0 0 (sample_stream X) = (Ok True, s1) \<and> onPacket s1 = (Ok Continue, s2) \<and>
    SendPacket_turn 0 0 zeroChunkStream (seen s2 (writers s2 ! 0)) = Some (Ok cs1, w1) \<and>
    startRead_turn 0 0 (s2\<lparr>writers := (writers s2)[0 := w1]\<rparr>) = (Ok True, s3) \<and> onPacket s3 = (Ok Continue, s4) \<and>
    SendPacket_turn 0 0 cs1 (seen s4 (writers s4 ! 0)) = Some (Ok cs2, w2) \<and>
    streamPlayProc (sample_rtmp (wire (rw (fconn (sw_conn w2))))) = Some (Ok (), q') \<and> delivered q' = xs \<and>
    map PData xs = [[0x67, 66], [0x68, 7], [0x67, 66], [0x68, 7], [0x65, 9, 9, 9]]"
proof -
  let ?c = "sample_rtmp []" and ?a = "[0x67, 66] :: bytes" and ?b = "[0x68, 7] :: bytes" and ?i = "[0x65, 9, 9, 9] :: bytes"
  let ?pt = "AVCPacketType (VHeader sample_packet)"
  define X where "X = stream_bytes 128 (frame_messages (streamid (rconn ?c)) (TimeStamp sample_packet) ?pt ?a ?b ?i)"
  have Y: "X = stream_bytes 128 (frame_messages (streamid (rconn ?c)) (TimeStamp sample_packet + 0) ?pt ?a ?b ?i)" by (simp add: X_def)
  have "payload (frame_messages s t pt ?a ?b ?i) \<le> 100" "length (frame_messages s t pt ?a ?b ?i) = 2" for s t pt
    by (simp_all add: frame_messages_def video_msg_def muxer_avc_seq AVCDecoderConfigurationRecord_def Let_def StartCode4_def)
  note this [of "streamid (rconn ?c)" "TimeStamp sample_packet" ?pt]
  with length_stream_bytes [of 128 "frame_messages (streamid (rconn ?c)) (TimeStamp sample_packet) ?pt ?a ?b ?i", folded X_def]
  have len: "length X \<le> 10000" by linarith
  have "clean ?a" "clean ?b" "clean ?i" by code_simp+
  moreover have "nal_type ?a = 7" "nal_type ?b = 8" "is_frame ?i" by (simp_all add: nal_type_def is_frame_def)
  ultimately have frame: "key_frame ?a ?b ?i" by (simp add: key_frame_def)
  have p: "PacketType sample_packet = PacketTypeVideo" "CodecID (VHeader sample_packet) = VIDEO_H264" "PData sample_packet = annexb [?a, ?b, ?i]"
    "?pt \<noteq> AVC_SEQHDR" "TimeStamp sample_packet < 0xffffff" "TimeStamp sample_packet + 0 < 0xffffff"
    by (simp_all add: sample_packet_def zeroPacket_def)
  have c: "isPublish ?c" "videoFirst ?c" "chunkSize (cconn (rconn ?c)) = 128" "wok (rw (cconn (rconn ?c)))" "length X \<le> room (rw (cconn (rconn ?c)))"
    "sent (rw (cconn (rconn ?c))) = []" "ready 128 (cconn (rconn (sample_rtmp X)))" "rin (rw (cconn (rconn (sample_rtmp X)))) = X" "delivered (sample_rtmp X) = []"
    using len by (simp_all add: sample_rtmp_def NewRtmpClient_def NewConnClient_def NewRtmpConn_def NewReadWriter_def
        ready_def conn_inv_def wok_def room_def sent_def)
  note s = sample_stream_serves [OF len]
  from frame_through_server [OF c(1,2) p(1-4) frame X_def c(3-5) s(1,2,4,3,5) p(5,6) Y c(7,8), of 0 0 zeroChunkStream]
  obtain p' c' s1 s2 cs1 w1 s3 s4 cs2 w2 q' xs where o:
    "rc_SendPacket (sample_packet, ?c) = (Ok (), p', c')" "wire (rw (cconn (rconn c'))) = sent (rw (cconn (rconn ?c))) @ X"
    "startRead_turn 0 0 (sample_stream X) = (Ok True, s1)" "onPacket s1 = (Ok Continue, s2)"
    "SendPacket_turn 0 0 zeroChunkStream (seen s2 (writers s2 ! 0)) = Some (Ok cs1, w1)"
    "startRead_turn 0 0 (s2\<lparr>writers := (writers s2)[0 := w1]\<rparr>) = (Ok True, s3)" "onPacket s3 = (Ok Continue, s4)"
    "SendPacket_turn 0 0 cs1 (seen s4 (writers s4 ! 0)) = Some (Ok cs2, w2)"
    "wire (rw (fconn (sw_conn w2))) = [] @ X" "streamPlayProc (sample_rtmp X) = Some (Ok (), q')" "delivered q' = delivered (sample_rtmp X) @ xs"
    "map PData xs = [?a, ?b, ?a, ?b, ?i]"
    by (elim exE conjE) (rule that)
  have "wire (rw (cconn (rconn c'))) = X" using o(2) c(6) by simp
  moreover have "streamPlayProc (sample_rtmp (wire (rw (fconn (sw_conn w2))))) = Some (Ok (), q')" using o(9,10) by simp
  moreover have "delivered q' = xs" using o(11) c(9) by simp
  ultimately show ?thesis using o(1,3-8,12) by (intro exI conjI) assumption+
qed

end
