(* ===== verification/BroadcastAudio.thy ===== *)
theory BroadcastAudio
  imports Broadcast
begin

text \<open>
  Sound from a publisher through the server to a player: the first AAC frame that \<open>RtmpClient.SendPacket\<close> is given goes out as a
  sequence header and a raw frame, passes the stream and reaches the callback of a playing client. The goroutines are those of
  theory \<open>Broadcast\<close>.
\<close>

section \<open>AAC tags\<close>

text \<open>A sound header that an FLV tag can hold.\<close>

definition flv_sound :: "AudioPacketHeader \<Rightarrow> bool" where
  "flv_sound ah \<longleftrightarrow> SoundFormat ah = SOUND_AAC \<and> SoundRate ah < 4 \<and> SoundSize ah < 2 \<and> SoundType ah < 2"

definition aac_tag :: "AudioPacketHeader \<Rightarrow> u8 \<Rightarrow> bytes \<Rightarrow> bytes" where
  "aac_tag ah k src = muxerTagData (audioTag ah (zeroFlvTag\<lparr>fType := TAG_AUDIO\<rparr>) k) @ src"

definition aac_config :: "AudioPacketHeader \<Rightarrow> bytes" where
  "aac_config ah = SpecificConfig 2 (samplingFrequenceIndex (SoundRate ah)) (channelConfiguration (SoundType ah))"

lemma NewAACSequenceHeader_tag: "NewAACSequenceHeader ah = aac_tag ah AAC_SEQHDR (aac_config ah)"
  by (simp add: NewAACSequenceHeader_def aac_tag_def aac_config_def Let_def)

lemma PackAudioData_tag: "flv_sound ah \<Longrightarrow> PackAudioData ah sid src ts = Ok (aac_tag ah AAC_RAW src)"
  by (simp add: PackAudioData_def flv_sound_def aac_tag_def muxerTagData_def audioTag_def Let_def)

lemma length_aac_tag: "flv_sound ah \<Longrightarrow> length (aac_tag ah k src) = length src + 2"
  by (simp add: aac_tag_def muxerTagData_def audioTag_def flv_sound_def zeroMediaTag_def Let_def)

lemma length_aac_config: "length (aac_config ah) = 2"
  by (simp add: aac_config_def SpecificConfig_def)

text \<open>A frame as the player hands it to its callback.\<close>

definition aac_received :: "u32 \<Rightarrow> u32 \<Rightarrow> AudioPacketHeader \<Rightarrow> u8 \<Rightarrow> bytes \<Rightarrow> Packet" where
  "aac_received sid ts ah k src = zeroPacket\<lparr>PacketType := PacketTypeAudio, TimeStamp := ts, PStreamID := sid,
     AHeader := ah\<lparr>AACPacketType := k\<rparr>, PData := src\<rparr>"

lemma handle_aac:
  assumes "same_media cs (audio_msg sid ts (aac_tag ah k src))" and "flv_sound ah"
  shows "handleVideoAudio cs c = (Ok (), c\<lparr>delivered := delivered c @ [aac_received sid ts ah k src]\<rparr>)"
proof -
  let ?p = "zeroPacket\<lparr>PData := aac_tag ah k src, PStreamID := sid, TimeStamp := ts, PacketType := 2\<rparr>"
  have f: "TypeID cs = 8" "Data cs = aac_tag ah k src" "StreamID cs = sid" "Timestamp cs = ts"
    using assms(1) by (simp_all add: same_media_def media_msg_def)
  have ah: "SoundFormat ah = 10" "SoundRate ah < 4" "SoundSize ah < 2" "SoundType ah < 2" "fType (zeroFlvTag\<lparr>fType := 8\<rparr>) = 8"
    using assms(2) by (simp_all add: flv_sound_def)
  note p = ParseAudioHeader_muxed [OF ah, of k src]
  have "Demux ?p = (Ok (), aac_received sid ts ah k src)"
    using p ah(1) by (simp add: Demux_def demux_gen_def aac_tag_def aac_received_def audioHeaderOf_def zeroTag_def zeroMediaTag_def zeroPacket_def Let_def)
  then show ?thesis
    using f by (simp add: handleVideoAudio_def Let_def onPacketReceive_def) (simp add: aac_received_def)
qed

section \<open>Publishing\<close>

definition aac_messages :: "u32 \<Rightarrow> u32 \<Rightarrow> AudioPacketHeader \<Rightarrow> bytes \<Rightarrow> ChunkStream list" where
  "aac_messages sid ts ah src = two_messages PacketTypeAudio sid ts (aac_tag ah AAC_SEQHDR (aac_config ah)) (aac_tag ah AAC_RAW src)"

lemma publish_aac:
  fixes c :: RtmpClient
  assumes pub: "isPublish c" "audioFirst c" and p: "PacketType p = PacketTypeAudio" "flv_sound (AHeader p)" "length (PData p) \<le> 0xf00000"
    and X: "X = stream_bytes k (aac_messages (streamid (rconn c)) (TimeStamp p) (AHeader p) (PData p))"
    and conn: "chunkSize (cconn (rconn c)) = k" "k \<noteq> 0" "wok (rw (cconn (rconn c)))" "length X \<le> room (rw (cconn (rconn c)))"
  shows "\<exists>p' c'. rc_SendPacket (p, c) = (Ok (), p', c') \<and> \<not> audioFirst c' \<and>
    wire (rw (cconn (rconn c'))) = sent (rw (cconn (rconn c))) @ X"
proof -
  let ?ts = "TimeStamp p" and ?sid = "streamid (rconn c)" and ?h = "aac_tag (AHeader p) 0 (aac_config (AHeader p))" and ?f = "aac_tag (AHeader p) 1 (PData p)"
  let ?b1 = "message_bytes (unat k) (on_wire (audio_msg ?sid ?ts ?h))" and ?b2 = "message_bytes (unat k) (on_wire (audio_msg ?sid ?ts ?f))"
  have X': "X = ?b1 @ ?b2" unfolding X aac_messages_def two_messages_bytes tag_of_audio by simp
  have h: "?h \<noteq> []" "length ?h \<le> 0xffffff" and f: "?f \<noteq> []" "length ?f \<le> 0xffffff"
    using length_aac_tag [OF p(2), of 0 "aac_config (AHeader p)"] length_aac_tag [OF p(2), of 1 "PData p"] p(3) length_aac_config [of "AHeader p"]
    by (auto simp flip: length_0_conv)
  note send = sendPacketData_media [of PacketTypeAudio, OF disjI2 [OF refl], unfolded tag_of_audio]
  from send [OF h, of c ?b1 ?ts] conn X' obtain w1 where
    w1: "sendPacketData ?h ?ts 2 c = (Ok (), c\<lparr>rconn := (rconn c)\<lparr>cconn := (cconn (rconn c))\<lparr>rw := w1\<rparr>\<rparr>\<rparr>)"
      "sends ?b1 (rw (cconn (rconn c))) w1" by auto
  define c1 where "c1 = c\<lparr>rconn := (rconn c)\<lparr>cconn := (cconn (rconn c))\<lparr>rw := w1\<rparr>\<rparr>, audioFirst := False\<rparr>"
  have b2: "length ?b2 \<le> room w1" "wok w1" using w1(2) conn X' by (simp_all add: sends_def)
  from send [OF f, of c1 ?b2 ?ts] conn b2 obtain w2 where
    w2: "sendPacketData ?f ?ts 2 c1 = (Ok (), c1\<lparr>rconn := (rconn c1)\<lparr>cconn := (cconn (rconn c1))\<lparr>rw := w2\<rparr>\<rparr>\<rparr>)"
      "wire w2 = sent w2" "sends ?b2 (rw (cconn (rconn c1))) w2" by (auto simp: c1_def)
  have "SoundFormat (AHeader p) = 10" using p(2) by (simp add: flv_sound_def)
  then have "rc_SendPacket (p, c) = (Ok (), p\<lparr>PData := ?f\<rparr>, c1\<lparr>rconn := (rconn c1)\<lparr>cconn := (cconn (rconn c1))\<lparr>rw := w2\<rparr>\<rparr>\<rparr>)"
    using pub p(1) w1(1) w2(1) PackAudioData_tag [OF p(2)] NewAACSequenceHeader_tag [of "AHeader p"]
    by (simp add: rc_SendPacket_def sendAudioPacket_def packData_def sendData_def onRc_def pbind_def pwrap_def setAudioFirst_def flip: c1_def)
  moreover have "wire w2 = sent (rw (cconn (rconn c))) @ X" using w1(2) w2(2,3) X' by (simp add: sends_def c1_def)
  ultimately show ?thesis by (auto simp: c1_def)
qed

lemma play_aac:
  fixes q :: RtmpClient
  assumes ah: "flv_sound ah" and src: "length src \<le> 0xf00000" and ts: "ts < 0xffffff"
    and q: "ready k (cconn (rconn q))" "rin (rw (cconn (rconn q))) = stream_bytes k (aac_messages sid ts ah src)"
  shows "\<exists>q'. streamPlayProc q = Some (Ok (), q') \<and>
    delivered q' = delivered q @ [aac_received sid ts ah AAC_SEQHDR (aac_config ah), aac_received sid ts ah AAC_RAW src]"
proof -
  let ?calls = "\<lambda>m. [aac_received sid ts ah (Data m ! 1) (drop 2 (Data m))]"
  have tag: "aac_tag ah k s ! 1 = k \<and> drop 2 (aac_tag ah k s) = s" for k s
    using ah by (simp add: aac_tag_def muxerTagData_def audioTag_def flv_sound_def zeroMediaTag_def Let_def)
  have p: "playable ?calls (audio_msg sid ts (aac_tag ah k s))" if "length s \<le> 0xf00000" for k s
    by (rule playableI [OF disjI2 [OF refl] _ _ ts])
      (use length_aac_tag [OF ah, of k s] that tag [of k s] in \<open>auto simp: handle_aac [OF _ ah] media_msg_def simp flip: length_0_conv\<close>)
  have "length (aac_config ah) \<le> 0xf00000" by (simp add: length_aac_config)
  with p src have pl: "\<forall>m\<in>set (aac_messages sid ts ah src). playable ?calls m" by (simp add: aac_messages_def two_messages_def tag_of_audio)
  have c: "concat (map ?calls (aac_messages sid ts ah src)) = [aac_received sid ts ah AAC_SEQHDR (aac_config ah), aac_received sid ts ah AAC_RAW src]"
    using tag by (simp add: aac_messages_def two_messages_def media_msg_def)
  show ?thesis using play_messages [OF pl q] unfolding c by blast
qed

section \<open>Through the server\<close>

text \<open>
  C13: Sound goes from the publisher through the server to every player, also to one that still waits for a key frame. The first AAC
  frame that a client sends comes as two messages. Each is read by the server in a turn of the reading goroutine and goes through the select
  loop into the queues of all players in another; the sender of any player (with room on its connection) writes it out in a turn, before the
  next message is read, so that it sees in the shared buffer what was read (\<open>seen\<close>). A playing client that reads
  these bytes hands first the configuration of the decoder and then exactly the frame to its callback, each with the sound
  header of the publisher and its time stamp moved by the time base of the player.
\<close>

theorem sound_through_server:
  fixes c q :: RtmpClient
  assumes client: "isPublish c" "audioFirst c" and p: "PacketType p = PacketTypeAudio" "flv_sound (AHeader p)" "length (PData p) \<le> 0xf00000"
    and X: "X = stream_bytes n (aac_messages (streamid (rconn c)) (TimeStamp p) (AHeader p) (PData p))"
    and conn: "chunkSize (cconn (rconn c)) = n" "wok (rw (cconn (rconn c)))" "length X \<le> room (rw (cconn (rconn c)))"
    and s: "publishing n X s" "pktChan s = make_chan 16" "\<forall>w\<in>set (writers s). \<not> sw_closed w \<and> packetQueue w = make_chan maxQueueNum"
    and w: "i < length (writers s)" "serving k out (length Y) base (writers s ! i)" and ts: "TimeStamp p < 0xffffff" "TimeStamp p + base < 0xffffff"
    and Y: "Y = stream_bytes k (aac_messages (streamid (rconn c)) (TimeStamp p + base) (AHeader p) (PData p))"
    and player: "ready k (cconn (rconn q))" "rin (rw (cconn (rconn q))) = Y"
  shows "\<exists>p' c' s1 s2 cs1 w1 s3 s4 cs2 w2 q'.
    rc_SendPacket (p, c) = (Ok (), p', c') \<and> wire (rw (cconn (rconn c'))) = sent (rw (cconn (rconn c))) @ X \<and>
    startRead_turn now ms s = (Ok True, s1) \<and> onPacket s1 = (Ok Continue, s2) \<and>
    SendPacket_turn now ms cs (seen s2 (writers s2 ! i)) = Some (Ok cs1, w1) \<and>
    startRead_turn now ms (s2\<lparr>writers := (writers s2)[i := w1]\<rparr>) = (Ok True, s3) \<and> onPacket s3 = (Ok Continue, s4) \<and>
    SendPacket_turn now ms cs1 (seen s4 (writers s4 ! i)) = Some (Ok cs2, w2) \<and>
    length (writers s4) = length (writers s) \<and> keyframeNeed w2 = keyframeNeed (writers s ! i) \<and> wire (rw (fconn (sw_conn w2))) = out @ Y \<and>
    streamPlayProc q = Some (Ok (), q') \<and>
    delivered q' = delivered q @ [aac_received (streamid (rconn c)) (TimeStamp p + base) (AHeader p) AAC_SEQHDR (aac_config (AHeader p)),
      aac_received (streamid (rconn c)) (TimeStamp p + base) (AHeader p) AAC_RAW (PData p)]"
proof -
  let ?sid = "streamid (rconn c)" and ?ts = "TimeStamp p" and ?ah = "AHeader p"
  let ?h = "aac_tag ?ah AAC_SEQHDR (aac_config ?ah)" and ?f = "aac_tag ?ah AAC_RAW (PData p)"
  have n: "n \<noteq> 0" using s(1) by (auto simp: publishing_def ready_def)
  have str: "streamable PacketTypeAudio ?h" "streamable PacketTypeAudio ?f"
    using length_aac_tag [OF p(2), of 0 "aac_config ?ah"] length_aac_tag [OF p(2), of 1 "PData p"] p(3) length_aac_config [of ?ah]
    by (auto simp: streamable_def simp flip: length_0_conv)
  obtain p' c' where pub: "rc_SendPacket (p, c) = (Ok (), p', c')" "wire (rw (cconn (rconn c'))) = sent (rw (cconn (rconn c))) @ X"
    using publish_aac [OF client p X conn(1) n conn(2,3)] by (elim exE conjE) (rule that)
  have idle: "idle n X 2 i k out (length Y) base s"
    using s w by (auto simp: idle_def spare_def make_chan_def maxQueueNum_def)
  have nokey: "key_tag ?h" if "(PacketTypeAudio :: u32) = PacketTypeVideo" using that by simp
  obtain s1 s2 cs1 w1 s3 s4 cs2 w2 where st: "startRead_turn now ms s = (Ok True, s1)" "onPacket s1 = (Ok Continue, s2)"
    "SendPacket_turn now ms cs (seen s2 (writers s2 ! i)) = Some (Ok cs1, w1)"
    "startRead_turn now ms (s2\<lparr>writers := (writers s2)[i := w1]\<rparr>) = (Ok True, s3)" "onPacket s3 = (Ok Continue, s4)"
    "SendPacket_turn now ms cs1 (seen s4 (writers s4 ! i)) = Some (Ok cs2, w2)" "wire (rw (fconn (sw_conn w2))) = out @ Y"
    "length (writers s4) = length (writers s)" "(PacketTypeAudio :: u32) = PacketTypeAudio \<longrightarrow> keyframeNeed w2 = keyframeNeed (writers s ! i)"
    by (rule forward_two [OF str(1) nokey str(2) ts(1) Y [unfolded aac_messages_def] idle [unfolded X aac_messages_def], of now ms cs])
  obtain q' where pl: "streamPlayProc q = Some (Ok (), q')"
    "delivered q' = delivered q @ [aac_received ?sid (?ts + base) ?ah AAC_SEQHDR (aac_config ?ah), aac_received ?sid (?ts + base) ?ah AAC_RAW (PData p)]"
    using play_aac [OF p(2,3) ts(2) player(1) player(2) [unfolded Y]] by (elim exE conjE) (rule that)
  from pub st(1-6,8) mp [OF st(9) refl] st(7) pl show ?thesis by (intro exI conjI) assumption+
qed

definition sample_sound :: Packet where
  "sample_sound = zeroPacket\<lparr>PacketType := 2, TimeStamp := 40, PData := [7, 8, 9],
     AHeader := \<lparr>SoundFormat = 10, SoundRate = 3, SoundSize = 1, SoundType = 1, AACPacketType = 0\<rparr>\<rparr>"

theorem sound_through_server_witness:
  "\<exists>X p' c' s1 s2 cs1 w1 s3 s4 cs2 w2 q'.
    rc_SendPacket (sample_sound, sample_rtmp []) = (Ok (), p', c') \<and> wire (rw (cconn (rconn c'))) = X \<and>
    startRead_turn 0 0 (sample_stream X) = (Ok True, s1) \<and> onPacket s1 = (Ok Continue, s2) \<and>
    SendPacket_turn 0 0 zeroChunkStream (seen s2 (writers s2 ! 0)) = Some (Ok cs1, w1) \<and>
    startRead_turn 0 0 (s2\<lparr>writers := (writers s2)[0 := w1]\<rparr>) = (Ok True, s3) \<and> onPacket s3 = (Ok Continue, s4) \<and>
    SendPacket_turn 0 0 cs1 (seen s4 (writers s4 ! 0)) = Some (Ok cs2, w2) \<and>
    streamPlayProc (sample_rtmp (wire (rw (fconn (sw_conn w2))))) = Some (Ok (), q') \<and>
    map PData (delivered q') = [[0x12, 0x10], [7, 8, 9]]"
proof -
  let ?c = "sample_rtmp []" and ?ah = "AHeader sample_sound"
  let ?ms = "aac_messages (streamid (rconn ?c)) (TimeStamp sample_sound) ?ah (PData sample_sound)"
  define X where "X = stream_bytes 128 ?ms"
  have Y: "X = stream_bytes 128 (aac_messages (streamid (rconn ?c)) (TimeStamp sample_sound + 0) ?ah (PData sample_sound))" by (simp add: X_def)
  have p: "PacketType sample_sound = PacketTypeAudio" "flv_sound ?ah" "length (PData sample_sound) \<le> 0xf00000"
    "TimeStamp sample_sound < 0xffffff" "TimeStamp sample_sound + 0 < 0xffffff" "PData sample_sound = [7, 8, 9]"
    by (simp_all add: sample_sound_def flv_sound_def)
  have "payload ?ms \<le> 100" "length ?ms = 2"
    using length_aac_tag [OF p(2), of 0 "aac_config ?ah"] length_aac_tag [OF p(2), of 1 "PData sample_sound"] length_aac_config [of ?ah] p(6)
    by (simp_all add: aac_messages_def two_messages_def media_msg_def)
  with length_stream_bytes [of 128 ?ms, folded X_def] have len: "length X \<le> 10000" by linarith
  have c: "isPublish ?c" "audioFirst ?c" "chunkSize (cconn (rconn ?c)) = 128" "wok (rw (cconn (rconn ?c)))" "length X \<le> room (rw (cconn (rconn ?c)))"
    "sent (rw (cconn (rconn ?c))) = []" "ready 128 (cconn (rconn (sample_rtmp X)))" "rin (rw (cconn (rconn (sample_rtmp X)))) = X" "delivered (sample_rtmp X) = []"
    using len by (simp_all add: sample_rtmp_def NewRtmpClient_def NewConnClient_def NewRtmpConn_def NewReadWriter_def
        ready_def conn_inv_def wok_def room_def sent_def)
  note s = sample_stream_serves [OF len]
  from sound_through_server [OF c(1,2) p(1-3) X_def c(3-5) s(1,2,4,3,5) p(4,5) Y c(7,8), of 0 0 zeroChunkStream]
  obtain p' c' s1 s2 cs1 w1 s3 s4 cs2 w2 q' where o:
    "rc_SendPacket (sample_sound, ?c) = (Ok (), p', c')" "wire (rw (cconn (rconn c'))) = sent (rw (cconn (rconn ?c))) @ X"
    "startRead_turn 0 0 (sample_stream X) = (Ok True, s1)" "onPacket s1 = (Ok Continue, s2)"
    "SendPacket_turn 0 0 zeroChunkStream (seen s2 (writers s2 ! 0)) = Some (Ok cs1, w1)"
    "startRead_turn 0 0 (s2\<lparr>writers := (writers s2)[0 := w1]\<rparr>) = (Ok True, s3)" "onPacket s3 = (Ok Continue, s4)"
    "SendPacket_turn 0 0 cs1 (seen s4 (writers s4 ! 0)) = Some (Ok cs2, w2)"
    "wire (rw (fconn (sw_conn w2))) = [] @ X" "streamPlayProc (sample_rtmp X) = Some (Ok (), q')"
    "delivered q' = delivered (sample_rtmp X) @ [aac_received (streamid (rconn ?c)) (TimeStamp sample_sound + 0) ?ah AAC_SEQHDR (aac_config ?ah),
      aac_received (streamid (rconn ?c)) (TimeStamp sample_sound + 0) ?ah AAC_RAW (PData sample_sound)]"
    by (elim exE conjE) (rule that)
  have "wire (rw (cconn (rconn c'))) = X" using o(2) c(6) by simp
  moreover have "streamPlayProc (sample_rtmp (wire (rw (fconn (sw_conn w2))))) = Some (Ok (), q')" using o(9,10) by simp
  moreover have "map PData (delivered q') = [[0x12, 0x10], [7, 8, 9]]"
    using o(11) c(9) by (simp add: aac_received_def aac_config_def sample_sound_def SpecificConfig_def samplingFrequenceIndex_def channelConfiguration_def)
  ultimately show ?thesis using o(1,3-8) by (intro exI conjI) assumption+
qed

end
