(* ===== verification/Api.thy ===== *)
theory Api
  imports RtmpClient Server
begin

text \<open>
  What a user of the library calls first: the settings of \<open>setting.go\<close>, the constructors of \<open>api.go\<close> and the logger of
  \<open>logger/logger.go\<close> and \<open>logger/default_log.go\<close>. The clock, the caller that \<open>runtime.Caller\<close> finds, \<open>fmt.Sprintf\<close> and the certificate loader are arguments.
\<close>

section \<open>Logger\<close>

type_synonym LogLevel = int

definition LogLevelDisabled :: LogLevel where [simp]: "LogLevelDisabled = 0"
definition LogLevelError :: LogLevel where [simp]: "LogLevelError = 1"
definition LogLevelWarn :: LogLevel where [simp]: "LogLevelWarn = 2"
definition LogLevelInfo :: LogLevel where [simp]: "LogLevelInfo = 3"
definition LogLevelDebug :: LogLevel where [simp]: "LogLevelDebug = 4"
definition LogLevelTrace :: LogLevel where [simp]: "LogLevelTrace = 5"

definition level_String :: "LogLevel \<Rightarrow> string" where
  "level_String ll =
     (if ll = LogLevelDisabled then ''Disabled'' else if ll = LogLevelError then ''Error'' else if ll = LogLevelWarn then ''Warn''
      else if ll = LogLevelInfo then ''Info'' else if ll = LogLevelDebug then ''Debug'' else if ll = LogLevelTrace then ''Trace''
      else ''Unknow'')"

text \<open>A line that is printed: the time, the level, the file without its directory, the line and the message.\<close>

record LogLine =
  l_time :: bytes
  l_level :: string
  l_file :: bytes
  l_line :: nat
  l_text :: bytes

type_synonym Logger = "(bytes \<times> nat) option \<Rightarrow> bytes \<Rightarrow> LogLevel \<Rightarrow> bytes \<Rightarrow> LogLine option"

record defaultLogger =
  dl_level :: LogLevel

definition log_output :: "defaultLogger \<Rightarrow> Logger" where
  "log_output log caller now level s =
     (if dl_level log < level then None
      else
        (case (case caller of Some fl \<Rightarrow> fl | None \<Rightarrow> (chars ''???'', 0)) of (file, line) \<Rightarrow>
           Some \<lparr>l_time = now, l_level = level_String level, l_file = afterLast slash file, l_line = line, l_text = s\<rparr>))"

definition NewLogger :: "LogLevel \<Rightarrow> Logger" where
  "NewLogger scope = log_output \<lparr>dl_level = scope\<rparr>"

text \<open>The printing methods fix the level; those with an \<open>f\<close> format the message first (\<open>fmt.Sprintf\<close> is the argument \<open>sprintf\<close>).\<close>

definition log_Trace :: "defaultLogger \<Rightarrow> (bytes \<times> nat) option \<Rightarrow> bytes \<Rightarrow> bytes \<Rightarrow> LogLine option" where
  "log_Trace log caller now msg = log_output log caller now LogLevelTrace msg"

definition log_Tracef :: "(bytes \<Rightarrow> 'a list \<Rightarrow> bytes) \<Rightarrow> defaultLogger \<Rightarrow> (bytes \<times> nat) option \<Rightarrow> bytes \<Rightarrow> bytes \<Rightarrow> 'a list \<Rightarrow> LogLine option" where
  "log_Tracef sprintf log caller now format args = log_output log caller now LogLevelTrace (sprintf format args)"

definition log_Debug :: "defaultLogger \<Rightarrow> (bytes \<times> nat) option \<Rightarrow> bytes \<Rightarrow> bytes \<Rightarrow> LogLine option" where
  "log_Debug log caller now msg = log_output log caller now LogLevelDebug msg"

definition log_Debugf :: "(bytes \<Rightarrow> 'a list \<Rightarrow> bytes) \<Rightarrow> defaultLogger \<Rightarrow> (bytes \<times> nat) option \<Rightarrow> bytes \<Rightarrow> bytes \<Rightarrow> 'a list \<Rightarrow> LogLine option" where
  "log_Debugf sprintf log caller now format args = log_output log caller now LogLevelDebug (sprintf format args)"

definition log_Info :: "defaultLogger \<Rightarrow> (bytes \<times> nat) option \<Rightarrow> bytes \<Rightarrow> bytes \<Rightarrow> LogLine option" where
  "log_Info log caller now msg = log_output log caller now LogLevelInfo msg"

definition log_Infof :: "(bytes \<Rightarrow> 'a list \<Rightarrow> bytes) \<Rightarrow> defaultLogger \<Rightarrow> (bytes \<times> nat) option \<Rightarrow> bytes \<Rightarrow> bytes \<Rightarrow> 'a list \<Rightarrow> LogLine option" where
  "log_Infof sprintf log caller now format args = log_output log caller now LogLevelInfo (sprintf format args)"

definition log_Warn :: "defaultLogger \<Rightarrow> (bytes \<times> nat) option \<Rightarrow> bytes \<Rightarrow> bytes \<Rightarrow> LogLine option" where
  "log_Warn log caller now msg = log_output log caller now LogLevelWarn msg"

definition log_Warnf :: "(bytes \<Rightarrow> 'a list \<Rightarrow> bytes) \<Rightarrow> defaultLogger \<Rightarrow> (bytes \<times> nat) option \<Rightarrow> bytes \<Rightarrow> bytes \<Rightarrow> 'a list \<Rightarrow> LogLine option" where
  "log_Warnf sprintf log caller now format args = log_output log caller now LogLevelWarn (sprintf format args)"

definition log_Error :: "defaultLogger \<Rightarrow> (bytes \<times> nat) option \<Rightarrow> bytes \<Rightarrow> bytes \<Rightarrow> LogLine option" where
  "log_Error log caller now msg = log_output log caller now LogLevelError msg"

definition log_Errorf :: "(bytes \<Rightarrow> 'a list \<Rightarrow> bytes) \<Rightarrow> defaultLogger \<Rightarrow> (bytes \<times> nat) option \<Rightarrow> bytes \<Rightarrow> bytes \<Rightarrow> 'a list \<Rightarrow> LogLine option" where
  "log_Errorf sprintf log caller now format args = log_output log caller now LogLevelError (sprintf format args)"

text \<open>A level is a variable that is stored and loaded as a whole.\<close>

definition level_Set :: "LogLevel \<Rightarrow> (LogLevel, unit) prog" where
  "level_Set level ll = (Ok (), level)"

definition level_Get :: "(LogLevel, LogLevel) prog" where
  "level_Get ll = (Ok ll, ll)"

text \<open>A message of some severity is printed whenever a less severe one would be, with the same caller and time.\<close>

lemma log_severity:
  assumes "log_output log caller now l s \<noteq> None" and "l' \<le> l"
  shows "log_output log caller now l' t \<noteq> None"
  using assms by (auto simp: log_output_def split: prod.splits if_splits)

section \<open>Settings\<close>

record SettingEngine =
  loggerFactory :: "(LogLevel \<Rightarrow> Logger) option"
  logLevel :: LogLevel

type_synonym SettingFunc = "SettingEngine \<Rightarrow> SettingEngine"

definition WithLoggerFactory :: "(LogLevel \<Rightarrow> Logger) \<Rightarrow> SettingFunc" where
  "WithLoggerFactory v setting = setting\<lparr>loggerFactory := Some v\<rparr>"

definition WithLogLevel :: "LogLevel \<Rightarrow> SettingFunc" where
  "WithLogLevel v setting = setting\<lparr>logLevel := v\<rparr>"

record RtmpAPI =
  api_setting :: SettingEngine
  api_logger :: Logger

fun applyOptions :: "SettingFunc list \<Rightarrow> SettingEngine \<Rightarrow> SettingEngine" where
  "applyOptions [] setting = setting"
| "applyOptions (v # vs) setting = applyOptions vs (v setting)"

definition NewAPI :: "SettingFunc list \<Rightarrow> RtmpAPI" where
  "NewAPI opts =
     (let s = applyOptions opts \<lparr>loggerFactory = None, logLevel = LogLevelDisabled\<rparr>;
          factory = (case loggerFactory s of None \<Rightarrow> NewLogger | Some f \<Rightarrow> f);
          level = (if logLevel s = LogLevelDisabled then LogLevelInfo else logLevel s) in
      \<lparr>api_setting = s\<lparr>loggerFactory := Some factory, logLevel := level\<rparr>, api_logger = factory level\<rparr>)"

definition ServeRtmp :: "unit res \<Rightarrow> accept list \<Rightarrow> err option \<times> RtmpConn list" where
  "ServeRtmp listen as = Serve listen as"

text \<open>\<open>ServeTLS\<close> passes its second and third argument to \<open>tls.LoadX509KeyPair\<close>, as certificate and key.\<close>

definition ServeRtmpTLS :: "(bytes \<Rightarrow> bytes \<Rightarrow> unit res) \<Rightarrow> unit res \<Rightarrow> accept list \<Rightarrow> bytes \<Rightarrow> bytes \<Rightarrow> err option \<times> RtmpConn list" where
  "ServeRtmpTLS loadX509KeyPair listen as tlsKey tlsCrt = ServeTLS (loadX509KeyPair tlsKey tlsCrt) listen as"

definition api_NewRtmpClient :: "ConnClient \<Rightarrow> RtmpClient" where
  "api_NewRtmpClient cc = NewRtmpClient cc"

section \<open>What the settings do\<close>

lemma applyOptions_append: "applyOptions (vs @ ws) s = applyOptions ws (applyOptions vs s)"
  by (induction vs arbitrary: s) simp_all

text \<open>The level in force: the last one that was set, except that \<open>LogLevelDisabled\<close> counts as not set.\<close>

definition effective :: "LogLevel \<Rightarrow> LogLevel" where
  "effective n = (if n = LogLevelDisabled then LogLevelInfo else n)"

text \<open>
  The last level and the last factory that are given decide, whatever was given before. With the default factory a message is
  printed exactly when its level is at most the level in force; so logging cannot be switched off, a
  setting of \<open>LogLevelDisabled\<close> still prints errors, warnings and information.
\<close>

theorem api_logging:
  "api_logger (NewAPI (opts @ [WithLoggerFactory f, WithLogLevel n])) = f (effective n)"
  "api_logger (NewAPI [WithLogLevel n]) caller now l s \<noteq> None \<longleftrightarrow> l \<le> effective n"
  "api_logger (NewAPI [WithLogLevel LogLevelDisabled]) caller now LogLevelInfo s \<noteq> None"
proof -
  show "api_logger (NewAPI (opts @ [WithLoggerFactory f, WithLogLevel n])) = f (effective n)"
    by (simp add: NewAPI_def applyOptions_append WithLoggerFactory_def WithLogLevel_def effective_def Let_def)
  show "api_logger (NewAPI [WithLogLevel n]) caller now l s \<noteq> None \<longleftrightarrow> l \<le> effective n" for n l
    by (simp add: NewAPI_def WithLogLevel_def effective_def Let_def NewLogger_def log_output_def not_less split: prod.split)
  from this [of LogLevelDisabled LogLevelInfo]
  show "api_logger (NewAPI [WithLogLevel LogLevelDisabled]) caller now LogLevelInfo s \<noteq> None"
    by (simp add: effective_def)
qed

text \<open>
  \<open>ServeRtmpTLS\<close> hands the key over as the certificate: with a certificate and a key that load only in their proper places
  it never listens, and it works only for a caller who exchanges them.
\<close>

theorem tls_arguments_exchanged:
  assumes "\<And>a b. load a b = Ok () \<longleftrightarrow> a = crt \<and> b = key" and "crt \<noteq> key"
  shows "(\<exists>e. ServeRtmpTLS load listen as key crt = (Some e, [])) \<and> ServeRtmpTLS load listen as crt key = ServeTLS (Ok ()) listen as"
proof -
  have "load key crt \<noteq> Ok ()" "load crt key = Ok ()" using assms by auto
  then show ?thesis by (cases "load key crt") (auto simp: ServeRtmpTLS_def ServeTLS_def)
qed

text \<open>
  The server of the API handles every connection that is accepted, as \<open>Serve\<close> does.
\<close>

lemma ServeRtmp_accepts: "snd (ServeRtmp (Ok ()) as) = before_fatal as"
  by (simp add: ServeRtmp_def Serve_def acceptLoop_conns)

end
