(* ===== verification/Examples.thy ===== *)
theory Examples
  imports Api
begin

text \<open>
  The example programs. \<open>example/publish/main.go\<close> publishes a file of H.264 units or a row of JPEG images with the client of the
  library, \<open>example/play/main.go\<close> prints what it receives, \<open>example/server/main.go\<close> starts the server. The files that are read, the
  spare capacity of the buffers and the network are arguments; sleeping, printing progress and the output file of the player, to which
  nothing is written, are left out.
\<close>

section \<open>Publishing an H.264 file\<close>

text \<open>\<open>d[lo:hi]\<close> may go beyond the length of \<open>d\<close>, up to its capacity; \<open>spare\<close> is the rest of the array behind \<open>d\<close>.\<close>

definition slice_cap :: "bytes \<Rightarrow> nat \<Rightarrow> nat \<Rightarrow> bytes \<Rightarrow> bytes res" where
  "slice_cap spare lo hi d = slice lo hi (d @ spare)"

definition startCode :: bytes where
  "startCode = [0x00, 0x00, 0x00, 0x01]"

record h264_push =
  bcheck :: bool
  pushTime :: int
  pre :: nat
  pos :: nat \<comment> \<open>the variable \<open>index\<close>\<close>
  client :: RtmpClient

definition h264_packet :: "int \<Rightarrow> bytes \<Rightarrow> Packet" where
  "h264_packet ts d = zeroPacket\<lparr>PacketType := PacketTypeVideo, TimeStamp := of_int ts, PData := d, PStreamID := 0,
     VHeader := \<lparr>FrameType = FRAME_KEY, AVCPacketType = AVC_NALU, CodecID = VIDEO_H264, CompositionTime = 0\<rparr>\<rparr>"

text \<open>Whether the units from \<open>pre\<close> on are kept together with the one at \<open>pos\<close>, and then the new value of \<open>bcheck\<close>.\<close>

definition PushH264_check :: "bytes \<Rightarrow> h264_push \<Rightarrow> bool option res" where
  "PushH264_check data s =
     (if bcheck s then
        res_bind (index data (pre s + 4)) (\<lambda>a. res_bind (index data (pos s + 4)) (\<lambda>b.
          let preNaluType = a AND 0x1F; naluType = b AND 0x1F in
          if preNaluType = 7 then Ok (Some (if naluType \<noteq> 7 \<and> naluType \<noteq> 8 then False else bcheck s)) else Ok None))
      else Ok None)"

definition PushH264_send :: "bytes \<Rightarrow> bytes \<Rightarrow> (h264_push, unit option) prog" where
  "PushH264_send spare data s =
     (case slice_cap spare (pre s) (pos s) data of
        Ok d \<Rightarrow>
          (case rc_SendPacket (h264_packet (pushTime s) d, client s) of
             (Ok _, _, c) \<Rightarrow> (Ok None, s\<lparr>bcheck := True, pushTime := pushTime s + 40, pre := pos s, pos := pos s + 4, client := c\<rparr>)
           | (_, _, c) \<Rightarrow> (Panic, s\<lparr>bcheck := True, client := c\<rparr>))
      | _ \<Rightarrow> (Panic, s))"

definition PushH264_turn :: "bytes \<Rightarrow> bytes \<Rightarrow> (h264_push, unit option) prog" where
  "PushH264_turn spare data s =
     (case slice_cap spare (pos s) (pos s + 4) data of
        Ok w \<Rightarrow>
          (if w = startCode \<and> pos s > pre s then
             (case PushH264_check data s of
                Ok (Some b) \<Rightarrow> (Ok None, s\<lparr>bcheck := b, pos := pos s + 4\<rparr>)
              | Ok None \<Rightarrow> PushH264_send spare data s
              | _ \<Rightarrow> (Panic, s))
           else
             (let s' = s\<lparr>pos := pos s + 1\<rparr> in
              if pos s' + 4 \<ge> length data then (Ok (Some ()), s') else (Ok None, s')))
      | _ \<Rightarrow> (Panic, s))"

definition PushH264_start :: "RtmpClient \<Rightarrow> h264_push" where
  "PushH264_start c = \<lparr>bcheck = True, pushTime = 0, pre = 0, pos = 0, client = c\<rparr>"

definition PushH264 :: "bytes res \<Rightarrow> bytes \<Rightarrow> RtmpClient \<Rightarrow> (unit res \<times> RtmpClient) option" where
  "PushH264 readFile spare c =
     (case readFile of
        Ok data \<Rightarrow> map_option (\<lambda>(r, s). (r, client s)) (run_loop (PushH264_turn spare data) (PushH264_start c))
      | _ \<Rightarrow> Some (Panic, c))"

text \<open>Every turn that goes on moves \<open>pos\<close> forward, and beyond the capacity the loop ends.\<close>

interpretation h264_loop: progress "PushH264_turn spare data" "\<lambda>s. length data + length spare + 4 - pos s" for spare data
proof
  fix s s' assume t: "PushH264_turn spare data s = (Ok None, s')"
  then have "pos s + 4 \<le> length data + length spare"
    by (auto simp: PushH264_turn_def slice_cap_def slice_def split: if_splits)
  moreover have "pos s < pos s'"
    using t by (auto simp: PushH264_turn_def PushH264_send_def Let_def split: res.splits prod.splits option.splits if_splits)
  ultimately show "length data + length spare + 4 - pos s' < length data + length spare + 4 - pos s" by simp
qed

section \<open>What is published\<close>

text \<open>
  The frames of a file: a sequence parameter set starts a frame of all parameter sets that follow and the next unit; every
  other unit is a frame of its own.
\<close>

definition is_set :: "bytes \<Rightarrow> bool" where
  "is_set u \<longleftrightarrow> nal_type u = 7 \<or> nal_type u = 8"

function frames :: "bytes list \<Rightarrow> bytes list list" where
  "frames [] = []"
| "frames (u # us) =
     (if nal_type u = 7 then
        (case dropWhile is_set us of
           [] \<Rightarrow> [u # us]
         | v # vs \<Rightarrow> (u # takeWhile is_set us @ [v]) # frames vs)
      else [u] # frames us)"
  by pat_completeness auto
termination
proof (relation "measure length")
  fix u :: bytes and us v vs assume "dropWhile is_set us = v # vs"
  then have "length (v # vs) \<le> length us" by (metis length_dropWhile_le)
  then show "(vs, u # us) \<in> measure length" by simp
qed simp_all

text \<open>Sending them one after the other, 40 ms apart; an error of the client ends the program with a panic.\<close>

fun sendFrames_h264 :: "int \<Rightarrow> bytes list list \<Rightarrow> RtmpClient \<Rightarrow> unit res \<times> RtmpClient" where
  "sendFrames_h264 ts [] c = (Ok (), c)"
| "sendFrames_h264 ts (f # fs) c =
     (case rc_SendPacket (h264_packet ts (annexb f), c) of
        (Ok _, _, c') \<Rightarrow> sendFrames_h264 (ts + 40) fs c'
      | (_, _, c') \<Rightarrow> (Panic, c'))"

text \<open>The units collected so far are \<open>g\<close>; the last frame is never sent, because no start code follows.\<close>

fun collect :: "bool \<Rightarrow> bytes list \<Rightarrow> bytes list \<Rightarrow> bytes list list" where
  "collect b g [] = []"
| "collect b g (v # vs) =
     (if b \<and> nal_type (hd g) = 7 then collect (is_set v) (g @ [v]) vs else g # collect True [v] vs)"

lemma frames_Nil_iff [simp]: "frames us = [] \<longleftrightarrow> us = []"
  by (cases us) (simp_all split: list.split)

lemma collect_closed: "collect False g us = (case us of [] \<Rightarrow> [] | v # vs \<Rightarrow> g # collect True [v] vs)"
  by (cases us) simp_all

lemma collect_sets:
  assumes "g \<noteq> []" and "nal_type (hd g) = 7"
  shows "collect True g us = (case dropWhile is_set us of
      [] \<Rightarrow> [] | v # vs \<Rightarrow> collect False (g @ takeWhile is_set us @ [v]) vs)"
  using assms by (induction us arbitrary: g) (auto simp del: dropWhile_eq_Nil_conv split: list.split)

lemma collect_frames: "collect True [u] us = butlast (frames (u # us))"
proof (induction "u # us" arbitrary: u us rule: frames.induct)
  case (2 u us)
  show ?case
  proof (cases "nal_type u = 7")
    case True
    show ?thesis
    proof (cases "dropWhile is_set us")
      case Nil
      then show ?thesis using True collect_sets [of "[u]" us] by (simp del: dropWhile_eq_Nil_conv)
    next
      case (Cons v vs)
      show ?thesis
      proof (cases vs)
        case Nil
        then show ?thesis using True Cons collect_sets [of "[u]" us] by (simp add: collect_closed)
      next
        case (Cons x xs)
        then show ?thesis using True \<open>dropWhile is_set us = v # vs\<close> collect_sets [of "[u]" us] 2(1) [OF True, of v x xs]
          by (subst frames.simps(2)) (simp add: collect_closed del: frames.simps)
      qed
    qed
  next
    case False
    then show ?thesis using 2(2) [OF False] by (cases us; subst frames.simps(2)) (simp_all del: frames.simps(2))
  qed
qed

lemma startCode_eq: "startCode = StartCode4"
  by (simp add: startCode_def StartCode4_def)

lemma length_StartCode4: "length StartCode4 = 4"
  by (simp add: StartCode4_def)

lemma PushH264_step:
  assumes "pos s + 4 \<le> length data" and "take 4 (drop (pos s) data) \<noteq> StartCode4 \<or> pos s \<le> pre s"
  shows "PushH264_turn spare data s = (if pos s + 5 \<ge> length data then Ok (Some ()) else Ok None, s\<lparr>pos := pos s + 1\<rparr>)"
  using assms by (auto simp: PushH264_turn_def slice_cap_def slice_def startCode_eq Let_def)

text \<open>Scanning inside of a unit: to the next start code, or to the end of the file.\<close>

lemma PushH264_scan:
  assumes data: "data = A @ u @ StartCode4 @ v # B" and "clean u" and "pos s = length A + i" and "i \<le> length u"
  shows "run_loop (PushH264_turn spare data) s = run_loop (PushH264_turn spare data) (s\<lparr>pos := length A + length u\<rparr>)"
  using assms(3,4)
proof (induction "length u - i" arbitrary: s i)
  case 0
  then have "s\<lparr>pos := length A + length u\<rparr> = s" by (cases s) simp
  then show ?case by simp
next
  case (Suc n)
  then have i: "i < length u" by simp
  have "\<not> start_at data (length A + i)"
    unfolding data using i length_StartCode4 by (intro clean_start [OF assms(2)]) simp_all
  then have "take 4 (drop (pos s) data) \<noteq> StartCode4" using Suc.prems(1) by (simp add: start_at_def)
  moreover have "pos s + 5 < length data" using Suc.prems(1) i by (simp add: data length_StartCode4)
  ultimately have "PushH264_turn spare data s = (Ok None, s\<lparr>pos := pos s + 1\<rparr>)" using PushH264_step [of s data spare] by simp
  then have "run_loop (PushH264_turn spare data) s = run_loop (PushH264_turn spare data) (s\<lparr>pos := pos s + 1\<rparr>)" by (rule run_loop_simps(2))
  also have "\<dots> = run_loop (PushH264_turn spare data) (s\<lparr>pos := pos s + 1, pos := length A + length u\<rparr>)"
    by (rule Suc.hyps(1) [of "i + 1"]) (use Suc.hyps(2) Suc.prems i in simp_all)
  finally show ?case by simp
qed

lemma PushH264_scan_end:
  assumes data: "data = A @ u" and "clean u" and "pos s = length A + i" and "i + 4 \<le> length u"
  shows "\<exists>j. run_loop (PushH264_turn spare data) s = Some (Ok (), s\<lparr>pos := j\<rparr>)"
  using assms(3,4)
proof (induction "length u - i" arbitrary: s i)
  case (Suc n)
  have "\<not> start_at (A @ u @ []) (length A + i)"
    using Suc.prems(2) by (intro clean_start [OF assms(2)]) simp_all
  then have "take 4 (drop (pos s) data) \<noteq> StartCode4" using Suc.prems(1) data by (simp add: start_at_def)
  moreover have "pos s + 4 \<le> length data" using Suc.prems by (simp add: data)
  ultimately have t: "PushH264_turn spare data s = (if pos s + 5 \<ge> length data then Ok (Some ()) else Ok None, s\<lparr>pos := pos s + 1\<rparr>)"
    by (simp add: PushH264_step)
  show ?case
  proof (cases "pos s + 5 \<ge> length data")
    case True
    with t have "run_loop (PushH264_turn spare data) s = Some (Ok (), s\<lparr>pos := pos s + 1\<rparr>)" by (intro run_loop_simps(1)) simp
    then show ?thesis by blast
  next
    case False
    with t have "run_loop (PushH264_turn spare data) s = run_loop (PushH264_turn spare data) (s\<lparr>pos := pos s + 1\<rparr>)"
      by (intro run_loop_simps(2)) simp
    moreover have "\<exists>j. run_loop (PushH264_turn spare data) (s\<lparr>pos := pos s + 1\<rparr>) = Some (Ok (), s\<lparr>pos := pos s + 1, pos := j\<rparr>)"
      by (rule Suc.hyps(1) [of "i + 1"]) (use Suc.hyps(2) Suc.prems False data in simp_all)
    ultimately show ?thesis by simp
  qed
qed simp

text \<open>At the start code of the unit \<open>v\<close>, with the units \<open>g\<close> collected from \<open>pre\<close> on.\<close>

lemma PushH264_check_at:
  assumes data: "data = A @ annexb g @ StartCode4 @ v @ B" and "g \<noteq> []" and "hd g \<noteq> []" and "v \<noteq> []"
    and "pre s = length A" and "pos s = length A + length (annexb g)"
  shows "PushH264_check data s = Ok (if bcheck s \<and> nal_type (hd g) = 7 then Some (is_set v) else None)"
proof -
  obtain u g' where g: "g = u # g'" using assms(2) by (cases g) simp_all
  obtain b u' where u: "u = b # u'" using assms(3) g by (cases u) auto
  obtain c v' where v: "v = c # v'" using assms(4) by (cases v) simp_all
  have "index data (pre s + 4) = Ok b" using assms(5) by (simp add: data g u nth_append StartCode4_def)
  moreover have "index data (pos s + 4) = Ok c" using assms(6) by (simp add: data v nth_append StartCode4_def)
  ultimately show ?thesis
    by (auto simp: PushH264_check_def is_set_def nal_type_def g u v Let_def)
qed

lemma PushH264_at_code:
  assumes data: "data = A @ annexb g @ StartCode4 @ v @ B" and g: "g \<noteq> []" "hd g \<noteq> []" and "v \<noteq> []"
    and s: "pre s = length A" "pos s = length A + length (annexb g)"
  shows "PushH264_turn spare data s =
    (if bcheck s \<and> nal_type (hd g) = 7 then (Ok None, s\<lparr>bcheck := is_set v, pos := pos s + 4\<rparr>)
     else (case rc_SendPacket (h264_packet (pushTime s) (annexb g), client s) of
             (Ok _, _, c) \<Rightarrow> (Ok None, s\<lparr>bcheck := True, pushTime := pushTime s + 40, pre := pos s, pos := pos s + 4, client := c\<rparr>)
           | (_, _, c) \<Rightarrow> (Panic, s\<lparr>bcheck := True, client := c\<rparr>)))"
proof -
  have "slice_cap spare (pos s) (pos s + 4) data = Ok StartCode4"
    using s by (simp add: slice_cap_def slice_def data length_StartCode4)
  moreover have "slice_cap spare (pre s) (pos s) data = Ok (annexb g)"
    using s by (simp add: slice_cap_def slice_def data length_StartCode4)
  moreover have "pos s > pre s" using s g(1) length_StartCode4 by (cases g) simp_all
  ultimately show ?thesis
    using PushH264_check_at [OF assms] by (simp add: PushH264_turn_def PushH264_send_def startCode_eq)
qed

lemma annexb_append: "annexb (xs @ ys) = annexb xs @ annexb ys"
  by (simp add: annexb_def)

text \<open>The loop, unit by unit.\<close>

lemma PushH264_units:
  assumes "data = A @ annexb (g @ w # us)" and "\<forall>u\<in>set (g @ w # us). clean u \<and> u \<noteq> []" and "4 \<le> length (last (w # us))"
    and "pre s = length A" and "pos s = length A + length (annexb g) + 4"
  shows "map_option (\<lambda>(r, s). (r, client s)) (run_loop (PushH264_turn spare data) s) =
    Some (sendFrames_h264 (pushTime s) (collect (bcheck s) (g @ [w]) us) (client s))"
  using assms
proof (induction us arbitrary: A g w s)
  case Nil
  have "\<exists>j. run_loop (PushH264_turn spare data) s = Some (Ok (), s\<lparr>pos := j\<rparr>)"
    by (rule PushH264_scan_end [where A = "A @ annexb g @ StartCode4" and u = w and i = 0])
      (use Nil in \<open>simp_all add: annexb_append length_StartCode4\<close>)
  then show ?case by auto
next
  case (Cons v us)
  let ?g = "g @ [w]"
  obtain b v' where v: "v = b # v'" using Cons.prems(2) by (cases v) auto
  define s1 where "s1 = s\<lparr>pos := length A + length (annexb ?g)\<rparr>"
  have l: "length (A @ annexb g @ StartCode4) + length w = length A + length (annexb ?g)"
    by (simp add: annexb_append length_StartCode4)
  have run: "run_loop (PushH264_turn spare data) s = run_loop (PushH264_turn spare data) s1"
    unfolding s1_def l [symmetric]
    by (rule PushH264_scan [where i = 0 and v = b and B = "v' @ annexb us"])
      (use Cons.prems v in \<open>simp_all add: annexb_append length_StartCode4\<close>)
  have data: "data = A @ annexb ?g @ StartCode4 @ v @ annexb us" using Cons.prems(1) by (simp add: annexb_append)
  have hd: "hd ?g \<noteq> []" using Cons.prems(2) by (cases g) simp_all
  have f: "pre s1 = length A" "pos s1 = length A + length (annexb ?g)" "bcheck s1 = bcheck s" "pushTime s1 = pushTime s" "client s1 = client s"
    using Cons.prems(4) by (simp_all add: s1_def)
  have t: "PushH264_turn spare data s1 =
    (if bcheck s \<and> nal_type (hd ?g) = 7 then (Ok None, s1\<lparr>bcheck := is_set v, pos := pos s1 + 4\<rparr>)
     else (case rc_SendPacket (h264_packet (pushTime s) (annexb ?g), client s) of
             (Ok _, _, c) \<Rightarrow> (Ok None, s1\<lparr>bcheck := True, pushTime := pushTime s + 40, pre := pos s1, pos := pos s1 + 4, client := c\<rparr>)
           | (_, _, c) \<Rightarrow> (Panic, s1\<lparr>bcheck := True, client := c\<rparr>)))"
    using PushH264_at_code [OF data _ hd _ f(1,2), of spare] Cons.prems(2) unfolding f(3-5) by simp
  show ?case
  proof (cases "bcheck s \<and> nal_type (hd ?g) = 7")
    case True
    let ?s = "s1\<lparr>bcheck := is_set v, pos := pos s1 + 4\<rparr>"
    have "run_loop (PushH264_turn spare data) s = run_loop (PushH264_turn spare data) ?s"
      using t True run by (simp add: run_loop_simps(2))
    moreover have "map_option (\<lambda>(r, s). (r, client s)) (run_loop (PushH264_turn spare data) ?s) =
        Some (sendFrames_h264 (pushTime ?s) (collect (bcheck ?s) (?g @ [v]) us) (client ?s))"
      by (rule Cons.IH) (use Cons.prems in \<open>simp_all add: s1_def annexb_append\<close>)
    ultimately show ?thesis using True by (simp add: s1_def)
  next
    case False
    obtain r p c where r: "rc_SendPacket (h264_packet (pushTime s) (annexb ?g), client s) = (r, p, c)" by (metis surj_pair)
    let ?s = "s1\<lparr>bcheck := True, pushTime := pushTime s + 40, pre := pos s1, pos := pos s1 + 4, client := c\<rparr>"
    have IH: "map_option (\<lambda>(r, s). (r, client s)) (run_loop (PushH264_turn spare data) ?s) =
        Some (sendFrames_h264 (pushTime ?s) (collect (bcheck ?s) ([] @ [v]) us) (client ?s))"
      by (rule Cons.IH [where A = "A @ annexb ?g"]) (use Cons.prems in \<open>simp_all add: s1_def annexb_append\<close>)
    have c: "collect (bcheck s) ?g (v # us) = ?g # collect True [v] us" using False by auto
    show ?thesis
    proof (cases r)
      case (Ok x)
      then have "run_loop (PushH264_turn spare data) s = run_loop (PushH264_turn spare data) ?s"
        unfolding run using t False r by (intro run_loop_simps(2)) simp
      then show ?thesis using IH Ok r c by simp
    next
      case (Err e)
      then have "run_loop (PushH264_turn spare data) s = Some (Panic, s1\<lparr>bcheck := True, client := c\<rparr>)"
        unfolding run using t False r by (intro run_loop_simps(4)) simp
      then show ?thesis using Err r c by simp
    next
      case Panic
      then have "run_loop (PushH264_turn spare data) s = Some (Panic, s1\<lparr>bcheck := True, client := c\<rparr>)"
        unfolding run using t False r by (intro run_loop_simps(4)) simp
      then show ?thesis using Panic r c by simp
    qed
  qed
qed

text \<open>
  C24: The example publisher splits a file of H.264 units as it should: for every file in which each unit is behind a start
  code of four bytes (the last one of at least four bytes), whatever the client answers, it calls \<open>SendPacket\<close>
  exactly for the frames of the file, each with all its units and 40 ms after the one before, except for the last frame, which is never sent. It returns
  when all are sent, and panics at the first that the client refuses.
\<close>

theorem push_h264_frames:
  assumes "us \<noteq> []" and "\<forall>u\<in>set us. clean u \<and> u \<noteq> []" and "4 \<le> length (last us)"
  shows "PushH264 (Ok (annexb us)) spare c = Some (sendFrames_h264 0 (butlast (frames us)) c)"
proof -
  obtain w vs where us: "us = w # vs" using assms(1) by (cases us) simp_all
  let ?data = "annexb us" and ?s = "PushH264_start c"
  have long: "8 \<le> length ?data"
    using assms(3) by (cases vs rule: rev_cases) (simp_all add: us annexb_append length_StartCode4)
  have no_code: "take 4 (drop i (annexb us)) \<noteq> StartCode4" if "i \<in> {1, 2, 3}" for i
    using that by (auto simp: us StartCode4_def)
  have s4: "PushH264_turn spare ?data (?s\<lparr>pos := i\<rparr>) =
      (if i + 5 \<ge> length ?data then Ok (Some ()) else Ok None, ?s\<lparr>pos := i + 1\<rparr>)" if "i \<in> {0, 1, 2, 3}" for i
  proof -
    have p: "pos (?s\<lparr>pos := i\<rparr>) = i" "pre (?s\<lparr>pos := i\<rparr>) = 0" by (simp_all add: PushH264_start_def)
    have "i + 4 \<le> length ?data" using that long by auto
    moreover have "take 4 (drop i ?data) \<noteq> StartCode4 \<or> i \<le> 0" using that no_code [of i] by blast
    ultimately show ?thesis using PushH264_step [of "?s\<lparr>pos := i\<rparr>" ?data spare, unfolded p] by simp
  qed
  show ?thesis
  proof (cases "length ?data = 8")
    case True
    then have "vs = []"
      using assms(2,3) by (cases vs rule: rev_cases) (auto simp: us annexb_append length_StartCode4)
    have "run_loop (PushH264_turn spare ?data) (?s\<lparr>pos := 0\<rparr>) = run_loop (PushH264_turn spare ?data) (?s\<lparr>pos := 3\<rparr>)"
      using s4 [of 0] s4 [of 1] s4 [of 2] True by (simp add: run_loop_simps(2) numeral_eq_Suc)
    moreover have "run_loop (PushH264_turn spare ?data) (?s\<lparr>pos := 3\<rparr>) = Some (Ok (), ?s\<lparr>pos := 4\<rparr>)"
      using s4 [of 3] True by (intro run_loop_simps(1)) simp
    ultimately show ?thesis using us \<open>vs = []\<close> by (simp add: PushH264_def PushH264_start_def)
  next
    case False
    have "run_loop (PushH264_turn spare ?data) (?s\<lparr>pos := 0\<rparr>) = run_loop (PushH264_turn spare ?data) (?s\<lparr>pos := 4\<rparr>)"
      using s4 [of 0] s4 [of 1] s4 [of 2] s4 [of 3] False long by (simp add: run_loop_simps(2) numeral_eq_Suc)
    moreover have "map_option (\<lambda>(r, s). (r, client s)) (run_loop (PushH264_turn spare ?data) (?s\<lparr>pos := 4\<rparr>)) =
        Some (sendFrames_h264 0 (collect True [w] vs) c)"
      using PushH264_units [of ?data "[]" "[]" w vs "?s\<lparr>pos := 4\<rparr>" spare] assms us by (simp add: PushH264_start_def)
    ultimately show ?thesis by (simp add: PushH264_def PushH264_start_def us collect_frames del: frames.simps)
  qed
qed

theorem push_h264_frames_witness:
  "let us = [[0x67, 66], [0x68, 7], [0x65, 9, 9, 9], [0x41, 8, 8], [0x41, 5, 5, 5]] in
   PushH264 (Ok (annexb us)) [] (sample_rtmp []) =
     Some (sendFrames_h264 0 [[[0x67, 66], [0x68, 7], [0x65, 9, 9, 9]], [[0x41, 8, 8]]] (sample_rtmp []))"
proof -
  let ?us = "[[0x67, 66], [0x68, 7], [0x65, 9, 9, 9], [0x41, 8, 8], [0x41, 5, 5, 5]] :: bytes list"
  have c: "clean [0x67, 66]" "clean [0x68, 7]" "clean [0x65, 9, 9, 9]" "clean [0x41, 8, 8]" "clean [0x41, 5, 5, 5]" by code_simp+
  have f: "butlast (frames ?us) = [[[0x67, 66], [0x68, 7], [0x65, 9, 9, 9]], [[0x41, 8, 8]]]"
    by (simp add: is_set_def nal_type_def)
  have "PushH264 (Ok (annexb ?us)) [] (sample_rtmp []) = Some (sendFrames_h264 0 (butlast (frames ?us)) (sample_rtmp []))"
    by (rule push_h264_frames) (use c in simp_all)
  then show ?thesis unfolding f Let_def .
qed

section \<open>Publishing images\<close>

record jpeg_push =
  jIndex :: nat
  jTime :: int
  jClient :: RtmpClient

definition jpeg_packet :: "int \<Rightarrow> bytes \<Rightarrow> Packet" where
  "jpeg_packet ts d = zeroPacket\<lparr>PacketType := PacketTypeVideo, TimeStamp := of_int ts, PData := d, PStreamID := 0,
     VHeader := zeroVideoHeader\<lparr>FrameType := FRAME_KEY, CodecID := VIDEO_JPEG, CompositionTime := 0\<rparr>\<rparr>"

definition jpegName :: "nat \<Rightarrow> bytes" where
  "jpegName i = chars (''/Users/fabojiang/Documents/raw_jpeg_to_tuya/gc0308_img_'' @ decimal i @ ''.data'')"

definition PushJPEG_turn :: "(bytes \<Rightarrow> bytes res) \<Rightarrow> (jpeg_push, unit option) prog" where
  "PushJPEG_turn readFile s =
     (case readFile (jpegName (jIndex s)) of
        Ok data \<Rightarrow>
          (let s1 = s\<lparr>jIndex := (if jIndex s + 1 \<ge> 100 then 0 else jIndex s + 1)\<rparr> in
           case rc_SendPacket (jpeg_packet (jTime s1) data, jClient s1) of
             (Ok _, _, c) \<Rightarrow> (Ok None, s1\<lparr>jTime := jTime s1 + 40, jClient := c\<rparr>)
           | (_, _, c) \<Rightarrow> (Panic, s1\<lparr>jClient := c\<rparr>))
      | _ \<Rightarrow> (Panic, s))"

definition PushJPEG_start :: "RtmpClient \<Rightarrow> jpeg_push" where
  "PushJPEG_start c = \<lparr>jIndex = 0, jTime = 0, jClient = c\<rparr>"

definition PushJPEG :: "(bytes \<Rightarrow> bytes res) \<Rightarrow> RtmpClient \<Rightarrow> (unit res \<times> jpeg_push) option" where
  "PushJPEG readFile c = run_loop (PushJPEG_turn readFile) (PushJPEG_start c)"

text \<open>The state after \<open>n\<close> turns that all go on.\<close>

fun turns :: "nat \<Rightarrow> ('s, 'r option) prog \<Rightarrow> 's \<Rightarrow> 's option" where
  "turns 0 turn s = Some s"
| "turns (Suc n) turn s = (case turn s of (Ok None, s') \<Rightarrow> turns n turn s' | _ \<Rightarrow> None)"

text \<open>An image on the wire, and as the player hands it to its callback.\<close>

definition jpeg_tag :: "bytes \<Rightarrow> bytes" where
  "jpeg_tag d = 0x11 # be_bytes 4 (of_nat (length d) :: u32) @ d"

definition jpeg_received :: "u32 \<Rightarrow> u32 \<Rightarrow> bytes \<Rightarrow> Packet" where
  "jpeg_received sid ts d = zeroPacket\<lparr>PacketType := PacketTypeVideo, TimeStamp := ts, PStreamID := sid, PData := d,
     VHeader := \<lparr>FrameType = FRAME_KEY, AVCPacketType = 0, CodecID = VIDEO_JPEG, CompositionTime = 0\<rparr>\<rparr>"

lemma PackVideoData_jpeg: "d \<noteq> [] \<Longrightarrow> CodecID h = VIDEO_JPEG \<Longrightarrow> PackVideoData h sid d ts = Ok (jpeg_tag d)"
  by (simp add: PackVideoData_def packWhole_def muxerTagData_def videoTag_def Let_def jpeg_tag_def del: be_bytes.simps)

lemma handle_jpeg:
  assumes "same_media cs (video_msg sid ts (jpeg_tag d))" and "length d \<le> 0xf00000"
  shows "handleVideoAudio cs c = (Ok (), c\<lparr>delivered := delivered c @ [jpeg_received sid ts d]\<rparr>)"
proof -
  let ?p = "zeroPacket\<lparr>PData := jpeg_tag d, PStreamID := sid, TimeStamp := ts, PacketType := 1\<rparr>"
  have f: "TypeID cs = 9" "Data cs = jpeg_tag d" "StreamID cs = sid" "Timestamp cs = ts"
    using assms(1) by (simp_all add: same_media_def video_msg_def)
  have "Demux ?p = (Ok (), (jpeg_received sid ts d)\<lparr>PData := avcc [d] @ []\<rparr>)"
    by (simp add: Demux_def demux_gen_def ParseVideoHeader_def jpeg_tag_def jpeg_received_def videoHeaderOf_def zeroMediaTag_def Let_def
        zeroPacket_def zeroTag_def del: be_bytes.simps)
  then have "handleVideoAudio cs c = naluLoop ((jpeg_received sid ts d)\<lparr>PData := avcc [d] @ []\<rparr>) (avcc [d] @ []) c"
    using f by (simp add: handleVideoAudio_def handleVideo_def Let_def jpeg_received_def zeroPacket_def)
  also have "\<dots> = (Ok (), c\<lparr>delivered := delivered c @ [jpeg_received sid ts d]\<rparr>)"
    by (subst naluLoop_units) (use assms(2) in \<open>simp_all add: jpeg_received_def zeroPacket_def\<close>)
  finally show ?thesis .
qed

lemma SendPacket_jpeg:
  fixes c :: RtmpClient
  assumes "isPublish c" and d: "d \<noteq> []" "length d \<le> 0xf00000"
    and bs: "bs = message_bytes (unat k) (on_wire (video_msg (streamid (rconn c)) (of_int ts) (jpeg_tag d)))"
    and conn: "chunkSize (cconn (rconn c)) = k" "k \<noteq> 0" "wok (rw (cconn (rconn c)))" "length bs \<le> room (rw (cconn (rconn c)))"
  shows "\<exists>p' w. rc_SendPacket (jpeg_packet ts d, c) = (Ok (), p', c\<lparr>rconn := (rconn c)\<lparr>cconn := (cconn (rconn c))\<lparr>rw := w\<rparr>\<rparr>\<rparr>) \<and>
    wire w = sent w \<and> sends bs (rw (cconn (rconn c))) w"
proof -
  have p: "PacketType (jpeg_packet ts d) = 1" "CodecID (VHeader (jpeg_packet ts d)) = 1" "PData (jpeg_packet ts d) = d" "TimeStamp (jpeg_packet ts d) = of_int ts"
    by (simp_all add: jpeg_packet_def)
  have t: "jpeg_tag d \<noteq> []" "length (jpeg_tag d) \<le> 0xffffff" using d(2) by (simp_all add: jpeg_tag_def)
  obtain w where w: "sendPacketData (jpeg_tag d) (of_int ts) 1 c = (Ok (), c\<lparr>rconn := (rconn c)\<lparr>cconn := (cconn (rconn c))\<lparr>rw := w\<rparr>\<rparr>\<rparr>)"
      "wire w = sent w" "sends bs (rw (cconn (rconn c))) w"
    using sendPacketData_video [OF t, of c bs "of_int ts"] conn bs by auto
  then show ?thesis
    using assms(1) p PackVideoData_jpeg [OF d(1), of "VHeader (jpeg_packet ts d)"]
    by (auto simp: rc_SendPacket_def sendVideoPacket_def packData_def sendData_def onRc_def pbind_def pwrap_def)
qed

text \<open>The messages of the images number \<open>m\<close> to \<open>m + n - 1\<close>: there are a hundred files, which are sent again and again.\<close>

definition jpeg_message :: "u32 \<Rightarrow> (nat \<Rightarrow> bytes) \<Rightarrow> nat \<Rightarrow> ChunkStream" where
  "jpeg_message sid img i = video_msg sid (of_nat (40 * i)) (jpeg_tag (img (i mod 100)))"

definition images :: "(bytes \<Rightarrow> bytes res) \<Rightarrow> (nat \<Rightarrow> bytes) \<Rightarrow> bool" where
  "images readFile img \<longleftrightarrow> (\<forall>i<100. readFile (jpegName i) = Ok (img i) \<and> img i \<noteq> [] \<and> length (img i) \<le> 0xf00000)"

text \<open>The publisher before image \<open>m\<close>, with everything written and room for \<open>l\<close> more bytes.\<close>

definition pushing :: "u32 \<Rightarrow> u32 \<Rightarrow> nat \<Rightarrow> bytes \<Rightarrow> nat \<Rightarrow> jpeg_push \<Rightarrow> bool" where
  "pushing k sid m out l s \<longleftrightarrow> jIndex s = m mod 100 \<and> jTime s = 40 * int m \<and> isPublish (jClient s) \<and> streamid (rconn (jClient s)) = sid \<and>
     chunkSize (cconn (rconn (jClient s))) = k \<and> k \<noteq> 0 \<and> wok (rw (cconn (rconn (jClient s)))) \<and>
     wire (rw (cconn (rconn (jClient s)))) = out \<and> sent (rw (cconn (rconn (jClient s)))) = out \<and> l \<le> room (rw (cconn (rconn (jClient s))))"

lemma PushJPEG_turn_sends:
  assumes "images readFile img" and "pushing k sid m out (length bs + l) s"
    and bs: "bs = message_bytes (unat k) (on_wire (jpeg_message sid img m))"
  shows "\<exists>s'. PushJPEG_turn readFile s = (Ok None, s') \<and> pushing k sid (Suc m) (out @ bs) l s'"
proof -
  let ?d = "img (m mod 100)" and ?c = "jClient s"
  have d: "readFile (jpegName (m mod 100)) = Ok ?d" "?d \<noteq> []" "length ?d \<le> 0xf00000" using assms(1) by (simp_all add: images_def)
  note p = assms(2) [unfolded pushing_def]
  have "bs = message_bytes (unat k) (on_wire (video_msg (streamid (rconn ?c)) (of_int (40 * int m)) (jpeg_tag ?d)))"
    using p by (simp add: bs jpeg_message_def)
  from SendPacket_jpeg [OF _ d(2,3) this] p obtain p' w where
    w: "rc_SendPacket (jpeg_packet (40 * int m) ?d, ?c) = (Ok (), p', ?c\<lparr>rconn := (rconn ?c)\<lparr>cconn := (cconn (rconn ?c))\<lparr>rw := w\<rparr>\<rparr>\<rparr>)"
      "wire w = sent w" "sends bs (rw (cconn (rconn ?c))) w" by auto
  have "m mod 100 < 100" by simp
  then have i: "(if m mod 100 + 1 \<ge> 100 then 0 else m mod 100 + 1) = Suc m mod 100" unfolding mod_Suc by (auto simp del: mod_less_divisor)
  let ?s = "s\<lparr>jIndex := Suc m mod 100, jTime := 40 * int m + 40, jClient := ?c\<lparr>rconn := (rconn ?c)\<lparr>cconn := (cconn (rconn ?c))\<lparr>rw := w\<rparr>\<rparr>\<rparr>\<rparr>"
  have "PushJPEG_turn readFile s = (Ok None, ?s)"
    using d(1) p w(1) i by (cases "100 \<le> m mod 100 + 1") (simp_all add: PushJPEG_turn_def Let_def del: mod_less_divisor)
  moreover have "pushing k sid (Suc m) (out @ bs) l ?s"
    using p w(2,3) by (auto simp: pushing_def sends_def)
  ultimately show ?thesis by blast
qed

lemma window_after_jpeg [simp]: "window_after (on_wire (jpeg_message sid img m)) k = k" "window_after (jpeg_message sid img m) k = k"
  by (simp_all add: jpeg_message_def video_msg_def on_wire_def window_after_def)

lemma PushJPEG_turns:
  assumes "images readFile img"
  shows "pushing k sid m out (length (stream_bytes k (map (jpeg_message sid img) [m..<m + n]))) s \<Longrightarrow>
    \<exists>s'. turns n (PushJPEG_turn readFile) s = Some s' \<and>
      pushing k sid (m + n) (out @ stream_bytes k (map (jpeg_message sid img) [m..<m + n])) 0 s'"
proof (induction n arbitrary: s m out)
  case (Suc n)
  let ?b = "message_bytes (unat k) (on_wire (jpeg_message sid img m))"
  let ?r = "stream_bytes k (map (jpeg_message sid img) [Suc m..<Suc m + n])"
  have X: "stream_bytes k (map (jpeg_message sid img) [m..<m + Suc n]) = ?b @ ?r" by (simp add: upt_conv_Cons del: upt_Suc)
  have "pushing k sid m out (length ?b + length ?r) s" using Suc.prems unfolding X by simp
  from PushJPEG_turn_sends [OF assms this refl] obtain s' where s': "PushJPEG_turn readFile s = (Ok None, s')" "pushing k sid (Suc m) (out @ ?b) (length ?r) s'"
    by blast
  from Suc.IH [OF s'(2)] s'(1) show ?case unfolding X by simp
qed simp

text \<open>A player that reads these messages.\<close>

lemma play_jpegs:
  assumes "\<forall>i<100. img i \<noteq> [] \<and> length (img i) \<le> 0xf00000" and "40 * n < 0xffffff"
    and "ready k (cconn (rconn q))" and "rin (rw (cconn (rconn q))) = stream_bytes k (map (jpeg_message sid img) [0..<n])"
  shows "\<exists>q'. streamPlayProc q = Some (Ok (), q') \<and>
      delivered q' = delivered q @ map (\<lambda>i. jpeg_received sid (of_nat (40 * i)) (img (i mod 100))) [0..<n]"
proof -
  let ?calls = "\<lambda>m. [jpeg_received sid (Timestamp m) (drop 5 (Data m))]"
  have "playable ?calls (jpeg_message sid img i)" if "i < n" for i
  proof -
    let ?d = "img (i mod 100)" and ?t = "of_nat (40 * i) :: u32"
    have d: "jpeg_tag ?d \<noteq> []" "length (jpeg_tag ?d) \<le> 0xffffff" "length ?d \<le> 0xf00000"
      using assms(1) [rule_format, of "i mod 100"] by (simp_all add: jpeg_tag_def)
    have t: "?t < 0xffffff" using assms(2) that by (simp add: word_less_nat_alt unat_of_nat_u32 del: of_nat_mult)
    have "drop 5 (jpeg_tag ?d) = ?d" by (simp add: jpeg_tag_def del: be_bytes.simps)
    then show ?thesis unfolding jpeg_message_def
      by (intro playableI [OF disjI1 [OF refl] d(1,2) t]) (simp add: handle_jpeg [OF _ d(3)] media_msg_def del: of_nat_mult)
  qed
  then have pl: "\<forall>m\<in>set (map (jpeg_message sid img) [0..<n]). playable ?calls m" by auto
  have "drop 5 (jpeg_tag d) = d" for d by (simp add: jpeg_tag_def del: be_bytes.simps)
  then have c: "concat (map ?calls (map (jpeg_message sid img) [0..<n])) =
      map (\<lambda>i. jpeg_received sid (of_nat (40 * i)) (img (i mod 100))) [0..<n]"
    by (simp add: jpeg_message_def media_msg_def comp_def del: of_nat_mult)
  show ?thesis using play_messages [OF pl assms(3,4)] unfolding c by blast
qed

text \<open>
  C34: The images that the example publisher sends arrive. After \<open>n\<close> turns of its loop, the images number 0 to \<open>n - 1\<close> (image \<open>i\<close> is file
  \<open>i mod 100\<close>) are on the wire, and a playing client that reads these bytes hands exactly these images to its callback, in order, complete, marked as
  JPEG and 40 ms apart, whatever the chunk size.
\<close>

theorem jpegs_arrive:
  assumes "images readFile img" and "isPublish c" and "40 * n < 0xffffff"
    and "X = stream_bytes k (map (jpeg_message (streamid (rconn c)) img) [0..<n])"
    and "chunkSize (cconn (rconn c)) = k" and "wok (rw (cconn (rconn c)))" and "length X \<le> room (rw (cconn (rconn c)))"
    and "wire (rw (cconn (rconn c))) = sent (rw (cconn (rconn c)))"
    and "ready k (cconn (rconn q))" and "rin (rw (cconn (rconn q))) = X"
  shows "\<exists>s' q'. turns n (PushJPEG_turn readFile) (PushJPEG_start c) = Some s' \<and>
    wire (rw (cconn (rconn (jClient s')))) = wire (rw (cconn (rconn c))) @ X \<and>
    streamPlayProc q = Some (Ok (), q') \<and>
    delivered q' = delivered q @ map (\<lambda>i. jpeg_received (streamid (rconn c)) (of_nat (40 * i)) (img (i mod 100))) [0..<n]"
proof -
  let ?sid = "streamid (rconn c)" and ?out = "wire (rw (cconn (rconn c)))"
  have k: "k \<noteq> 0" using assms(9) by (auto simp: ready_def)
  have "pushing k ?sid 0 ?out (length X) (PushJPEG_start c)"
    using assms k by (simp add: pushing_def PushJPEG_start_def)
  then have s0: "pushing k ?sid 0 ?out (length (stream_bytes k (map (jpeg_message ?sid img) [0..<0 + n]))) (PushJPEG_start c)"
    using assms(4) by simp
  obtain s' where s': "turns n (PushJPEG_turn readFile) (PushJPEG_start c) = Some s'" "pushing k ?sid n (?out @ X) 0 s'"
    using PushJPEG_turns [OF assms(1) s0] assms(4) by auto
  have im: "\<forall>i<100. img i \<noteq> [] \<and> length (img i) \<le> 0xf00000" using assms(1) by (simp add: images_def)
  obtain q' where q': "streamPlayProc q = Some (Ok (), q')"
    "delivered q' = delivered q @ map (\<lambda>i. jpeg_received ?sid (of_nat (40 * i)) (img (i mod 100))) [0..<n]"
    using play_jpegs [OF im assms(3,9), of ?sid] assms(4,10) by auto
  then show ?thesis using s' by (auto simp: pushing_def)
qed

theorem jpegs_arrive_witness:
  "\<exists>s' q'. turns 2 (PushJPEG_turn (\<lambda>_. Ok [0xff, 0xd8])) (PushJPEG_start (sample_rtmp [])) = Some s' \<and>
    streamPlayProc (sample_rtmp (wire (rw (cconn (rconn (jClient s')))))) = Some (Ok (), q') \<and>
    map PData (delivered q') = [[0xff, 0xd8], [0xff, 0xd8]] \<and> map TimeStamp (delivered q') = [0, 40]"
proof -
  let ?c = "sample_rtmp []" and ?img = "\<lambda>_ :: nat. [0xff, 0xd8] :: bytes"
  define X where "X = stream_bytes 128 (map (jpeg_message (streamid (rconn ?c)) ?img) [0..<2])"
  have pl: "payload (map (jpeg_message sid ?img) [0..<2]) \<le> 100" for sid
    by (simp add: jpeg_message_def video_msg_def jpeg_tag_def upt_rec numeral_eq_Suc)
  have len: "length X \<le> 10000"
    using length_stream_bytes [of 128 "map (jpeg_message (streamid (rconn ?c)) ?img) [0..<2]", folded X_def] pl [of "streamid (rconn ?c)"] by simp
  have c: "images (\<lambda>_. Ok [0xff, 0xd8]) ?img" "isPublish ?c" "chunkSize (cconn (rconn ?c)) = 128" "wok (rw (cconn (rconn ?c)))"
    "length X \<le> room (rw (cconn (rconn ?c)))" "wire (rw (cconn (rconn ?c))) = sent (rw (cconn (rconn ?c)))" "wire (rw (cconn (rconn ?c))) = []"
    "ready 128 (cconn (rconn (sample_rtmp X)))" "rin (rw (cconn (rconn (sample_rtmp X)))) = X" "delivered (sample_rtmp X) = []"
    using len by (simp_all add: images_def sample_rtmp_def NewRtmpClient_def NewConnClient_def NewRtmpConn_def NewReadWriter_def
        ready_def conn_inv_def wok_def room_def sent_def)
  have "\<exists>s' q'. turns 2 (PushJPEG_turn (\<lambda>_. Ok [0xff, 0xd8])) (PushJPEG_start ?c) = Some s' \<and>
    wire (rw (cconn (rconn (jClient s')))) = wire (rw (cconn (rconn ?c))) @ X \<and> streamPlayProc (sample_rtmp X) = Some (Ok (), q') \<and>
    delivered q' = delivered (sample_rtmp X) @ map (\<lambda>i. jpeg_received (streamid (rconn ?c)) (of_nat (40 * i)) (?img (i mod 100))) [0..<2]"
    by (rule jpegs_arrive [OF c(1,2) _ X_def c(3-6,8,9)]) simp
  then obtain s' q' where o: "turns 2 (PushJPEG_turn (\<lambda>_. Ok [0xff, 0xd8])) (PushJPEG_start ?c) = Some s'"
    "wire (rw (cconn (rconn (jClient s')))) = X" "streamPlayProc (sample_rtmp X) = Some (Ok (), q')"
    "delivered q' = map (\<lambda>i. jpeg_received (streamid (rconn ?c)) (of_nat (40 * i)) (?img (i mod 100))) [0..<2]"
    using c(7,10) by auto
  have "map PData (delivered q') = [[0xff, 0xd8], [0xff, 0xd8]]" "map TimeStamp (delivered q') = [0, 40]"
    by (simp_all add: o(4) jpeg_received_def upt_rec numeral_eq_Suc)
  then show ?thesis using o(1-3) by (intro exI conjI) (assumption | simp)+
qed

section \<open>The playing program\<close>

text \<open>What is printed: the first four bytes of a unit, the length of an image, the sound format, the end.\<close>

datatype printed = ReceiveH264 bytes | ReceiveJpeg nat | ReceiveAudio u8 | ClosedLine

definition handleVideoPacket :: "bytes \<Rightarrow> Packet \<Rightarrow> (printed list, unit) prog" where
  "handleVideoPacket spare pkt out =
     (if CodecID (VHeader pkt) = VIDEO_H264 then
        (case slice_cap spare 0 4 (PData pkt) of
           Ok h \<Rightarrow>
             (case index (PData pkt) 0 of
                Ok _ \<Rightarrow> (Ok (), out @ [ReceiveH264 h]) \<comment> \<open>the switch on the unit type has empty branches\<close>
              | Err e \<Rightarrow> (Err e, out @ [ReceiveH264 h])
              | Panic \<Rightarrow> (Panic, out @ [ReceiveH264 h]))
         | Err e \<Rightarrow> (Err e, out)
         | Panic \<Rightarrow> (Panic, out))
      else if CodecID (VHeader pkt) = VIDEO_JPEG then (Ok (), out @ [ReceiveJpeg (length (PData pkt))])
      else (Ok (), out))"

definition handleAudioPacket :: "Packet \<Rightarrow> (printed list, unit) prog" where
  "handleAudioPacket pkt out = (Ok (), out @ [ReceiveAudio (SoundFormat (AHeader pkt))])"

definition handleMetaPacket :: "Packet \<Rightarrow> (printed list, unit) prog" where
  "handleMetaPacket pkt out = (Ok (), out)"

text \<open>The callback that \<open>main\<close> gives to \<open>OpenPlay\<close>.\<close>

definition play_callback :: "bytes \<Rightarrow> Packet \<Rightarrow> (printed list, unit) prog" where
  "play_callback spare pkt =
     (if PacketType pkt = PacketTypeVideo then handleVideoPacket spare pkt
      else if PacketType pkt = PacketTypeAudio then handleAudioPacket pkt
      else if PacketType pkt = PacketTypeMetadata then handleMetaPacket pkt
      else preturn ())"

text \<open>\<open>main\<close> panics when the file or the stream cannot be opened, and otherwise waits for ever while the player runs.\<close>

definition play_main :: "network \<Rightarrow> order \<Rightarrow> unit res \<Rightarrow> bytes \<Rightarrow> RtmpConn \<Rightarrow> ConnClient \<Rightarrow> unit res \<times> RtmpClient" where
  "play_main net order openFile rtmpURL conn cc =
     (let c = api_NewRtmpClient cc in
      case openFile of
        Ok _ \<Rightarrow> (case OpenPlay net order rtmpURL True conn c of (Ok _, c') \<Rightarrow> (Ok (), c') | (_, c') \<Rightarrow> (Panic, c'))
      | _ \<Rightarrow> (Panic, c))"

section \<open>The publishing program and the server\<close>

definition Sprintf_d :: "int \<Rightarrow> string" where
  "Sprintf_d i = (if i < 0 then ''-'' @ decimal (nat (- i)) else decimal (nat i))"

definition publishURL :: "bytes \<Rightarrow> int \<Rightarrow> bytes" where
  "publishURL host port = chars ''rtmp://'' @ host @ chars '':'' @ chars (Sprintf_d port) @ chars ''/srtmp/livego''"

definition publish_main ::
  "network \<Rightarrow> order \<Rightarrow> bytes \<Rightarrow> int \<Rightarrow> (bytes \<Rightarrow> bytes res) \<Rightarrow> RtmpConn \<Rightarrow> ConnClient \<Rightarrow> (unit res \<times> jpeg_push) option" where
  "publish_main net order host port readFile conn cc =
     (case OpenPublish net order (publishURL host port) conn (api_NewRtmpClient cc) of
        (Ok _, c) \<Rightarrow> PushJPEG readFile c
      | (_, c) \<Rightarrow> Some (Panic, PushJPEG_start c))"

text \<open>The server prints the error it ends with; \<open>listen\<close> is what the address gives.\<close>

definition server_main :: "(bytes \<Rightarrow> unit res) \<Rightarrow> accept list \<Rightarrow> int \<Rightarrow> err option \<times> RtmpConn list" where
  "server_main listen as port = ServeRtmp (listen (chars '':'' @ chars (Sprintf_d port))) as"

section \<open>What the programs do\<close>

text \<open>A unit of fewer than four bytes needs spare capacity, or the callback panics.\<close>

lemma play_callback_panics:
  assumes "PacketType p = PacketTypeVideo"
  shows "fst (play_callback spare p out) = Panic \<longleftrightarrow>
    CodecID (VHeader p) = VIDEO_H264 \<and> (length (PData p) + length spare < 4 \<or> PData p = [])"
  using assms by (cases "PData p") (auto simp: play_callback_def handleVideoPacket_def slice_cap_def slice_def)

lemma play_callback_jpeg:
  "play_callback spare (jpeg_received sid ts d) out = (Ok (), out @ [ReceiveJpeg (length d)])"
  by (simp add: play_callback_def handleVideoPacket_def jpeg_received_def)

text \<open>The loop of the images never returns: it goes on or panics.\<close>

lemma PushJPEG_never_returns:
  assumes "PushJPEG readFile c = Some (r, s)"
  shows "r = Panic"
proof -
  have turn: "PushJPEG_turn readFile s \<noteq> (Ok (Some x), s')" "PushJPEG_turn readFile s \<noteq> (Err e, s')" for s s' x e
    by (auto simp: PushJPEG_turn_def Let_def split: res.splits prod.splits)
  have "t = PushJPEG_turn readFile \<longrightarrow> fst y = Panic" if "run_loop t s0 = Some y" for t s0 y
    by (rule run_loop.raw_induct [where P = "\<lambda>t s0 y. t = PushJPEG_turn readFile \<longrightarrow> fst y = Panic", OF _ that])
      (use turn in \<open>auto split: prod.splits res.splits option.splits\<close>)
  then show ?thesis using assms by (fastforce simp: PushJPEG_def)
qed

end
