(* ===== verification/Spec2Isabelle.thy ===== *)
theory Spec2Isabelle
  imports ChunkReader TsMuxer Relays StreamLoop BroadcastAudio Examples
begin

text \<open>
  Verification of srtmp, an RTMP server and client library in Go. The theories model the packages under
  \<open>src/\<close> function by function and prove what makes them correct. This theory imports all of them.

  \<^bold>\<open>The program.\<close> An RTMP connection starts with a handshake. Then both sides exchange messages, each split
  into chunks of several interleaved chunk streams; some messages control the connection itself (chunk size,
  acknowledgement window), commands are lists of AMF values, audio and video messages are FLV tags.
  The server (\<open>server.go\<close>) accepts connections, sets each up as a publisher or a player of a
  stream and adds it to the stream in its registry (\<open>protocol/stream_handler.go\<close>). A stream
  (\<open>protocol/stream.go\<close>) copies the packets of its publisher to the queues of its players and replays the last
  headers to a player that joins (\<open>protocol/cache\<close>). The client (\<open>client.go\<close>, \<open>protocol/core/conn_client.go\<close>)
  publishes or plays a stream; the relays play or take a stream and publish it elsewhere.

  \<^bold>\<open>Conventions.\<close> Go's integers are words of their width, bytes are lists of 8-bit words, a
  struct is a record with the names of the source (a prefix where two structs share one). Code that can fail is a
  function into \<open>res\<close>: a value (\<open>Ok\<close>), an error value (\<open>Err\<close>), or a run-time panic (\<open>Panic\<close>: index or slice out of
  range, nil, closed channel, failed type assertion). Stateful code is a function from a state to a result and a
  state (\<open>prog\<close>); errors made by \<open>fmt.Errorf\<close> are named by their literal text. Aliasing is kept where the code
  depends on it: a chunk stream names the backing array of its buffer, and a packet that the server made of a message names the array it shares with its chunk
  stream; the packets in channels and queues are pointers, and \<open>Broadcast\<close> has what their bytes are at a later time. Goroutines are functions for one turn, and runs are
  inductive relations over them, so that statements are about every interleaving. Clock readings, random bytes, the
  iteration order of a map, name lookup and the TCP connection are arguments.

  \<^bold>\<open>Theories.\<close>
  \<^item> \<open>Prelude\<close>: words, results, slices, byte-order encodings and the shared rules. \<open>Utils\<close>: package \<open>utils\<close>
    (readers, writers, pool, queue). \<open>AvTypes\<close>: package \<open>av\<close>.
  \<^item> \<open>ReadWriter\<close>: \<open>read_writer.go\<close> over Go's \<open>bufio\<close>. \<open>ChunkStream\<close>, \<open>ChunkReader\<close>: \<open>chunk_stream.go\<close>. \<open>RtmpConn\<close>: \<open>rtmp_conn.go\<close>.
    \<open>Conversation\<close>: two connections that talk to each other. \<open>Sha256\<close>, \<open>Handshake\<close>: \<open>handshake.go\<close>.
  \<^item> \<open>Amf\<close>, \<open>Amf3\<close>, \<open>Amf0\<close>: package \<open>protocol/amf\<close>. \<open>Loops\<close>: loops over messages that run until a turn gives a result.
  \<^item> \<open>ForwardConn\<close>: \<open>forward_conn.go\<close>, the server side of the commands. \<open>ConnClient\<close>: \<open>conn_client.go\<close>, the client side.
    \<open>Session\<close>: the two against each other.
  \<^item> \<open>H264\<close>, \<open>Media\<close>: package \<open>media\<close>. \<open>FlvTag\<close>: package \<open>container/flv\<close>. \<open>Crc32\<close>, \<open>TsMuxer\<close>: package \<open>container/ts\<close>.
  \<^item> \<open>StreamCache\<close>: \<open>protocol/cache\<close> and Go's channels. \<open>StreamRw\<close>: \<open>stream_rw.go\<close>. \<open>RtmpStreams\<close>: \<open>stream.go\<close>, \<open>stream_handler.go\<close>;
    \<open>StreamOrder\<close>: the order of the packets in every run; \<open>StreamLoop\<close>: \<open>streamLoop\<close> as a whole, for every schedule of its \<open>select\<close>.
  \<^item> \<open>Server\<close>: \<open>server.go\<close>. \<open>RtmpClient\<close>: \<open>client.go\<close>. \<open>Relays\<close>: \<open>rtmprelay.go\<close>, \<open>staticrelay.go\<close> and
    \<open>configure/liveconfig.go\<close>. \<open>Api\<close>: \<open>api.go\<close>, \<open>setting.go\<close> and the logger. \<open>Broadcast\<close>, \<open>BroadcastAudio\<close>: publisher, server and player together,
    for video and for sound. \<open>Examples\<close>: the programs under \<open>example/\<close>.

  \<^bold>\<open>Interfaces.\<close> \<open>byte_codec\<close> (a reader undoes its writer) is interpreted for every pair of \<open>utils\<close>; \<open>bounded_stack\<close> for the packet
  queue; \<open>byte_sink\<close> (what a sequence of writes leaves on a connection) for the writes of \<open>bufio\<close> and of
  \<open>read_writer.go\<close>; \<open>progress\<close> (every turn that goes on consumes input, so the loop returns) for the message loops of the
  server connection, the client connection, the stream reader and writer, the player and the example publisher; \<open>stream_registry\<close> (what a lookup returns after a visit) for
  the stream handler.

  \<^bold>\<open>What is shown.\<close>
  \<^item> End to end: a client started with a URL and a server that handles the connection both succeed, and the connection ends up in the stream that
    the URL names (\<open>Server\<close>); any message of sound or video goes through the stream of the server and out to a player as it is, and a frame or a sound that a client
    publishes reaches the callback of a playing client, when each message is sent before the next one of its chunk stream is read (\<open>Broadcast\<close>, \<open>BroadcastAudio\<close>); the example publisher sends exactly the frames of its file, but for the last, and the images it reads (\<open>Examples\<close>).
  \<^item> The wire: \<open>writeChunk\<close> produces exactly the chunk format; what one end writes, the other reads, changes of the chunk size
    included; reading is total and keeps the buffer invariant, with the two inputs that make it panic named; the reader that is not
    called handles extended time stamps, the one that is called does not.
  \<^item> The handshake: both sides complete it, the digests of the complex form are accepted, no input makes the server panic.
  \<^item> Commands: AMF0 values come back from encoding and decoding, AMF3 values as a function says that names every change; decoding ends on every input; the set-up loops of both sides
    return on every finite input; a publish command is answered and recorded.
  \<^item> Streams: bounds in every run, and exactly when delivering, checking and closing panic: when the \<open>Close\<close> of the stream meets the \<open>Close\<close> of a player's own goroutine
    (two overlapping calls of \<open>Close\<close> are interleaved action by action in \<open>StreamRw\<close>); the reader of a publisher skips what is not media; behind the headers a player is given, packets may be dropped but are never reordered, duplicated or made up; the
    select loop goes on, cleans up or panics on one of the two named races; a joining player gets exactly the current headers, no frame that depends on
    a lost key frame is queued, publishers and players of one name meet, a stream that ends is removed and its players are closed.
  \<^item> Media: FLV, H.264 and AAC formats are undone by their parsers, the MPEG-TS muxer emits whole packets that carry the frame, its
    checksum is the bitwise CRC.
  \<^item> Relays: the order of messages is kept; the static push can be started and dead at the same time.
  \<^item> The API: the settings given last decide, logging cannot be switched off, the TLS arguments are exchanged.

  \<^bold>\<open>Termination and fuel.\<close> Loops over a buffer are recursive functions with a measure. A loop over the messages of a connection is \<open>run_loop\<close>, whose
  value is \<open>None\<close> when it does not end; \<open>progress\<close> excludes that, since every message takes at least one byte of the input. The AMF
  decoders take fuel; one more than the length of the input is shown to be enough. The input of a connection is finite: a
  peer that keeps the connection open without sending is a connection that has not returned yet.

  \<^bold>\<open>Not modelled.\<close> The calls of the logger inside the components, deadlines, socket addresses and \<open>Close\<close> of the network connection; handlers for external
  AMF3 types, which nothing registers, and the printing helpers of \<open>amf/util.go\<close>; \<open>utils/uuid.go\<close> (a third-party package). The files of \<open>hls\<close>, \<open>httpflv\<close>, \<open>httpopera\<close>,
  \<open>container/flv/muxer.go\<close> and \<open>protocol/cache/special.go\<close> are commented out in the source. Apart from \<open>Close\<close> of a player every turn of a goroutine is one
  step: this is exact for one reading goroutine per stream (the two that a change of publisher can leave for a moment are not interleaved inside a turn), and
  \<open>HandleConnect\<close>, which holds the lock of the registry only inside \<open>getOrCreate\<close>, is a call that the removal of the stream does not overtake.
\<close>

end
